(* ===== verification/Prelude.thy ===== *)
theory Prelude
  imports Main "HOL-Library.Word" "HOL-Library.AList" "HOL-Library.Sublist"
    "HOL-Library.Char_ord" "HOL-Library.List_Lexorder"
begin

text \<open>
  Shared vocabulary of the development: Go strings and byte slices are lists of 8-bit
  characters, Go maps are association lists with distinct keys (the list order stands for
  one of the iteration orders Go may choose), times and durations are nanosecond counts.
  The Go standard library routines on strings that the sources call are modelled here too.
\<close>

section \<open>Hint collections\<close>

named_theorems inv_simps \<open>definitions of component invariants\<close>
named_theorems op_defs \<open>definitions of component operations\<close>

section \<open>Types\<close>

type_synonym bytes = "char list"
type_synonym time = int
type_synonym duration = int
type_synonym 'v gomap = "(string \<times> 'v) list"

definition millisecond :: duration where
  "millisecond = 1000000"

definition second :: duration where
  "second = 1000000000"

text \<open>\<open>time.Duration(ms) * time.Millisecond\<close>: a duration has 64 bits and the product wraps.\<close>

definition duration_of_ms :: "int \<Rightarrow> duration" where
  "duration_of_ms ms = sint (word_of_int (ms * millisecond) :: 64 word)"

lemma duration_of_ms_small: "- 9223372036854 \<le> ms \<Longrightarrow> ms \<le> 9223372036854 \<Longrightarrow> duration_of_ms ms = ms * millisecond"
  unfolding duration_of_ms_def millisecond_def sint_sbintrunc' by (intro signed_take_bit_int_eq_self) simp_all

lemma find_duration_wraps: "duration_of_ms 9223372036855 < 0"
  by (simp add: duration_of_ms_def millisecond_def)

text \<open>The zero value of \<open>time.Time\<close>, and \<open>IsZero\<close>.\<close>

definition zero_time :: time where
  "zero_time = 0"

definition is_zero_time :: "time \<Rightarrow> bool" where
  "is_zero_time t \<longleftrightarrow> t = zero_time"

section \<open>The last elements of a list\<close>

definition lastn :: "nat \<Rightarrow> 'a list \<Rightarrow> 'a list" where
  "lastn n xs = drop (length xs - n) xs"

lemma length_lastn [simp]: "length (lastn n xs) = min n (length xs)"
  by (simp add: lastn_def)

lemma lastn_all [simp]: "length xs \<le> n \<Longrightarrow> lastn n xs = xs"
  by (simp add: lastn_def)

lemma lastn_0 [simp]: "lastn 0 xs = []"
  by (simp add: lastn_def)

lemma lastn_append_ge: "n \<le> length ys \<Longrightarrow> lastn n (xs @ ys) = lastn n ys"
  by (simp add: lastn_def)

lemma lastn_append_le: "length ys \<le> n \<Longrightarrow> lastn n (xs @ ys) = lastn (n - length ys) xs @ ys"
  by (simp add: lastn_def)

lemma lastn_lastn [simp]: "lastn m (lastn n xs) = lastn (min m n) xs"
proof (cases "length xs \<le> n")
  case True
  then show ?thesis by (simp add: lastn_def min_def)
next
  case False
  then have "length xs - (length xs - n) - m + (length xs - n) = length xs - min m n"
    by (simp add: min_def)
  then show ?thesis by (simp add: lastn_def)
qed

lemma lastn_lastn_append: "lastn n (lastn n xs @ ys) = lastn n (xs @ ys)"
proof (cases "length ys \<le> n")
  case True
  then show ?thesis by (simp add: lastn_append_le)
next
  case False
  then show ?thesis by (simp add: lastn_append_ge)
qed

lemma set_lastn: "set (lastn n xs) \<subseteq> set xs"
  by (simp add: lastn_def set_drop_subset)

lemma lastn_map: "lastn n (map f xs) = map f (lastn n xs)"
  by (simp add: lastn_def drop_map)

lemma suffix_lastn: "suffix (lastn n xs) xs"
  by (simp add: lastn_def suffix_drop)

section \<open>Association lists as Go maps\<close>

abbreviation keys_of :: "'v gomap \<Rightarrow> string list" where
  "keys_of m \<equiv> map fst m"

definition gomap_ok :: "'v gomap \<Rightarrow> bool" where
  "gomap_ok m \<longleftrightarrow> distinct (keys_of m)"

lemma gomap_ok_Nil [simp]: "gomap_ok []"
  by (simp add: gomap_ok_def)

lemma gomap_ok_update [simp]: "gomap_ok m \<Longrightarrow> gomap_ok (AList.update k v m)"
  by (simp add: gomap_ok_def distinct_update)

lemma gomap_ok_delete [simp]: "gomap_ok m \<Longrightarrow> gomap_ok (AList.delete k m)"
  by (simp add: gomap_ok_def distinct_delete)

lemma map_of_update [simp]: "map_of (AList.update k v m) = (map_of m)(k \<mapsto> v)"
  by (simp add: update_conv')

lemma map_of_delete [simp]: "map_of (AList.delete k m) = (map_of m)(k := None)"
  by (simp add: delete_conv')

lemma map_of_mem: "gomap_ok m \<Longrightarrow> (k, v) \<in> set m \<longleftrightarrow> map_of m k = Some v"
  by (simp add: gomap_ok_def)

lemma map_of_in_keys: "k \<in> fst ` set m \<longleftrightarrow> map_of m k \<noteq> None"
  by (induction m) auto

section \<open>White space as \<open>unicode.IsSpace\<close> has it, in UTF-8\<close>

text \<open>
  \<open>strings.TrimSpace\<close> works on runes; every white-space rune is one of these byte sequences,
  and none of the sequences is part of the encoding of another rune.
\<close>

definition unicode_spaces :: "bytes list" where
  "unicode_spaces =
     [[CHR 0x09], [CHR 0x0A], [CHR 0x0B], [CHR 0x0C], [CHR 0x0D], [CHR 0x20],
      [CHR 0xC2, CHR 0x85], [CHR 0xC2, CHR 0xA0],
      [CHR 0xE1, CHR 0x9A, CHR 0x80],
      [CHR 0xE2, CHR 0x80, CHR 0x80], [CHR 0xE2, CHR 0x80, CHR 0x81],
      [CHR 0xE2, CHR 0x80, CHR 0x82], [CHR 0xE2, CHR 0x80, CHR 0x83],
      [CHR 0xE2, CHR 0x80, CHR 0x84], [CHR 0xE2, CHR 0x80, CHR 0x85],
      [CHR 0xE2, CHR 0x80, CHR 0x86], [CHR 0xE2, CHR 0x80, CHR 0x87],
      [CHR 0xE2, CHR 0x80, CHR 0x88], [CHR 0xE2, CHR 0x80, CHR 0x89],
      [CHR 0xE2, CHR 0x80, CHR 0x8A], [CHR 0xE2, CHR 0x80, CHR 0xA8],
      [CHR 0xE2, CHR 0x80, CHR 0xA9], [CHR 0xE2, CHR 0x80, CHR 0xAF],
      [CHR 0xE2, CHR 0x81, CHR 0x9F], [CHR 0xE3, CHR 0x80, CHR 0x80]]"

definition lead_space :: "bytes \<Rightarrow> nat" where
  "lead_space s = (case find (\<lambda>w. prefix w s) unicode_spaces of None \<Rightarrow> 0 | Some w \<Rightarrow> length w)"

definition trail_space :: "bytes \<Rightarrow> nat" where
  "trail_space s = (case find (\<lambda>w. suffix w s) unicode_spaces of None \<Rightarrow> 0 | Some w \<Rightarrow> length w)"

lemma lead_space_le: "lead_space s \<le> length s"
  by (auto simp: lead_space_def find_Some_iff prefix_length_le split: option.splits)

lemma trail_space_le: "trail_space s \<le> length s"
  by (auto simp: trail_space_def find_Some_iff suffix_length_le split: option.splits)

function trim_left :: "bytes \<Rightarrow> bytes" where
  "trim_left s = (if lead_space s = 0 then s else trim_left (drop (lead_space s) s))"
  by pat_completeness auto
termination
proof (relation "measure length")
  fix s
  assume "lead_space s \<noteq> 0"
  with lead_space_le [of s] show "(drop (lead_space s) s, s) \<in> measure length"
    by auto
qed simp

function trim_right :: "bytes \<Rightarrow> bytes" where
  "trim_right s = (if trail_space s = 0 then s else trim_right (take (length s - trail_space s) s))"
  by pat_completeness auto
termination
proof (relation "measure length")
  fix s
  assume "trail_space s \<noteq> 0"
  with trail_space_le [of s] show "(take (length s - trail_space s) s, s) \<in> measure length"
    by auto
qed simp

declare trim_left.simps [simp del] trim_right.simps [simp del]

definition trim_space :: "bytes \<Rightarrow> bytes" where
  "trim_space s = trim_right (trim_left s)"

lemma trim_left_lead [simp]: "lead_space (trim_left s) = 0"
  by (induction s rule: trim_left.induct) (simp add: trim_left.simps)

lemma trim_right_trail [simp]: "trail_space (trim_right s) = 0"
  by (induction s rule: trim_right.induct) (simp add: trim_right.simps)

section \<open>Decimal printing\<close>

text \<open>The verb \<open>%d\<close> of \<open>fmt\<close> on a non-negative number, and that it can be read back.\<close>

fun show_nat :: "nat \<Rightarrow> string" where
  "show_nat n = (if n < 10 then [char_of (n + 48)] else show_nat (n div 10) @ [char_of (n mod 10 + 48)])"

declare show_nat.simps [simp del]

lemma show_nat_not_Nil [simp]: "show_nat n \<noteq> []"
  by (subst show_nat.simps) simp

definition read_digit :: "nat \<Rightarrow> char \<Rightarrow> nat" where "read_digit a c = a * 10 + (of_char c - 48)"

lemma read_digit_char: "d < 10 \<Longrightarrow> read_digit a (char_of (d + 48)) = a * 10 + d"
  by (simp add: read_digit_def)

lemma read_show: "foldl read_digit 0 (show_nat n) = n"
proof (induction n rule: show_nat.induct)
  case (1 n)
  then show ?case
    by (subst show_nat.simps) (auto simp: read_digit_char)
qed

lemma show_nat_inj [simp]: "show_nat m = show_nat n \<longleftrightarrow> m = n"
  by (metis read_show)
lemma show_nat_digits: "c \<in> set (show_nat n) \<Longrightarrow> (48::nat) \<le> of_char c \<and> of_char c \<le> (57::nat)"
proof (induction n rule: show_nat.induct)
  case (1 n)
  then show ?case
    by (subst (asm) (2) show_nat.simps) (auto split: if_splits)
qed

section \<open>Slash-separated paths\<close>

fun split_on :: "char \<Rightarrow> string \<Rightarrow> string \<Rightarrow> string list" where
  "split_on c cur [] = [cur]"
| "split_on c cur (d # t) = (if d = c then cur # split_on c [] t else split_on c (cur @ [d]) t)"

fun join_with :: "string \<Rightarrow> string list \<Rightarrow> string" where
  "join_with sep [] = []"
| "join_with sep [x] = x"
| "join_with sep (x # xs) = x @ sep @ join_with sep xs"

text \<open>\<open>filepath.Clean\<close>: the elements kept so far, the last one first.\<close>

fun clean_elems :: "bool \<Rightarrow> string list \<Rightarrow> string list \<Rightarrow> string list" where
  "clean_elems rooted st [] = rev st"
| "clean_elems rooted st (x # xs) =
     (if x = [] \<or> x = ''.'' then clean_elems rooted st xs
      else if x = ''..'' then
        (case st of
           y # st' \<Rightarrow> if y \<noteq> ''..'' then clean_elems rooted st' xs else clean_elems rooted (x # st) xs
         | [] \<Rightarrow> if rooted then clean_elems rooted [] xs else clean_elems rooted [x] xs)
      else clean_elems rooted (x # st) xs)"

definition clean_path :: "string \<Rightarrow> string" where
  "clean_path p =
     (let rooted = prefix ''/'' p;
          body = join_with ''/'' (clean_elems rooted [] (split_on (CHR ''/'') [] p))
      in if rooted then CHR ''/'' # body else if body = [] then ''.'' else body)"

definition join_path :: "string list \<Rightarrow> string" where
  "join_path es = (let ne = filter (\<lambda>e. e \<noteq> []) es
                   in if ne = [] then [] else clean_path (join_with ''/'' ne))"

end
