(* ===== verification/Ring_Buffer.thy ===== *)
theory Ring_Buffer
  imports Prelude
begin

text \<open>
  The log ring of \<open>internal/log/ringbuffer.go\<close>: a fixed array, the index of the oldest element, the
  number of live elements and a 64-bit generation counter. The mutex makes every method one
  atomic step, so each method is a function of the state.
\<close>

section \<open>State and operations\<close>

record 'a ring =
  rb_buf :: "'a list"
  rb_cap :: nat
  rb_head :: nat
  rb_count :: nat
  rb_gen :: "64 word"

text \<open>\<open>z\<close> is the zero value of the element type, which \<open>make\<close> fills the array with.\<close>

definition new_ring_buffer :: "'a \<Rightarrow> int \<Rightarrow> 'a ring" where
  "new_ring_buffer z cap =
     (let c = (if cap < 1 then 1 else nat cap)
      in \<lparr>rb_buf = replicate c z, rb_cap = c, rb_head = 0, rb_count = 0, rb_gen = 0\<rparr>)"

definition push_locked :: "'a \<Rightarrow> 'a ring \<Rightarrow> 'a ring" where
  "push_locked v r =
     (let w = (rb_head r + rb_count r) mod rb_cap r;
          r1 = r\<lparr>rb_buf := (rb_buf r)[w := v]\<rparr>;
          r2 = (if rb_count r < rb_cap r then r1\<lparr>rb_count := rb_count r + 1\<rparr>
                else r1\<lparr>rb_head := (rb_head r + 1) mod rb_cap r\<rparr>)
      in r2\<lparr>rb_gen := rb_gen r + 1\<rparr>)"

definition ring_push :: "'a \<Rightarrow> 'a ring \<Rightarrow> 'a ring" where
  "ring_push v r = push_locked v r"

text \<open>The copying loop of \<open>PushMany\<close>: \<open>buf[i] = vs[offset+i]\<close> for \<open>i\<close> from 0 below \<open>cap\<close>.\<close>

fun copy_tail :: "'a list \<Rightarrow> nat \<Rightarrow> nat \<Rightarrow> 'a list \<Rightarrow> 'a list" where
  "copy_tail vs offset 0 buf = buf"
| "copy_tail vs offset (Suc i) buf = (copy_tail vs offset i buf)[i := vs ! (offset + i)]"

definition ring_push_many :: "'a list \<Rightarrow> 'a ring \<Rightarrow> 'a ring" where
  "ring_push_many vs r =
     (if vs = [] then r
      else if length vs \<ge> rb_cap r then
        (let offset = length vs - rb_cap r
         in r\<lparr>rb_buf := copy_tail vs offset (rb_cap r) (rb_buf r), rb_head := 0,
              rb_count := rb_cap r, rb_gen := rb_gen r + of_nat (length vs)\<rparr>)
      else fold push_locked vs r)"

definition ring_len :: "'a ring \<Rightarrow> nat" where
  "ring_len r = rb_count r"

definition ring_generation :: "'a ring \<Rightarrow> 64 word" where
  "ring_generation r = rb_gen r"

definition ring_snapshot :: "'a ring \<Rightarrow> 'a list" where
  "ring_snapshot r = map (\<lambda>i. rb_buf r ! ((rb_head r + i) mod rb_cap r)) [0..<rb_count r]"

text \<open>\<open>Tail\<close> with a negative \<open>n\<close> asks \<open>make\<close> for a negative length, which panics: \<open>None\<close>.\<close>

definition ring_tail :: "int \<Rightarrow> 'a ring \<Rightarrow> 'a list option" where
  "ring_tail n r =
     (let n' = (if n > int (rb_count r) then int (rb_count r) else n)
      in if n' < 0 then None
         else (let start = rb_count r - nat n'
               in Some (map (\<lambda>i. rb_buf r ! ((rb_head r + start + i) mod rb_cap r)) [0..<nat n'])))"

definition ring_clear :: "'a \<Rightarrow> 'a ring \<Rightarrow> 'a ring" where
  "ring_clear z r = r\<lparr>rb_buf := map (\<lambda>_. z) (rb_buf r), rb_head := 0, rb_count := 0,
                      rb_gen := rb_gen r + 1\<rparr>"

section \<open>Well-formed rings\<close>

definition ring_inv :: "'a ring \<Rightarrow> bool" where
  "ring_inv r \<longleftrightarrow> 0 < rb_cap r \<and> length (rb_buf r) = rb_cap r \<and> rb_head r < rb_cap r
     \<and> rb_count r \<le> rb_cap r"

declare ring_inv_def [inv_simps]

lemma ring_inv_count: "ring_inv r \<Longrightarrow> rb_count r \<le> rb_cap r"
  by (simp add: ring_inv_def)

lemma ring_inv_new: "ring_inv (new_ring_buffer z c)"
  by (simp add: ring_inv_def new_ring_buffer_def Let_def)

lemma ring_inv_push: "ring_inv r \<Longrightarrow> ring_inv (push_locked v r)"
  by (auto simp: ring_inv_def push_locked_def Let_def)

lemma ring_inv_fold_push: "ring_inv r \<Longrightarrow> ring_inv (fold push_locked vs r)"
  by (induction vs arbitrary: r) (auto simp: ring_inv_push)

lemma length_copy_tail [simp]: "length (copy_tail vs off n buf) = length buf"
  by (induction n) auto

lemma ring_inv_push_many: "ring_inv r \<Longrightarrow> ring_inv (ring_push_many vs r)"
  by (auto simp: ring_push_many_def ring_inv_fold_push Let_def) (auto simp: ring_inv_def)

lemma ring_inv_clear: "ring_inv r \<Longrightarrow> ring_inv (ring_clear z r)"
  by (simp add: ring_inv_def ring_clear_def)

lemma push_locked_cap [simp]: "rb_cap (push_locked v r) = rb_cap r"
  by (simp add: push_locked_def Let_def)

lemma fold_push_cap [simp]: "rb_cap (fold push_locked vs r) = rb_cap r"
  by (induction vs arbitrary: r) auto

lemma push_many_cap [simp]: "rb_cap (ring_push_many vs r) = rb_cap r"
  by (simp add: ring_push_many_def Let_def)

lemma length_snapshot [simp]: "length (ring_snapshot r) = rb_count r"
  by (simp add: ring_snapshot_def)

lemma nth_snapshot:
  "i < rb_count r \<Longrightarrow> ring_snapshot r ! i = rb_buf r ! ((rb_head r + i) mod rb_cap r)"
  by (simp add: ring_snapshot_def)

section \<open>The abstract view: the last elements pushed\<close>

text \<open>
  The abstraction of a ring is its snapshot, a list of at most \<open>rb_cap\<close> elements; a push appends
  to it and keeps the last \<open>rb_cap\<close> elements.
\<close>

lemma mod_window_le:
  fixes h :: nat
  assumes "i \<le> j" "j < c" "(h + i) mod c = (h + j) mod c"
  shows "i = j"
proof -
  from assms(1,3) have "c dvd j - i"
    using mod_eq_dvd_iff_nat [of "h + i" "h + j" c] by simp
  with assms(1,2) show ?thesis
    by (metis diff_is_0_eq' le_antisym less_imp_diff_less nat_dvd_not_less neq0_conv diff_is_0_eq)
qed

lemma mod_window_neq:
  fixes h :: nat
  shows "i < c \<Longrightarrow> j < c \<Longrightarrow> i \<noteq> j \<Longrightarrow> (h + i) mod c \<noteq> (h + j) mod c"
  using mod_window_le [of i j c h] mod_window_le [of j i c h] by (metis nat_le_linear)

lemma snapshot_push_room:
  assumes "ring_inv r" "rb_count r < rb_cap r"
  shows "ring_snapshot (push_locked v r) = ring_snapshot r @ [v]"
proof (rule nth_equalityI)
  show "length (ring_snapshot (push_locked v r)) = length (ring_snapshot r @ [v])"
    using assms by (simp add: push_locked_def)
next
  fix i
  assume "i < length (ring_snapshot (push_locked v r))"
  then have "i \<le> rb_count r" using assms by (simp add: push_locked_def)
  then show "ring_snapshot (push_locked v r) ! i = (ring_snapshot r @ [v]) ! i"
    using assms mod_window_neq [of i "rb_cap r" "rb_count r" "rb_head r"]
    by (cases "i = rb_count r") (auto simp: push_locked_def ring_snapshot_def nth_append ring_inv_def simp del: upt_Suc)
qed

lemma snapshot_push_full:
  assumes "ring_inv r" "rb_count r = rb_cap r"
  shows "ring_snapshot (push_locked v r) = tl (ring_snapshot r) @ [v]"
proof (rule nth_equalityI)
  show "length (ring_snapshot (push_locked v r)) = length (tl (ring_snapshot r) @ [v])"
    using assms by (simp add: push_locked_def ring_inv_def)
next
  fix i
  assume "i < length (ring_snapshot (push_locked v r))"
  then have i: "i < rb_cap r" using assms by (simp add: push_locked_def)
  have idx: "(Suc (rb_head r) mod rb_cap r + i) mod rb_cap r = (rb_head r + Suc i) mod rb_cap r"
    by (simp add: mod_add_left_eq)
  show "ring_snapshot (push_locked v r) ! i = (tl (ring_snapshot r) @ [v]) ! i"
  proof (cases "Suc i = rb_cap r")
    case True
    then have "i = rb_cap r - 1" by simp
    then show ?thesis using assms True idx
      by (simp add: push_locked_def ring_snapshot_def nth_append ring_inv_def nth_tl)
  next
    case False
    with i have "Suc i < rb_cap r" "i < rb_cap r - 1" by simp_all
    then show ?thesis using assms i idx mod_window_neq [of "Suc i" "rb_cap r" 0 "rb_head r"]
      by (simp add: push_locked_def ring_snapshot_def nth_append ring_inv_def nth_tl)
  qed
qed

lemma snapshot_push:
  assumes "ring_inv r"
  shows "ring_snapshot (push_locked v r) = lastn (rb_cap r) (ring_snapshot r @ [v])"
proof (cases "rb_count r < rb_cap r")
  case True
  then show ?thesis using assms by (simp add: snapshot_push_room)
next
  case False
  with assms have "rb_count r = rb_cap r" by (simp add: ring_inv_def)
  moreover from this assms have "ring_snapshot r \<noteq> []"
    by (simp add: ring_snapshot_def ring_inv_def)
  ultimately show ?thesis using assms
    by (cases "ring_snapshot r") (auto simp: snapshot_push_full lastn_def dest: arg_cong [of _ _ length])
qed

lemma snapshot_fold_push:
  "ring_inv r \<Longrightarrow> ring_snapshot (fold push_locked vs r) = lastn (rb_cap r) (ring_snapshot r @ vs)"
proof (induction vs arbitrary: r)
  case Nil
  then show ?case by (simp add: ring_inv_def)
next
  case (Cons v vs)
  then show ?case
    by (simp add: ring_inv_push snapshot_push lastn_lastn_append)
qed

lemma nth_copy_tail:
  "j < length buf \<Longrightarrow> copy_tail vs off n buf ! j = (if j < n then vs ! (off + j) else buf ! j)"
  by (induction n) (auto simp: nth_list_update less_Suc_eq)

lemma snapshot_push_many:
  assumes "ring_inv r"
  shows "ring_snapshot (ring_push_many vs r) = lastn (rb_cap r) (ring_snapshot r @ vs)"
proof (cases "length vs < rb_cap r \<or> vs = []")
  case True
  moreover from assms have "ring_snapshot r = lastn (rb_cap r) (ring_snapshot r)"
    by (simp add: ring_inv_def)
  ultimately show ?thesis using assms
    by (auto simp: ring_push_many_def snapshot_fold_push)
next
  case False
  then have "ring_snapshot (ring_push_many vs r) = lastn (rb_cap r) vs"
    using assms
    by (intro nth_equalityI)
      (auto simp: ring_push_many_def ring_snapshot_def ring_inv_def nth_copy_tail lastn_def Let_def)
  then show ?thesis using False by (simp add: lastn_append_ge)
qed

lemma push_many_gen:
  "rb_gen (ring_push_many vs r) = rb_gen r + of_nat (length vs)"
proof -
  have "rb_gen (fold push_locked vs r) = rb_gen r + of_nat (length vs)"
    by (induction vs arbitrary: r) (auto simp: push_locked_def Let_def)
  then show ?thesis by (simp add: ring_push_many_def Let_def)
qed

lemma ring_tail_lastn:
  assumes "ring_inv r"
  shows "ring_tail n r = (if n < 0 then None else Some (lastn (nat n) (ring_snapshot r)))"
proof (cases "n < 0")
  case True
  then show ?thesis by (simp add: ring_tail_def)
next
  case False
  then have "ring_tail n r = Some (lastn (nat n) (ring_snapshot r))"
    by (auto simp: ring_tail_def Let_def lastn_def ring_snapshot_def drop_map add.assoc intro!: nth_equalityI)
  then show ?thesis using False by simp
qed
section \<open>The interface of a bounded log\<close>

text \<open>
  What the registry, the daemon and the client rely on: an element or a batch pushed is appended to
  the visible list, of which the last \<open>cap\<close> elements survive.
\<close>

locale bounded_log =
  fixes inv :: "'s \<Rightarrow> bool"
    and view :: "'s \<Rightarrow> 'a list"
    and capacity :: "'s \<Rightarrow> nat"
    and push :: "'a \<Rightarrow> 's \<Rightarrow> 's"
    and push_all :: "'a list \<Rightarrow> 's \<Rightarrow> 's"
  assumes push_inv: "inv s \<Longrightarrow> inv (push x s)"
    and push_capacity: "capacity (push x s) = capacity s"
    and push_view: "inv s \<Longrightarrow> view (push x s) = lastn (capacity s) (view s @ [x])"
    and all_inv: "inv s \<Longrightarrow> inv (push_all xs s)"
    and all_capacity: "capacity (push_all xs s) = capacity s"
    and all_view: "inv s \<Longrightarrow> view (push_all xs s) = lastn (capacity s) (view s @ xs)"
    and view_bound: "inv s \<Longrightarrow> length (view s) \<le> capacity s"
begin

lemma fold_push:
  "inv s \<Longrightarrow> inv (fold push xs s) \<and> capacity (fold push xs s) = capacity s
     \<and> view (fold push xs s) = lastn (capacity s) (view s @ xs)"
proof (induction xs arbitrary: s)
  case Nil
  then show ?case by (simp add: view_bound)
next
  case (Cons x xs)
  then show ?case
    by (simp add: push_inv push_capacity push_view lastn_lastn_append)
qed

lemma fold_all:
  "inv s \<Longrightarrow> inv (fold push_all xss s) \<and> capacity (fold push_all xss s) = capacity s
     \<and> view (fold push_all xss s) = lastn (capacity s) (view s @ concat xss)"
proof (induction xss arbitrary: s)
  case Nil
  then show ?case by (simp add: view_bound)
next
  case (Cons xs xss)
  then show ?case
    by (simp add: all_inv all_capacity all_view lastn_lastn_append)
qed

lemma batching_irrelevant:
  "inv s \<Longrightarrow> view (fold push_all xss s) = view (fold push (concat xss) s)"
  using fold_push fold_all by simp

lemma push_all_split:
  "inv s \<Longrightarrow> view (push_all ys (push_all xs s)) = view (push_all (xs @ ys) s)"
  by (simp add: all_inv all_capacity all_view lastn_lastn_append)

text \<open>
  A log fed from the snapshot of another one shows the tail of what that one shows, and stays so
  when both are fed the same elements: the client's mirror of a daemon log.
\<close>

lemma mirror:
  assumes "inv s" "inv t" "capacity t \<le> capacity s" "view t = lastn (capacity t) (view s)"
  shows "view (push x t) = lastn (capacity t) (view (push x s))"
  using assms by (simp add: push_view min_absorb1 lastn_lastn_append)

end

interpretation ring: bounded_log ring_inv ring_snapshot rb_cap ring_push ring_push_many
  by unfold_locales
    (simp_all add: ring_push_def ring_inv_push snapshot_push ring_inv_push_many snapshot_push_many
      ring_inv_count)

section \<open>Properties\<close>

text \<open>
  A ring fed any sequence of batches shows exactly the last \<open>cap\<close> elements of everything fed, in
  order (a capacity below one counts as one), whatever the batching.
\<close>
theorem ring_history:
  "ring_snapshot (fold ring_push_many vss (new_ring_buffer z c)) = lastn (max 1 (nat c)) (concat vss)"
proof -
  have "rb_cap (new_ring_buffer z c) = max 1 (nat c)" "ring_snapshot (new_ring_buffer z c) = []"
    by (auto simp: new_ring_buffer_def ring_snapshot_def Let_def)
  then show ?thesis using ring.fold_all [OF ring_inv_new, of vss z c] by simp
qed

text \<open>
  The optimised \<open>PushMany\<close>, which overwrites the array in one pass when the batch fills it, agrees
  with pushing the elements one by one: same snapshot, length and generation, and the ring stays
  well formed.
\<close>
theorem push_many_is_push_loop:
  assumes "ring_inv r"
  shows "ring_snapshot (ring_push_many vs r) = ring_snapshot (fold ring_push vs r)
    \<and> ring_len (ring_push_many vs r) = ring_len (fold ring_push vs r)
    \<and> ring_generation (ring_push_many vs r) = ring_generation (fold ring_push vs r)
    \<and> ring_inv (ring_push_many vs r)"
proof -
  have view: "ring_snapshot (ring_push_many vs r) = ring_snapshot (fold ring_push vs r)"
    using assms ring.batching_irrelevant [of r "[vs]"] by simp
  then have len: "rb_count (ring_push_many vs r) = rb_count (fold ring_push vs r)"
    by (metis length_snapshot)
  have gen: "rb_gen (fold ring_push vs r) = rb_gen r + of_nat (length vs)"
    by (induction vs arbitrary: r) (auto simp: ring_push_def push_locked_def Let_def)
  show ?thesis
    using view len gen assms
    by (simp add: ring_len_def ring_generation_def push_many_gen ring_inv_push_many)
qed

theorem push_many_is_push_loop_witness:
  "ring_snapshot (ring_push_many [4, 5, 6, 7] (ring_push 1 (new_ring_buffer 0 3)))
     = ring_snapshot (fold ring_push [4, 5, 6, 7::nat] (ring_push 1 (new_ring_buffer 0 3)))"
  using push_many_is_push_loop [of "ring_push 1 (new_ring_buffer (0::nat) 3)" "[4, 5, 6, 7]"]
  by (simp add: ring.push_inv ring_inv_new)

text \<open>
  \<open>Tail n\<close> gives the last \<open>n\<close> elements of the snapshot (all of them when there are fewer) for
  every non-negative \<open>n\<close>, and panics exactly when \<open>n\<close> is negative.
\<close>
theorem ring_tail_spec:
  assumes "ring_inv r"
  shows "ring_tail n r = (if n < 0 then None else Some (lastn (nat n) (ring_snapshot r)))"
  by (rule ring_tail_lastn [OF assms])

theorem ring_tail_spec_witness:
  "ring_tail 2 (ring_push_many [1, 2, 3, 4] (new_ring_buffer 0 3)) = Some [3, 4::nat]
    \<and> ring_tail (- 1) (new_ring_buffer (0::nat) 3) = None"
proof -
  have "ring_snapshot (ring_push_many [1, 2, 3, 4] (new_ring_buffer 0 3)) = [2, 3, 4::nat]"
    by code_simp
  then show ?thesis
    using ring_tail_spec [OF ring_inv_push_many [OF ring_inv_new], of 2 "[1, 2, 3, 4]" "0::nat" 3]
      ring_tail_spec [OF ring_inv_new, of "- 1" "0::nat" 3]
    by (simp add: lastn_def del: length_snapshot)
qed

text \<open>
  Every change is visible in the generation: after a non-empty batch of fewer than \<open>2^64\<close>
  elements, or after a clear, a subscriber that compares generations sees a different one.
\<close>
theorem ring_generation_changes:
  fixes vs :: "'a list"
  assumes "vs \<noteq> []" "length vs < 2 ^ 64"
  shows "ring_generation (ring_push_many vs r) \<noteq> ring_generation r
    \<and> ring_generation (ring_clear z r) \<noteq> ring_generation r"
proof -
  have "(of_nat (length vs) :: 64 word) \<noteq> 0"
    using assms by (auto simp: word_of_nat_eq_0_iff dest: dvd_imp_le)
  then show ?thesis by (simp add: ring_generation_def push_many_gen ring_clear_def)
qed

theorem ring_generation_changes_witness:
  "ring_generation (ring_push_many [1] (new_ring_buffer (0::nat) 3))
     \<noteq> ring_generation (new_ring_buffer (0::nat) 3)"
  using ring_generation_changes [of "[1::nat]" "new_ring_buffer 0 3" 0] by simp

end
