(* ===== verification/Line_Buffer.thy ===== *)
theory Line_Buffer
  imports Prelude
begin

text \<open>
  The line splitter of \<open>internal/log/linebuffer.go\<close>, with the index-driven loop of \<open>Feed\<close> as the code
  has it, and \<open>scan\<close>, a byte-by-byte description of what the loop promises. \<open>Feed\<close> is proved equal to
  \<open>scan\<close>, and the properties (nothing lost, size bounds, independence of chunking) are read off \<open>scan\<close>.
\<close>

unbundle bit_operations_syntax

section \<open>Lines and the buffer\<close>

record line =
  ln_bytes :: bytes
  ln_rendered :: bytes
  ln_partial :: bool
  ln_time :: time

abbreviation cr :: char where "cr \<equiv> CHR 0x0D"
abbreviation lf :: char where "lf \<equiv> CHR 0x0A"

definition default_max_line_size :: nat where
  "default_max_line_size = 64 * 1024"

record line_buffer =
  lb_buf :: bytes
  lb_max :: nat

definition new_line_buffer :: "int \<Rightarrow> line_buffer" where
  "new_line_buffer n =
     \<lparr>lb_buf = [], lb_max = (if n \<le> 0 then default_max_line_size else nat n)\<rparr>"

definition is_continuation :: "char \<Rightarrow> bool" where
  "is_continuation b \<longleftrightarrow> (of_char b :: 8 word) AND 0xC0 = 0x80"

text \<open>The loop of \<open>safeSplitOffset\<close>, with the rounds left as fuel (three at most).\<close>

fun split_back :: "bytes \<Rightarrow> nat \<Rightarrow> nat \<Rightarrow> nat \<Rightarrow> nat" where
  "split_back buf floor 0 off = off"
| "split_back buf floor (Suc n) off =
     (if \<not> off > floor then off
      else if off \<ge> length buf then off
      else if \<not> is_continuation (buf ! off) then off
      else split_back buf floor n (off - 1))"

definition safe_split_offset :: "bytes \<Rightarrow> nat \<Rightarrow> nat \<Rightarrow> nat" where
  "safe_split_offset buf cap floor =
     (let off = split_back buf floor 3 cap in if off = floor then cap else off)"

definition concat_bytes :: "bytes \<Rightarrow> bytes \<Rightarrow> bytes" where
  "concat_bytes a b = (if a = [] then b else if b = [] then a else a @ b)"

definition dup_bytes :: "bytes \<Rightarrow> bytes" where
  "dup_bytes b = (if b = [] then [] else b)"

definition slice :: "'a list \<Rightarrow> nat \<Rightarrow> nat \<Rightarrow> 'a list" where
  "slice xs a b = take (b - a) (drop a xs)"

definition mk_line :: "bytes \<Rightarrow> bool \<Rightarrow> time \<Rightarrow> line" where
  "mk_line b p t = \<lparr>ln_bytes = dup_bytes b, ln_rendered = [], ln_partial = p, ln_time = t\<rparr>"

text \<open>The loop of \<open>Feed\<close> over the combined bytes: line start, index, lines so far.\<close>

function feed_loop ::
  "nat \<Rightarrow> time \<Rightarrow> bytes \<Rightarrow> nat \<Rightarrow> nat \<Rightarrow> line list \<Rightarrow> nat \<times> line list" where
  "feed_loop mx now c ls i lines =
     (if i \<ge> length c then (ls, lines)
      else if c ! i = cr then
        (if i + 1 < length c \<and> c ! (i + 1) = lf
         then feed_loop mx now c (i + 2) (i + 2) (lines @ [mk_line (slice c ls i) False now])
         else feed_loop mx now c (i + 1) (i + 1) lines)
      else if c ! i = lf then
        feed_loop mx now c (i + 1) (i + 1) (lines @ [mk_line (slice c ls i) False now])
      else if i - ls \<ge> mx then
        (let safe = safe_split_offset c (ls + mx) ls
         in feed_loop mx now c safe (i + 1) (lines @ [mk_line (slice c ls safe) True now]))
      else feed_loop mx now c ls (i + 1) lines)"
  by pat_completeness auto
termination
  by (relation "measure (\<lambda>(mx, now, c, ls, i, lines). length c - i)") auto

declare feed_loop.simps [simp del]

definition feed :: "time \<Rightarrow> bytes \<Rightarrow> line_buffer \<Rightarrow> line list \<times> line_buffer" where
  "feed now chunk lb =
     (if chunk = [] then ([], lb)
      else (let combined = concat_bytes (lb_buf lb) chunk;
                (ls, lines) = feed_loop (lb_max lb) now combined 0 0 []
            in (lines, lb\<lparr>lb_buf := dup_bytes (drop ls combined)\<rparr>)))"

definition flush :: "time \<Rightarrow> line_buffer \<Rightarrow> line option \<times> line_buffer" where
  "flush now lb =
     (if lb_buf lb = [] then (None, lb)
      else (Some \<lparr>ln_bytes = lb_buf lb, ln_rendered = [], ln_partial = True, ln_time = now\<rparr>,
            lb\<lparr>lb_buf := []\<rparr>))"

section \<open>What the loop promises, byte by byte\<close>

text \<open>
  \<open>scan mx now cur rest\<close> reads \<open>rest\<close> with \<open>cur\<close> the bytes since the line started; it gives the lines
  completed and the bytes left over.
\<close>

fun scan :: "nat \<Rightarrow> time \<Rightarrow> bytes \<Rightarrow> bytes \<Rightarrow> line list \<times> bytes" where
  "scan mx now cur [] = ([], cur)"
| "scan mx now cur (b # rest) =
     (if b = cr then
        (case rest of
           d # rest' \<Rightarrow> if d = lf
             then (let (ls, left) = scan mx now [] rest' in (mk_line cur False now # ls, left))
             else scan mx now [] rest
         | [] \<Rightarrow> scan mx now [] rest)
      else if b = lf then
        (let (ls, left) = scan mx now [] rest in (mk_line cur False now # ls, left))
      else if length cur \<ge> mx then
        (let k = safe_split_offset (cur @ [b]) mx 0;
             (ls, left) = scan mx now (drop k (cur @ [b])) rest
         in (mk_line (take k cur) True now # ls, left))
      else scan mx now (cur @ [b]) rest)"

section \<open>The split point\<close>

lemma split_back_le: "split_back buf f n off \<le> off"
  by (induction buf f n off rule: split_back.induct) (auto intro: le_trans)

lemma split_back_ge: "f \<le> off \<Longrightarrow> f \<le> split_back buf f n off"
  by (induction buf f n off rule: split_back.induct) auto

lemma split_back_dist: "off \<le> split_back buf f n off + n"
proof (induction buf f n off rule: split_back.induct)
  case (2 buf f n off)
  then show ?case by auto
qed simp

lemma split_back_between:
  "split_back buf f n off < j \<Longrightarrow> j \<le> off \<Longrightarrow> is_continuation (buf ! j)"
proof (induction buf f n off rule: split_back.induct)
  case (2 buf f n off)
  then show ?case
    by (cases "j = off") (auto split: if_splits)
qed simp

lemma split_back_stop:
  "off < length buf \<Longrightarrow> f < split_back buf f n off \<Longrightarrow> off < split_back buf f n off + n
    \<Longrightarrow> \<not> is_continuation (buf ! split_back buf f n off)"
proof (induction buf f n off rule: split_back.induct)
  case (2 buf f n off)
  then show ?case by (auto split: if_splits)
qed simp

lemma split_back_shift:
  "f \<le> length buf \<Longrightarrow> split_back buf f n (f + m) = f + split_back (drop f buf) 0 n m"
proof (induction n arbitrary: m)
  case (Suc n)
  then show ?case
    by (cases m) auto
qed simp

lemma split_back_prefix:
  "off < length xs \<Longrightarrow> split_back (xs @ ys) f n off = split_back xs f n off"
  by (induction n arbitrary: off) (auto simp: nth_append)

lemma safe_split_bounds:
  "f < cap \<Longrightarrow> f < safe_split_offset buf cap f \<and> safe_split_offset buf cap f \<le> cap"
  using split_back_le [of buf f 3 cap] split_back_ge [of f cap buf 3]
  by (auto simp: safe_split_offset_def Let_def)

lemma safe_split_shift:
  "f \<le> length buf \<Longrightarrow> safe_split_offset buf (f + m) f = f + safe_split_offset (drop f buf) m 0"
  by (simp add: safe_split_offset_def split_back_shift Let_def)

lemma safe_split_prefix:
  "cap < length xs \<Longrightarrow> safe_split_offset (xs @ ys) cap f = safe_split_offset xs cap f"
  by (simp add: safe_split_offset_def split_back_prefix)

section \<open>The loop is the scan\<close>

lemma slice_self [simp]: "slice xs i i = []"
  by (simp add: slice_def)

lemma slice_Suc: "ls \<le> i \<Longrightarrow> i < length c \<Longrightarrow> slice c ls (Suc i) = slice c ls i @ [c ! i]"
  by (simp add: slice_def Suc_diff_le take_Suc_conv_app_nth)

lemma length_slice: "b \<le> length xs \<Longrightarrow> length (slice xs a b) = b - a"
  by (simp add: slice_def)

lemma drop_slice: "a \<le> b \<Longrightarrow> drop (b - a) (slice xs a c) = slice xs b c"
  by (simp add: slice_def drop_take)

lemma take_slice: "b \<le> c \<Longrightarrow> take (b - a) (slice xs a c) = slice xs a b"
  by (simp add: slice_def min_def)

lemma slice_drop: "a \<le> b \<Longrightarrow> slice xs a b @ drop b xs = drop a xs"
  by (metis append_take_drop_id drop_drop le_add_diff_inverse2 slice_def)

lemma safe_in_loop:
  assumes "ls \<le> i" "i < length c" "i - ls = mx"
  shows "safe_split_offset c (ls + mx) ls = ls + safe_split_offset (slice c ls i @ [c ! i]) mx 0"
proof -
  have "drop ls c = (slice c ls i @ [c ! i]) @ drop (Suc i) c"
    using assms(1,2) slice_drop [of ls "Suc i" c] by (simp add: slice_Suc)
  then show ?thesis
    using assms safe_split_prefix [of mx "slice c ls i @ [c ! i]" "drop (Suc i) c" 0]
    by (simp add: safe_split_shift length_slice)
qed

lemma feed_loop_scan:
  "0 < mx \<Longrightarrow> ls \<le> i \<Longrightarrow> i \<le> length c \<Longrightarrow> i - ls \<le> mx \<Longrightarrow>
   feed_loop mx now c ls i lines = (ls', lines') \<Longrightarrow>
   scan mx now (slice c ls i) (drop i c) = (xs, left) \<Longrightarrow> lines' = lines @ xs \<and> drop ls' c = left"
proof (induction mx now c ls i lines arbitrary: xs left rule: feed_loop.induct)
  case (1 mx now c ls i lines)
  show ?case
  proof (cases "i < length c")
    case False
    then show ?thesis using 1(7-) by (simp add: feed_loop.simps slice_def)
  next
    case i: True
    have d: "drop i c = c ! i # drop (Suc i) c"
      using i by (simp add: Cons_nth_drop_Suc)
    consider (crlf) "c ! i = cr" "i + 1 < length c" "c ! (i + 1) = lf"
      | (cr) "c ! i = cr" "\<not> (i + 1 < length c \<and> c ! (i + 1) = lf)"
      | (lf) "c ! i = lf"
      | (split) "c ! i \<noteq> cr" "c ! i \<noteq> lf" "i - ls \<ge> mx"
      | (go) "c ! i \<noteq> cr" "c ! i \<noteq> lf" "\<not> i - ls \<ge> mx" by blast
    then show ?thesis
    proof cases
      case crlf
      have d2: "drop (Suc i) c = lf # drop (Suc (Suc i)) c"
        using crlf Cons_nth_drop_Suc [of "Suc i" c] by simp
      show ?thesis using 1(1) 1(6-) crlf i d d2
        by (force simp: feed_loop.simps [of mx now c ls i] split: prod.splits)
    next
      case cr
      then have "scan mx now (slice c ls i) (drop i c) = scan mx now [] (drop (Suc i) c)"
        using d Cons_nth_drop_Suc [of "Suc i" c, symmetric] by (cases "Suc i < length c") auto
      then have sc: "scan mx now [] (drop (Suc i) c) = (xs, left)" using 1(11) by simp
      have "feed_loop mx now c (Suc i) (Suc i) lines = (ls', lines')"
        using 1(10) cr i by (auto simp: feed_loop.simps [of mx now c ls i] split: if_splits)
      then show ?thesis using 1(2) [OF _ cr, of xs left] 1(6) sc i by simp
    next
      case lf
      then show ?thesis using 1(3) 1(6-) i d
        by (force simp: feed_loop.simps [of mx now c ls i] split: prod.splits)
    next
      case go
      then have "length (slice c ls i) < mx" using i by (simp add: length_slice)
      then show ?thesis using 1(5) 1(6-) go i d
        by (simp add: feed_loop.simps [of mx now c ls i] slice_Suc)
    next
      case split
      then have eq: "i - ls = mx" using 1(9) by simp
      define k where "k = safe_split_offset (slice c ls i @ [c ! i]) mx 0"
      have k: "0 < k" "k \<le> mx" "safe_split_offset c (ls + mx) ls = ls + k"
        using safe_split_bounds [of 0 mx] safe_in_loop [OF 1(7) i eq] 1(6)
        by (simp_all add: k_def)
      have s: "drop k (slice c ls i @ [c ! i]) = slice c (ls + k) (Suc i)"
        "take k (slice c ls i) = slice c ls (ls + k)"
        using k eq 1(7) i drop_slice [of ls "ls + k" c "Suc i"] take_slice [of "ls + k" i ls c]
        by (simp_all add: slice_Suc)
      have len: "length (slice c ls i) = mx" using i eq by (simp add: length_slice)
      obtain ys where ys: "scan mx now (slice c (ls + k) (Suc i)) (drop (Suc i) c) = (ys, left)"
        "xs = mk_line (slice c ls (ls + k)) True now # ys"
        using 1(11) split d s len by (auto simp: k_def [symmetric] split: prod.splits)
      have "feed_loop mx now c (ls + k) (Suc i) (lines @ [mk_line (slice c ls (ls + k)) True now])
          = (ls', lines')"
        using 1(10) split i k(3) by (simp add: feed_loop.simps [of mx now c ls i] Let_def)
      then show ?thesis
        using 1(4) [OF _ split(1,2,3) k(3) [symmetric]] ys k eq 1(6,7) i by force
    qed
  qed
qed


section \<open>Feeding a well-formed buffer\<close>

text \<open>Between two calls the buffer holds no terminator and at most \<open>lb_max\<close> bytes.\<close>

definition line_inv :: "line_buffer \<Rightarrow> bool" where
  "line_inv lb \<longleftrightarrow> 0 < lb_max lb \<and> length (lb_buf lb) \<le> lb_max lb
     \<and> cr \<notin> set (lb_buf lb) \<and> lf \<notin> set (lb_buf lb)"

lemma line_inv_new: "line_inv (new_line_buffer n)"
  by (simp add: line_inv_def new_line_buffer_def default_max_line_size_def)

lemma scan_plain:
  "cr \<notin> set a \<Longrightarrow> lf \<notin> set a \<Longrightarrow> length cur + length a \<le> mx \<Longrightarrow>
   scan mx now cur (a @ rest) = scan mx now (cur @ a) rest"
  by (induction a arbitrary: cur) auto

lemma feed_scan:
  assumes "line_inv lb"
  shows "feed now chunk lb =
    (let (ls, left) = scan (lb_max lb) now (lb_buf lb) chunk in (ls, lb\<lparr>lb_buf := left\<rparr>))"
proof (cases "chunk = []")
  case True
  then show ?thesis by (simp add: feed_def)
next
  case False
  have c: "concat_bytes (lb_buf lb) chunk = lb_buf lb @ chunk"
    by (simp add: concat_bytes_def)
  obtain ls lines where loop: "feed_loop (lb_max lb) now (lb_buf lb @ chunk) 0 0 [] = (ls, lines)"
    by (meson surj_pair)
  obtain xs left where sc: "scan (lb_max lb) now [] (lb_buf lb @ chunk) = (xs, left)"
    by (meson surj_pair)
  have "lines = xs" "drop ls (lb_buf lb @ chunk) = left"
    using feed_loop_scan [OF _ _ _ _ loop, of xs left] sc assms by (simp_all add: line_inv_def)
  moreover have "scan (lb_max lb) now (lb_buf lb) chunk = (xs, left)"
    using sc scan_plain [of "lb_buf lb" "[]" "lb_max lb" now chunk] assms by (simp add: line_inv_def)
  ultimately show ?thesis
    using False c loop by (auto simp add: feed_def dup_bytes_def simp del: drop_append)
qed

lemma scan_left_inv:
  "0 < mx \<Longrightarrow> length cur \<le> mx \<Longrightarrow> cr \<notin> set cur \<Longrightarrow> lf \<notin> set cur \<Longrightarrow>
   scan mx now cur rest = (ls, left) \<Longrightarrow>
   length left \<le> mx \<and> cr \<notin> set left \<and> lf \<notin> set left
     \<and> (\<forall>l \<in> set ls. length (ln_bytes l) \<le> mx \<and> cr \<notin> set (ln_bytes l) \<and> lf \<notin> set (ln_bytes l))"
proof (induction mx now cur rest arbitrary: ls left rule: scan.induct)
  case (2 mx now cur b rest)
  show ?case
  proof (cases "b \<noteq> cr \<and> b \<noteq> lf \<and> length cur \<ge> mx")
    case True
    define k where "k = safe_split_offset (cur @ [b]) mx 0"
    have k: "0 < k" "k \<le> mx" using safe_split_bounds [of 0 mx] 2(7) by (simp_all add: k_def)
    have "set (drop k (cur @ [b])) \<subseteq> set (cur @ [b])" "set (take k cur) \<subseteq> set cur"
      by (rule set_drop_subset, rule set_take_subset)
    then have noterm: "cr \<notin> set (drop k (cur @ [b]))" "lf \<notin> set (drop k (cur @ [b]))"
      "cr \<notin> set (take k cur)" "lf \<notin> set (take k cur)"
      using 2(9,10) True by (auto simp del: drop_append)
    obtain ys where ys: "scan mx now (drop k (cur @ [b])) rest = (ys, left)"
      "ls = mk_line (take k cur) True now # ys"
      using 2(11) True by (auto simp: k_def [symmetric] simp del: drop_append split: prod.splits)
    have "length (drop k (cur @ [b])) \<le> mx" using k 2(8) by simp
    then show ?thesis
      using 2(5) [OF _ _ _ k_def 2(7) _ noterm(1,2) ys(1)] ys(2) True noterm k
      by (auto simp: mk_line_def dup_bytes_def)
  next
    case False
    then consider (last) "b = cr" "rest = []" | (crlf) ys where "b = cr" "rest = lf # ys"
      | (cr) y ys where "b = cr" "rest = y # ys" "y \<noteq> lf" | (lf) "b = lf"
      | (go) "b \<noteq> cr" "b \<noteq> lf" "length cur < mx"
      by (cases rest) (auto simp: not_le)
    then show ?thesis
    proof cases
      case last
      then show ?thesis using 2(7-11) by simp
    next
      case crlf
      then show ?thesis using 2(2) [OF crlf(1) crlf(2) refl] 2(7-11)
        by (auto simp: mk_line_def dup_bytes_def split: prod.splits)
    next
      case cr
      then show ?thesis using 2(3) [OF cr(1) cr(2) cr(3)] 2(7-11) by simp
    next
      case lf
      then show ?thesis using 2(4) 2(7-11)
        by (auto simp: mk_line_def dup_bytes_def split: prod.splits)
    next
      case go
      then show ?thesis using 2(6) 2(7-11) by simp
    qed
  qed
qed auto

lemma line_inv_feed: "line_inv lb \<Longrightarrow> line_inv (snd (feed now chunk lb))"
  using scan_left_inv [of "lb_max lb" "lb_buf lb" now chunk]
  by (auto simp: feed_scan line_inv_def split: prod.splits)

lemma scan_append:
  assumes "\<not> (a \<noteq> [] \<and> last a = cr \<and> b \<noteq> [] \<and> hd b = lf)"
  shows "scan mx now cur (a @ b) =
    (let (ls, left) = scan mx now cur a; (ls', left') = scan mx now left b in (ls @ ls', left'))"
  using assms
proof (induction mx now cur a rule: scan.induct)
  case (2 mx now cur x rest)
  consider (last) "x = cr" "rest = []" | (crlf) ys where "x = cr" "rest = lf # ys"
    | (cr) y ys where "x = cr" "rest = y # ys" "y \<noteq> lf" | (other) "x \<noteq> cr"
    by (cases rest) auto
  then show ?case
  proof cases
    case last
    then show ?thesis using 2(7) by (cases b) (auto split: prod.splits)
  next
    case crlf
    then show ?thesis using 2(2) [OF crlf(1) crlf(2) refl] 2(7)
      by (cases ys) (auto split: prod.splits)
  next
    case cr
    then show ?thesis using 2(3) [OF cr(1) cr(2) cr(3)] 2(7) by (auto split: prod.splits)
  next
    case other
    then have nob: "\<not> (rest \<noteq> [] \<and> last rest = cr \<and> b \<noteq> [] \<and> hd b = lf)"
      using 2(7) by auto
    show ?thesis
      using other nob 2(4) 2(5) 2(6) by (simp add: Let_def del: drop_append split: prod.splits)
  qed
qed (auto split: prod.splits)

lemma scan_lossless:
  "0 < mx \<Longrightarrow> cr \<notin> set rest \<Longrightarrow> scan mx now cur rest = (ls, left) \<Longrightarrow>
   concat (map (\<lambda>l. ln_bytes l @ (if ln_partial l then [] else [lf])) ls) @ left = cur @ rest"
proof (induction mx now cur rest arbitrary: ls left rule: scan.induct)
  case (2 mx now cur b rest)
  show ?case
  proof (cases "b \<noteq> lf \<and> length cur \<ge> mx")
    case True
    define k where "k = safe_split_offset (cur @ [b]) mx 0"
    have k: "k \<le> length cur" using safe_split_bounds [of 0 mx] 2(7) True
      by (auto simp: k_def intro: le_trans)
    obtain ys where ys: "scan mx now (drop k (cur @ [b])) rest = (ys, left)"
      "ls = mk_line (take k cur) True now # ys"
      using 2(8,9) True by (auto simp: k_def [symmetric] simp del: drop_append split: prod.splits)
    have "concat (map (\<lambda>l. ln_bytes l @ (if ln_partial l then [] else [lf])) ys) @ left
        = drop k (cur @ [b]) @ rest"
      by (rule 2(5) [OF _ _ _ k_def 2(7) _ ys(1)]) (use True 2(8) in auto)
    then show ?thesis using ys(2) k by (simp add: mk_line_def dup_bytes_def)
  next
    case False
    then show ?thesis using 2(4) 2(6) 2(7-9)
      by (auto simp: mk_line_def dup_bytes_def split: if_splits prod.splits)
  qed
qed auto

section \<open>Properties\<close>

text \<open>
  The buffer between calls and the lines produced are bounded: from a well-formed buffer every
  \<open>Feed\<close> leaves one, and every line it emits has at most \<open>MaxLineSize\<close> bytes and holds neither CR
  nor LF.
\<close>
theorem feed_bounds:
  assumes "line_inv lb" "feed now chunk lb = (lines, lb')"
  shows "line_inv lb' \<and> length (lb_buf lb') \<le> lb_max lb \<and> lb_max lb' = lb_max lb
    \<and> (\<forall>l \<in> set lines. length (ln_bytes l) \<le> lb_max lb
          \<and> cr \<notin> set (ln_bytes l) \<and> lf \<notin> set (ln_bytes l))"
  using assms scan_left_inv [of "lb_max lb" "lb_buf lb" now chunk]
  by (auto simp: feed_scan line_inv_def split: prod.splits)

theorem feed_bounds_witness:
  "line_inv (snd (feed 7 ''abc'' (new_line_buffer 2)))"
  using feed_bounds [OF line_inv_new prod.collapse [symmetric], of 7 "''abc''" 2] by simp

text \<open>
  C31: nothing is lost: on input without CR, the lines emitted, each followed by its LF unless it was
  force-split, and the bytes kept are exactly the bytes kept before followed by the chunk.
\<close>
theorem feed_lossless:
  assumes "line_inv lb" "cr \<notin> set chunk" "feed now chunk lb = (lines, lb')"
  shows "concat (map (\<lambda>l. ln_bytes l @ (if ln_partial l then [] else [lf])) lines) @ lb_buf lb'
    = lb_buf lb @ chunk"
  using assms scan_lossless [of "lb_max lb" chunk now "lb_buf lb"]
  by (auto simp: feed_scan line_inv_def split: prod.splits)

theorem feed_lossless_witness:
  "concat (map (\<lambda>l. ln_bytes l @ (if ln_partial l then [] else [lf]))
     (fst (feed 7 ''abc'' (new_line_buffer 2)))) @ lb_buf (snd (feed 7 ''abc'' (new_line_buffer 2)))
   = ''abc''"
  using feed_lossless [OF line_inv_new _ prod.collapse [symmetric], of "''abc''" 7 2]
  by (simp add: new_line_buffer_def)

text \<open>
  C34: the lines do not depend on how the stream is cut into chunks: feeding \<open>a @ b\<close> at once gives the
  lines and the buffer of feeding \<open>a\<close> and then \<open>b\<close>, unless the cut falls inside a CRLF.
\<close>
theorem feed_chunking:
  assumes "line_inv lb" "\<not> (a \<noteq> [] \<and> last a = cr \<and> b \<noteq> [] \<and> hd b = lf)"
  shows "feed now (a @ b) lb =
    (let (ls, lb1) = feed now a lb; (ls', lb2) = feed now b lb1 in (ls @ ls', lb2))"
  using assms scan_append [OF assms(2), of "lb_max lb" now "lb_buf lb"]
    line_inv_feed [OF assms(1), of now a]
  by (auto simp: feed_scan Let_def split: prod.splits)

theorem feed_chunking_witness:
  "feed 7 (''a'' @ [lf] @ ''bc'') (new_line_buffer 4) =
    (let (ls, lb1) = feed 7 (''a'' @ [lf]) (new_line_buffer 4); (ls', lb2) = feed 7 ''bc'' lb1
     in (ls @ ls', lb2))"
  using feed_chunking [OF line_inv_new, of "''a'' @ [lf]" "''bc''" 7 4] by simp

text \<open>
  The exception is real: a CRLF cut between two chunks loses the line, although the comment on
  \<open>LineBuffer\<close> says that CRLF is one terminator. The CR at the end of the chunk is taken for an
  overwriting CR, and the LF then ends an empty line.
\<close>

lemma crlf_across_chunks_loses_line:
  "map ln_bytes (fst (feed 7 (''ok'' @ [cr, lf]) (new_line_buffer 0))) = [''ok'']
   \<and> fst (feed 7 (''ok'' @ [cr]) (new_line_buffer 0)) = []
   \<and> map ln_bytes (fst (feed 7 [lf] (snd (feed 7 (''ok'' @ [cr]) (new_line_buffer 0))))) = [[]]"
  by (simp add: feed_scan line_inv_def new_line_buffer_def
      default_max_line_size_def mk_line_def dup_bytes_def)

text \<open>
  A forced split falls on a character boundary: when one of the last positions that
  \<open>safeSplitOffset\<close> may go back to holds a byte that is no UTF-8 continuation byte, the offset it
  returns is the last such position, so the part kept for the next line starts a character.
\<close>
theorem split_on_boundary:
  assumes "floor < j" "cap - 3 \<le> j" "j \<le> cap" "cap < length buf" "\<not> is_continuation (buf ! j)"
  shows "floor < safe_split_offset buf cap floor \<and> safe_split_offset buf cap floor \<le> cap
    \<and> \<not> is_continuation (buf ! safe_split_offset buf cap floor)
    \<and> (\<forall>k. safe_split_offset buf cap floor < k \<and> k \<le> cap \<longrightarrow> is_continuation (buf ! k))"
proof -
  define r where "r = split_back buf floor 3 cap"
  have "r \<ge> j"
    using split_back_between [of buf floor 3 cap j] assms(3,5) unfolding r_def by (meson not_le)
  then have r: "floor < r" "r \<le> cap" using assms split_back_le [of buf floor 3 cap] by (auto simp: r_def)
  have "\<not> is_continuation (buf ! r)"
  proof (cases "cap < r + 3")
    case True
    then show ?thesis using split_back_stop [of cap buf floor 3] r assms(4) by (simp add: r_def)
  next
    case False
    then have "r = j" using \<open>r \<ge> j\<close> assms(2) by simp
    then show ?thesis using assms(5) by simp
  qed
  moreover have "safe_split_offset buf cap floor = r"
    using r(1) by (simp add: safe_split_offset_def r_def [symmetric] Let_def)
  ultimately show ?thesis using r split_back_between [of buf floor 3 cap] by (auto simp: r_def)
qed

theorem split_on_boundary_witness:
  "safe_split_offset [CHR ''a'', CHR ''b'', CHR 0xC3, CHR 0xA9] 3 0 \<le> 3"
proof -
  have "\<not> is_continuation ([CHR ''a'', CHR ''b'', CHR 0xC3, CHR 0xA9] ! 2)"
    by (simp add: is_continuation_def)
  then show ?thesis
    using split_on_boundary [of 0 2 3 "[CHR ''a'', CHR ''b'', CHR 0xC3, CHR 0xA9]"] by simp
qed

end
