(* ===== verification/Ansi.thy ===== *)
theory Ansi
  imports Prelude
begin

text \<open>
  The two regular expressions of \<open>internal/log/ansi.go\<close> as matchers that give the length of the match
  at the head of a string (0 for none), and \<open>StripANSI\<close> and \<open>DecodeForRender\<close> over them. In both
  expressions the classes that follow each other are disjoint, so the greedy match is the only one,
  and the alternatives of \<open>ansiSeq\<close> are tried in order.
\<close>

abbreviation esc :: char where "esc \<equiv> CHR 0x1B"
abbreviation bel :: char where "bel \<equiv> CHR 0x07"

definition in_range :: "char \<Rightarrow> nat \<Rightarrow> nat \<Rightarrow> bool" where
  "in_range c a b \<longleftrightarrow> a \<le> of_char c \<and> of_char c \<le> b"

definition is_param :: "char \<Rightarrow> bool" where
  "is_param c \<longleftrightarrow> in_range c 0x30 0x39 \<or> c = CHR '';'' \<or> c = CHR ''?''"

definition is_intermediate :: "char \<Rightarrow> bool" where
  "is_intermediate c \<longleftrightarrow> in_range c 0x20 0x2F"

definition is_final :: "char \<Rightarrow> bool" where
  "is_final c \<longleftrightarrow> in_range c 0x40 0x7E"

definition csi_len :: "bytes \<Rightarrow> nat" where
  "csi_len s = (case s of
     a # b # t \<Rightarrow>
       if a = esc \<and> b = CHR ''['' then
         (let p = takeWhile is_param t; t1 = dropWhile is_param t;
              q = takeWhile is_intermediate t1; t2 = dropWhile is_intermediate t1
          in case t2 of f # _ \<Rightarrow> if is_final f then 2 + length p + length q + 1 else 0 | [] \<Rightarrow> 0)
       else 0
   | _ \<Rightarrow> 0)"

definition osc_len :: "bytes \<Rightarrow> nat" where
  "osc_len s = (case s of
     a # b # t \<Rightarrow>
       if a = esc \<and> b = CHR '']'' then
         (let p = takeWhile (\<lambda>c. c \<noteq> bel) t
          in if length p < length t then 2 + length p + 1 else 0)
       else 0
   | _ \<Rightarrow> 0)"

definition esc2_len :: "bytes \<Rightarrow> nat" where
  "esc2_len s = (case s of a # b # _ \<Rightarrow> if a = esc \<and> in_range b 0x40 0x5F then 2 else 0 | _ \<Rightarrow> 0)"

definition ansi_seq :: "bytes \<Rightarrow> nat" where
  "ansi_seq s =
     (if csi_len s \<noteq> 0 then csi_len s else if osc_len s \<noteq> 0 then osc_len s else esc2_len s)"

definition cursor_finals :: bytes where
  "cursor_finals = ''ABCDEFGHJKSTfhlnsu''"

definition cursor_move_seq :: "bytes \<Rightarrow> nat" where
  "cursor_move_seq s = (case s of
     a # b # t \<Rightarrow>
       if a = esc \<and> b = CHR ''['' then
         (let isp = (\<lambda>c. in_range c 0x30 0x39 \<or> c = CHR '';'');
              p = takeWhile isp t
          in case dropWhile isp t of
               f # _ \<Rightarrow> if f \<in> set cursor_finals then 2 + length p + 1 else 0 | [] \<Rightarrow> 0)
       else 0
   | _ \<Rightarrow> 0)"

text \<open>\<open>ReplaceAllString\<close> with the empty replacement: drop the leftmost match and go on after it.\<close>

function regex_delete :: "(bytes \<Rightarrow> nat) \<Rightarrow> bytes \<Rightarrow> bytes" where
  "regex_delete m [] = []"
| "regex_delete m (c # t) =
     (if m (c # t) = 0 then c # regex_delete m t else regex_delete m (drop (m (c # t)) (c # t)))"
  by pat_completeness auto
termination by (relation "measure (\<lambda>(m, s). length s)") auto

definition strip_ansi :: "bytes \<Rightarrow> bytes" where
  "strip_ansi s = (if esc \<notin> set s then s else regex_delete ansi_seq s)"

definition decode_for_render :: "bytes \<Rightarrow> bytes" where
  "decode_for_render b = (if esc \<notin> set b then b else regex_delete cursor_move_seq b)"

section \<open>Matchers that only match escape sequences\<close>

definition esc_only :: "(bytes \<Rightarrow> nat) \<Rightarrow> bool" where
  "esc_only m \<longleftrightarrow> (\<forall>s. s = [] \<or> hd s \<noteq> esc \<longrightarrow> m s = 0)"

lemma two_bytes_cases: "s = [] \<or> (\<exists>a. s = [a]) \<or> (\<exists>a b t. s = a # b # t)"
  by (cases s; cases "tl s") auto

lemma esc_only_ansi: "esc_only ansi_seq"
proof -
  have "csi_len s = 0 \<and> osc_len s = 0 \<and> esc2_len s = 0" if "s = [] \<or> hd s \<noteq> esc" for s
    using two_bytes_cases [of s] that by (auto simp: csi_len_def osc_len_def esc2_len_def)
  then show ?thesis by (simp add: esc_only_def ansi_seq_def)
qed

lemma esc_only_cursor: "esc_only cursor_move_seq"
proof -
  have "cursor_move_seq s = 0" if "s = [] \<or> hd s \<noteq> esc" for s
    using two_bytes_cases [of s] that by (auto simp: cursor_move_seq_def)
  then show ?thesis by (simp add: esc_only_def)
qed

lemma delete_plain_append:
  "esc_only m \<Longrightarrow> esc \<notin> set p \<Longrightarrow> regex_delete m (p @ s) = p @ regex_delete m s"
  by (induction p) (auto simp: esc_only_def)

lemma delete_plain: "esc_only m \<Longrightarrow> esc \<notin> set p \<Longrightarrow> regex_delete m p = p"
  using delete_plain_append [of m p "[]"] by simp

lemma strip_ansi_delete: "strip_ansi s = regex_delete ansi_seq s"
  by (simp add: strip_ansi_def delete_plain esc_only_ansi)

lemma decode_delete: "decode_for_render s = regex_delete cursor_move_seq s"
  by (simp add: decode_for_render_def delete_plain esc_only_cursor)

lemma delete_match:
  "m (e @ s) = length e \<Longrightarrow> e \<noteq> [] \<Longrightarrow> regex_delete m (e @ s) = regex_delete m s"
  by (cases e) auto

lemma delete_no_match:
  "esc_only m \<Longrightarrow> m (esc # t @ s) = 0 \<Longrightarrow> esc \<notin> set t \<Longrightarrow>
   regex_delete m (esc # t @ s) = esc # t @ regex_delete m s"
  by (simp add: delete_plain_append)

section \<open>Terminal output as text and sequences\<close>

datatype segment =
    Plain bytes
  | Csi bytes bytes char
  | Osc bytes
  | Esc2 char

fun encode :: "segment \<Rightarrow> bytes" where
  "encode (Plain p) = p"
| "encode (Csi p q f) = esc # CHR ''['' # p @ q @ [f]"
| "encode (Osc p) = esc # CHR '']'' # p @ [bel]"
| "encode (Esc2 c) = [esc, c]"

fun seg_ok :: "segment \<Rightarrow> bool" where
  "seg_ok (Plain p) \<longleftrightarrow> esc \<notin> set p"
| "seg_ok (Csi p q f) \<longleftrightarrow> list_all is_param p \<and> list_all is_intermediate q \<and> is_final f"
| "seg_ok (Osc p) \<longleftrightarrow> bel \<notin> set p \<and> esc \<notin> set p"
| "seg_ok (Esc2 c) \<longleftrightarrow> in_range c 0x40 0x5F \<and> c \<noteq> CHR ''['' \<and> c \<noteq> CHR '']''"

fun visible :: "segment \<Rightarrow> bytes" where
  "visible (Plain p) = p"
| "visible _ = []"

text \<open>The sequences \<open>DecodeForRender\<close> takes out: cursor moves, erasures, mode switches.\<close>

fun layout_seq :: "segment \<Rightarrow> bool" where
  "layout_seq (Csi p q f) \<longleftrightarrow> q = [] \<and> CHR ''?'' \<notin> set p \<and> f \<in> set cursor_finals"
| "layout_seq _ \<longleftrightarrow> False"

lemma class_disjoint:
  "is_param c \<Longrightarrow> \<not> is_intermediate c" "is_param c \<Longrightarrow> \<not> is_final c"
  "is_intermediate c \<Longrightarrow> \<not> is_final c"
  by (auto simp: is_param_def is_intermediate_def is_final_def in_range_def)

lemma class_not_esc: "is_param c \<Longrightarrow> c \<noteq> esc" "is_intermediate c \<Longrightarrow> c \<noteq> esc" "is_final c \<Longrightarrow> c \<noteq> esc"
  by (auto simp: is_param_def is_intermediate_def is_final_def in_range_def)

lemma takeWhile_all: "list_all P p \<Longrightarrow> takeWhile P (p @ s) = p @ takeWhile P s"
  by (induction p) auto

lemma takeWhile_until: "b \<notin> set p \<Longrightarrow> takeWhile (\<lambda>c. c \<noteq> b) (p @ b # s) = p"
  by (induction p) auto

lemma cursor_final: "f \<in> set cursor_finals \<Longrightarrow> is_final f"
  by (auto simp: cursor_finals_def is_final_def in_range_def)

lemma dropWhile_all: "list_all P p \<Longrightarrow> dropWhile P (p @ s) = dropWhile P s"
  by (induction p) auto

lemma csi_len_encode:
  assumes "list_all is_param p" "list_all is_intermediate q" "is_final f"
  shows "csi_len (encode (Csi p q f) @ s) = length (encode (Csi p q f))"
proof -
  have f: "\<not> is_param f" "\<not> is_intermediate f" using assms(3) class_disjoint by blast+
  have "takeWhile is_param (q @ f # s) = [] \<and> dropWhile is_param (q @ f # s) = q @ f # s"
    using assms(2) f class_disjoint(1) by (cases q) auto
  then show ?thesis using assms f
    by (simp add: csi_len_def takeWhile_all dropWhile_all Let_def)
qed

lemma ansi_seq_encode:
  assumes "seg_ok g" "\<forall>p. g \<noteq> Plain p"
  shows "ansi_seq (encode g @ s) = length (encode g)"
proof (cases g)
  case (Csi p q f)
  then show ?thesis using assms csi_len_encode [of p q f s] by (simp add: ansi_seq_def)
next
  case (Osc p)
  then have "takeWhile (\<lambda>c. c \<noteq> bel) (p @ bel # s) = p"  using assms by (simp add: takeWhile_until)
  then show ?thesis using Osc assms by (simp add: ansi_seq_def csi_len_def osc_len_def Let_def)
qed (use assms in \<open>simp_all add: ansi_seq_def csi_len_def osc_len_def esc2_len_def\<close>)

lemma cursor_seq_encode:
  assumes "seg_ok g" "\<forall>p. g \<noteq> Plain p"
  shows "cursor_move_seq (encode g @ s) = (if layout_seq g then length (encode g) else 0)"
proof (cases g)
  case (Csi p q f)
  define isp where "isp = (\<lambda>c. in_range c 0x30 0x39 \<or> c = CHR '';'')"
  have sub: "is_param c = (isp c \<or> c = CHR ''?'')" "\<not> isp CHR ''?''" for c
    by (auto simp: isp_def is_param_def in_range_def)
  have f: "\<not> isp f" using assms Csi class_disjoint sub by auto
  have "cursor_move_seq (encode g @ s) =
      (case dropWhile isp (p @ q @ f # s) of
         d # _ \<Rightarrow> if d \<in> set cursor_finals then 2 + length (takeWhile isp (p @ q @ f # s)) + 1 else 0
       | [] \<Rightarrow> 0)"
    unfolding cursor_move_seq_def isp_def Let_def Csi by simp
  also have "\<dots> = (if layout_seq g then length (encode g) else 0)"
  proof (cases "CHR ''?'' \<in> set p")
    case True
    then obtain p1 p2 where p: "p = p1 @ CHR ''?'' # p2" "CHR ''?'' \<notin> set p1"
      by (meson split_list_first)
    then have "list_all isp p1" using assms Csi sub by (auto simp: list_all_iff)
    then show ?thesis using True Csi p sub
      by (simp add: dropWhile_all cursor_finals_def)
  next
    case False
    then have p: "list_all isp p" using assms Csi sub by (auto simp: list_all_iff)
    show ?thesis
    proof (cases q)
      case Nil
      then show ?thesis using False p f Csi by (simp add: dropWhile_all takeWhile_all)
    next
      case (Cons d q')
      then have "is_intermediate d" using assms Csi by simp
      then have "\<not> isp d" "d \<notin> set cursor_finals"
        using class_disjoint(1,3) sub(1) cursor_final by blast+
      then show ?thesis using Cons p Csi by (simp add: dropWhile_all)
    qed
  qed
  finally show ?thesis .
qed (use assms in \<open>simp_all add: cursor_move_seq_def\<close>)

lemma encode_tail_esc: "seg_ok g \<Longrightarrow> \<forall>p. g \<noteq> Plain p \<Longrightarrow> \<exists>t. encode g = esc # t \<and> esc \<notin> set t"
  by (cases g) (auto simp: list_all_iff in_range_def dest: class_not_esc)

section \<open>Properties\<close>

text \<open>
  \<open>StripANSI\<close> gives exactly the visible text: of output made of ESC-free text and well-formed CSI,
  OSC and two-byte escape sequences in any order, the text remains and every sequence is gone.
\<close>
theorem strip_ansi_visible:
  assumes "list_all seg_ok gs"
  shows "strip_ansi (concat (map encode gs)) = concat (map visible gs)"
  using assms
proof (induction gs)
  case Nil
  then show ?case by (simp add: strip_ansi_def)
next
  case (Cons g gs)
  then have ih: "regex_delete ansi_seq (concat (map encode gs)) = concat (map visible gs)"
    by (simp add: strip_ansi_delete)
  show ?case
  proof (cases "\<exists>p. g = Plain p")
    case True
    then show ?thesis using Cons.prems ih
      by (auto simp: strip_ansi_delete delete_plain_append esc_only_ansi)
  next
    case False
    then have "regex_delete ansi_seq (encode g @ concat (map encode gs))
        = regex_delete ansi_seq (concat (map encode gs))"
      using Cons.prems ansi_seq_encode [of g "concat (map encode gs)"]
      by (intro delete_match) (cases g, auto)+
    then show ?thesis using ih False by (cases g) (auto simp: strip_ansi_delete)
  qed
qed

theorem strip_ansi_visible_witness:
  "strip_ansi (esc # ''[31mred'' @ esc # ''[0m!'') = ''red!''"
  using strip_ansi_visible [of "[Csi ''31'' [] (CHR ''m''), Plain ''red'', Csi ''0'' [] (CHR ''m''), Plain ''!'']"]
  by (simp add: is_param_def is_final_def in_range_def)

text \<open>
  \<open>DecodeForRender\<close> takes out exactly the sequences that move the cursor, erase or switch modes;
  text, colour (SGR) and all other sequences stay byte for byte and in order.
\<close>
theorem decode_keeps_colour:
  assumes "list_all seg_ok gs"
  shows "decode_for_render (concat (map encode gs))
    = concat (map encode (filter (\<lambda>g. \<not> layout_seq g) gs))"
  using assms
proof (induction gs)
  case Nil
  then show ?case by (simp add: decode_for_render_def)
next
  case (Cons g gs)
  let ?rest = "concat (map encode gs)"
  have ih: "regex_delete cursor_move_seq ?rest = concat (map encode (filter (\<lambda>g. \<not> layout_seq g) gs))"
    using Cons by (simp add: decode_delete)
  show ?case
  proof (cases "\<exists>p. g = Plain p")
    case True
    then show ?thesis using Cons.prems ih
      by (auto simp: decode_delete delete_plain_append esc_only_cursor)
  next
    case False
    then have m: "cursor_move_seq (encode g @ ?rest) = (if layout_seq g then length (encode g) else 0)"
      using Cons.prems cursor_seq_encode [of g ?rest] by simp
    obtain t where t: "encode g = esc # t" "esc \<notin> set t"
      using encode_tail_esc [of g] Cons.prems False by auto
    show ?thesis
    proof (cases "layout_seq g")
      case True
      then show ?thesis using m ih t delete_match [of cursor_move_seq "encode g" ?rest]
        by (simp add: decode_delete)
    next
      case kept: False
      then show ?thesis using m ih t delete_no_match [OF esc_only_cursor, of t ?rest]
        by (simp add: decode_delete)
    qed
  qed
qed

theorem decode_keeps_colour_witness:
  "decode_for_render (esc # ''[31mred'' @ esc # ''[2J!'') = esc # ''[31mred!''"
  using decode_keeps_colour [of "[Csi ''31'' [] (CHR ''m''), Plain ''red'', Csi ''2'' [] (CHR ''J''), Plain ''!'']"]
  by (simp add: is_param_def is_final_def in_range_def cursor_finals_def)

end
