(* ===== verification/Rotator.thy ===== *)
theory Rotator
  imports Prelude
begin

text \<open>
  The size-rotated log file of \<open>internal/log/rotator.go\<close>. The directory is a map from paths to
  contents; whether a system call fails is told by a fault oracle, an argument of every operation, so the
  error branches of the code are branches of the model.
\<close>

section \<open>The file system the rotator uses\<close>

type_synonym files = "string \<Rightarrow> bytes option"

datatype syscall =
    MkdirAll
  | OpenAppend string
  | StatOpen
  | CloseFile
  | StatPath string
  | Remove string
  | Rename string string

text \<open>\<open>f.Write\<close>: how many bytes go to the file and whether an error is returned.\<close>

record faults =
  fails :: "syscall \<Rightarrow> bool"
  write_result :: "bytes \<Rightarrow> nat \<times> bool"

text \<open>No fault: every call succeeds and every write is complete.\<close>

definition no_fault :: faults where
  "no_fault = \<lparr>fails = (\<lambda>_. False), write_result = (\<lambda>b. (length b, False))\<rparr>"

text \<open>\<open>os.Stat\<close> gives no error: the file is there and the call does not fail.\<close>

definition stat_ok :: "faults \<Rightarrow> string \<Rightarrow> files \<Rightarrow> bool" where
  "stat_ok orc p fs \<longleftrightarrow> fs p \<noteq> None \<and> \<not> fails orc (StatPath p)"

definition rename_file :: "string \<Rightarrow> string \<Rightarrow> files \<Rightarrow> files" where
  "rename_file src dst fs = (fs(dst := fs src))(src := None)"

section \<open>State\<close>

text \<open>
  The handle: \<open>Some True\<close> is an open file, \<open>Some False\<close> a handle whose \<open>Close\<close> returned an error
  (Go keeps it, and it is closed all the same), \<open>None\<close> is nil.
\<close>

record rotator =
  rot_path :: string
  rot_max_bytes :: nat
  rot_max_backups :: nat
  rot_f :: "bool option"
  rot_written :: nat

datatype rot_error = ErrMkdir | ErrOpen | ErrStat | ErrWrite | ErrClose | ErrDrop | ErrShift nat | ErrRotateMain

definition backup :: "string \<Rightarrow> nat \<Rightarrow> string" where
  "backup path i = path @ ''.'' @ show_nat i"

section \<open>Operations\<close>

definition rot_open :: "faults \<Rightarrow> rotator \<Rightarrow> files \<Rightarrow> (rotator \<times> rot_error option) \<times> files" where
  "rot_open orc r fs =
     (if fails orc MkdirAll then ((r, Some ErrMkdir), fs)
      else if fails orc (OpenAppend (rot_path r)) then ((r, Some ErrOpen), fs)
      else (let c = (case fs (rot_path r) of None \<Rightarrow> [] | Some c \<Rightarrow> c);
                fs1 = fs(rot_path r := Some c)
            in if fails orc StatOpen then ((r, Some ErrStat), fs1)
               else ((r\<lparr>rot_f := Some True, rot_written := length c\<rparr>, None), fs1)))"

definition new_rotator :: "faults \<Rightarrow> string \<Rightarrow> int \<Rightarrow> int \<Rightarrow> files \<Rightarrow> (rot_error + rotator) \<times> files" where
  "new_rotator orc path max_size_mb max_backups fs =
     (let mb = (if max_size_mb < 1 then 1 else nat max_size_mb);
          bk = (if max_backups < 1 then 1 else nat max_backups);
          r = \<lparr>rot_path = path, rot_max_bytes = mb * 1024 * 1024, rot_max_backups = bk,
               rot_f = None, rot_written = 0\<rparr>;
          ((r1, err), fs1) = rot_open orc r fs
      in (case err of None \<Rightarrow> Inr r1 | Some e \<Rightarrow> Inl e, fs1))"

text \<open>The shifting loop, \<open>i\<close> from \<open>maxBackups - 1\<close> down to 1.\<close>

fun shift_backups :: "faults \<Rightarrow> string \<Rightarrow> nat \<Rightarrow> files \<Rightarrow> rot_error option \<times> files" where
  "shift_backups orc path 0 fs = (None, fs)"
| "shift_backups orc path (Suc i) fs =
     (let src = backup path (Suc i); dst = backup path (Suc (Suc i))
      in if \<not> stat_ok orc src fs then shift_backups orc path i fs
         else if fails orc (Rename src dst) then (Some (ErrShift (Suc i)), fs)
         else shift_backups orc path i (rename_file src dst fs))"

definition rotate_locked :: "faults \<Rightarrow> rotator \<Rightarrow> files \<Rightarrow> (rotator \<times> rot_error option) \<times> files" where
  "rotate_locked orc r fs =
     (if fails orc CloseFile \<or> rot_f r = Some False then ((r\<lparr>rot_f := Some False\<rparr>, Some ErrClose), fs)
      else
        (let r1 = r\<lparr>rot_f := None\<rparr>;
             path = rot_path r;
             dropped = backup path (rot_max_backups r)
         in if stat_ok orc dropped fs \<and> fails orc (Remove dropped) then ((r1, Some ErrDrop), fs)
            else
              (let fs1 = (if stat_ok orc dropped fs then fs(dropped := None) else fs)
               in case shift_backups orc path (rot_max_backups r - 1) fs1 of
                    (Some e, fs2) \<Rightarrow> ((r1, Some e), fs2)
                  | (None, fs2) \<Rightarrow>
                      if stat_ok orc path fs2 \<and> fails orc (Rename path (backup path 1))
                      then ((r1, Some ErrRotateMain), fs2)
                      else
                        (let fs3 = (if stat_ok orc path fs2 then rename_file path (backup path 1) fs2 else fs2)
                         in rot_open orc r1 fs3))))"

text \<open>
  \<open>Write\<close> after the handle is there. A handle that \<open>Close\<close> gave up on refuses the write; a failed
  rotation is only printed, the write still counts as done.
\<close>

definition write_open :: "faults \<Rightarrow> bytes \<Rightarrow> rotator \<Rightarrow> files
    \<Rightarrow> (nat \<times> rot_error option) \<times> rotator \<times> files" where
  "write_open orc b r fs =
     (let (n, werr) = (if rot_f r = Some False then (0, True) else write_result orc b);
          c = (case fs (rot_path r) of None \<Rightarrow> [] | Some c \<Rightarrow> c);
          fs1 = (if rot_f r = Some False then fs else fs(rot_path r := Some (c @ take n b)));
          r1 = r\<lparr>rot_written := rot_written r + n\<rparr>
      in if werr then ((n, Some ErrWrite), r1, fs1)
         else if rot_written r1 \<ge> rot_max_bytes r1 then
           (let ((r2, _), fs2) = rotate_locked orc r1 fs1 in ((n, None), r2, fs2))
         else ((n, None), r1, fs1))"

definition rot_write :: "faults \<Rightarrow> bytes \<Rightarrow> rotator \<Rightarrow> files
    \<Rightarrow> (nat \<times> rot_error option) \<times> rotator \<times> files" where
  "rot_write orc b r fs =
     (if rot_f r = None then
        (let ((r1, err), fs1) = rot_open orc r fs
         in case err of Some e \<Rightarrow> ((0, Some e), r1, fs1) | None \<Rightarrow> write_open orc b r1 fs1)
      else write_open orc b r fs)"

definition rot_close :: "faults \<Rightarrow> rotator \<Rightarrow> rotator \<times> rot_error option" where
  "rot_close orc r =
     (if rot_f r = None then (r, None)
      else (r\<lparr>rot_f := None\<rparr>,
            if fails orc CloseFile \<or> rot_f r = Some False then Some ErrClose else None))"

section \<open>Paths\<close>

lemma backup_inj [simp]: "backup p i = backup p j \<longleftrightarrow> i = j"
  by (simp add: backup_def)

lemma backup_neq [simp]: "backup p i \<noteq> p" "p \<noteq> backup p i"
  by (simp_all add: backup_def)

section \<open>Rotation without faults\<close>

lemma no_fault_simps [simp]:
  "fails no_fault c = False" "write_result no_fault b = (length b, False)"
  "stat_ok no_fault p fs \<longleftrightarrow> fs p \<noteq> None"
  by (simp_all add: no_fault_def stat_ok_def)

lemma shift_backups_ok:
  assumes "fs (backup path (Suc n)) = None"
  shows "\<exists>fs'. shift_backups no_fault path n fs = (None, fs')
    \<and> (\<forall>i. 1 \<le> i \<and> i \<le> n \<longrightarrow> fs' (backup path (Suc i)) = fs (backup path i))
    \<and> fs' (backup path 1) = None
    \<and> (\<forall>p. (\<forall>i. 1 \<le> i \<and> i \<le> Suc n \<longrightarrow> p \<noteq> backup path i) \<longrightarrow> fs' p = fs p)"
  using assms
proof (induction n arbitrary: fs)
  case (Suc n)
  let ?src = "backup path (Suc n)" and ?dst = "backup path (Suc (Suc n))"
  define fs1 where "fs1 = rename_file ?src ?dst fs"
  have "\<not> stat_ok no_fault ?src fs \<Longrightarrow> fs = fs1"
    using Suc.prems by (auto simp: fs1_def rename_file_def fun_eq_iff)
  then have step: "shift_backups no_fault path (Suc n) fs = shift_backups no_fault path n fs1"
    by (auto simp: fs1_def Let_def)
  have none: "fs1 ?src = None" by (simp add: fs1_def rename_file_def)
  have keep: "fs1 ?dst = fs ?src" "p \<noteq> ?src \<Longrightarrow> p \<noteq> ?dst \<Longrightarrow> fs1 p = fs p" for p
    by (simp_all add: fs1_def rename_file_def)
  obtain fs' where fs': "shift_backups no_fault path n fs1 = (None, fs')"
    "\<forall>i. 1 \<le> i \<and> i \<le> n \<longrightarrow> fs' (backup path (Suc i)) = fs1 (backup path i)"
    "fs' (backup path 1) = None"
    "\<forall>p. (\<forall>i. 1 \<le> i \<and> i \<le> Suc n \<longrightarrow> p \<noteq> backup path i) \<longrightarrow> fs' p = fs1 p"
    using Suc.IH [of fs1, OF none] by blast
  have "fs' (backup path (Suc i)) = fs (backup path i)" if "1 \<le> i" "i \<le> Suc n" for i
  proof (cases "i = Suc n")
    case True
    then show ?thesis using fs'(4) keep(1) by simp
  next
    case False
    then show ?thesis using fs'(2) that keep(2) [of "backup path i"] by simp
  qed
  moreover have "fs' p = fs p" if "\<forall>i. 1 \<le> i \<and> i \<le> Suc (Suc n) \<longrightarrow> p \<noteq> backup path i" for p
    using fs'(4) keep(2) [of p] that by simp
  ultimately show ?case using step fs'(1,3) by auto
qed auto

text \<open>The log as a reader sees it: the backups from the oldest to the newest, then the main file.\<close>

definition contents :: "bytes option \<Rightarrow> bytes" where
  "contents c = (case c of None \<Rightarrow> [] | Some b \<Rightarrow> b)"

lemma contents_simps [simp]: "contents None = []" "contents (Some b) = b"
  by (simp_all add: contents_def)

definition log_text :: "string \<Rightarrow> nat \<Rightarrow> files \<Rightarrow> bytes" where
  "log_text path n fs =
     concat (map (\<lambda>i. contents (fs (backup path i))) (rev [1..<Suc n])) @ contents (fs path)"

definition rot_ok :: "rotator \<Rightarrow> files \<Rightarrow> bool" where
  "rot_ok r fs \<longleftrightarrow> 0 < rot_max_bytes r \<and> 0 < rot_max_backups r
     \<and> (rot_f r = None \<or> rot_f r = Some True \<and> (\<exists>c. fs (rot_path r) = Some c \<and> rot_written r = length c))"

lemma rotate_ok:
  assumes "rot_f r = Some True" "0 < rot_max_backups r"
  shows "\<exists>fs'. rotate_locked no_fault r fs
      = ((r\<lparr>rot_f := Some True, rot_written := 0\<rparr>, None), fs')
    \<and> fs' (rot_path r) = Some []
    \<and> fs' (backup (rot_path r) 1) = fs (rot_path r)
    \<and> (\<forall>i. 1 \<le> i \<and> i < rot_max_backups r \<longrightarrow>
         fs' (backup (rot_path r) (Suc i)) = fs (backup (rot_path r) i))
    \<and> (\<forall>p. p \<noteq> rot_path r \<and> (\<forall>i. 1 \<le> i \<and> i \<le> rot_max_backups r \<longrightarrow> p \<noteq> backup (rot_path r) i)
         \<longrightarrow> fs' p = fs p)"
proof -
  let ?p = "rot_path r" and ?n = "rot_max_backups r"
  define fs1 where "fs1 = fs(backup ?p ?n := None)"
  obtain n where n: "?n = Suc n" using assms(2) gr0_implies_Suc by blast
  have drop: "(if stat_ok no_fault (backup ?p ?n) fs then fs(backup ?p ?n := None) else fs) = fs1"
    by (auto simp: fs1_def fun_eq_iff)
  obtain fs2 where fs2: "shift_backups no_fault ?p n fs1 = (None, fs2)"
    "\<forall>i. 1 \<le> i \<and> i \<le> n \<longrightarrow> fs2 (backup ?p (Suc i)) = fs1 (backup ?p i)"
    "fs2 (backup ?p 1) = None"
    "\<forall>p. (\<forall>i. 1 \<le> i \<and> i \<le> Suc n \<longrightarrow> p \<noteq> backup ?p i) \<longrightarrow> fs2 p = fs1 p"
    using shift_backups_ok [of fs1 ?p n] by (auto simp: fs1_def n)
  define fs3 where "fs3 = rename_file ?p (backup ?p 1) fs2"
  have ren: "(if stat_ok no_fault ?p fs2 then rename_file ?p (backup ?p 1) fs2 else fs2) = fs3"
    using fs2(3) by (auto simp: fs3_def rename_file_def fun_eq_iff)
  have m: "?n - 1 = n" by (simp add: n)
  have main: "fs2 ?p = fs ?p" using fs2(4) by (simp add: fs1_def)
  have eq: "rotate_locked no_fault r fs
      = ((r\<lparr>rot_f := Some True, rot_written := 0\<rparr>, None), fs3(?p := Some []))"
    unfolding rotate_locked_def Let_def drop m fs2(1) prod.case option.case ren
    by (simp add: assms rot_open_def fs3_def rename_file_def fun_upd_def)
  have "fs3 (backup ?p (Suc i)) = fs (backup ?p i)" if "1 \<le> i" "i < ?n" for i
    using fs2(2) that by (simp add: n fs3_def rename_file_def fs1_def)
  moreover have "fs3 (backup ?p 1) = fs ?p"
    using main by (simp add: fs3_def rename_file_def)
  moreover have "fs3 p = fs p" if "p \<noteq> ?p" "\<forall>i. 1 \<le> i \<and> i \<le> ?n \<longrightarrow> p \<noteq> backup ?p i" for p
    using fs2(4) that by (simp add: fs3_def rename_file_def fs1_def n)
  ultimately show ?thesis using eq by auto
qed

lemma log_text_rotated:
  assumes "0 < n" "fs' path = Some []" "fs' (backup path 1) = fs path"
    "\<forall>i. 1 \<le> i \<and> i < n \<longrightarrow> fs' (backup path (Suc i)) = fs (backup path i)"
  shows "log_text path n fs' = drop (length (contents (fs (backup path n)))) (log_text path n fs)"
proof -
  obtain m where n: "n = Suc m" using assms(1) gr0_implies_Suc by blast
  have "[1..<Suc n] = 1 # map Suc [1..<Suc m]"
    by (simp add: n map_Suc_upt upt_conv_Cons del: upt_Suc)
  then have "map (\<lambda>i. contents (fs' (backup path i))) (rev [1..<Suc n])
      = map (\<lambda>i. contents (fs (backup path i))) (rev [1..<Suc m]) @ [contents (fs path)]"
    using assms(3,4) by (auto simp: rev_map n simp del: upt_Suc)
  then show ?thesis
    using assms(2) n by (simp add: log_text_def)
qed

lemma log_text_append:
  assumes "c = contents (fs path)"
  shows "log_text path n (fs(path := Some (c @ b))) = log_text path n fs @ b"
  using assms by (simp add: log_text_def)

lemma write_open_ok:
  assumes ok: "rot_ok r fs" "rot_f r = Some True"
    and w: "write_open no_fault b r fs = ((n, err), r', fs')"
  shows "n = length b \<and> err = None \<and> rot_ok r' fs' \<and> rot_f r' = Some True
    \<and> rot_path r' = rot_path r \<and> rot_max_backups r' = rot_max_backups r
    \<and> rot_written r' < rot_max_bytes r'
    \<and> (\<exists>k. log_text (rot_path r) (rot_max_backups r) fs'
             = drop k (log_text (rot_path r) (rot_max_backups r) fs @ b)
           \<and> k \<in> {0, length (contents (fs (backup (rot_path r) (rot_max_backups r))))})"
proof -
  let ?p = "rot_path r" and ?n = "rot_max_backups r"
  obtain c where c: "fs ?p = Some c" "rot_written r = length c" using ok by (auto simp: rot_ok_def)
  define r1 where "r1 = r\<lparr>rot_written := rot_written r + length b\<rparr>"
  define fs1 where "fs1 = fs(?p := Some (c @ b))"
  have pos: "0 < ?n" "0 < rot_max_bytes r" using ok by (simp_all add: rot_ok_def)
  have log1: "log_text ?p ?n fs1 = log_text ?p ?n fs @ b"
    unfolding fs1_def by (rule log_text_append) (simp add: c)
  show ?thesis
  proof (cases "rot_written r1 \<ge> rot_max_bytes r")
    case False
    then have "n = length b" "err = None" "r' = r1" "fs' = fs1"
      using w ok(2) c by (auto simp: write_open_def r1_def fs1_def Let_def)
    then show ?thesis using False c pos ok(2) log1
      by (auto simp: rot_ok_def r1_def fs1_def intro!: exI [of _ 0])
  next
    case True
    obtain fs2 where fs2: "rotate_locked no_fault r1 fs1
        = ((r1\<lparr>rot_f := Some True, rot_written := 0\<rparr>, None), fs2)"
      "fs2 ?p = Some []" "fs2 (backup ?p 1) = fs1 ?p"
      "\<forall>i. 1 \<le> i \<and> i < ?n \<longrightarrow> fs2 (backup ?p (Suc i)) = fs1 (backup ?p i)"
      using rotate_ok [of r1 fs1] ok(2) pos by (auto simp: r1_def)
    have res: "n = length b" "err = None" "r' = r1\<lparr>rot_f := Some True, rot_written := 0\<rparr>" "fs' = fs2"
      using w ok(2) c True fs2(1) by (auto simp: write_open_def r1_def fs1_def Let_def)
    have "log_text ?p ?n fs2 = drop (length (contents (fs (backup ?p ?n)))) (log_text ?p ?n fs @ b)"
      using log_text_rotated [of ?n fs2 ?p fs1, OF pos(1) fs2(2,3,4)] log1 by (simp add: fs1_def)
    then show ?thesis using res pos fs2(2) by (auto simp: rot_ok_def r1_def)
  qed
qed

lemma rot_write_ok:
  assumes "rot_ok r fs" "rot_write no_fault b r fs = ((n, err), r', fs')"
  shows "n = length b \<and> err = None \<and> rot_ok r' fs' \<and> rot_f r' = Some True
    \<and> rot_path r' = rot_path r \<and> rot_max_backups r' = rot_max_backups r
    \<and> rot_written r' < rot_max_bytes r'
    \<and> (\<exists>k. log_text (rot_path r) (rot_max_backups r) fs'
             = drop k (log_text (rot_path r) (rot_max_backups r) fs @ b)
           \<and> k \<in> {0, length (contents (fs (backup (rot_path r) (rot_max_backups r))))})"
proof (cases "rot_f r = None")
  case False
  then show ?thesis using assms write_open_ok [of r fs b n err r' fs']
    by (auto simp: rot_ok_def rot_write_def)
next
  case True
  define c where "c = contents (fs (rot_path r))"
  define r1 where "r1 = r\<lparr>rot_f := Some True, rot_written := length c\<rparr>"
  define fs1 where "fs1 = fs(rot_path r := Some c)"
  have op: "rot_open no_fault r fs = ((r1, None), fs1)"
    by (simp add: rot_open_def r1_def fs1_def c_def contents_def Let_def)
  have ok: "rot_ok r1 fs1" "rot_f r1 = Some True"
    using assms(1) by (simp_all add: rot_ok_def r1_def fs1_def)
  have same: "rot_path r1 = rot_path r" "rot_max_backups r1 = rot_max_backups r"
    "fs1 (backup (rot_path r) i) = fs (backup (rot_path r) i)" for i
    by (simp_all add: r1_def fs1_def)
  have log: "log_text (rot_path r) m fs1 = log_text (rot_path r) m fs" for m
    using log_text_append [of c fs "rot_path r" m "[]"] by (simp add: fs1_def c_def)
  have "write_open no_fault b r1 fs1 = ((n, err), r', fs')"
    using assms(2) True op by (simp add: rot_write_def)
  from write_open_ok [OF ok this] show ?thesis
    unfolding same log .
qed

section \<open>Rotation with faults\<close>

text \<open>
  The name a file has after a rotation: one further on, or still the same one where a call failed. The
  backups that are not there are those whose \<open>Stat\<close> fails: the loop skips them.
\<close>

definition next_name :: "string \<Rightarrow> string \<Rightarrow> string \<Rightarrow> bool" where
  "next_name path p q \<longleftrightarrow> q = p \<or> p = path \<and> q = backup path 1 \<or> (\<exists>i. p = backup path i \<and> q = backup path (Suc i))"

definition skipped_backup :: "faults \<Rightarrow> rotator \<Rightarrow> string \<Rightarrow> bool" where
  "skipped_backup orc r p \<longleftrightarrow> (\<exists>i. 1 \<le> i \<and> i < rot_max_backups r \<and> p = backup (rot_path r) i \<and> fails orc (StatPath p))"

lemma next_name_same [simp]: "next_name path p p"
  by (simp add: next_name_def)

lemma next_name_main [simp]: "next_name path path (backup path (Suc 0))"
  by (simp add: next_name_def)

lemma next_name_backup [simp]: "next_name path (backup path i) (backup path (Suc i))"
  by (simp add: next_name_def)

lemma shift_backups_frame:
  assumes "shift_backups orc path n fs = (e, fs')" "\<And>i. 1 \<le> i \<Longrightarrow> i \<le> Suc n \<Longrightarrow> p \<noteq> backup path i"
  shows "fs' p = fs p"
  using assms
proof (induction n arbitrary: fs)
  case (Suc n)
  have ne: "p \<noteq> backup path (Suc n)" "p \<noteq> backup path (Suc (Suc n))" using Suc.prems(2) by auto
  have "\<And>i. 1 \<le> i \<Longrightarrow> i \<le> Suc n \<Longrightarrow> p \<noteq> backup path i" using Suc.prems(2) by simp
  from Suc.IH [OF _ this] show ?case
    using Suc.prems(1) ne by (auto simp: Let_def rename_file_def split: if_splits)
qed simp

lemma shift_backups_keeps:
  assumes "shift_backups orc path n fs = (e, fs')" "1 \<le> i" "i \<le> n" "fs (backup path i) = Some c"
    "\<not> fails orc (StatPath (backup path i))"
  shows "fs' (backup path (Suc i)) = Some c \<or> fs' (backup path i) = Some c \<and> (e = None \<longrightarrow> i \<noteq> 1)"
  using assms
proof (induction n arbitrary: fs)
  case (Suc n)
  let ?src = "backup path (Suc n)" and ?dst = "backup path (Suc (Suc n))"
  show ?case
  proof (cases "i = Suc n")
    case True
    then have ok: "stat_ok orc ?src fs" using Suc.prems by (simp add: stat_ok_def)
    show ?thesis
    proof (cases "fails orc (Rename ?src ?dst)")
      case True
      then show ?thesis using Suc.prems ok \<open>i = Suc n\<close> by (auto simp: Let_def)
    next
      case False
      then have "shift_backups orc path n (rename_file ?src ?dst fs) = (e, fs')"
        using Suc.prems(1) ok by (simp add: Let_def)
      from shift_backups_frame [OF this, of ?dst] show ?thesis
        using Suc.prems(4) \<open>i = Suc n\<close> by (simp add: rename_file_def)
    qed
  next
    case False
    have le: "i \<le> n" using Suc.prems(3) False by simp
    have same: "rename_file ?src ?dst fs (backup path i) = Some c"
      using Suc.prems(4) le False by (simp add: rename_file_def)
    show ?thesis
      using Suc.IH [OF _ Suc.prems(2) le _ Suc.prems(5)] Suc.prems(1,4) same
      by (auto simp: Let_def split: if_splits)
  qed
qed simp

lemma rot_open_keeps: "fs p = Some c \<Longrightarrow> snd (rot_open orc r fs) p = Some c"
  by (auto simp: rot_open_def Let_def)

lemma rename_main_keeps:
  assumes "fs p = Some c" "p \<noteq> backup path 1"
  shows "rename_file path (backup path 1) fs p = Some c \<or> p = path \<and> rename_file path (backup path 1) fs (backup path 1) = Some c"
  using assms by (cases "p = path") (auto simp: rename_file_def)

lemma rotate_from_shift:
  assumes "rot_max_backups r = Suc n" "\<not> (fails orc CloseFile \<or> rot_f r = Some False)"
    "\<not> (stat_ok orc (backup (rot_path r) (Suc n)) fs \<and> fails orc (Remove (backup (rot_path r) (Suc n))))"
    "shift_backups orc (rot_path r) n
       (if stat_ok orc (backup (rot_path r) (Suc n)) fs then fs(backup (rot_path r) (Suc n) := None) else fs) = (e, fs2)"
    "fs' = snd (rotate_locked orc r fs)" "fs2 p = Some c" "e = None \<longrightarrow> p \<noteq> backup (rot_path r) 1"
  shows "fs' p = Some c \<or> p = rot_path r \<and> fs' (backup (rot_path r) 1) = Some c"
proof -
  note rot = rotate_locked_def Let_def assms(1) diff_Suc_1
  have *: "fs' = (if e \<noteq> None \<or> stat_ok orc (rot_path r) fs2 \<and> fails orc (Rename (rot_path r) (backup (rot_path r) 1)) then fs2
      else snd (rot_open orc (r\<lparr>rot_f := None\<rparr>)
        (if stat_ok orc (rot_path r) fs2 then rename_file (rot_path r) (backup (rot_path r) 1) fs2 else fs2)))"
    unfolding assms(5) rot using assms(2,3,4) by (auto split: option.splits)
  show ?thesis
  proof (cases "e \<noteq> None \<or> \<not> stat_ok orc (rot_path r) fs2 \<or> fails orc (Rename (rot_path r) (backup (rot_path r) 1))")
    case True
    then have "fs' = fs2 \<or> fs' = snd (rot_open orc (r\<lparr>rot_f := None\<rparr>) fs2)" unfolding * by auto
    then show ?thesis using assms(6) rot_open_keeps by metis
  next
    case False
    then have "fs' = snd (rot_open orc (r\<lparr>rot_f := None\<rparr>) (rename_file (rot_path r) (backup (rot_path r) 1) fs2))"
      unfolding * by auto
    then show ?thesis
      using rename_main_keeps [of fs2 p c "rot_path r"] assms(6,7) False rot_open_keeps by metis
  qed
qed

section \<open>Properties\<close>

text \<open>
  A write is appended to the log and rotation only forgets the oldest backup: without faults, a
  write reports all bytes written, the text of backups and main file is the old text with the new
  bytes, cut in front by nothing or by exactly the oldest backup, and the main file ends below the
  size limit.
\<close>
theorem rot_write_log:
  assumes "rot_ok r fs" "rot_write no_fault b r fs = ((n, err), r', fs')"
  shows "n = length b \<and> err = None \<and> rot_ok r' fs' \<and> rot_f r' = Some True
    \<and> rot_path r' = rot_path r \<and> rot_max_backups r' = rot_max_backups r
    \<and> rot_written r' < rot_max_bytes r'
    \<and> (\<exists>k. log_text (rot_path r) (rot_max_backups r) fs'
             = drop k (log_text (rot_path r) (rot_max_backups r) fs @ b)
           \<and> k \<in> {0, length (contents (fs (backup (rot_path r) (rot_max_backups r))))})"
  by (rule rot_write_ok [OF assms])

theorem rot_write_log_witness:
  "\<exists>r' fs'. rot_write no_fault ''abc'' \<lparr>rot_path = ''l'', rot_max_bytes = 10, rot_max_backups = 1,
     rot_f = None, rot_written = 0\<rparr> (\<lambda>_. None) = ((3, None), r', fs') \<and> rot_written r' < 10"
proof -
  let ?r = "\<lparr>rot_path = ''l'', rot_max_bytes = 10, rot_max_backups = 1, rot_f = None, rot_written = 0\<rparr>"
  have w: "rot_write no_fault ''abc'' ?r (\<lambda>_. None)
      = ((3, None), ?r\<lparr>rot_f := Some True, rot_written := 3\<rparr>, [''l'' \<mapsto> ''abc''])"
    by (simp add: rot_write_def rot_open_def write_open_def)
  have ok: "rot_ok ?r (\<lambda>_. None)" by (simp add: rot_ok_def)
  from rot_write_log [OF ok w] have "rot_written (?r\<lparr>rot_f := Some True, rot_written := 3\<rparr>) < 10"
    by simp
  with w show ?thesis by blast
qed



text \<open>A \<open>Stat\<close> that fails on the first backup: the rename of the main file overwrites it.\<close>

lemma find_backup_overwritten:
  "snd (rotate_locked (no_fault\<lparr>fails := \<lambda>k. k = StatPath (backup ''l'' 1)\<rparr>)
     \<lparr>rot_path = ''l'', rot_max_bytes = 2, rot_max_backups = 3, rot_f = Some True, rot_written = 3\<rparr>
     ((\<lambda>_. None)(''l'' := Some ''new'', backup ''l'' 1 := Some ''old'')))
   = (\<lambda>_. None)(''l'' := Some [], backup ''l'' 1 := Some ''new'')"
  by (auto simp: rotate_locked_def stat_ok_def no_fault_def rename_file_def rot_open_def Let_def eval_nat_numeral fun_eq_iff)

end
