(* ===== verification/Config.thy ===== *)
theory Config
  imports Prelude
begin

text \<open>
  Configuration files, \<open>internal/config\<close>: the schema and its defaults, validation, path expansion and
  the environment of a project. The YAML decoder, the file system and the process environment are
  parameters. Go iterates over its maps in an unspecified order; the order of the association list
  stands for it, and the properties do not depend on it.
\<close>

section \<open>Schema\<close>

definition restart_never :: string where "restart_never = ''never''"
definition restart_on_failure :: string where "restart_on_failure = ''on-failure''"

record project =
  p_path :: string
  p_cmd :: string
  p_restart :: string
  p_env :: "string gomap"
  p_env_file :: string

record settings =
  log_buffer_lines :: int
  log_dir :: string
  log_rotate_size_mb :: int
  log_rotate_keep :: int
  shutdown_grace_ms :: int
  group_start_delay_ms :: int
  restart_backoff_ms :: "int list"
  restart_max_attempts :: int
  restart_reset_after_ms :: int
  pty_cols :: int
  pty_rows :: int
  log_flush_interval_ms :: int

record config =
  c_projects :: "project gomap"
  c_groups :: "string list gomap"
  c_settings :: settings

definition default_settings :: settings where
  "default_settings = \<lparr>log_buffer_lines = 1000, log_dir = ''~/.cache/procs/logs'',
     log_rotate_size_mb = 10, log_rotate_keep = 5, shutdown_grace_ms = 5000,
     group_start_delay_ms = 300, restart_backoff_ms = [1000, 2000, 4000, 8000, 16000],
     restart_max_attempts = 5, restart_reset_after_ms = 60000, pty_cols = 120, pty_rows = 40,
     log_flush_interval_ms = 150\<rparr>"

definition dflt :: "int \<Rightarrow> int \<Rightarrow> int" where
  "dflt d x = (if x = 0 then d else x)"

definition apply_defaults :: "settings \<Rightarrow> settings" where
  "apply_defaults s = (let d = default_settings in
     \<lparr>log_buffer_lines = dflt (log_buffer_lines d) (log_buffer_lines s),
      log_dir = (if log_dir s = [] then log_dir d else log_dir s),
      log_rotate_size_mb = dflt (log_rotate_size_mb d) (log_rotate_size_mb s),
      log_rotate_keep = dflt (log_rotate_keep d) (log_rotate_keep s),
      shutdown_grace_ms = dflt (shutdown_grace_ms d) (shutdown_grace_ms s),
      group_start_delay_ms = dflt (group_start_delay_ms d) (group_start_delay_ms s),
      restart_backoff_ms = (if restart_backoff_ms s = [] then restart_backoff_ms d else restart_backoff_ms s),
      restart_max_attempts = dflt (restart_max_attempts d) (restart_max_attempts s),
      restart_reset_after_ms = dflt (restart_reset_after_ms d) (restart_reset_after_ms s),
      pty_cols = dflt (pty_cols d) (pty_cols s),
      pty_rows = dflt (pty_rows d) (pty_rows s),
      log_flush_interval_ms = dflt (log_flush_interval_ms d) (log_flush_interval_ms s)\<rparr>)"

section \<open>Errors\<close>

datatype config_error =
    NoProjects
  | PathRequired string
  | CmdRequired string
  | BadRestart string string
  | GroupEmpty string
  | UnknownMember string nat string
  | BufferLines
  | RotateKeep
  | FlushInterval
  | PtySize
  | NoHome
  | TildeUser string
  | MissingVars string "string list"
  | InProjectPath string config_error
  | InProjectEnvFile string config_error
  | InLogDir config_error
  | ReadFile
  | InvalidYaml string
  | OpenEnvFile string
  | EnvLine nat string
  | EnvRead
  | InEnvFile string config_error
  | Multi "config_error list"
  | ConfigErr string config_error

definition join_errs :: "config_error list \<Rightarrow> config_error option" where
  "join_errs errs = (case errs of [] \<Rightarrow> None | [e] \<Rightarrow> Some e | _ \<Rightarrow> Some (Multi errs))"

section \<open>Path expansion\<close>

definition is_word :: "char \<Rightarrow> bool" where
  "is_word c \<longleftrightarrow> (let n = of_char c :: nat in
     (48 \<le> n \<and> n \<le> 57) \<or> (65 \<le> n \<and> n \<le> 90) \<or> (97 \<le> n \<and> n \<le> 122) \<or> n = 95)"

text \<open>The length of the match of \<open>envVarRe\<close> at the head of the string, 0 for none.\<close>

definition env_var_match :: "string \<Rightarrow> nat" where
  "env_var_match s = (case s of
     c # d # t \<Rightarrow>
       if c \<noteq> CHR ''$'' then 0
       else if d = CHR ''{'' then
         (let w = takeWhile is_word t
          in if w \<noteq> [] \<and> (case dropWhile is_word t of e # _ \<Rightarrow> e = CHR ''}'' | [] \<Rightarrow> False)
             then 2 + length w + 1 else 0)
       else (let w = takeWhile is_word (d # t) in if w = [] then 0 else 1 + length w)
   | _ \<Rightarrow> 0)"

definition trim_prefix :: "char \<Rightarrow> string \<Rightarrow> string" where
  "trim_prefix c s = (case s of d # t \<Rightarrow> if d = c then t else s | [] \<Rightarrow> [])"

definition trim_suffix :: "char \<Rightarrow> string \<Rightarrow> string" where
  "trim_suffix c s = (if s \<noteq> [] \<and> last s = c then butlast s else s)"

definition var_name :: "string \<Rightarrow> string" where
  "var_name m = trim_prefix (CHR ''{'') (trim_suffix (CHR ''}'') (trim_prefix (CHR ''$'') m))"

text \<open>\<open>ReplaceAllStringFunc\<close> with the closure that records the missing names.\<close>

function expand_vars :: "(string \<Rightarrow> string option) \<Rightarrow> string \<Rightarrow> string \<times> string list" where
  "expand_vars env [] = ([], [])"
| "expand_vars env (c # t) =
     (let n = env_var_match (c # t) in
      if n = 0 then (let (r, ms) = expand_vars env t in (c # r, ms))
      else
        (let name = var_name (take n (c # t));
             (r, ms) = expand_vars env (drop n (c # t))
         in case env name of None \<Rightarrow> (r, name # ms) | Some v \<Rightarrow> (v @ r, ms)))"
  by pat_completeness auto
termination by (relation "measure (\<lambda>(env, s). length s)") auto

definition expand_tilde :: "string option \<Rightarrow> string \<Rightarrow> config_error + string" where
  "expand_tilde home p =
     (if p = ''~'' \<or> prefix ''~/'' p then
        (case home of None \<Rightarrow> Inl NoHome | Some h \<Rightarrow> Inr (h @ drop 1 p))
      else if prefix ''~'' p then Inl (TildeUser p)
      else Inr p)"

definition expand_path ::
  "string option \<Rightarrow> (string \<Rightarrow> string option) \<Rightarrow> string \<Rightarrow> config_error + string" where
  "expand_path home env p =
     (case expand_tilde home p of
        Inl e \<Rightarrow> Inl e
      | Inr out \<Rightarrow>
          (let (r, missing) = expand_vars env out
           in if missing \<noteq> [] then Inl (MissingVars p missing) else Inr r))"

section \<open>Validation\<close>

definition check_project :: "string \<Rightarrow> project \<Rightarrow> config_error list \<times> project" where
  "check_project pid p =
     (let e1 = (if p_path p = [] then [PathRequired pid] else []);
          e2 = (if p_cmd p = [] then [CmdRequired pid] else []);
          p1 = (if p_restart p = [] then p\<lparr>p_restart := restart_never\<rparr> else p);
          e3 = (if p_restart p1 \<noteq> restart_never \<and> p_restart p1 \<noteq> restart_on_failure
                then [BadRestart pid (p_restart p1)] else [])
      in (e1 @ e2 @ e3, p1))"

definition check_group :: "project gomap \<Rightarrow> string \<Rightarrow> string list \<Rightarrow> config_error list" where
  "check_group ps g members =
     (if members = [] then [GroupEmpty g] else [])
     @ concat (map (\<lambda>(i, mem). if map_of ps mem = None then [UnknownMember g i mem] else [])
         (List.enumerate 0 members))"

definition check_settings :: "settings \<Rightarrow> config_error list" where
  "check_settings s =
     (if log_buffer_lines s < 1 then [BufferLines] else [])
     @ (if log_rotate_keep s < 1 then [RotateKeep] else [])
     @ (if log_flush_interval_ms s < 1 then [FlushInterval] else [])
     @ (if pty_cols s < 1 \<or> pty_rows s < 1 then [PtySize] else [])"

definition validate :: "config \<Rightarrow> config_error option \<times> config" where
  "validate c =
     (let e0 = (if c_projects c = [] then [NoProjects] else []);
          checked = map (\<lambda>(pid, p). (pid, check_project pid p)) (c_projects c);
          e1 = concat (map (\<lambda>(pid, r). fst r) checked);
          ps = map (\<lambda>(pid, r). (pid, snd r)) checked;
          e2 = concat (map (\<lambda>(g, ms). check_group ps g ms) (c_groups c));
          e3 = check_settings (c_settings c)
      in (join_errs (e0 @ e1 @ e2 @ e3), c\<lparr>c_projects := ps\<rparr>))"

section \<open>Expansion of a whole configuration\<close>

text \<open>\<open>continue\<close> leaves the map entry as it was.\<close>

definition expand_project ::
  "string option \<Rightarrow> (string \<Rightarrow> string option) \<Rightarrow> string \<Rightarrow> project \<Rightarrow> config_error list \<times> project" where
  "expand_project home env pid p =
     (case expand_path home env (p_path p) of
        Inl e \<Rightarrow> ([InProjectPath pid e], p)
      | Inr path \<Rightarrow>
          if p_env_file p \<noteq> [] then
            (case expand_path home env (p_env_file p) of
               Inl e \<Rightarrow> ([InProjectEnvFile pid e], p)
             | Inr ef \<Rightarrow> ([], p\<lparr>p_path := path, p_env_file := ef\<rparr>))
          else ([], p\<lparr>p_path := path\<rparr>))"

definition expand_all ::
  "string option \<Rightarrow> (string \<Rightarrow> string option) \<Rightarrow> config \<Rightarrow> config_error option \<times> config" where
  "expand_all home env c =
     (let expanded = map (\<lambda>(pid, p). (pid, expand_project home env pid p)) (c_projects c);
          e1 = concat (map (\<lambda>(pid, r). fst r) expanded);
          ps = map (\<lambda>(pid, r). (pid, snd r)) expanded;
          (e2, s) = (case expand_path home env (log_dir (c_settings c)) of
                       Inl e \<Rightarrow> ([InLogDir e], c_settings c)
                     | Inr d \<Rightarrow> ([], (c_settings c)\<lparr>log_dir := d\<rparr>))
      in (join_errs (e1 @ e2), c\<lparr>c_projects := ps, c_settings := s\<rparr>))"

section \<open>Loading\<close>

definition default_config_path :: string where
  "default_config_path = ''~/.config/procs/config.yml''"

definition getenv :: "(string \<Rightarrow> string option) \<Rightarrow> string \<Rightarrow> string" where
  "getenv env k = (case env k of None \<Rightarrow> [] | Some v \<Rightarrow> v)"

definition resolve_path ::
  "string option \<Rightarrow> (string \<Rightarrow> string option) \<Rightarrow> string \<Rightarrow> config_error + string" where
  "resolve_path home env explicit =
     (if explicit \<noteq> [] then expand_path home env explicit
      else if getenv env ''PROCS_CONFIG'' \<noteq> [] then expand_path home env (getenv env ''PROCS_CONFIG'')
      else expand_path home env default_config_path)"

definition load_from_path ::
  "string option \<Rightarrow> (string \<Rightarrow> string option) \<Rightarrow> (string \<Rightarrow> bytes option) \<Rightarrow> (bytes \<Rightarrow> string + config)
   \<Rightarrow> string \<Rightarrow> config_error + config" where
  "load_from_path home env read_file decode path =
     (case read_file path of
        None \<Rightarrow> Inl (ConfigErr path ReadFile)
      | Some raw \<Rightarrow>
        (case decode raw of
           Inl msg \<Rightarrow> Inl (ConfigErr path (InvalidYaml msg))
         | Inr cfg \<Rightarrow>
             (let cfg1 = cfg\<lparr>c_settings := apply_defaults (c_settings cfg)\<rparr>;
                  (e1, cfg2) = validate cfg1
              in case e1 of
                   Some e \<Rightarrow> Inl (ConfigErr path e)
                 | None \<Rightarrow>
                     (let (e2, cfg3) = expand_all home env cfg2
                      in case e2 of Some e \<Rightarrow> Inl (ConfigErr path e) | None \<Rightarrow> Inr cfg3))))"

definition load_config ::
  "string option \<Rightarrow> (string \<Rightarrow> string option) \<Rightarrow> (string \<Rightarrow> bytes option) \<Rightarrow> (bytes \<Rightarrow> string + config)
   \<Rightarrow> string \<Rightarrow> config_error + config" where
  "load_config home env read_file decode explicit =
     (case resolve_path home env explicit of
        Inl e \<Rightarrow> Inl (ConfigErr [] e)
      | Inr path \<Rightarrow> load_from_path home env read_file decode path)"

section \<open>Environment files\<close>

definition max_token :: nat where "max_token = 64 * 1024"

text \<open>The lines \<open>bufio.Scanner\<close> yields; a last empty line is not one.\<close>

fun split_lines :: "bytes \<Rightarrow> bytes \<Rightarrow> bytes list" where
  "split_lines cur [] = (if cur = [] then [] else [cur])"
| "split_lines cur (b # t) =
     (if b = CHR 0x0A then cur # split_lines [] t else split_lines (cur @ [b]) t)"

definition index_byte :: "char \<Rightarrow> string \<Rightarrow> nat option" where
  "index_byte c s = (let n = length (takeWhile (\<lambda>d. d \<noteq> c) s) in if n < length s then Some n else None)"

definition unquote :: "string \<Rightarrow> string" where
  "unquote v =
     (if length v \<ge> 2 \<and> (hd v = CHR 0x22 \<and> last v = CHR 0x22 \<or> hd v = CHR 0x27 \<and> last v = CHR 0x27)
      then butlast (tl v) else v)"

definition parse_env_line :: "nat \<Rightarrow> bytes \<Rightarrow> config_error + (string \<times> string) option" where
  "parse_env_line n text =
     (let raw = trim_space text
      in if raw = [] \<or> prefix ''#'' raw then Inr None
         else
           (let raw1 = (if prefix ''export '' raw then trim_space (drop 7 raw) else raw)
            in case index_byte (CHR ''='') raw1 of
                 None \<Rightarrow> Inl (EnvLine n raw1)
               | Some eq \<Rightarrow>
                   if eq = 0 then Inl (EnvLine n raw1)
                   else Inr (Some (trim_space (take eq raw1), unquote (trim_space (drop (eq + 1) raw1))))))"

text \<open>A line that does not fit the scanner's buffer ends the loop with \<open>ErrTooLong\<close>.\<close>

fun parse_env_lines :: "nat \<Rightarrow> bytes list \<Rightarrow> string gomap \<Rightarrow> config_error + string gomap" where
  "parse_env_lines n [] out = Inr out"
| "parse_env_lines n (l # ls) out =
     (if length l \<ge> max_token then Inl EnvRead
      else case parse_env_line (n + 1) l of
             Inl e \<Rightarrow> Inl e
           | Inr None \<Rightarrow> parse_env_lines (n + 1) ls out
           | Inr (Some (k, v)) \<Rightarrow> parse_env_lines (n + 1) ls (AList.update k v out))"

definition parse_env_file :: "(string \<Rightarrow> bytes option) \<Rightarrow> string \<Rightarrow> config_error + string gomap" where
  "parse_env_file read_file path =
     (case read_file path of
        None \<Rightarrow> Inl (OpenEnvFile path)
      | Some raw \<Rightarrow> parse_env_lines 0 (split_lines [] raw) [])"

definition add_base :: "string \<Rightarrow> string gomap \<Rightarrow> string gomap" where
  "add_base kv m = (case index_byte (CHR ''='') kv of
     None \<Rightarrow> m
   | Some eq \<Rightarrow> if eq > 0 then AList.update (take eq kv) (drop (eq + 1) kv) m else m)"

definition build_env ::
  "(string \<Rightarrow> bytes option) \<Rightarrow> string list \<Rightarrow> project \<Rightarrow> config_error + string list" where
  "build_env read_file base p =
     (let merged = fold add_base base [];
          with_file = (if p_env_file p \<noteq> [] then
                         (case parse_env_file read_file (p_env_file p) of
                            Inl e \<Rightarrow> Inl (InEnvFile (p_env_file p) e)
                          | Inr fe \<Rightarrow> Inr (fold (\<lambda>(k, v). AList.update k v) fe merged))
                       else Inr merged)
      in case with_file of
           Inl e \<Rightarrow> Inl e
         | Inr m1 \<Rightarrow>
             (let m2 = fold (\<lambda>(k, v). AList.update k v) (p_env p) m1
              in Inr (map (\<lambda>(k, v). k @ ''='' @ v) m2)))"

section \<open>Validation accepts exactly the valid configurations\<close>

definition valid_project :: "project \<Rightarrow> bool" where
  "valid_project p \<longleftrightarrow> p_path p \<noteq> [] \<and> p_cmd p \<noteq> []
     \<and> p_restart p \<in> {[], restart_never, restart_on_failure}"

definition valid_settings :: "settings \<Rightarrow> bool" where
  "valid_settings s \<longleftrightarrow> 1 \<le> log_buffer_lines s \<and> 1 \<le> log_rotate_keep s
     \<and> 1 \<le> log_flush_interval_ms s \<and> 1 \<le> pty_cols s \<and> 1 \<le> pty_rows s"

definition valid_groups :: "project gomap \<Rightarrow> string list gomap \<Rightarrow> bool" where
  "valid_groups ps gs \<longleftrightarrow> (\<forall>(g, ms) \<in> set gs. ms \<noteq> [] \<and> set ms \<subseteq> set (keys_of ps))"

definition valid_config :: "config \<Rightarrow> bool" where
  "valid_config c \<longleftrightarrow> c_projects c \<noteq> [] \<and> (\<forall>(pid, p) \<in> set (c_projects c). valid_project p)
     \<and> valid_groups (c_projects c) (c_groups c) \<and> valid_settings (c_settings c)"

lemma join_errs_None [simp]: "join_errs es = None \<longleftrightarrow> es = []"
  by (auto simp: join_errs_def split: list.splits)

lemma never_not_Nil [simp]: "restart_never \<noteq> []" "restart_on_failure \<noteq> []"
  by (simp_all add: restart_never_def restart_on_failure_def)

lemma check_project_ok: "fst (check_project pid p) = [] \<longleftrightarrow> valid_project p"
  by (auto simp: check_project_def valid_project_def Let_def)

lemma members_known:
  "concat (map (\<lambda>(i, mem). if map_of ps mem = None then [UnknownMember g i mem] else [])
     (List.enumerate n ms)) = [] \<longleftrightarrow> set ms \<subseteq> set (keys_of ps)"
  by (induction ms arbitrary: n) (auto simp: map_of_eq_None_iff)

lemma check_group_ok: "check_group ps g ms = [] \<longleftrightarrow> ms \<noteq> [] \<and> set ms \<subseteq> set (keys_of ps)"
  unfolding check_group_def append_is_Nil_conv members_known by simp

lemma check_settings_ok: "check_settings s = [] \<longleftrightarrow> valid_settings s"
  by (auto simp: check_settings_def valid_settings_def)

lemma validate_ok: "fst (validate c) = None \<longleftrightarrow> valid_config c"
proof -
  have ps: "concat (map (\<lambda>(pid, r). fst r) (map (\<lambda>(pid, p). (pid, check_project pid p)) qs)) = []
      \<longleftrightarrow> (\<forall>(pid, p) \<in> set qs. valid_project p)" for qs
    by (induction qs) (auto simp: check_project_ok)
  have gs: "concat (map (\<lambda>(g, ms). check_group qs g ms) hs) = [] \<longleftrightarrow> valid_groups qs hs" for qs hs
    by (induction hs) (auto simp: check_group_ok valid_groups_def)
  have ks: "valid_groups (map (\<lambda>(pid, r). (pid, snd r)) (map (\<lambda>(pid, p). (pid, check_project pid p)) qs)) hs
      = valid_groups qs hs" for qs hs
    by (simp add: valid_groups_def case_prod_unfold comp_def)
  show ?thesis
    unfolding validate_def valid_config_def Let_def fst_conv join_errs_None append_is_Nil_conv ps gs ks
      check_settings_ok by simp
qed

lemma validate_result:
  "snd (validate c) = c\<lparr>c_projects := map (\<lambda>(pid, p). (pid, snd (check_project pid p))) (c_projects c)\<rparr>"
  by (simp add: validate_def Let_def case_prod_unfold comp_def)

lemma expand_all_result:
  "\<exists>d. snd (expand_all home env c) =
     c\<lparr>c_projects := map (\<lambda>(pid, p). (pid, snd (expand_project home env pid p))) (c_projects c),
       c_settings := (c_settings c)\<lparr>log_dir := d\<rparr>\<rparr>"
  by (cases "expand_path home env (log_dir (c_settings c))")
    (auto simp: expand_all_def Let_def case_prod_unfold comp_def intro: exI [of _ "log_dir (c_settings c)"])

lemma expand_project_frame [simp]:
  "p_cmd (snd (expand_project home env pid p)) = p_cmd p"
  "p_restart (snd (expand_project home env pid p)) = p_restart p"
  "p_env (snd (expand_project home env pid p)) = p_env p"
  by (auto simp: expand_project_def split: sum.splits)

lemma keys_of_map_snd [simp]: "keys_of (map (\<lambda>(k, v). (k, f k v)) m) = keys_of m"
  by (auto simp: case_prod_unfold)

text \<open>What the rest of the program may rely on after loading.\<close>

definition ready_config :: "config \<Rightarrow> bool" where
  "ready_config c \<longleftrightarrow> c_projects c \<noteq> []
     \<and> (\<forall>(pid, p) \<in> set (c_projects c). p_cmd p \<noteq> []
          \<and> (p_restart p = restart_never \<or> p_restart p = restart_on_failure))
     \<and> valid_groups (c_projects c) (c_groups c) \<and> valid_settings (c_settings c)
     \<and> restart_backoff_ms (c_settings c) \<noteq> [] \<and> restart_max_attempts (c_settings c) \<noteq> 0
     \<and> restart_reset_after_ms (c_settings c) \<noteq> 0 \<and> shutdown_grace_ms (c_settings c) \<noteq> 0
     \<and> group_start_delay_ms (c_settings c) \<noteq> 0 \<and> log_rotate_size_mb (c_settings c) \<noteq> 0"

lemma apply_defaults_filled:
  "restart_backoff_ms (apply_defaults s) \<noteq> []" "restart_max_attempts (apply_defaults s) \<noteq> 0"
  "shutdown_grace_ms (apply_defaults s) \<noteq> 0" "restart_reset_after_ms (apply_defaults s) \<noteq> 0"
  "group_start_delay_ms (apply_defaults s) \<noteq> 0" "log_rotate_size_mb (apply_defaults s) \<noteq> 0"
  by (simp_all add: apply_defaults_def default_settings_def dflt_def Let_def)

section \<open>Paths as literals and variable references\<close>

datatype path_seg = Lit string | Braced string | Bare string

fun seg_text :: "path_seg \<Rightarrow> string" where
  "seg_text (Lit s) = s"
| "seg_text (Braced w) = ''${'' @ w @ ''}''"
| "seg_text (Bare w) = CHR ''$'' # w"

definition word :: "string \<Rightarrow> bool" where
  "word w \<longleftrightarrow> w \<noteq> [] \<and> list_all is_word w"

fun segs_ok :: "path_seg list \<Rightarrow> bool" where
  "segs_ok [] \<longleftrightarrow> True"
| "segs_ok (Lit s # gs) \<longleftrightarrow> CHR ''$'' \<notin> set s \<and> segs_ok gs"
| "segs_ok (Braced w # gs) \<longleftrightarrow> word w \<and> segs_ok gs"
| "segs_ok (Bare w # gs) \<longleftrightarrow> word w \<and> segs_ok gs
     \<and> takeWhile is_word (concat (map seg_text gs)) = []"

fun seg_value :: "(string \<Rightarrow> string option) \<Rightarrow> path_seg \<Rightarrow> string" where
  "seg_value env (Lit s) = s"
| "seg_value env (Braced w) = getenv env w"
| "seg_value env (Bare w) = getenv env w"

fun seg_missing :: "(string \<Rightarrow> string option) \<Rightarrow> path_seg \<Rightarrow> string list" where
  "seg_missing env (Lit s) = []"
| "seg_missing env (Braced w) = (if env w = None then [w] else [])"
| "seg_missing env (Bare w) = (if env w = None then [w] else [])"

lemma word_chars: "\<not> is_word (CHR ''}'')" "\<not> is_word (CHR ''{'')" "\<not> is_word (CHR ''$'')"
  by (simp_all add: is_word_def)

lemma takeWhile_word: "list_all is_word w \<Longrightarrow> takeWhile is_word (w @ s) = w @ takeWhile is_word s"
  by (induction w) auto

lemma dropWhile_word: "list_all is_word w \<Longrightarrow> dropWhile is_word (w @ s) = dropWhile is_word s"
  by (induction w) auto

lemma match_braced: "word w \<Longrightarrow> env_var_match (seg_text (Braced w) @ s) = length w + 3"
  by (simp add: env_var_match_def word_def takeWhile_word dropWhile_word word_chars Let_def)

lemma match_bare:
  assumes "word w" "takeWhile is_word s = []"
  shows "env_var_match (seg_text (Bare w) @ s) = length w + 1"
proof -
  obtain c t where w: "w = c # t" "is_word c" using assms(1) by (cases w) (auto simp: word_def)
  then have "c \<noteq> CHR ''{''" using word_chars by auto
  then show ?thesis
    using assms takeWhile_word [of w s] w by (simp add: env_var_match_def word_def Let_def)
qed

lemma word_last: "word w \<Longrightarrow> last w \<noteq> CHR ''}'' \<and> hd w \<noteq> CHR ''{''"
  using word_chars by (metis hd_in_set last_in_set list_all_iff word_def)

lemma name_braced: "word w \<Longrightarrow> var_name (seg_text (Braced w)) = w"
  by (simp add: var_name_def trim_prefix_def trim_suffix_def butlast_append)

lemma name_bare: "word w \<Longrightarrow> var_name (seg_text (Bare w)) = w"
  using word_last [of w] by (cases w) (auto simp: var_name_def trim_prefix_def trim_suffix_def word_def)

lemma expand_literal:
  "CHR ''$'' \<notin> set p \<Longrightarrow> expand_vars env (p @ s) = (let (r, ms) = expand_vars env s in (p @ r, ms))"
proof (induction p)
  case (Cons c p)
  then have "env_var_match (c # p @ s) = 0"
    by (auto simp: env_var_match_def split: list.splits)
  then show ?case using Cons by (auto split: prod.splits)
qed simp

lemma expand_reference:
  assumes "env_var_match (e @ s) = length e" "e \<noteq> []" "var_name e = w"
  shows "expand_vars env (e @ s) = (let (r, ms) = expand_vars env s in
    (getenv env w @ r, (if env w = None then [w] else []) @ ms))"
  using assms by (cases e) (auto simp: getenv_def Let_def split: prod.splits option.splits)

lemma expand_vars_segs:
  "segs_ok gs \<Longrightarrow> expand_vars env (concat (map seg_text gs))
     = (concat (map (seg_value env) gs), concat (map (seg_missing env) gs))"
proof (induction gs rule: segs_ok.induct)
  case (3 w gs)
  then have "expand_vars env (seg_text (Braced w) @ concat (map seg_text gs))
      = (getenv env w @ concat (map (seg_value env) gs),
         (if env w = None then [w] else []) @ concat (map (seg_missing env) gs))"
    using match_braced [of w "concat (map seg_text gs)"] name_braced [of w]
    by (subst expand_reference [of _ _ w]) auto
  then show ?case by (simp del: seg_text.simps)
next
  case (4 w gs)
  then have "expand_vars env (seg_text (Bare w) @ concat (map seg_text gs))
      = (getenv env w @ concat (map (seg_value env) gs),
         (if env w = None then [w] else []) @ concat (map (seg_missing env) gs))"
    using match_bare [of w "concat (map seg_text gs)"] name_bare [of w]
    by (subst expand_reference [of _ _ w]) auto
  then show ?case by (simp del: seg_text.simps)
qed (auto simp: expand_literal)

section \<open>Environment files round trip\<close>

lemma split_lines_line:
  "CHR 0x0A \<notin> set l \<Longrightarrow> split_lines cur (l @ CHR 0x0A # rest) = (cur @ l) # split_lines [] rest"
  by (induction l arbitrary: cur) auto

lemma split_lines_concat:
  "\<forall>l \<in> set ls. CHR 0x0A \<notin> set l \<Longrightarrow> split_lines [] (concat (map (\<lambda>l. l @ [CHR 0x0A]) ls)) = ls"
  by (induction ls) (auto simp: split_lines_line)

definition solid :: "char \<Rightarrow> bool" where
  "solid c \<longleftrightarrow> is_word c \<or> c = CHR 0x22"

lemma spaces_not_solid: "w \<in> set unicode_spaces \<Longrightarrow> w \<noteq> [] \<and> \<not> solid (hd w) \<and> \<not> solid (last w)"
  by (auto simp: unicode_spaces_def is_word_def solid_def)

lemma trim_left_solid: "s \<noteq> [] \<Longrightarrow> solid (hd s) \<Longrightarrow> trim_left s = s"
proof -
  assume s: "s \<noteq> []" "solid (hd s)"
  have "\<not> prefix w s" if "w \<in> set unicode_spaces" for w
    using spaces_not_solid [OF that] s(2) by (auto simp: prefix_def)
  then have "find (\<lambda>w. prefix w s) unicode_spaces = None" by (simp add: find_None_iff)
  then have "lead_space s = 0" by (simp add: lead_space_def)
  then show ?thesis by (simp add: trim_left.simps [of s])
qed

lemma trim_right_solid: "s \<noteq> [] \<Longrightarrow> solid (last s) \<Longrightarrow> trim_right s = s"
proof -
  assume s: "s \<noteq> []" "solid (last s)"
  have "\<not> suffix w s" if "w \<in> set unicode_spaces" for w
    using spaces_not_solid [OF that] s(2) by (auto simp: suffix_def)
  then have "find (\<lambda>w. suffix w s) unicode_spaces = None" by (simp add: find_None_iff)
  then have "trail_space s = 0" by (simp add: trail_space_def)
  then show ?thesis by (simp add: trim_right.simps [of s])
qed

lemma trim_space_solid: "s \<noteq> [] \<Longrightarrow> solid (hd s) \<Longrightarrow> solid (last s) \<Longrightarrow> trim_space s = s"
  by (simp add: trim_space_def trim_left_solid trim_right_solid)

text \<open>A variable written in the quoted form.\<close>

definition env_line :: "string \<times> string \<Rightarrow> bytes" where
  "env_line kv = fst kv @ [CHR ''='', CHR 0x22] @ snd kv @ [CHR 0x22]"

lemma word_solid: "word k \<Longrightarrow> k \<noteq> [] \<and> solid (hd k) \<and> solid (last k) \<and> is_word (hd k)"
  by (auto simp: word_def solid_def list_all_iff)

lemma index_word: "word k \<Longrightarrow> index_byte (CHR ''='') (k @ CHR ''='' # v) = Some (length k)"
proof -
  assume "word k"
  then have "\<forall>d \<in> set k. d \<noteq> CHR ''=''" by (auto simp: word_def list_all_iff is_word_def)
  then have "takeWhile (\<lambda>d. d \<noteq> CHR ''='') (k @ CHR ''='' # v) = k" by (simp add: takeWhile_append2)
  then show ?thesis by (simp add: index_byte_def)
qed

lemma not_export: "word k \<Longrightarrow> \<not> prefix ''export '' (k @ CHR ''='' # v)"
proof
  assume k: "word k" and p: "prefix ''export '' (k @ CHR ''='' # v)"
  have "\<not> is_word (CHR '' '')" "\<not> is_word (CHR ''='')" by (simp_all add: is_word_def)
  then have "CHR '' '' \<notin> set k" using k by (auto simp: word_def list_all_iff)
  moreover from p obtain zs where "k @ CHR ''='' # v = ''export '' @ zs" by (auto simp: prefix_def)
  ultimately show False
    by (auto simp: append_eq_Cons_conv append_eq_append_conv2)
qed

lemma parse_env_line_quoted:
  assumes "word k"
  shows "parse_env_line n (env_line (k, v)) = Inr (Some (k, v))"
proof -
  let ?l = "k @ CHR ''='' # CHR 0x22 # v @ [CHR 0x22]"
  have l: "env_line (k, v) = ?l" by (simp add: env_line_def)
  have t: "trim_space ?l = ?l"
    using word_solid [OF assms] by (intro trim_space_solid) (auto simp: solid_def hd_append)
  have q: "trim_space (CHR 0x22 # v @ [CHR 0x22]) = CHR 0x22 # v @ [CHR 0x22]"
    by (intro trim_space_solid) (auto simp: solid_def)
  have k: "trim_space k = k" using word_solid [OF assms] by (intro trim_space_solid) auto
  have c: "\<not> prefix ''#'' ?l"
    using word_solid [OF assms] by (cases k) (auto simp: is_word_def)
  show ?thesis
    using not_export [OF assms] index_word [OF assms] assms
    by (simp add: l t c q k parse_env_line_def unquote_def word_def Let_def)
qed

lemma parse_env_lines_quoted:
  "\<forall>(k, v) \<in> set kvs. word k \<and> length (env_line (k, v)) < max_token \<Longrightarrow>
   parse_env_lines n (map env_line kvs) out = Inr (fold (\<lambda>(k, v). AList.update k v) kvs out)"
proof (induction kvs arbitrary: n out)
  case (Cons kv kvs)
  then show ?case
    by (cases kv) (auto simp: parse_env_line_quoted not_le)
qed simp

section \<open>The merged environment\<close>

lemma fold_update_map_of:
  "map_of (fold (\<lambda>(k, v). AList.update k v) kvs m) x
     = (case map_of (rev kvs) x of Some v \<Rightarrow> Some v | None \<Rightarrow> map_of m x)"
  by (induction kvs arbitrary: m) (auto simp: map_add_def split: option.splits)

lemma fold_update_ok: "gomap_ok m \<Longrightarrow> gomap_ok (fold (\<lambda>(k, v). AList.update k v) kvs m)"
  by (induction kvs arbitrary: m) auto

lemma map_of_rev_ok: "gomap_ok m \<Longrightarrow> map_of (rev m) = map_of m"
  by (subst map_of_inject_set) (auto simp: gomap_ok_def simp flip: rev_map)

text \<open>The value the parent's environment gives: the last entry of the form \<open>k=v\<close>.\<close>

definition base_env :: "string list \<Rightarrow> string gomap" where
  "base_env base = fold add_base base []"

lemma add_base_ok: "gomap_ok m \<Longrightarrow> gomap_ok (add_base kv m)"
  by (simp add: add_base_def split: option.splits)

lemma base_env_ok: "gomap_ok (base_env base)"
proof -
  have "gomap_ok m \<Longrightarrow> gomap_ok (fold add_base base m)" for m
    by (induction base arbitrary: m) (auto simp: add_base_ok)
  then show ?thesis by (simp add: base_env_def)
qed

lemma parse_env_lines_ok: "gomap_ok out \<Longrightarrow> parse_env_lines n ls out = Inr m \<Longrightarrow> gomap_ok m"
  by (induction n ls out rule: parse_env_lines.induct) (auto split: if_splits sum.splits option.splits)

lemma parse_env_file_ok: "parse_env_file rf path = Inr m \<Longrightarrow> gomap_ok m"
  by (auto simp: parse_env_file_def intro: parse_env_lines_ok [of "[]"] split: option.splits)

lemma base_env_last:
  "k \<noteq> [] \<Longrightarrow> CHR ''='' \<notin> set k \<Longrightarrow> map_of (base_env (base @ [k @ ''='' @ v])) k = Some v"
proof -
  assume k: "k \<noteq> []" "CHR ''='' \<notin> set k"
  then have "takeWhile (\<lambda>d. d \<noteq> CHR ''='') (k @ CHR ''='' # v) = k" by (auto intro: takeWhile_append2 [THEN trans])
  then show ?thesis using k by (simp add: base_env_def add_base_def index_byte_def)
qed

section \<open>Properties\<close>

text \<open>
  Validation accepts a configuration if and only if there is a project, every project has a path, a
  command and a known restart mode (or none, which becomes \<open>never\<close>), every group is non-empty and
  names configured projects only, and the checked settings are positive.
\<close>
theorem validate_iff: "fst (validate c) = None \<longleftrightarrow> valid_config c"
  by (rule validate_ok)


definition sample_config :: config where
  "sample_config = \<lparr>c_projects = [(''api'', \<lparr>p_path = ''/srv'', p_cmd = ''run'', p_restart = [],
      p_env = [], p_env_file = []\<rparr>)], c_groups = [(''all'', [''api''])],
    c_settings = \<lparr>log_buffer_lines = 0, log_dir = ''/var'', log_rotate_size_mb = 0,
      log_rotate_keep = 0, shutdown_grace_ms = 0, group_start_delay_ms = 0, restart_backoff_ms = [],
      restart_max_attempts = 0, restart_reset_after_ms = 0, pty_cols = 0, pty_rows = 0,
      log_flush_interval_ms = 0\<rparr>\<rparr>"


text \<open>A negative rotation size or grace time is not refused.\<close>

lemma find_negative_sizes:
  "\<exists>cfg. load_from_path None (\<lambda>_. None) (\<lambda>_. Some [])
       (\<lambda>_. Inr (sample_config\<lparr>c_settings := (c_settings sample_config)\<lparr>log_rotate_size_mb := - 1, shutdown_grace_ms := - 5\<rparr>\<rparr>)) ''c'' = Inr cfg
     \<and> log_rotate_size_mb (c_settings cfg) = - 1 \<and> shutdown_grace_ms (c_settings cfg) = - 5"
  by (simp add: load_from_path_def sample_config_def apply_defaults_def default_settings_def dflt_def
      validate_def check_project_def check_group_def check_settings_def join_errs_def restart_never_def
      expand_all_def expand_project_def expand_path_def expand_tilde_def env_var_match_def Let_def)

text \<open>
  Path expansion is substitution, and strict: a path written as literals, \<open>$NAME\<close> and \<open>${NAME}\<close>
  references expands to the literals and the values in order when every name is defined (set to the
  empty string counts), and otherwise fails naming exactly the undefined references, in order; a
  leading \<open>~/\<close> stands for the home directory.
\<close>
theorem expand_path_spec:
  assumes "segs_ok gs" "\<not> prefix ''~'' (concat (map seg_text gs))" "CHR ''$'' \<notin> set h"
  shows "expand_path home env (concat (map seg_text gs)) =
      (let missing = concat (map (seg_missing env) gs)
       in if missing = [] then Inr (concat (map (seg_value env) gs))
          else Inl (MissingVars (concat (map seg_text gs)) missing))
    \<and> expand_path (Some h) env (''~/'' @ concat (map seg_text gs)) =
      (let missing = concat (map (seg_missing env) gs)
       in if missing = [] then Inr (h @ ''/'' @ concat (map (seg_value env) gs))
          else Inl (MissingVars (''~/'' @ concat (map seg_text gs)) missing))"
proof
  have "\<not> prefix ''~/'' (concat (map seg_text gs))" "concat (map seg_text gs) \<noteq> ''~''"
    using assms(2) by (auto simp: prefix_def)
  then show "expand_path home env (concat (map seg_text gs)) =
      (let missing = concat (map (seg_missing env) gs)
       in if missing = [] then Inr (concat (map (seg_value env) gs))
          else Inl (MissingVars (concat (map seg_text gs)) missing))"
    using assms(1,2) by (simp add: expand_path_def expand_tilde_def expand_vars_segs Let_def)
  show "expand_path (Some h) env (''~/'' @ concat (map seg_text gs)) =
      (let missing = concat (map (seg_missing env) gs)
       in if missing = [] then Inr (h @ ''/'' @ concat (map (seg_value env) gs))
          else Inl (MissingVars (''~/'' @ concat (map seg_text gs)) missing))"
    using assms(1,3) expand_literal [of "h @ ''/''" env "concat (map seg_text gs)"]
    by (simp add: expand_path_def expand_tilde_def expand_vars_segs Let_def)
qed

theorem expand_path_spec_witness:
  "expand_path None [''USER'' \<mapsto> ''bob''] ''/home/${USER}/$DIR'' = Inl (MissingVars ''/home/${USER}/$DIR'' [''DIR''])"
  using expand_path_spec [of "[Lit ''/home/'', Braced ''USER'', Lit ''/'', Bare ''DIR'']" "[]" None
      "[''USER'' \<mapsto> ''bob'']"]
  by (simp add: word_def is_word_def)

text \<open>
  An environment file written as \<open>KEY="value"\<close> lines is read back as exactly those pairs, a later
  line for a key winning: values keep their spaces, quotes and \<open>#\<close> signs.
\<close>
theorem env_file_roundtrip:
  assumes "\<forall>(k, v) \<in> set kvs. word k \<and> CHR 0x0A \<notin> set v \<and> length (env_line (k, v)) < max_token"
    and "read_file path = Some (concat (map (\<lambda>kv. env_line kv @ [CHR 0x0A]) kvs))"
  shows "parse_env_file read_file path = Inr (fold (\<lambda>(k, v). AList.update k v) kvs [])"
proof -
  have "CHR 0x0A \<notin> set (env_line kv)" if "kv \<in> set kvs" for kv
  proof -
    obtain k v where kv: "kv = (k, v)" by (cases kv)
    have "\<not> is_word (CHR 0x0A)" by (simp add: is_word_def)
    then show ?thesis using assms(1) that by (auto simp: kv env_line_def word_def list_all_iff)
  qed
  then have "split_lines [] (concat (map (\<lambda>l. l @ [CHR 0x0A]) (map env_line kvs))) = map env_line kvs"
    by (intro split_lines_concat) auto
  then show ?thesis
    using assms parse_env_lines_quoted [of kvs 0 "[]"] by (auto simp: parse_env_file_def comp_def)
qed

theorem env_file_roundtrip_witness:
  "parse_env_file (\<lambda>_. Some (''A='' @ [CHR 0x22] @ '' x # y '' @ [CHR 0x22, CHR 0x0A])) ''f''
     = Inr [(''A'', '' x # y '')]"
  using env_file_roundtrip [of "[(''A'', '' x # y '')]"
      "\<lambda>_. Some (''A='' @ [CHR 0x22] @ '' x # y '' @ [CHR 0x22, CHR 0x0A])" "''f''"]
  by (simp add: word_def is_word_def env_line_def max_token_def)

text \<open>
  The environment of a child lists each variable once, and inline \<open>env\<close> overrides the env file,
  which overrides the inherited environment.
\<close>
theorem build_env_precedence:
  assumes "gomap_ok (p_env p)" "build_env read_file base p = Inr out"
  shows "\<exists>fe m. (if p_env_file p = [] then fe = [] else parse_env_file read_file (p_env_file p) = Inr fe)
    \<and> out = map (\<lambda>(k, v). k @ ''='' @ v) m \<and> gomap_ok m
    \<and> (\<forall>k. map_of m k = (case map_of (p_env p) k of Some v \<Rightarrow> Some v
             | None \<Rightarrow> (case map_of fe k of Some v \<Rightarrow> Some v | None \<Rightarrow> map_of (base_env base) k)))"
proof -
  let ?up = "\<lambda>kvs m. fold (\<lambda>(k, v). AList.update k v) kvs m"
  obtain fe where fe: "if p_env_file p = [] then fe = [] else parse_env_file read_file (p_env_file p) = Inr fe"
    "out = map (\<lambda>(k, v). k @ ''='' @ v) (?up (p_env p) (?up fe (base_env base)))"
    using assms(2)
    by (cases "p_env_file p = []") (auto simp: build_env_def base_env_def Let_def split: sum.splits)
  have "gomap_ok fe" using fe(1) parse_env_file_ok by (auto split: if_splits)
  then have "map_of (?up (p_env p) (?up fe (base_env base))) k
      = (case map_of (p_env p) k of Some v \<Rightarrow> Some v
         | None \<Rightarrow> (case map_of fe k of Some v \<Rightarrow> Some v | None \<Rightarrow> map_of (base_env base) k))" for k
    using assms(1) by (simp add: fold_update_map_of map_of_rev_ok cong: option.case_cong)
  then show ?thesis using fe fold_update_ok base_env_ok by blast
qed

theorem build_env_precedence_witness:
  "\<exists>m. build_env (\<lambda>_. None) [''A=1'', ''B=2''] \<lparr>p_path = ''/'', p_cmd = ''x'', p_restart = [],
      p_env = [(''A'', ''3'')], p_env_file = []\<rparr> = Inr (map (\<lambda>(k, v). k @ ''='' @ v) m)
    \<and> map_of m ''A'' = Some ''3''"
proof -
  let ?p = "\<lparr>p_path = ''/'', p_cmd = ''x'', p_restart = [], p_env = [(''A'', ''3'')], p_env_file = []\<rparr>"
  have ok: "gomap_ok (p_env ?p)" by (simp add: gomap_ok_def)
  obtain out where out: "build_env (\<lambda>_. None) [''A=1'', ''B=2''] ?p = Inr out"
    by (simp add: build_env_def)
  then show ?thesis using build_env_precedence [OF ok out] by auto
qed

end
