(* ===== verification/Runtime_Store.thy ===== *)
theory Runtime_Store
  imports Prelude "HOL-Library.Multiset"
begin

text \<open>
  Lifecycle events (\<open>internal/event/event.go\<close>) and the store of project states they drive
  (\<open>internal/state/runtime.go\<close>), with its capacity-one subscriber channels. The daemon and the client
  each keep such a store; the locale \<open>project_store\<close> is what both rely on.
\<close>

section \<open>Events\<close>

datatype event =
    StartedEvent string int time
  | ExitedEvent string int string time
  | StateChangedEvent string string
  | LogLineEvent string bytes bool time
  | RestartingEvent string int duration

fun project_id :: "event \<Rightarrow> string" where
  "project_id (StartedEvent i _ _) = i"
| "project_id (ExitedEvent i _ _ _) = i"
| "project_id (StateChangedEvent i _) = i"
| "project_id (LogLineEvent i _ _ _) = i"
| "project_id (RestartingEvent i _ _) = i"

section \<open>The store\<close>

record project_runtime =
  pr_id :: string
  pr_state :: string
  pr_pid :: int
  pr_started_at :: time
  pr_restart_attempts :: int
  pr_exit_code :: int
  pr_exit_signal :: string
  pr_last_restart_at :: time

definition zero_runtime :: project_runtime where
  "zero_runtime = \<lparr>pr_id = [], pr_state = [], pr_pid = 0, pr_started_at = zero_time,
     pr_restart_attempts = 0, pr_exit_code = 0, pr_exit_signal = [], pr_last_restart_at = zero_time\<rparr>"

definition idle_runtime :: "string \<Rightarrow> project_runtime" where
  "idle_runtime i = zero_runtime\<lparr>pr_id := i, pr_state := ''idle''\<rparr>"

text \<open>A subscriber is a channel of capacity one: does it hold a token?\<close>

record runtime_store =
  rs_m :: "project_runtime gomap"
  rs_subs :: "bool list"

definition new_runtime_store :: runtime_store where
  "new_runtime_store = \<lparr>rs_m = [], rs_subs = []\<rparr>"

definition rs_subscribe :: "runtime_store \<Rightarrow> nat \<times> runtime_store" where
  "rs_subscribe s = (length (rs_subs s), s\<lparr>rs_subs := rs_subs s @ [False]\<rparr>)"

text \<open>The non-blocking send to every subscriber: a full channel drops the token.\<close>

definition notify_subs :: "bool list \<Rightarrow> bool list" where
  "notify_subs subs = map (\<lambda>full. if full then full else True) subs"

definition rs_notify :: "runtime_store \<Rightarrow> runtime_store" where
  "rs_notify s = s\<lparr>rs_subs := notify_subs (rs_subs s)\<rparr>"

text \<open>The subscriber's side: a receive takes the token.\<close>

definition rs_receive :: "nat \<Rightarrow> runtime_store \<Rightarrow> runtime_store option" where
  "rs_receive i s =
     (if i < length (rs_subs s) \<and> rs_subs s ! i then Some (s\<lparr>rs_subs := (rs_subs s)[i := False]\<rparr>)
      else None)"

definition get_or_init :: "string \<Rightarrow> project_runtime gomap \<Rightarrow> project_runtime" where
  "get_or_init i m = (case map_of m i of Some r \<Rightarrow> r | None \<Rightarrow> idle_runtime i)"

definition seed_one :: "string \<Rightarrow> project_runtime gomap \<Rightarrow> project_runtime gomap" where
  "seed_one i m = (if map_of m i = None then AList.update i (idle_runtime i) m else m)"

definition rs_seed :: "string list \<Rightarrow> runtime_store \<Rightarrow> runtime_store" where
  "rs_seed ids s = rs_notify (s\<lparr>rs_m := fold seed_one ids (rs_m s)\<rparr>)"

definition rs_set :: "string \<Rightarrow> string \<Rightarrow> int \<Rightarrow> runtime_store \<Rightarrow> runtime_store" where
  "rs_set i st pid s =
     (let r = (get_or_init i (rs_m s))\<lparr>pr_state := st, pr_pid := pid\<rparr>
      in rs_notify (s\<lparr>rs_m := AList.update i r (rs_m s)\<rparr>))"

definition rs_delete :: "string list \<Rightarrow> runtime_store \<Rightarrow> runtime_store" where
  "rs_delete ids s =
     (if ids = [] then s else rs_notify (s\<lparr>rs_m := fold AList.delete ids (rs_m s)\<rparr>))"

text \<open>What an event does to the entry of its project; \<open>now\<close> is the clock.\<close>

fun apply_runtime :: "time \<Rightarrow> event \<Rightarrow> project_runtime \<Rightarrow> project_runtime" where
  "apply_runtime now (StartedEvent _ pid at) r = r\<lparr>pr_state := ''running'', pr_pid := pid, pr_started_at := at\<rparr>"
| "apply_runtime now (ExitedEvent _ code sig _) r = r\<lparr>pr_pid := 0, pr_exit_code := code, pr_exit_signal := sig\<rparr>"
| "apply_runtime now (StateChangedEvent _ st) r = r\<lparr>pr_state := st\<rparr>"
| "apply_runtime now (RestartingEvent _ n _) r = r\<lparr>pr_restart_attempts := n, pr_last_restart_at := now\<rparr>"
| "apply_runtime now (LogLineEvent _ _ _ _) r = r"

fun is_log_line :: "event \<Rightarrow> bool" where
  "is_log_line (LogLineEvent _ _ _ _) \<longleftrightarrow> True"
| "is_log_line _ \<longleftrightarrow> False"

definition rs_apply :: "time \<Rightarrow> event \<Rightarrow> runtime_store \<Rightarrow> runtime_store" where
  "rs_apply now ev s =
     (let i = project_id ev;
          m = (if is_log_line ev then rs_m s
               else AList.update i (apply_runtime now ev (get_or_init i (rs_m s))) (rs_m s))
      in rs_notify (s\<lparr>rs_m := m\<rparr>))"

definition rs_snapshot :: "runtime_store \<Rightarrow> project_runtime list" where
  "rs_snapshot s = sort_key pr_id (map snd (rs_m s))"

definition rs_get :: "string \<Rightarrow> runtime_store \<Rightarrow> project_runtime \<times> bool" where
  "rs_get i s = (case map_of (rs_m s) i of None \<Rightarrow> (zero_runtime, False) | Some r \<Rightarrow> (r, True))"

section \<open>The invariant\<close>

definition rs_inv :: "runtime_store \<Rightarrow> bool" where
  "rs_inv s \<longleftrightarrow> gomap_ok (rs_m s) \<and> (\<forall>(i, r) \<in> set (rs_m s). pr_id r = i)"

definition rs_lookup :: "runtime_store \<Rightarrow> string \<Rightarrow> project_runtime option" where
  "rs_lookup s = map_of (rs_m s)"

lemma rs_inv_lookup: "gomap_ok (rs_m s) \<Longrightarrow>
  rs_inv s \<longleftrightarrow> (\<forall>i r. rs_lookup s i = Some r \<longrightarrow> pr_id r = i)"
  unfolding rs_inv_def rs_lookup_def by (auto simp: map_of_mem dest: map_of_SomeD)

lemma apply_runtime_id [simp]: "pr_id (apply_runtime now ev r) = pr_id r"
  by (cases ev) auto

lemma idle_runtime_id [simp]: "pr_id (idle_runtime i) = i" "pr_state (idle_runtime i) = ''idle''"
  "pr_pid (idle_runtime i) = 0"
  by (simp_all add: idle_runtime_def zero_runtime_def)

lemma gomap_ok_fold_seed: "gomap_ok m \<Longrightarrow> gomap_ok (fold seed_one ids m)"
  by (induction ids arbitrary: m) (auto simp: seed_one_def)

lemma gomap_ok_fold_delete: "gomap_ok m \<Longrightarrow> gomap_ok (fold AList.delete ids m)"
  by (induction ids arbitrary: m) auto

lemma map_of_fold_seed:
  "map_of (fold seed_one ids m) i =
     (if map_of m i = None \<and> i \<in> set ids then Some (idle_runtime i) else map_of m i)"
  by (induction ids arbitrary: m) (auto simp: seed_one_def)

lemma map_of_fold_delete: "map_of (fold AList.delete ids m) i = (if i \<in> set ids then None else map_of m i)"
  by (induction ids arbitrary: m) auto

lemma rs_gomap_ok:
  "gomap_ok (rs_m (rs_notify s)) \<longleftrightarrow> gomap_ok (rs_m s)"
  "gomap_ok (rs_m s) \<Longrightarrow> gomap_ok (rs_m (rs_seed ids s))"
  "gomap_ok (rs_m s) \<Longrightarrow> gomap_ok (rs_m (rs_set i st pid s))"
  "gomap_ok (rs_m s) \<Longrightarrow> gomap_ok (rs_m (rs_delete ids s))"
  "gomap_ok (rs_m s) \<Longrightarrow> gomap_ok (rs_m (rs_apply now ev s))"
  by (simp_all add: rs_notify_def rs_seed_def rs_set_def rs_delete_def rs_apply_def Let_def
      gomap_ok_fold_seed gomap_ok_fold_delete)

lemma rs_lookup_seed:
  "rs_lookup (rs_seed ids s) i =
     (if rs_lookup s i = None \<and> i \<in> set ids then Some (idle_runtime i) else rs_lookup s i)"
  by (simp add: rs_lookup_def rs_seed_def rs_notify_def map_of_fold_seed)

lemma rs_lookup_set:
  "rs_lookup (rs_set j st pid s) i =
     (if i = j then Some ((case rs_lookup s j of Some r \<Rightarrow> r | None \<Rightarrow> idle_runtime j)
         \<lparr>pr_state := st, pr_pid := pid\<rparr>) else rs_lookup s i)"
  by (simp add: rs_lookup_def rs_set_def rs_notify_def get_or_init_def Let_def)

lemma rs_lookup_delete: "rs_lookup (rs_delete ids s) i = (if i \<in> set ids then None else rs_lookup s i)"
  by (simp add: rs_lookup_def rs_delete_def rs_notify_def map_of_fold_delete)

lemma rs_lookup_apply:
  "rs_lookup (rs_apply now ev s) i =
     (if i = project_id ev \<and> \<not> is_log_line ev
      then Some (apply_runtime now ev (case rs_lookup s i of Some r \<Rightarrow> r | None \<Rightarrow> idle_runtime i))
      else rs_lookup s i)"
  by (auto simp: rs_lookup_def rs_apply_def rs_notify_def get_or_init_def Let_def)

lemmas rs_lookups = rs_lookup_seed rs_lookup_set rs_lookup_delete rs_lookup_apply

lemma rs_inv_ops:
  assumes "rs_inv s"
  shows "rs_inv (rs_seed ids s)" "rs_inv (rs_set i st pid s)" "rs_inv (rs_delete ids s)"
    "rs_inv (rs_apply now ev s)"
proof -
  have ok: "gomap_ok (rs_m s)" and ids: "\<forall>i r. rs_lookup s i = Some r \<longrightarrow> pr_id r = i"
    using assms rs_inv_lookup by (auto simp: rs_inv_def)
  show "rs_inv (rs_seed ids s)" "rs_inv (rs_set i st pid s)" "rs_inv (rs_delete ids s)"
    "rs_inv (rs_apply now ev s)"
    using ids by (auto simp: rs_inv_lookup rs_gomap_ok ok rs_lookups split: option.splits)
qed

lemma distinct_rs_snapshot:
  assumes "rs_inv s"
  shows "distinct (map pr_id (rs_snapshot s))"
proof -
  have keys: "map pr_id (map snd (rs_m s)) = keys_of (rs_m s)"
    using assms by (auto simp: rs_inv_def)
  have d: "distinct (map pr_id (map snd (rs_m s)))"
    using assms unfolding keys by (simp add: rs_inv_def gomap_ok_def)
  have "mset (map pr_id (rs_snapshot s)) = mset (map pr_id (map snd (rs_m s)))"
    by (simp only: rs_snapshot_def mset_map mset_sort)
  then show ?thesis using d mset_eq_imp_distinct_iff by blast
qed

section \<open>The interface of a project store\<close>

locale project_store =
  fixes look :: "'s \<Rightarrow> string \<Rightarrow> project_runtime option"
    and app :: "time \<Rightarrow> event \<Rightarrow> 's \<Rightarrow> 's"
    and put :: "string \<Rightarrow> string \<Rightarrow> int \<Rightarrow> 's \<Rightarrow> 's"
    and del :: "string list \<Rightarrow> 's \<Rightarrow> 's"
  assumes look_app: "look (app now ev s) i =
      (if i = project_id ev \<and> \<not> is_log_line ev
       then Some (apply_runtime now ev (case look s i of Some r \<Rightarrow> r | None \<Rightarrow> idle_runtime i))
       else look s i)"
    and look_put: "look (put j st pid s) i =
      (if i = j then Some ((case look s j of Some r \<Rightarrow> r | None \<Rightarrow> idle_runtime j)
         \<lparr>pr_state := st, pr_pid := pid\<rparr>) else look s i)"
    and look_del: "look (del ids s) i = (if i \<in> set ids then None else look s i)"
begin

text \<open>The state and the pid, the part of a runtime that daemon and client share.\<close>

definition visible :: "'s \<Rightarrow> string \<Rightarrow> (string \<times> int) option" where
  "visible s i = map_option (\<lambda>r. (pr_state r, pr_pid r)) (look s i)"

lemma visible_put: "visible (put j st pid s) i = (if i = j then Some (st, pid) else visible s i)"
  by (simp add: visible_def look_put)

lemma visible_del: "visible (del ids s) i = (if i \<in> set ids then None else visible s i)"
  by (simp add: visible_def look_del)

definition visible_step :: "event \<Rightarrow> string \<times> int \<Rightarrow> string \<times> int" where
  "visible_step ev v = (case ev of
     StartedEvent _ pid _ \<Rightarrow> (''running'', pid)
   | ExitedEvent _ _ _ _ \<Rightarrow> (fst v, 0)
   | StateChangedEvent _ st \<Rightarrow> (st, snd v)
   | _ \<Rightarrow> v)"

lemma visible_app:
  "visible (app now ev s) i =
     (if i = project_id ev \<and> \<not> is_log_line ev
      then Some (visible_step ev (case visible s i of Some v \<Rightarrow> v | None \<Rightarrow> (''idle'', 0)))
      else visible s i)"
  by (cases ev; cases "look s i") (auto simp: visible_def look_app visible_step_def)

text \<open>Events of other projects do not matter: a project's entry depends on its own events only.\<close>

lemma own_events_only:
  "look (fold (\<lambda>(now, ev). app now ev) evs s) i
     = look (fold (\<lambda>(now, ev). app now ev) (filter (\<lambda>(now, ev). project_id ev = i) evs) s) i"
proof (induction evs rule: rev_induct)
  case (snoc te evs)
  then show ?case by (cases te) (auto simp: look_app)
qed simp

end

interpretation rs: project_store rs_lookup rs_apply rs_set rs_delete
  by unfold_locales (simp_all add: rs_lookups)

section \<open>Properties\<close>

text \<open>Which events set the state of a project, and which set its pid.\<close>

fun sets_state :: "string \<Rightarrow> event \<Rightarrow> bool" where
  "sets_state i (StartedEvent j _ _) \<longleftrightarrow> i = j"
| "sets_state i (StateChangedEvent j _) \<longleftrightarrow> i = j"
| "sets_state i _ \<longleftrightarrow> False"

fun sets_pid :: "string \<Rightarrow> event \<Rightarrow> bool" where
  "sets_pid i (StartedEvent j _ _) \<longleftrightarrow> i = j"
| "sets_pid i (ExitedEvent j _ _ _) \<longleftrightarrow> i = j"
| "sets_pid i _ \<longleftrightarrow> False"

fun event_state :: "event \<Rightarrow> string" where
  "event_state (StateChangedEvent _ st) = st"
| "event_state _ = ''running''"

fun event_pid :: "event \<Rightarrow> int" where
  "event_pid (StartedEvent _ pid _) = pid"
| "event_pid _ = 0"

definition apply_all :: "(time \<times> event) list \<Rightarrow> runtime_store \<Rightarrow> runtime_store" where
  "apply_all evs s = fold (\<lambda>(now, ev). rs_apply now ev) evs s"

lemma state_kept:
  "\<forall>te \<in> set evs. \<not> sets_state i (snd te) \<Longrightarrow> map_option pr_state (rs_lookup s i) = Some st \<Longrightarrow>
   map_option pr_state (rs_lookup (apply_all evs s) i) = Some st"
proof (induction evs arbitrary: s)
  case (Cons te evs)
  obtain now ev where te: "te = (now, ev)" by (cases te)
  have "map_option pr_state (rs_lookup (rs_apply now ev s) i) = Some st"
    using Cons.prems te by (cases ev) (auto simp: rs_lookup_apply)
  then show ?case using Cons te by (simp add: apply_all_def)
qed (simp add: apply_all_def)

lemma pid_kept:
  "\<forall>te \<in> set evs. \<not> sets_pid i (snd te) \<Longrightarrow> map_option pr_pid (rs_lookup s i) = Some pid \<Longrightarrow>
   map_option pr_pid (rs_lookup (apply_all evs s) i) = Some pid"
proof (induction evs arbitrary: s)
  case (Cons te evs)
  obtain now ev where te: "te = (now, ev)" by (cases te)
  have "map_option pr_pid (rs_lookup (rs_apply now ev s) i) = Some pid"
    using Cons.prems te by (cases ev) (auto simp: rs_lookup_apply)
  then show ?case using Cons te by (simp add: apply_all_def)
qed (simp add: apply_all_def)

lemma apply_all_append: "apply_all (a @ b) s = apply_all b (apply_all a s)"
  by (simp add: apply_all_def)

text \<open>
  C16: the state shown for a project is that of its last \<open>Started\<close> or \<open>StateChanged\<close> event and its pid that
  of its last \<open>Started\<close> event, or 0 when it exited since, whatever other events (of other projects,
  log lines, restarts) the store applied before, between and after.
\<close>
theorem runtime_last_event:
  assumes "evs = a1 @ (t1, ev1) # b1" "sets_state i ev1" "\<forall>te \<in> set b1. \<not> sets_state i (snd te)"
    and "evs = a2 @ (t2, ev2) # b2" "sets_pid i ev2" "\<forall>te \<in> set b2. \<not> sets_pid i (snd te)"
  shows "map_option pr_state (rs_lookup (apply_all evs s) i) = Some (event_state ev1)
    \<and> map_option pr_pid (rs_lookup (apply_all evs s) i) = Some (event_pid ev2)"
proof
  have "map_option pr_state (rs_lookup (rs_apply t1 ev1 (apply_all a1 s)) i) = Some (event_state ev1)"
    using assms(2) by (cases ev1) (auto simp: rs_lookup_apply)
  then show "map_option pr_state (rs_lookup (apply_all evs s) i) = Some (event_state ev1)"
    using state_kept [OF assms(3)] by (simp add: assms(1) apply_all_append) (simp add: apply_all_def)
  have "map_option pr_pid (rs_lookup (rs_apply t2 ev2 (apply_all a2 s)) i) = Some (event_pid ev2)"
    using assms(5) by (cases ev2) (auto simp: rs_lookup_apply)
  then show "map_option pr_pid (rs_lookup (apply_all evs s) i) = Some (event_pid ev2)"
    using pid_kept [OF assms(6)] by (simp add: assms(4) apply_all_append) (simp add: apply_all_def)
qed

theorem runtime_last_event_witness:
  "map_option pr_pid (rs_lookup (apply_all [(1, StartedEvent ''a'' 42 1), (2, StateChangedEvent ''a'' ''stopping''),
     (3, ExitedEvent ''a'' 0 [] 3)] new_runtime_store) ''a'') = Some 0"
proof -
  let ?e1 = "(1::time, StartedEvent ''a'' 42 1)" and ?e2 = "(2::time, StateChangedEvent ''a'' ''stopping'')"
    and ?e3 = "(3::time, ExitedEvent ''a'' 0 [] 3)"
  have st: "[?e1, ?e2, ?e3] = [?e1] @ ?e2 # [?e3]" "sets_state ''a'' (snd ?e2)"
    "\<forall>te \<in> set [?e3]. \<not> sets_state ''a'' (snd te)" by simp_all
  have pid: "[?e1, ?e2, ?e3] = [?e1, ?e2] @ ?e3 # []" "sets_pid ''a'' (snd ?e3)"
    "\<forall>te \<in> set []. \<not> sets_pid ''a'' (snd (te :: time \<times> event))" by simp_all
  show ?thesis
    using runtime_last_event [OF st(1) st(2) [unfolded snd_conv] st(3) pid(1) pid(2) [unfolded snd_conv] pid(3)]
    unfolding event_pid.simps by blast
qed

text \<open>
  A snapshot lists every project exactly once, sorted by id, with the entry \<open>Get\<close> gives; it does not
  depend on the order in which the map is iterated.
\<close>
theorem snapshot_complete:
  assumes "rs_inv s"
  shows "sorted (map pr_id (rs_snapshot s)) \<and> distinct (map pr_id (rs_snapshot s))
    \<and> (r \<in> set (rs_snapshot s) \<longleftrightarrow> rs_get (pr_id r) s = (r, True))"
proof -
  have "distinct (map pr_id (rs_snapshot s))" by (rule distinct_rs_snapshot [OF assms])
  moreover have "r \<in> set (rs_snapshot s) \<longleftrightarrow> (pr_id r, r) \<in> set (rs_m s)"
    using assms by (force simp: rs_snapshot_def rs_inv_def)
  ultimately show ?thesis
    using assms
    by (auto simp: rs_snapshot_def rs_get_def rs_inv_def map_of_mem split: option.splits)
qed

theorem snapshot_complete_witness:
  "sorted (map pr_id (rs_snapshot (rs_seed [''b'', ''a''] new_runtime_store)))"
proof -
  have "rs_inv (rs_seed [''b'', ''a''] new_runtime_store)"
    by (rule rs_inv_ops) (simp add: rs_inv_def new_runtime_store_def)
  then show ?thesis using snapshot_complete by blast
qed

text \<open>
  A late event resurrects a project: the daemon deletes the entry of a project removed from the
  configuration, but an \<open>Exited\<close> or \<open>StateChanged\<close> event of its dying child that arrives afterwards
  puts it back into the store and into every later snapshot.
\<close>

lemma late_event_resurrects:
  "rs_lookup (rs_apply now (ExitedEvent i code sig at) (rs_delete [i] s)) i
     = Some ((idle_runtime i)\<lparr>pr_exit_code := code, pr_exit_signal := sig\<rparr>)"
  by (simp add: rs_lookups idle_runtime_def zero_runtime_def)

end
