(* ===== verification/Registry.thy ===== *)
theory Registry
  imports Ring_Buffer Line_Buffer Ansi Rotator Config
begin

text \<open>
  The log pipelines of \<open>internal/state/registry.go\<close>: per project a ring of decoded lines, a line
  splitter and, when a log directory is configured, a rotated file with the escape-free text. The
  files on disk and a fault oracle are threaded through, so that a failing disk is part of the model.
\<close>

section \<open>State\<close>

record entry =
  en_ring :: "line ring"
  en_rot :: "rotator option"
  en_line :: line_buffer

record registry =
  reg_m :: "entry gomap"
  reg_cfg :: settings

definition zero_line :: line where
  "zero_line = \<lparr>ln_bytes = [], ln_rendered = [], ln_partial = False, ln_time = zero_time\<rparr>"

definition new_registry :: "settings \<Rightarrow> registry" where
  "new_registry cfg = \<lparr>reg_m = [], reg_cfg = cfg\<rparr>"

definition log_path :: "settings \<Rightarrow> string \<Rightarrow> string" where
  "log_path cfg pid = join_path [log_dir cfg, pid @ ''.log'']"

text \<open>The pipeline \<open>Get\<close> builds on the first access.\<close>

definition make_entry :: "faults \<Rightarrow> settings \<Rightarrow> string \<Rightarrow> files \<Rightarrow> entry \<times> files" where
  "make_entry orc cfg pid fs =
     (let cap = (if log_buffer_lines cfg \<le> 0 then 1000 else log_buffer_lines cfg);
          (rot, fs1) =
            (if log_dir cfg \<noteq> [] then
               (case new_rotator orc (log_path cfg pid) (log_rotate_size_mb cfg) (log_rotate_keep cfg) fs of
                  (Inl _, fs') \<Rightarrow> (None, fs') | (Inr r, fs') \<Rightarrow> (Some r, fs'))
             else (None, fs))
      in (\<lparr>en_ring = new_ring_buffer zero_line cap, en_rot = rot, en_line = new_line_buffer 0\<rparr>, fs1))"

definition reg_get :: "faults \<Rightarrow> string \<Rightarrow> registry \<times> files \<Rightarrow> entry \<times> registry \<times> files" where
  "reg_get orc pid w =
     (let (r, fs) = w in
      case map_of (reg_m r) pid of
        Some e \<Rightarrow> (e, r, fs)
      | None \<Rightarrow>
          (let (e, fs1) = make_entry orc (reg_cfg r) pid fs
           in (e, r\<lparr>reg_m := AList.update pid e (reg_m r)\<rparr>, fs1)))"

text \<open>The body of the loop of \<open>WriteRaw\<close>; the result of the disk write is ignored.\<close>

definition write_line :: "faults \<Rightarrow> line \<Rightarrow> entry \<times> files \<Rightarrow> entry \<times> files" where
  "write_line orc l ef =
     (let (e, fs) = ef;
          l1 = l\<lparr>ln_rendered := decode_for_render (ln_bytes l)\<rparr>;
          e1 = e\<lparr>en_ring := ring_push l1 (en_ring e)\<rparr>
      in case en_rot e of
           None \<Rightarrow> (e1, fs)
         | Some rot \<Rightarrow>
             (let (_, rot1, fs1) = rot_write orc (strip_ansi (ln_bytes l) @ [lf]) rot fs
              in (e1\<lparr>en_rot := Some rot1\<rparr>, fs1)))"

definition write_raw :: "faults \<Rightarrow> time \<Rightarrow> string \<Rightarrow> bytes \<Rightarrow> registry \<times> files \<Rightarrow> registry \<times> files" where
  "write_raw orc now pid b w =
     (let (e, r, fs) = reg_get orc pid w;
          (lines, lb) = feed now b (en_line e);
          (e1, fs1) = fold (write_line orc) lines (e\<lparr>en_line := lb\<rparr>, fs)
      in (r\<lparr>reg_m := AList.update pid e1 (reg_m r)\<rparr>, fs1))"

definition clear_buffer :: "string \<Rightarrow> registry \<Rightarrow> registry" where
  "clear_buffer pid r =
     (case map_of (reg_m r) pid of
        None \<Rightarrow> r
      | Some e \<Rightarrow> r\<lparr>reg_m := AList.update pid (e\<lparr>en_ring := ring_clear zero_line (en_ring e)\<rparr>) (reg_m r)\<rparr>)"

definition reg_close :: "faults \<Rightarrow> registry \<Rightarrow> registry" where
  "reg_close orc r = r\<lparr>reg_m := map (\<lambda>(k, e).
     (k, e\<lparr>en_rot := map_option (\<lambda>rot. fst (rot_close orc rot)) (en_rot e)\<rparr>)) (reg_m r)\<rparr>"

section \<open>The in-memory log does not see the disk\<close>

definition render_line :: "line \<Rightarrow> line" where
  "render_line l = l\<lparr>ln_rendered := decode_for_render (ln_bytes l)\<rparr>"

lemma write_line_frame:
  "en_ring (fst (write_line orc l ef)) = ring_push (render_line l) (en_ring (fst ef))"
  "en_line (fst (write_line orc l ef)) = en_line (fst ef)"
  by (auto simp: write_line_def render_line_def Let_def split: prod.splits option.splits)

lemma fold_write_line_frame:
  "en_ring (fst (fold (write_line orc) lines ef)) = fold ring_push (map render_line lines) (en_ring (fst ef))
   \<and> en_line (fst (fold (write_line orc) lines ef)) = en_line (fst ef)"
  by (induction lines arbitrary: ef) (auto simp: write_line_frame)

definition reg_entry :: "registry \<times> files \<Rightarrow> string \<Rightarrow> entry option" where
  "reg_entry w pid = map_of (reg_m (fst w)) pid"

text \<open>The ring and the splitter a project has, or gets on first access.\<close>

definition fresh_ring :: "settings \<Rightarrow> line ring" where
  "fresh_ring cfg =
     new_ring_buffer zero_line (if log_buffer_lines cfg \<le> 0 then 1000 else log_buffer_lines cfg)"

definition ring_of :: "registry \<times> files \<Rightarrow> string \<Rightarrow> line ring" where
  "ring_of w pid = (case reg_entry w pid of Some e \<Rightarrow> en_ring e | None \<Rightarrow> fresh_ring (reg_cfg (fst w)))"

definition splitter_of :: "registry \<times> files \<Rightarrow> string \<Rightarrow> line_buffer" where
  "splitter_of w pid = (case reg_entry w pid of Some e \<Rightarrow> en_line e | None \<Rightarrow> new_line_buffer 0)"

definition reg_inv :: "registry \<times> files \<Rightarrow> bool" where
  "reg_inv w \<longleftrightarrow> gomap_ok (reg_m (fst w)) \<and> (\<forall>pid. ring_inv (ring_of w pid) \<and> line_inv (splitter_of w pid))"

lemma reg_get_result:
  assumes "reg_get orc pid w = (e, r, fs)"
  shows "en_ring e = ring_of w pid" "en_line e = splitter_of w pid" "reg_cfg r = reg_cfg (fst w)"
    "gomap_ok (reg_m (fst w)) \<Longrightarrow> gomap_ok (reg_m r)"
    "q \<noteq> pid \<Longrightarrow> map_of (reg_m r) q = map_of (reg_m (fst w)) q"
  using assms
  by (auto simp: reg_get_def make_entry_def ring_of_def splitter_of_def fresh_ring_def reg_entry_def Let_def
      split: prod.splits option.splits sum.splits if_splits)

lemma write_raw_rings:
  assumes "feed now b (splitter_of w pid) = (lines, lb)"
  shows "ring_of (write_raw orc now pid b w) q =
      (if q = pid then fold ring_push (map render_line lines) (ring_of w pid) else ring_of w q)"
    "splitter_of (write_raw orc now pid b w) q = (if q = pid then lb else splitter_of w q)"
    "gomap_ok (reg_m (fst w)) \<Longrightarrow> gomap_ok (reg_m (fst (write_raw orc now pid b w)))"
    "reg_cfg (fst (write_raw orc now pid b w)) = reg_cfg (fst w)"
proof -
  obtain e r fs where g: "reg_get orc pid w = (e, r, fs)" by (metis prod.collapse)
  obtain e1 fs1 where f: "fold (write_line orc) lines (e\<lparr>en_line := lb\<rparr>, fs) = (e1, fs1)"
    by (metis prod.collapse)
  have e1: "en_ring e1 = fold ring_push (map render_line lines) (en_ring e)" "en_line e1 = lb"
    using fold_write_line_frame [of orc lines "(e\<lparr>en_line := lb\<rparr>, fs)"] f by auto
  have w: "write_raw orc now pid b w = (r\<lparr>reg_m := AList.update pid e1 (reg_m r)\<rparr>, fs1)"
    using g f assms reg_get_result(2) [OF g] by (simp add: write_raw_def)
  show "ring_of (write_raw orc now pid b w) q =
      (if q = pid then fold ring_push (map render_line lines) (ring_of w pid) else ring_of w q)"
    "splitter_of (write_raw orc now pid b w) q = (if q = pid then lb else splitter_of w q)"
    "gomap_ok (reg_m (fst w)) \<Longrightarrow> gomap_ok (reg_m (fst (write_raw orc now pid b w)))"
    "reg_cfg (fst (write_raw orc now pid b w)) = reg_cfg (fst w)"
    using e1 reg_get_result [OF g]
    by (auto simp: w ring_of_def splitter_of_def reg_entry_def cong: option.case_cong)
qed

lemma reg_inv_write:
  assumes "reg_inv w"
  shows "reg_inv (write_raw orc now pid b w)"
proof -
  obtain lines lb where f: "feed now b (splitter_of w pid) = (lines, lb)" by (metis prod.collapse)
  have "line_inv lb" using assms line_inv_feed [of "splitter_of w pid" now b] f by (simp add: reg_inv_def)
  moreover have "ring_inv (fold ring_push xs (ring_of w pid))" for xs
    using assms ring.fold_push [of "ring_of w pid" xs] by (simp add: reg_inv_def)
  ultimately show ?thesis
    using assms by (simp add: reg_inv_def write_raw_rings [OF f])
qed

lemma reg_inv_new: "reg_inv (new_registry cfg, fs)"
  by (simp add: reg_inv_def new_registry_def ring_of_def splitter_of_def reg_entry_def fresh_ring_def
      ring_inv_new line_inv_new)

section \<open>The interface the children write to\<close>

text \<open>The lines a splitter yields over several chunks.\<close>

fun lines_of :: "line_buffer \<Rightarrow> (time \<times> bytes) list \<Rightarrow> line list" where
  "lines_of lb [] = []"
| "lines_of lb ((now, b) # cs) = fst (feed now b lb) @ lines_of (snd (feed now b lb)) cs"

definition chunks_of :: "string \<Rightarrow> (time \<times> string \<times> bytes) list \<Rightarrow> (time \<times> bytes) list" where
  "chunks_of i ws = map (\<lambda>(now, _, b). (now, b)) (filter (\<lambda>(_, j, _). j = i) ws)"

text \<open>
  \<open>process.Registry\<close>: raw output of one project goes in, decoded lines of that project come out, and
  the projects do not disturb each other.
\<close>

locale log_sink =
  fixes inv :: "'s \<Rightarrow> bool"
    and put_raw :: "time \<Rightarrow> string \<Rightarrow> bytes \<Rightarrow> 's \<Rightarrow> 's"
    and shown :: "'s \<Rightarrow> string \<Rightarrow> line list"
    and pending :: "'s \<Rightarrow> string \<Rightarrow> line_buffer"
    and limit :: "'s \<Rightarrow> string \<Rightarrow> nat"
  assumes write_inv: "inv s \<Longrightarrow> inv (put_raw now i b s)"
    and write_limit: "limit (put_raw now i b s) j = limit s j"
    and write_shown: "inv s \<Longrightarrow> shown (put_raw now i b s) j =
      (if j = i then lastn (limit s i) (shown s i @ map render_line (fst (feed now b (pending s i))))
       else shown s j)"
    and write_pending: "pending (put_raw now i b s) j =
      (if j = i then snd (feed now b (pending s i)) else pending s j)"
    and shown_limit: "inv s \<Longrightarrow> length (shown s j) \<le> limit s j"
begin

definition run_writes :: "(time \<times> string \<times> bytes) list \<Rightarrow> 's \<Rightarrow> 's" where
  "run_writes ws s = fold (\<lambda>(now, i, b). put_raw now i b) ws s"

lemma run_writes_shown:
  "inv s \<Longrightarrow> inv (run_writes ws s)
     \<and> shown (run_writes ws s) i
       = lastn (limit s i) (shown s i @ map render_line (lines_of (pending s i) (chunks_of i ws)))"
proof (induction ws arbitrary: s)
  case Nil
  then show ?case by (simp add: run_writes_def chunks_of_def shown_limit)
next
  case (Cons w ws)
  obtain now j b where w: "w = (now, j, b)" by (cases w)
  have "run_writes (w # ws) s = run_writes ws (put_raw now j b s)" by (simp add: run_writes_def w)
  moreover have "chunks_of i (w # ws) = (if j = i then (now, b) # chunks_of i ws else chunks_of i ws)"
    by (simp add: chunks_of_def w)
  ultimately show ?case
    using Cons.IH [of "put_raw now j b s"] Cons.prems
    by (simp add: write_inv write_limit write_shown write_pending lastn_lastn_append)
qed

end

lemma ring_of_capacity:
  "rb_cap (ring_of (write_raw orc now i b w) j) = rb_cap (ring_of w j)"
proof -
  obtain lines lb where f: "feed now b (splitter_of w i) = (lines, lb)" by (metis prod.collapse)
  have "rb_cap (fold ring_push xs r) = rb_cap r" for xs and r :: "line ring"
    by (induction xs arbitrary: r) (simp_all add: ring.push_capacity)
  then show ?thesis by (simp add: write_raw_rings [OF f])
qed

interpretation sink: log_sink reg_inv "write_raw orc" "\<lambda>w i. ring_snapshot (ring_of w i)" splitter_of
  "\<lambda>w i. rb_cap (ring_of w i)"
proof unfold_locales
  fix w :: "registry \<times> files" and now i b j
  obtain lines lb where f: "feed now b (splitter_of w i) = (lines, lb)" by (metis prod.collapse)
  show "reg_inv w \<Longrightarrow> reg_inv (write_raw orc now i b w)" by (rule reg_inv_write)
  show "rb_cap (ring_of (write_raw orc now i b w) j) = rb_cap (ring_of w j)" by (rule ring_of_capacity)
  show "reg_inv w \<Longrightarrow> ring_snapshot (ring_of (write_raw orc now i b w) j) =
      (if j = i then lastn (rb_cap (ring_of w i))
         (ring_snapshot (ring_of w i) @ map render_line (fst (feed now b (splitter_of w i))))
       else ring_snapshot (ring_of w j))"
    using ring.fold_push [of "ring_of w i" "map render_line lines"]
    by (simp add: write_raw_rings [OF f] f reg_inv_def)
  show "splitter_of (write_raw orc now i b w) j =
      (if j = i then snd (feed now b (splitter_of w i)) else splitter_of w j)"
    by (simp add: write_raw_rings [OF f] f)
  show "reg_inv w \<Longrightarrow> length (ring_snapshot (ring_of w j)) \<le> rb_cap (ring_of w j)"
    by (simp add: reg_inv_def ring_inv_count)
qed

section \<open>Properties\<close>

text \<open>
  C17: whatever the interleaving of the raw output of all projects and whatever goes wrong on disk, the
  in-memory log of a project is the last \<open>cap\<close> lines of: what it showed before, then the lines its own
  chunks split into, each with its rendering cached; a project that is first heard of gets an empty
  log of the configured size.
\<close>
theorem registry_log:
  assumes "reg_inv w"
  shows "ring_snapshot (ring_of (fold (\<lambda>(now, j, b). write_raw orc now j b) ws w) i)
    = lastn (rb_cap (ring_of w i))
        (ring_snapshot (ring_of w i) @ map render_line (lines_of (splitter_of w i) (chunks_of i ws)))"
  using sink.run_writes_shown [OF assms, of orc ws i] by (simp add: sink.run_writes_def)

theorem registry_log_witness:
  "length (ring_snapshot (ring_of (fold (\<lambda>(now, j, b). write_raw no_fault now j b)
     [(1, ''a'', ''x'' @ [lf]), (2, ''b'', ''y'' @ [lf])] (new_registry (default_settings\<lparr>log_dir := []\<rparr>), \<lambda>_. None)) ''a'')) = 1"
proof -
  let ?w = "(new_registry (default_settings\<lparr>log_dir := []\<rparr>), \<lambda>_. None)"
  have "lines_of (splitter_of ?w ''a'') (chunks_of ''a'' [(1, ''a'', ''x'' @ [lf]), (2, ''b'', ''y'' @ [lf])])
      = [mk_line ''x'' False 1]"
    by (simp add: splitter_of_def reg_entry_def new_registry_def chunks_of_def feed_scan line_inv_new)
      (simp add: new_line_buffer_def default_max_line_size_def)
  moreover have "rb_cap (ring_of ?w ''a'') = 1000" "ring_snapshot (ring_of ?w ''a'') = []"
    by (simp_all add: ring_of_def reg_entry_def new_registry_def fresh_ring_def default_settings_def
        new_ring_buffer_def ring_snapshot_def)
  ultimately show ?thesis
    using registry_log [OF reg_inv_new, of no_fault "[(1, ''a'', ''x'' @ [lf]), (2, ''b'', ''y'' @ [lf])]"
        "default_settings\<lparr>log_dir := []\<rparr>" "\<lambda>_. None" "''a''"]
    by (simp del: fold_simps)
qed

end
