(* ===== verification/Restart_Policy.thy ===== *)
theory Restart_Policy
  imports Prelude
begin

text \<open>
  The restart policy of \<open>internal/process/restart.go\<close>: the attempt counter, the backoff table and the
  timer that resets the counter after a stable run. Every method holds the mutex, so each one is a
  function of the state. The timer is the instant at which its callback runs, if it is armed; a
  callback that has already started when the timer is stopped is not modelled.
\<close>

datatype action = ActionNone | ActionRestart | ActionGiveUp

record policy =
  po_mode :: string
  po_backoffs :: "duration list"
  po_max_attempts :: int
  po_reset_after :: duration
  po_attempts :: int
  po_reset_timer :: "time option"

definition new_policy :: "string \<Rightarrow> int list \<Rightarrow> int \<Rightarrow> int \<Rightarrow> policy" where
  "new_policy mode backoffs_ms max_attempts reset_after_ms =
     \<lparr>po_mode = mode, po_backoffs = map duration_of_ms backoffs_ms,
      po_max_attempts = max_attempts, po_reset_after = duration_of_ms reset_after_ms,
      po_attempts = 0, po_reset_timer = None\<rparr>"

definition stop_reset_timer :: "policy \<Rightarrow> policy" where
  "stop_reset_timer p = p\<lparr>po_reset_timer := None\<rparr>"

definition policy_on_start :: "time \<Rightarrow> policy \<Rightarrow> time \<times> policy" where
  "policy_on_start now p =
     (let p1 = stop_reset_timer p
      in (now, if po_reset_after p1 > 0 then p1\<lparr>po_reset_timer := Some (now + po_reset_after p1)\<rparr> else p1))"

text \<open>The callback of the timer.\<close>

definition policy_timer_fires :: "time \<Rightarrow> policy \<Rightarrow> policy" where
  "policy_timer_fires now p =
     (case po_reset_timer p of
        None \<Rightarrow> p
      | Some d \<Rightarrow> if d \<le> now then p\<lparr>po_attempts := 0, po_reset_timer := None\<rparr> else p)"

definition backoff :: "policy \<Rightarrow> duration" where
  "backoff p =
     (let n = int (length (po_backoffs p));
          idx = (if po_attempts p \<ge> n then n - 1 else po_attempts p)
      in if idx \<ge> 0 \<and> n > 0 then po_backoffs p ! nat idx else 0)"

definition policy_on_exit :: "int \<Rightarrow> string \<Rightarrow> policy \<Rightarrow> (action \<times> duration) \<times> policy" where
  "policy_on_exit code sig p =
     (let p1 = stop_reset_timer p
      in if code = 0 then ((ActionNone, 0), p1\<lparr>po_attempts := 0\<rparr>)
         else if po_mode p1 \<noteq> ''on-failure'' then ((ActionNone, 0), p1)
         else if po_attempts p1 \<ge> po_max_attempts p1 then ((ActionGiveUp, 0), p1)
         else ((ActionRestart, backoff p1), p1\<lparr>po_attempts := po_attempts p1 + 1\<rparr>))"

definition policy_manual_restart :: "policy \<Rightarrow> (action \<times> duration) \<times> policy" where
  "policy_manual_restart p = ((ActionRestart, 0), (stop_reset_timer p)\<lparr>po_attempts := 0\<rparr>)"

definition policy_stop :: "policy \<Rightarrow> policy" where
  "policy_stop p = stop_reset_timer p"

definition policy_attempts :: "policy \<Rightarrow> int" where
  "policy_attempts p = po_attempts p"

section \<open>Crash loops\<close>

text \<open>
  A child that starts and fails again and again: the decisions of the policy. The list gives the start, the end
  and the exit code of each run; the timer has fired by the end of a run if its time is reached.
\<close>

fun crash_loop :: "(time \<times> time \<times> int) list \<Rightarrow> policy \<Rightarrow> (action \<times> duration) list \<times> policy" where
  "crash_loop [] p = ([], p)"
| "crash_loop ((t, u, code) # rs) p =
     (let (_, p1) = policy_on_start t p;
          (a, p2) = policy_on_exit code [] (policy_timer_fires u p1);
          (as, p3) = crash_loop rs p2
      in (a # as, p3))"

text \<open>A run that ends before the timer, if one is armed.\<close>

definition short_run :: "duration \<Rightarrow> time \<times> time \<times> int \<Rightarrow> bool" where
  "short_run reset_after r \<longleftrightarrow> (0 < reset_after \<longrightarrow> fst (snd r) < fst r + reset_after)"

definition policy_frame :: "policy \<Rightarrow> policy \<Rightarrow> bool" where
  "policy_frame p q \<longleftrightarrow> po_mode q = po_mode p \<and> po_backoffs q = po_backoffs p
     \<and> po_max_attempts q = po_max_attempts p \<and> po_reset_after q = po_reset_after p"

text \<open>The table of delays: entry \<open>k\<close>, the last one when there are fewer, 0 when there are none.\<close>

definition delay_of :: "policy \<Rightarrow> nat \<Rightarrow> duration" where
  "delay_of p k = (if po_backoffs p = [] then 0 else po_backoffs p ! min k (length (po_backoffs p) - 1))"

lemma backoff_delay: "po_attempts p = int k \<Longrightarrow> backoff p = delay_of p k"
proof (cases "po_backoffs p = []")
  case False
  assume k: "po_attempts p = int k"
  from False have "nat (int (length (po_backoffs p)) - 1) = length (po_backoffs p) - 1"
    by (cases "po_backoffs p") auto
  moreover from False have "min k (length (po_backoffs p) - 1) = (if k \<ge> length (po_backoffs p)
      then length (po_backoffs p) - 1 else k)"
    by (cases "po_backoffs p") auto
  ultimately show ?thesis using k False by (simp add: backoff_def delay_of_def Let_def)
qed (simp add: backoff_def delay_of_def Let_def)

lemma fst_crash_loop:
  "fst (crash_loop ((t, u, code) # rs) p) =
     (let q = policy_on_exit code [] (policy_timer_fires u (snd (policy_on_start t p)))
      in fst q # fst (crash_loop rs (snd q)))"
  by (simp add: Let_def split: prod.splits)

lemma short_run_keeps:
  "short_run (po_reset_after p) (t, u, code) \<Longrightarrow>
   policy_on_exit code sig (policy_timer_fires u (snd (policy_on_start t p))) = policy_on_exit code sig (snd (policy_on_start t p))"
  by (auto simp: policy_timer_fires_def policy_on_start_def stop_reset_timer_def short_run_def Let_def)

lemma upt_first: "[k..<k + length (r # rs)] = k # [Suc k..<Suc k + length rs]"
  by (simp add: upt_conv_Cons del: upt_Suc)

lemma decisions_cong:
  "policy_frame p q \<Longrightarrow> delay_of q = delay_of p \<and> po_max_attempts q = po_max_attempts p
     \<and> po_mode q = po_mode p \<and> po_reset_after q = po_reset_after p"
  by (auto simp: delay_of_def policy_frame_def)

lemma crash_step:
  assumes "po_mode p = ''on-failure''" "code \<noteq> 0" "po_attempts p = int k"
  shows "\<exists>p'. policy_on_exit code [] (snd (policy_on_start t p)) =
      (if int k < po_max_attempts p then (ActionRestart, delay_of p k) else (ActionGiveUp, 0), p')
    \<and> policy_frame p p' \<and> po_attempts p' = (if int k < po_max_attempts p then int k + 1 else int k)"
  using assms backoff_delay [of p k]
  by (auto simp: policy_on_exit_def policy_on_start_def stop_reset_timer_def policy_frame_def
      backoff_def Let_def)

definition decision :: "policy \<Rightarrow> nat \<Rightarrow> action \<times> duration" where
  "decision p j = (if j < nat (po_max_attempts p) then (ActionRestart, delay_of p j) else (ActionGiveUp, 0))"

lemma crash_loop_from:
  "po_mode p = ''on-failure'' \<Longrightarrow> \<forall>r \<in> set rs. snd (snd r) \<noteq> 0 \<and> short_run (po_reset_after p) r \<Longrightarrow>
   po_attempts p = int (min j (nat (po_max_attempts p))) \<Longrightarrow> fst (crash_loop rs p) = map (decision p) [j..<j + length rs]"
proof (induction rs arbitrary: p j)
  case (Cons r rs)
  obtain t u code where r: "r = (t, u, code)" by (cases r)
  let ?q = "policy_on_exit code [] (snd (policy_on_start t p))"
  have step: "fst ?q = decision p j \<and> policy_frame p (snd ?q)
      \<and> po_attempts (snd ?q) = int (min (Suc j) (nat (po_max_attempts p)))"
    using crash_step [of p code "min j (nat (po_max_attempts p))" t] Cons.prems r
    by (auto simp: decision_def min_def split: if_splits)
  then have "fst (crash_loop rs (snd ?q)) = map (decision (snd ?q)) [Suc j..<Suc j + length rs]"
    using Cons.prems decisions_cong [of p "snd ?q"] by (intro Cons.IH) auto
  moreover have "decision (snd ?q) = decision p"
    using step decisions_cong [of p "snd ?q"] by (auto simp: decision_def fun_eq_iff)
  ultimately show ?case
    using step short_run_keeps [of p t u code "[]"] Cons.prems(2)
    unfolding r upt_first fst_crash_loop by (simp add: Let_def)
qed simp

section \<open>Properties\<close>

text \<open>
  C3: a crash loop under \<open>on-failure\<close> is restarted exactly \<open>restart_max_attempts\<close> times, the k-th time
  after the k-th backoff (the last entry of the table once it is used up), and every further crash
  gives up. A crash loop is a sequence of failing runs each of which ends before its reset timer: when they start and
  how long they take does not matter otherwise. The backoffs are the configured milliseconds as 64-bit nanoseconds, so
  those out of range wrap.
\<close>
theorem crash_loop_decisions:
  assumes "\<forall>(t_start, t_end, code) \<in> set rs.
      code \<noteq> 0 \<and> (0 < duration_of_ms reset \<longrightarrow> t_end < t_start + duration_of_ms reset)"
  shows "fst (crash_loop rs (new_policy ''on-failure'' backoffs max_attempts reset)) =
    map (\<lambda>k. if k < nat max_attempts
             then (ActionRestart, if backoffs = [] then 0
                     else duration_of_ms (backoffs ! min k (length backoffs - 1)))
             else (ActionGiveUp, 0)) [0..<length rs]"
proof -
  have "decision (new_policy ''on-failure'' backoffs max_attempts reset) k = (if k < nat max_attempts
      then (ActionRestart, if backoffs = [] then 0 else duration_of_ms (backoffs ! min k (length backoffs - 1)))
      else (ActionGiveUp, 0))" for k
  proof (cases "backoffs = []")
    case False
    then have "min k (length backoffs - 1) < length backoffs" by (cases backoffs) auto
    then show ?thesis by (simp add: decision_def delay_of_def new_policy_def)
  qed (simp add: decision_def delay_of_def new_policy_def)
  moreover have "\<forall>r \<in> set rs. snd (snd r) \<noteq> 0 \<and> short_run (duration_of_ms reset) r"
    using assms by (auto simp: short_run_def)
  ultimately show ?thesis
    using crash_loop_from [of "new_policy ''on-failure'' backoffs max_attempts reset" rs 0]
    by (simp add: new_policy_def)
qed

theorem crash_loop_decisions_witness:
  "fst (crash_loop [(1, 2, 1), (5, 9, 1), (30, 31, 2)] (new_policy ''on-failure'' [5] 2 1000)) =
     [(ActionRestart, 5 * millisecond), (ActionRestart, 5 * millisecond), (ActionGiveUp, 0)]"
  using crash_loop_decisions [of "[(1, 2, 1), (5, 9, 1), (30, 31, 2)]" 1000 "[5]" 2]
  by (simp add: upt_rec duration_of_ms_small millisecond_def)

text \<open>
  The counter is forgiven: after a clean exit, a manual restart, or a run that outlives
  \<open>restart_reset_after_ms\<close>, the next failure is treated as the first one.
\<close>
theorem attempts_forgiven:
  assumes "po_mode p = ''on-failure''" "0 < po_max_attempts p" "code \<noteq> 0"
    and "0 < po_reset_after p" "t + po_reset_after p \<le> now"
  shows "fst (policy_on_exit code sig (snd (policy_on_exit 0 [] p))) = (ActionRestart, delay_of p 0)
    \<and> fst (policy_on_exit code sig (snd (policy_manual_restart p))) = (ActionRestart, delay_of p 0)
    \<and> fst (policy_on_exit code sig (policy_timer_fires now (snd (policy_on_start t p))))
        = (ActionRestart, delay_of p 0)"
  using assms
  by (auto simp: policy_on_exit_def policy_manual_restart_def policy_timer_fires_def policy_on_start_def
      stop_reset_timer_def backoff_def delay_of_def Let_def)

theorem attempts_forgiven_witness:
  "fst (policy_on_exit 1 [] (snd (policy_manual_restart (new_policy ''on-failure'' [7] 3 1000))))
     = (ActionRestart, 7 * millisecond)"
  using attempts_forgiven [of "new_policy ''on-failure'' [7] 3 1000" 1 0 "1000 * millisecond" "[]"]
  by (simp add: new_policy_def delay_of_def millisecond_def duration_of_ms_small)

end
