(* ===== verification/Ui_Store.thy ===== *)
theory Ui_Store
  imports Prelude
begin

text \<open>
  The transient state of the terminal interface, \<open>internal/state/ui.go\<close>: selection, filter, scroll,
  overlay and toasts, with the same capacity-one notification channels as the runtime store. The
  compiler of regular expressions is a parameter: \<open>None\<close> is a compile error.
\<close>

datatype overlay_kind = OverlayNone | OverlayHelp | OverlayFilter

record toast =
  t_message :: string
  t_at :: time
  t_duration :: duration

record 're ui_store =
  ui_selected_id :: string
  ui_filter_text :: string
  ui_filter_regex :: "'re option"
  ui_filter_err :: "string option"
  ui_log_scroll :: int
  ui_sticky_bottom :: bool
  ui_overlay :: overlay_kind
  ui_toasts :: "toast list"
  ui_subs :: "bool list"

record 're ui_snapshot =
  us_selected_id :: string
  us_filter_text :: string
  us_filter_regex :: "'re option"
  us_log_scroll :: int
  us_sticky_bottom :: bool
  us_overlay :: overlay_kind
  us_toasts :: "toast list"

definition new_ui_store :: "'re ui_store" where
  "new_ui_store = \<lparr>ui_selected_id = [], ui_filter_text = [], ui_filter_regex = None, ui_filter_err = None,
     ui_log_scroll = 0, ui_sticky_bottom = True, ui_overlay = OverlayNone, ui_toasts = [], ui_subs = []\<rparr>"

definition ui_notify :: "'re ui_store \<Rightarrow> 're ui_store" where
  "ui_notify u = u\<lparr>ui_subs := map (\<lambda>full. if full then full else True) (ui_subs u)\<rparr>"

definition ui_subscribe :: "'re ui_store \<Rightarrow> nat \<times> 're ui_store" where
  "ui_subscribe u = (length (ui_subs u), u\<lparr>ui_subs := ui_subs u @ [False]\<rparr>)"

definition set_selected_id :: "string \<Rightarrow> 're ui_store \<Rightarrow> 're ui_store" where
  "set_selected_id i u = ui_notify (u\<lparr>ui_selected_id := i\<rparr>)"

text \<open>The stored error names the text (the rendering of the compiler's message is left out).\<close>

definition set_filter ::
  "(string \<Rightarrow> 're option) \<Rightarrow> string \<Rightarrow> 're ui_store \<Rightarrow> string option \<times> 're ui_store" where
  "set_filter compile txt u =
     (let u1 = u\<lparr>ui_filter_text := txt\<rparr>
      in if txt = [] then (None, ui_notify (u1\<lparr>ui_filter_regex := None, ui_filter_err := None\<rparr>))
         else (case compile txt of
                 None \<Rightarrow> (Some txt, ui_notify (u1\<lparr>ui_filter_regex := None, ui_filter_err := Some txt\<rparr>))
               | Some re \<Rightarrow> (None, ui_notify (u1\<lparr>ui_filter_regex := Some re, ui_filter_err := None\<rparr>))))"

definition set_log_scroll :: "int \<Rightarrow> 're ui_store \<Rightarrow> 're ui_store" where
  "set_log_scroll n u = ui_notify (u\<lparr>ui_log_scroll := (if n < 0 then 0 else n)\<rparr>)"

definition set_sticky_bottom :: "bool \<Rightarrow> 're ui_store \<Rightarrow> 're ui_store" where
  "set_sticky_bottom v u = ui_notify (u\<lparr>ui_sticky_bottom := v\<rparr>)"

definition set_overlay :: "overlay_kind \<Rightarrow> 're ui_store \<Rightarrow> 're ui_store" where
  "set_overlay k u = ui_notify (u\<lparr>ui_overlay := k\<rparr>)"

definition push_toast :: "time \<Rightarrow> string \<Rightarrow> duration \<Rightarrow> 're ui_store \<Rightarrow> 're ui_store" where
  "push_toast now msg dur u =
     ui_notify (u\<lparr>ui_toasts := ui_toasts u @ [\<lparr>t_message = msg, t_at = now, t_duration = dur\<rparr>]\<rparr>)"

definition toast_kept :: "time \<Rightarrow> toast \<Rightarrow> bool" where
  "toast_kept now t \<longleftrightarrow> t_duration t \<le> 0 \<or> now - t_at t < t_duration t"

definition pop_expired_toasts :: "time \<Rightarrow> 're ui_store \<Rightarrow> 're ui_store" where
  "pop_expired_toasts now u = u\<lparr>ui_toasts := filter (toast_kept now) (ui_toasts u)\<rparr>"

definition take_ui_snapshot :: "'re ui_store \<Rightarrow> 're ui_snapshot" where
  "take_ui_snapshot u = \<lparr>us_selected_id = ui_selected_id u, us_filter_text = ui_filter_text u,
     us_filter_regex = ui_filter_regex u, us_log_scroll = ui_log_scroll u,
     us_sticky_bottom = ui_sticky_bottom u, us_overlay = ui_overlay u, us_toasts = ui_toasts u\<rparr>"

section \<open>Invariant\<close>

text \<open>The filter fields agree with the text, and the scroll offset is not negative.\<close>

definition ui_inv :: "(string \<Rightarrow> 're option) \<Rightarrow> 're ui_store \<Rightarrow> bool" where
  "ui_inv compile u \<longleftrightarrow> 0 \<le> ui_log_scroll u
     \<and> ui_filter_regex u = (if ui_filter_text u = [] then None else compile (ui_filter_text u))
     \<and> ui_filter_err u = (if ui_filter_text u = [] \<or> compile (ui_filter_text u) \<noteq> None then None
                            else Some (ui_filter_text u))"

datatype ui_op =
    SetSelected string
  | SetFilter string
  | SetScroll int
  | SetSticky bool
  | SetOverlay overlay_kind
  | PushToast time string duration
  | PopToasts time

fun ui_step :: "(string \<Rightarrow> 're option) \<Rightarrow> ui_op \<Rightarrow> 're ui_store \<Rightarrow> 're ui_store" where
  "ui_step compile (SetSelected i) u = set_selected_id i u"
| "ui_step compile (SetFilter t) u = snd (set_filter compile t u)"
| "ui_step compile (SetScroll n) u = set_log_scroll n u"
| "ui_step compile (SetSticky v) u = set_sticky_bottom v u"
| "ui_step compile (SetOverlay k) u = set_overlay k u"
| "ui_step compile (PushToast now m d) u = push_toast now m d u"
| "ui_step compile (PopToasts now) u = pop_expired_toasts now u"

lemmas ui_defs = ui_notify_def set_selected_id_def set_filter_def set_log_scroll_def
  set_sticky_bottom_def set_overlay_def push_toast_def pop_expired_toasts_def

lemma ui_inv_new: "ui_inv compile new_ui_store"
  by (simp add: ui_inv_def new_ui_store_def)

lemma ui_inv_step: "ui_inv compile u \<Longrightarrow> ui_inv compile (ui_step compile op u)"
  by (cases op) (auto simp: ui_inv_def ui_defs Let_def split: option.splits)

lemma ui_inv_run: "ui_inv compile u \<Longrightarrow> ui_inv compile (fold (ui_step compile) ops u)"
  by (induction ops arbitrary: u) (auto simp: ui_inv_step)

text \<open>
  After any sequence of interface operations the scroll offset is not negative, the filter regex is
  the compilation of the filter text (none for the empty text), and an error is kept exactly when the
  text does not compile.
\<close>
theorem ui_filter_consistent:
  "let u = fold (ui_step compile) ops new_ui_store
   in 0 \<le> ui_log_scroll u
     \<and> ui_filter_regex u = (if ui_filter_text u = [] then None else compile (ui_filter_text u))
     \<and> (ui_filter_err u \<noteq> None) = (ui_filter_text u \<noteq> [] \<and> compile (ui_filter_text u) = None)"
  using ui_inv_run [OF ui_inv_new, of compile ops] by (auto simp: ui_inv_def Let_def)

end
