(* ===== verification/Child.thy ===== *)
theory Child
  imports Config Line_Buffer Runtime_Store Restart_Policy
begin

text \<open>
  One supervised process: \<open>internal/process/child.go\<close> with \<open>signals.go\<close>, \<open>events.go\<close> and the spawn of
  \<open>pty.go\<close>. The goroutines of the child (the callers of \<open>Start\<close>, \<open>Stop\<close> and \<open>Restart\<close>, and \<open>run\<close>) are
  threads: lists of the atomic actions still to do, one per section under the mutex, channel
  operation or system call of the source, in the source's order. A scheduler picks the thread; what the
  operating system answers is the input of the step. So every interleaving of the code is a run of the
  model.
\<close>

section \<open>States, inputs and threads\<close>

definition state_idle :: string where "state_idle = ''idle''"
definition state_starting :: string where "state_starting = ''starting''"
definition state_running :: string where "state_running = ''running''"
definition state_stopping :: string where "state_stopping = ''stopping''"
definition state_crashed :: string where "state_crashed = ''crashed''"
definition state_restarting :: string where "state_restarting = ''restarting''"
definition state_giving_up :: string where "state_giving_up = ''giving-up''"

lemmas state_defs = state_idle_def state_starting_def state_running_def state_stopping_def
  state_crashed_def state_restarting_def state_giving_up_def

record child =
  ch_id :: string
  ch_cfg :: project
  ch_settings :: settings
  ch_policy :: policy
  ch_state :: string
  ch_pid :: int
  ch_cmd :: "nat option"
  ch_ptmx :: "nat option"
  ch_cancel :: "nat option"
  ch_wait_done :: "nat option"
  ch_stop_requested :: bool
  ch_subs :: "(nat \<times> bool) list"

definition new_child :: "string \<Rightarrow> project \<Rightarrow> settings \<Rightarrow> child" where
  "new_child i cfg settings =
     \<lparr>ch_id = i, ch_cfg = cfg, ch_settings = settings,
      ch_policy = new_policy (p_restart cfg) (restart_backoff_ms settings) (restart_max_attempts settings)
        (restart_reset_after_ms settings),
      ch_state = state_idle, ch_pid = 0, ch_cmd = None, ch_ptmx = None, ch_cancel = None,
      ch_wait_done = None, ch_stop_requested = False, ch_subs = []\<rparr>"

text \<open>How a process ended: \<open>cmd.ProcessState\<close>.\<close>

datatype exit_status = NoProcessState | ExitCode int | KilledBy string

definition exit_code :: "exit_status \<Rightarrow> int \<times> string" where
  "exit_code st = (case st of NoProcessState \<Rightarrow> (0, []) | ExitCode c \<Rightarrow> (c, []) | KilledBy sig \<Rightarrow> (- 1, sig))"

text \<open>The answers of the environment to a step.\<close>

record input =
  in_now :: time
  in_files :: "string \<Rightarrow> bytes option"
  in_environ :: "string list"
  in_spawn :: "int option"
  in_read :: "bytes \<times> bool"
  in_tee_fails :: "nat \<Rightarrow> bool"
  in_exit :: exit_status
  in_pgid_ok :: bool
  in_elapsed :: bool
  in_done_first :: bool

datatype origin = Api | Respawn

datatype act =
    StartCheck origin
  | StartCtx origin
  | StartEnv origin nat
  | StartSpawn origin nat "string list"
  | StartStore origin nat nat int
  | SetState string
  | Emit event
  | PolicyStart
  | EmitStarted int
  | WgAdd
  | GoRun nat
  | WgDone
  | CancelCtx nat
  | Return bool
  | RunInit nat
  | RunRead nat "nat option" "nat option" line_buffer
  | RunWait nat "nat option"
  | RunClose nat exit_status
  | EmitExited int string
  | RunDecide nat int string
  | ClearProc
  | PolicyStopAct
  | PolicyExit nat int string
  | ReadAttempts nat duration
  | DelayWait nat
  | CtxCheck nat
  | ClearIdle
  | StopFlag
  | StopRead bool
  | GetPgid bool nat "nat option"
  | GraceWait bool nat "nat option"
  | RestartFlag
  | PolicyManual
  | ForceIdle

type_synonym thread = "act list"

datatype signal = SigTermGroup nat | SigKillGroup nat | KillProcess nat

record world =
  w_child :: child
  w_threads :: "thread list"
  w_events :: "event list"
  w_wg :: int
  w_cancelled :: "nat list"
  w_closed :: "nat list"
  w_next :: nat
  w_panic :: bool
  w_spawns :: "(string \<times> string \<times> string list \<times> 16 word \<times> 16 word) list"
  w_raw :: "(time \<times> bytes) list"
  w_tee :: "(nat \<times> bytes) list"
  w_signals :: "signal list"
  w_results :: "bool list"

definition init_world :: "string \<Rightarrow> project \<Rightarrow> settings \<Rightarrow> world" where
  "init_world i cfg settings =
     \<lparr>w_child = new_child i cfg settings, w_threads = [], w_events = [], w_wg = 0, w_cancelled = [],
      w_closed = [], w_next = 0, w_panic = False, w_spawns = [], w_raw = [], w_tee = [], w_signals = [],
      w_results = []\<rparr>"

section \<open>The sections of the code\<close>

definition events_buf_size :: nat where "events_buf_size = 256"

definition upd_child :: "(child \<Rightarrow> child) \<Rightarrow> world \<Rightarrow> world" where
  "upd_child f w = w\<lparr>w_child := f (w_child w)\<rparr>"

text \<open>\<open>emit\<close>: a send that drops the event when the channel is full.\<close>

definition emit :: "event \<Rightarrow> world \<Rightarrow> world" where
  "emit ev w = (if length (w_events w) < events_buf_size then w\<lparr>w_events := w_events w @ [ev]\<rparr> else w)"

text \<open>\<open>setState\<close>: the field under the mutex, then the event outside it.\<close>

definition set_state :: "string \<Rightarrow> string \<Rightarrow> thread" where
  "set_state i st = [SetState st, Emit (StateChangedEvent i st)]"

definition start_failed :: "string \<Rightarrow> origin \<Rightarrow> thread" where
  "start_failed i o' = (case o' of Api \<Rightarrow> [Return False] | Respawn \<Rightarrow> set_state i state_crashed)"

definition start_done :: "origin \<Rightarrow> thread" where
  "start_done o' = (case o' of Api \<Rightarrow> [Return True] | Respawn \<Rightarrow> [])"

definition run_end :: "nat \<Rightarrow> thread" where
  "run_end ctx = [CancelCtx ctx, WgDone]"

definition clear_proc :: "child \<Rightarrow> child" where
  "clear_proc c = c\<lparr>ch_cmd := None, ch_ptmx := None, ch_pid := 0\<rparr>"

definition child_env :: "string list \<Rightarrow> string list" where
  "child_env environ = environ @ [''TERM=xterm-256color'', ''FORCE_COLOR=1'', ''COLORTERM=truecolor'']"

definition uint16 :: "int \<Rightarrow> 16 word" where
  "uint16 n = of_int n"

definition fanout :: "(nat \<Rightarrow> bool) \<Rightarrow> bytes \<Rightarrow> (nat \<times> bool) list \<Rightarrow> (nat \<times> bool) list \<times> (nat \<times> bytes) list" where
  "fanout fails chunk subs =
     (let live = filter (\<lambda>(s, dropped). \<not> dropped) subs
      in (map (\<lambda>(s, _). (s, fails s)) live, map (\<lambda>(s, _). (s, chunk)) live))"

definition log_event :: "string \<Rightarrow> line \<Rightarrow> act" where
  "log_event i l = Emit (LogLineEvent i (ln_bytes l) (ln_partial l) (ln_time l))"

definition tail_event :: "string \<Rightarrow> line option \<Rightarrow> thread" where
  "tail_event i l = (case l of None \<Rightarrow> [] | Some t \<Rightarrow> [Emit (LogLineEvent i (ln_bytes t) True (ln_time t))])"

definition chan_closed :: "nat option \<Rightarrow> world \<Rightarrow> bool" where
  "chan_closed ch w = (case ch of None \<Rightarrow> False | Some c \<Rightarrow> c \<in> set (w_closed w))"

definition result :: "bool \<Rightarrow> bool \<Rightarrow> thread" where
  "result r b = (if r then [Return b] else [])"

definition abort_restart :: "string \<Rightarrow> nat \<Rightarrow> thread" where
  "abort_restart i ctx = [ClearProc] @ set_state i state_idle @ run_end ctx"

text \<open>One read of the pseudo terminal: a nil file gives an error and no data.\<close>

definition read_step ::
  "input \<Rightarrow> nat \<Rightarrow> nat option \<Rightarrow> nat option \<Rightarrow> line_buffer \<Rightarrow> world \<Rightarrow> thread \<times> world" where
  "read_step inp ctx cmd ptmx lb w =
     (let i = ch_id (w_child w);
          (chunk, err) = (if ptmx = None then ([], True) else in_read inp);
          (subs, writes) = (if chunk = [] then (ch_subs (w_child w), [])
                            else fanout (in_tee_fails inp) chunk (ch_subs (w_child w)));
          (lines, lb1) = (if chunk = [] then ([], lb) else feed (in_now inp) chunk lb);
          w1 = upd_child (\<lambda>c. c\<lparr>ch_subs := subs\<rparr>) w;
          w2 = w1\<lparr>w_tee := w_tee w1 @ writes,
                  w_raw := (if chunk = [] then w_raw w1 else w_raw w1 @ [(in_now inp, chunk)])\<rparr>;
          (tail, _) = flush (in_now inp) lb1
      in (map (log_event i) lines @
          (if err then tail_event i tail @ [RunWait ctx cmd] else [RunRead ctx cmd ptmx lb1]), w2))"

fun act_step :: "input \<Rightarrow> act \<Rightarrow> world \<Rightarrow> thread \<times> world" where
  "act_step inp (StartCheck o') w =
     (let c = w_child w
      in if ch_state c \<noteq> state_idle \<and> ch_state c \<noteq> state_crashed then (start_failed (ch_id c) o', w)
         else ([StartCtx o'], upd_child (\<lambda>c. c\<lparr>ch_state := state_starting, ch_stop_requested := False\<rparr>) w))"
| "act_step inp (StartCtx o') w =
     (let ctx = w_next w
      in ([StartEnv o' ctx], (upd_child (\<lambda>c. c\<lparr>ch_cancel := Some ctx\<rparr>) w)\<lparr>w_next := w_next w + 1\<rparr>))"
| "act_step inp (StartEnv o' ctx) w =
     (let c = w_child w
      in case build_env (in_files inp) (child_env (in_environ inp)) (ch_cfg c) of
           Inl e \<Rightarrow> (set_state (ch_id c) state_idle @ start_failed (ch_id c) o', w)
         | Inr env \<Rightarrow> ([StartSpawn o' ctx env], w))"
| "act_step inp (StartSpawn o' ctx env) w =
     (let c = w_child w;
          cols = uint16 (pty_cols (ch_settings c));
          rows = uint16 (pty_rows (ch_settings c))
      in case in_spawn inp of
           None \<Rightarrow> ([CancelCtx ctx] @ set_state (ch_id c) state_idle @ start_failed (ch_id c) o', w)
         | Some pid \<Rightarrow> ([StartStore o' ctx (w_next w) pid],
             w\<lparr>w_next := w_next w + 1,
               w_spawns := w_spawns w @ [(p_path (ch_cfg c), p_cmd (ch_cfg c), env, cols, rows)]\<rparr>))"
| "act_step inp (StartStore o' ctx proc pid) w =
     (let done = w_next w; i = ch_id (w_child w)
      in (set_state i state_running @ [PolicyStart, EmitStarted pid, WgAdd, GoRun ctx] @ start_done o',
          (upd_child (\<lambda>c. c\<lparr>ch_cmd := Some proc, ch_ptmx := Some proc, ch_pid := pid,
             ch_wait_done := Some done\<rparr>) w)\<lparr>w_next := w_next w + 1\<rparr>))"
| "act_step inp (SetState st) w = ([], upd_child (\<lambda>c. c\<lparr>ch_state := st\<rparr>) w)"
| "act_step inp (Emit ev) w = ([], emit ev w)"
| "act_step inp PolicyStart w =
     ([], upd_child (\<lambda>c. c\<lparr>ch_policy := snd (policy_on_start (in_now inp) (ch_policy c))\<rparr>) w)"
| "act_step inp (EmitStarted pid) w = ([], emit (StartedEvent (ch_id (w_child w)) pid (in_now inp)) w)"
| "act_step inp WgAdd w = ([], w\<lparr>w_wg := w_wg w + 1\<rparr>)"
| "act_step inp (GoRun ctx) w = ([], w\<lparr>w_threads := w_threads w @ [[RunInit ctx]]\<rparr>)"
| "act_step inp WgDone w = ([], w\<lparr>w_wg := w_wg w - 1, w_panic := w_panic w \<or> w_wg w \<le> 0\<rparr>)"
| "act_step inp (CancelCtx ctx) w = ([], w\<lparr>w_cancelled := ctx # w_cancelled w\<rparr>)"
| "act_step inp (Return b) w = ([], w\<lparr>w_results := w_results w @ [b]\<rparr>)"
| "act_step inp (RunInit ctx) w =
     ([RunRead ctx (ch_cmd (w_child w)) (ch_ptmx (w_child w)) (new_line_buffer 0)], w)"
| "act_step inp (RunRead ctx cmd ptmx lb) w = read_step inp ctx cmd ptmx lb w"
| "act_step inp (RunWait ctx cmd) w =
     (if cmd = None then ([RunClose ctx NoProcessState], w\<lparr>w_panic := True\<rparr>)
      else ([RunClose ctx (in_exit inp)], w))"
| "act_step inp (RunClose ctx st) w =
     (let (code, sig) = exit_code st;
          w1 = (case ch_wait_done (w_child w) of
                  None \<Rightarrow> w
                | Some d \<Rightarrow> if d \<in> set (w_closed w) then w\<lparr>w_panic := True\<rparr>
                             else w\<lparr>w_closed := d # w_closed w\<rparr>)
      in ([EmitExited code sig, RunDecide ctx code sig], w1))"
| "act_step inp (EmitExited code sig) w =
     ([], emit (ExitedEvent (ch_id (w_child w)) code sig (in_now inp)) w)"
| "act_step inp (RunDecide ctx code sig) w =
     (let i = ch_id (w_child w)
      in if ch_stop_requested (w_child w)
         then ([ClearProc] @ set_state i state_idle @ [PolicyStopAct] @ run_end ctx, w)
         else ([PolicyExit ctx code sig], w))"
| "act_step inp ClearProc w = ([], upd_child clear_proc w)"
| "act_step inp PolicyStopAct w = ([], upd_child (\<lambda>c. c\<lparr>ch_policy := policy_stop (ch_policy c)\<rparr>) w)"
| "act_step inp (PolicyExit ctx code sig) w =
     (let i = ch_id (w_child w);
          ((action, delay), p) = policy_on_exit code sig (ch_policy (w_child w));
          w1 = upd_child (\<lambda>c. c\<lparr>ch_policy := p\<rparr>) w
      in (case action of
            ActionNone \<Rightarrow>
              [ClearProc] @ set_state i (if code \<noteq> 0 then state_crashed else state_idle) @ run_end ctx
          | ActionGiveUp \<Rightarrow> [ClearProc] @ set_state i state_giving_up @ run_end ctx
          | ActionRestart \<Rightarrow> [ReadAttempts ctx delay], w1))"
| "act_step inp (ReadAttempts ctx delay) w =
     (let i = ch_id (w_child w); attempt = policy_attempts (ch_policy (w_child w))
      in (set_state i state_restarting @ [Emit (RestartingEvent i attempt delay)]
          @ [if delay > 0 then DelayWait ctx else CtxCheck ctx], w))"
| "act_step inp (DelayWait ctx) w =
     (if ctx \<in> set (w_cancelled w) \<and> (\<not> in_elapsed inp \<or> in_done_first inp)
      then (abort_restart (ch_id (w_child w)) ctx, w)
      else if in_elapsed inp then ([CtxCheck ctx], w)
      else ([DelayWait ctx], w))"
| "act_step inp (CtxCheck ctx) w =
     (if ctx \<in> set (w_cancelled w) then (abort_restart (ch_id (w_child w)) ctx, w)
      else ([ClearIdle, StartCheck Respawn, WgDone, CancelCtx ctx], w))"
| "act_step inp ClearIdle w = ([], upd_child (\<lambda>c. (clear_proc c)\<lparr>ch_state := state_idle\<rparr>) w)"
| "act_step inp StopFlag w = ([], upd_child (\<lambda>c. c\<lparr>ch_stop_requested := True\<rparr>) w)"
| "act_step inp (StopRead r) w =
     (let c = w_child w
      in ((case ch_cancel c of None \<Rightarrow> [] | Some ctx \<Rightarrow> [CancelCtx ctx])
          @ (case ch_cmd c of
               None \<Rightarrow> result r True
             | Some p \<Rightarrow> set_state (ch_id c) state_stopping @ [GetPgid r p (ch_wait_done c)]), w))"
| "act_step inp (GetPgid r p done) w =
     (if in_pgid_ok inp then ([GraceWait r p done], w\<lparr>w_signals := w_signals w @ [SigTermGroup p]\<rparr>)
      else (result r False, w\<lparr>w_signals := w_signals w @ [KillProcess p]\<rparr>))"
| "act_step inp (GraceWait r p done) w =
     (if chan_closed done w \<and> (\<not> in_elapsed inp \<or> in_done_first inp) then (result r True, w)
      else if in_elapsed inp then (result r True, w\<lparr>w_signals := w_signals w @ [SigKillGroup p]\<rparr>)
      else ([GraceWait r p done], w))"
| "act_step inp RestartFlag w = ([], upd_child (\<lambda>c. c\<lparr>ch_stop_requested := False\<rparr>) w)"
| "act_step inp PolicyManual w =
     ([], upd_child (\<lambda>c. c\<lparr>ch_policy := snd (policy_manual_restart (ch_policy c))\<rparr>) w)"
| "act_step inp ForceIdle w = ([], upd_child (\<lambda>c. c\<lparr>ch_state := state_idle\<rparr>) w)"

section \<open>Calls and runs\<close>

definition child_start :: thread where "child_start = [StartCheck Api]"
definition child_stop :: thread where "child_stop = [StopFlag, StopRead True]"
definition child_restart :: thread where
  "child_restart = [StopFlag, StopRead False, RestartFlag, PolicyManual, ForceIdle, StartCheck Api]"

text \<open>A step of thread \<open>n\<close>; after a panic the program is gone.\<close>

definition exec :: "nat \<Rightarrow> input \<Rightarrow> world \<Rightarrow> world" where
  "exec n inp w =
     (if w_panic w \<or> n \<ge> length (w_threads w) then w
      else case w_threads w ! n of
             [] \<Rightarrow> w
           | a # rest \<Rightarrow>
               (let (acts, w1) = act_step inp a w
                in w1\<lparr>w_threads := (w_threads w1)[n := acts @ rest]\<rparr>))"

definition call :: "thread \<Rightarrow> world \<Rightarrow> world" where
  "call t w = w\<lparr>w_threads := w_threads w @ [t]\<rparr>"

text \<open>The timer of the policy, and the consumer of the events channel.\<close>

definition tick :: "time \<Rightarrow> world \<Rightarrow> world" where
  "tick now w = upd_child (\<lambda>c. c\<lparr>ch_policy := policy_timer_fires now (ch_policy c)\<rparr>) w"

definition consume :: "world \<Rightarrow> world" where
  "consume w = w\<lparr>w_events := tl (w_events w)\<rparr>"

text \<open>\<open>ops\<close> are the calls the environment may make.\<close>

inductive child_reach :: "thread set \<Rightarrow> world \<Rightarrow> world \<Rightarrow> bool" for ops w0 where
  reach_init: "child_reach ops w0 w0"
| reach_exec: "child_reach ops w0 w \<Longrightarrow> child_reach ops w0 (exec n inp w)"
| reach_call: "child_reach ops w0 w \<Longrightarrow> t \<in> ops \<Longrightarrow> child_reach ops w0 (call t w)"
| reach_tick: "child_reach ops w0 w \<Longrightarrow> child_reach ops w0 (tick now w)"
| reach_consume: "child_reach ops w0 w \<Longrightarrow> child_reach ops w0 (consume w)"

definition all_ops :: "thread set" where "all_ops = {child_start, child_stop, child_restart}"

section \<open>Other methods\<close>

definition child_resize :: "16 word \<Rightarrow> 16 word \<Rightarrow> child \<Rightarrow> (nat \<times> 16 word \<times> 16 word) option" where
  "child_resize cols rows c = map_option (\<lambda>p. (p, cols, rows)) (ch_ptmx c)"

definition child_attach :: "child \<Rightarrow> string + nat" where
  "child_attach c = (case ch_ptmx c of None \<Rightarrow> Inl (ch_id c) | Some p \<Rightarrow> Inr p)"

definition child_subscribe :: "nat \<Rightarrow> child \<Rightarrow> child" where
  "child_subscribe s c = c\<lparr>ch_subs := ch_subs c @ [(s, False)]\<rparr>"

definition child_unsubscribe :: "nat \<Rightarrow> child \<Rightarrow> child" where
  "child_unsubscribe s c = c\<lparr>ch_subs := filter (\<lambda>(t, _). t \<noteq> s) (ch_subs c)\<rparr>"

end
