(* ===== verification/Child_Safety.thy ===== *)
theory Child_Safety
  imports Child
begin

text \<open>
  Invariants of the child model over every interleaving of calls, goroutines, timer and consumer: the
  balance of the manager's wait group, at most one instance of a process that is not restarted, and
  the order of signals; and the reachable states in which the code goes wrong.
\<close>

section \<open>The wait group\<close>

fun weight :: "act \<Rightarrow> int" where
  "weight (GoRun _) = 1" | "weight WgAdd = - 1" | "weight WgDone = 1"
| "weight (RunInit _) = 1" | "weight (RunRead _ _ _ _) = 1" | "weight (RunWait _ _) = 1"
| "weight (RunClose _ _) = 1" | "weight (RunDecide _ _ _) = 1" | "weight (PolicyExit _ _ _) = 1"
| "weight (ReadAttempts _ _) = 1" | "weight (DelayWait _) = 1" | "weight (CtxCheck _) = 1"
| "weight _ = 0"

definition owed :: "thread \<Rightarrow> int" where
  "owed t = sum_list (map weight t)"

fun paired :: "thread \<Rightarrow> bool" where
  "paired [] \<longleftrightarrow> True"
| "paired (a # t) \<longleftrightarrow> (a = WgAdd \<longrightarrow> (\<exists>c s. t = GoRun c # s)) \<and> paired t"

lemma owed_simps [simp]: "owed [] = 0" "owed (a # t) = weight a + owed t" "owed (s @ t) = owed s + owed t"
  by (simp_all add: owed_def)

lemma paired_append [simp]: "paired s \<Longrightarrow> paired t \<Longrightarrow> paired (s @ t)"
  by (induction s rule: paired.induct) auto

lemma weight_pos: "a \<noteq> WgAdd \<Longrightarrow> 0 \<le> weight a"
  by (cases a) auto

lemma paired_owed: "paired t \<Longrightarrow> 0 \<le> owed t \<and> (owed t = 0 \<longrightarrow> (\<forall>a \<in> set t. weight a = 1 \<longrightarrow> (\<exists>c. a = GoRun c)))"
proof (induction t rule: length_induct)
  case (1 t)
  show ?case
  proof (cases t)
    case (Cons a s)
    show ?thesis
    proof (cases "a = WgAdd")
      case True
      then obtain c u where "s = GoRun c # u" using 1 Cons by auto
      then have "0 \<le> owed u \<and> (owed u = 0 \<longrightarrow> (\<forall>a \<in> set u. weight a = 1 \<longrightarrow> (\<exists>c. a = GoRun c)))"
        using 1(1) [rule_format, of u] 1(2) Cons \<open>s = GoRun c # u\<close> by simp
      then show ?thesis using Cons True \<open>s = GoRun c # u\<close> by fastforce
    next
      case False
      then show ?thesis using 1 Cons weight_pos [of a] by fastforce
    qed
  qed simp
qed

lemma owed_log_events [simp]: "owed (map (log_event i) ls) = 0" "paired (map (log_event i) ls)"
  by (induction ls) (auto simp: log_event_def)

lemma owed_parts [simp]:
  "owed (set_state i st) = 0" "paired (set_state i st)"
  "owed (start_failed i o') = 0" "paired (start_failed i o')"
  "owed (start_done o') = 0" "paired (start_done o')"
  "owed (run_end ctx) = 1" "paired (run_end ctx)"
  "owed (abort_restart i ctx) = 1" "paired (abort_restart i ctx)"
  "owed (result r b) = 0" "paired (result r b)"
  "owed (tail_event i l) = 0" "paired (tail_event i l)"
  by (auto simp: set_state_def start_failed_def start_done_def run_end_def abort_restart_def result_def
      tail_event_def split: origin.splits option.splits)

lemma frame_simps [simp]:
  "w_wg (upd_child f w) = w_wg w" "w_threads (upd_child f w) = w_threads w"
  "w_wg (emit ev w) = w_wg w" "w_threads (emit ev w) = w_threads w"
  "w_child (emit ev w) = w_child w" "w_child (upd_child f w) = f (w_child w)"
  "w_signals (upd_child f w) = w_signals w" "w_signals (emit ev w) = w_signals w"
  "w_panic (upd_child f w) = w_panic w" "w_panic (emit ev w) = w_panic w"
  by (simp_all add: upd_child_def emit_def)

lemma read_step_frame:
  assumes "read_step inp ctx cmd ptmx lb w = (acts, w')"
  shows "w_wg w' = w_wg w" "w_threads w' = w_threads w" "w_signals w' = w_signals w"
    "ch_state (w_child w') = ch_state (w_child w)" "ch_policy (w_child w') = ch_policy (w_child w)"
    "ch_id (w_child w') = ch_id (w_child w)"
    "\<exists>ls tail. acts = map (log_event (ch_id (w_child w))) ls @ tail_event (ch_id (w_child w)) tail @ [RunWait ctx cmd]
      \<or> (\<exists>lb'. acts = map (log_event (ch_id (w_child w))) ls @ [RunRead ctx cmd ptmx lb'])"
  using assms by (auto simp: read_step_def Let_def split: prod.splits if_splits)

lemma act_step_wg:
  assumes "act_step inp a w = (acts, w')"
  shows "\<exists>new. w_threads w' = w_threads w @ new \<and> paired acts \<and> list_all paired new
    \<and> w_wg w' + weight a = w_wg w + owed acts + sum_list (map owed new)"
proof (cases a)
  case (RunRead ctx cmd ptmx lb)
  then have r: "read_step inp ctx cmd ptmx lb w = (acts, w')" using assms by simp
  show ?thesis using read_step_frame [OF r] RunRead by (intro exI [of _ "[]"]) auto
next
  case (GoRun ctx)
  then show ?thesis using assms by (intro exI [of _ "[[RunInit ctx]]"]) auto
qed (use assms in \<open>auto simp: Let_def split: if_splits sum.splits option.splits prod.splits action.splits intro!: exI [of _ "[]"]\<close>)


definition wg_inv :: "world \<Rightarrow> bool" where
  "wg_inv w \<longleftrightarrow> list_all paired (w_threads w) \<and> w_wg w = sum_list (map owed (w_threads w))"

lemma sum_list_update_int:
  "n < length xs \<Longrightarrow> sum_list (map f (xs[n := x])) = sum_list (map f xs) - f (xs ! n) + (f x :: int)"
  by (induction xs arbitrary: n) (auto split: nat.splits)

lemma exec_threads:
  assumes "\<not> w_panic w" "n < length (w_threads w)" "w_threads w ! n = a # rest"
    "act_step inp a w = (acts, w1)" "w_threads w1 = w_threads w @ new"
  shows "exec n inp w = w1\<lparr>w_threads := (w_threads w)[n := acts @ rest] @ new\<rparr>"
  using assms by (simp add: exec_def list_update_append)

lemma exec_cases:
  obtains "exec n inp w = w"
  | a rest acts w1 new where "\<not> w_panic w" "n < length (w_threads w)" "w_threads w ! n = a # rest"
    "act_step inp a w = (acts, w1)" "w_threads w1 = w_threads w @ new"
    "exec n inp w = w1\<lparr>w_threads := (w_threads w)[n := acts @ rest] @ new\<rparr>"
proof (cases "w_panic w \<or> n \<ge> length (w_threads w) \<or> w_threads w ! n = []")
  case True
  then show ?thesis using that(1) by (auto simp: exec_def)
next
  case False
  then obtain a rest where t: "w_threads w ! n = a # rest" by (cases "w_threads w ! n") auto
  obtain acts w1 where s: "act_step inp a w = (acts, w1)" by (metis prod.collapse)
  obtain new where "w_threads w1 = w_threads w @ new" using act_step_wg [OF s] by blast
  then show ?thesis using that(2) False t s exec_threads by simp
qed

lemma paired_tail: "paired (a # t) \<Longrightarrow> paired t"
  by simp

lemma wg_inv_exec: "wg_inv w \<Longrightarrow> wg_inv (exec n inp w)"
proof (cases rule: exec_cases [of n inp w])
  case (2 a rest acts w1 new)
  assume inv: "wg_inv w"
  have "paired rest" using inv 2(2,3) by (auto simp: wg_inv_def list_all_length dest!: spec [of _ n])
  moreover obtain new' where new': "w_threads w1 = w_threads w @ new'" "paired acts" "list_all paired new'"
    "w_wg w1 + weight a = w_wg w + owed acts + sum_list (map owed new')"
    using act_step_wg [OF 2(4)] by blast
  moreover have "new' = new" using new'(1) 2(5) by simp
  ultimately show ?thesis
    using inv 2(2,3) unfolding 2(6)
    by (auto simp: wg_inv_def sum_list_update_int list_all_iff dest!: set_update_subset_insert [THEN subsetD])
qed simp

lemma wg_inv_reach: "child_reach all_ops (init_world i cfg s) w \<Longrightarrow> wg_inv w"
proof (induction rule: child_reach.induct)
  case reach_init
  then show ?case by (simp add: wg_inv_def init_world_def)
next
  case (reach_exec w n inp)
  then show ?case by (simp add: wg_inv_exec)
next
  case (reach_call w t)
  then show ?case by (auto simp: wg_inv_def call_def all_ops_def child_start_def child_stop_def child_restart_def)
next
  case (reach_tick w now)
  then show ?case by (simp add: wg_inv_def tick_def)
next
  case (reach_consume w)
  then show ?case by (simp add: wg_inv_def consume_def)
qed

section \<open>At most one instance\<close>

text \<open>An action is active while the thread owns a process or is about to create one.\<close>

fun active :: "act \<Rightarrow> bool" where
  "active (StartCtx _) \<longleftrightarrow> True" | "active (StartEnv _ _) \<longleftrightarrow> True" | "active (StartSpawn _ _ _) \<longleftrightarrow> True"
| "active (StartStore _ _ _ _) \<longleftrightarrow> True" | "active (GoRun _) \<longleftrightarrow> True" | "active (RunInit _) \<longleftrightarrow> True"
| "active (RunRead _ _ _ _) \<longleftrightarrow> True" | "active (RunWait _ _) \<longleftrightarrow> True" | "active (RunClose _ _) \<longleftrightarrow> True"
| "active (RunDecide _ _ _) \<longleftrightarrow> True" | "active (PolicyExit _ _ _) \<longleftrightarrow> True"
| "active (SetState st) \<longleftrightarrow> st = state_idle \<or> st = state_crashed"
| "active _ \<longleftrightarrow> False"

text \<open>What can appear when nothing is restarted.\<close>

fun no_restart_act :: "act \<Rightarrow> bool" where
  "no_restart_act (StartCheck o') \<longleftrightarrow> o' = Api" | "no_restart_act (StartCtx o') \<longleftrightarrow> o' = Api"
| "no_restart_act (StartEnv o' _) \<longleftrightarrow> o' = Api" | "no_restart_act (StartSpawn o' _ _) \<longleftrightarrow> o' = Api"
| "no_restart_act (StartStore o' _ _ _) \<longleftrightarrow> o' = Api" | "no_restart_act (ReadAttempts _ _) \<longleftrightarrow> False"
| "no_restart_act (DelayWait _) \<longleftrightarrow> False" | "no_restart_act (CtxCheck _) \<longleftrightarrow> False"
| "no_restart_act ClearIdle \<longleftrightarrow> False" | "no_restart_act ForceIdle \<longleftrightarrow> False"
| "no_restart_act _ \<longleftrightarrow> True"

definition busy :: "thread \<Rightarrow> nat" where
  "busy t = length (filter active t)"

definition resting :: "world \<Rightarrow> bool" where
  "resting w \<longleftrightarrow> ch_state (w_child w) = state_idle \<or> ch_state (w_child w) = state_crashed"

definition single_inv :: "world \<Rightarrow> bool" where
  "single_inv w \<longleftrightarrow> po_mode (ch_policy (w_child w)) \<noteq> ''on-failure''
     \<and> list_all (list_all no_restart_act) (w_threads w)
     \<and> sum_list (map busy (w_threads w)) \<le> (if resting w then 0 else 1)"

lemma busy_simps [simp]: "busy [] = 0" "busy (a # t) = (if active a then 1 else 0) + busy t"
  "busy (s @ t) = busy s + busy t"
  by (simp_all add: busy_def)

lemma busy_parts [simp]:
  "busy (set_state i st) = (if st = state_idle \<or> st = state_crashed then 1 else 0)"
  "busy (start_failed i Api) = 0" "busy (start_done o') = 0" "busy (run_end ctx) = 0"
  "busy (result r b) = 0" "busy (tail_event i l) = 0" "busy (map (log_event i) ls) = 0"
  by (auto simp: set_state_def start_failed_def start_done_def run_end_def result_def tail_event_def
      log_event_def busy_def split: origin.splits option.splits)

lemma no_restart_parts [simp]:
  "list_all no_restart_act (set_state i st)" "list_all no_restart_act (start_failed i o')"
  "list_all no_restart_act (start_done o')" "list_all no_restart_act (run_end ctx)"
  "list_all no_restart_act (result r b)" "list_all no_restart_act (tail_event i l)"
  "list_all no_restart_act (map (log_event i) ls)"
  by (auto simp: set_state_def start_failed_def start_done_def run_end_def result_def tail_event_def
      log_event_def list_all_iff split: origin.splits option.splits)

lemma policy_modes [simp]:
  "po_mode (snd (policy_on_start t p)) = po_mode p" "po_mode (policy_stop p) = po_mode p"
  "po_mode (snd (policy_on_exit code sig p)) = po_mode p"
  "po_mode (snd (policy_manual_restart p)) = po_mode p" "po_mode (policy_timer_fires t p) = po_mode p"
  by (auto simp: policy_on_start_def policy_stop_def policy_on_exit_def policy_manual_restart_def
      policy_timer_fires_def stop_reset_timer_def Let_def split: option.splits)

lemma never_restarts:
  "po_mode p \<noteq> ''on-failure'' \<Longrightarrow> fst (fst (policy_on_exit code sig p)) = ActionNone"
  by (simp add: policy_on_exit_def stop_reset_timer_def Let_def)

lemma states_distinct [simp]:
  "state_starting \<noteq> state_idle" "state_starting \<noteq> state_crashed" "state_running \<noteq> state_idle"
  "state_running \<noteq> state_crashed" "state_stopping \<noteq> state_idle" "state_stopping \<noteq> state_crashed"
  "state_restarting \<noteq> state_idle" "state_restarting \<noteq> state_crashed" "state_idle \<noteq> state_crashed"
  "state_giving_up \<noteq> state_idle" "state_giving_up \<noteq> state_crashed" "state_crashed \<noteq> state_idle"
  by (simp_all add: state_defs)

lemma act_step_single:
  assumes "act_step inp a w = (acts, w')" "no_restart_act a" "po_mode (ch_policy (w_child w)) \<noteq> ''on-failure''"
  shows "\<exists>new. w_threads w' = w_threads w @ new \<and> list_all no_restart_act acts
    \<and> list_all (list_all no_restart_act) new \<and> po_mode (ch_policy (w_child w')) = po_mode (ch_policy (w_child w))
    \<and> ((busy acts + sum_list (map busy new) \<le> (if active a then 1 else 0)
          \<and> (resting w' \<longrightarrow> resting w \<or> active a \<and> busy acts + sum_list (map busy new) = 0))
       \<or> (resting w \<and> \<not> resting w' \<and> busy acts + sum_list (map busy new) = 1))"
proof (cases a)
  case (RunRead ctx cmd ptmx lb)
  then have r: "read_step inp ctx cmd ptmx lb w = (acts, w')" using assms by simp
  show ?thesis using read_step_frame [OF r] RunRead by (intro exI [of _ "[]"]) (auto simp: resting_def)
next
  case (GoRun ctx)
  then show ?thesis using assms by (intro exI [of _ "[[RunInit ctx]]"]) (auto simp: resting_def)
next
  case (PolicyExit ctx code sig)
  obtain action delay p where p: "policy_on_exit code sig (ch_policy (w_child w)) = ((action, delay), p)"
    by (metis prod.collapse)
  then have "action = ActionNone" "po_mode p = po_mode (ch_policy (w_child w))"
    using never_restarts [OF assms(3), of code sig] policy_modes(3) [of code sig "ch_policy (w_child w)"] by simp_all
  then show ?thesis using assms PolicyExit p
    by (intro exI [of _ "[]"]) (auto simp: resting_def Let_def split: if_splits)
qed (use assms in \<open>auto simp: Let_def resting_def clear_proc_def split: if_splits sum.splits option.splits prod.splits intro!: exI [of _ "[]"]\<close>)

lemma sum_list_update_nat:
  "n < length xs \<Longrightarrow> sum_list (map f (xs[n := x])) + f (xs ! n) = sum_list (map f xs) + (f x :: nat)"
  by (induction xs arbitrary: n) (auto split: nat.splits)

lemma elem_le_sum: "n < length xs \<Longrightarrow> f (xs ! n) \<le> sum_list (map f xs)" for f :: "'a \<Rightarrow> nat"
  using elem_le_sum_list [of n "map f xs"] by simp

lemma single_inv_exec: "single_inv w \<Longrightarrow> single_inv (exec n inp w)"
proof (cases rule: exec_cases [of n inp w])
  case (2 a rest acts w1 new)
  assume inv: "single_inv w"
  have "list_all no_restart_act (w_threads w ! n)"
    using inv 2(2) by (simp add: single_inv_def list_all_length)
  then have th: "no_restart_act a" "list_all no_restart_act rest" by (simp_all add: 2(3))
  obtain new' where new': "w_threads w1 = w_threads w @ new'" "list_all no_restart_act acts"
    "list_all (list_all no_restart_act) new'" "po_mode (ch_policy (w_child w1)) = po_mode (ch_policy (w_child w))"
    "(busy acts + sum_list (map busy new') \<le> (if active a then 1 else 0)
          \<and> (resting w1 \<longrightarrow> resting w \<or> active a \<and> busy acts + sum_list (map busy new') = 0))
       \<or> (resting w \<and> \<not> resting w1 \<and> busy acts + sum_list (map busy new') = 1)"
    using act_step_single [OF 2(4) th(1)] inv by (auto simp: single_inv_def)
  have new: "new' = new" using new'(1) 2(5) by simp
  let ?w = "exec n inp w"
  have r: "resting ?w = resting w1" "ch_policy (w_child ?w) = ch_policy (w_child w1)"
    by (simp_all add: 2(6) resting_def)
  define S S' N where defs: "S = sum_list (map busy (w_threads w))"
    "S' = sum_list (map busy (w_threads ?w))" "N = sum_list (map busy new)"
  have "S' + busy (a # rest) = S + busy (acts @ rest) + N"
    using sum_list_update_nat [OF 2(2), of busy "acts @ rest"] by (simp add: defs 2(3,6))
  moreover have "busy (a # rest) \<le> S"
    using elem_le_sum [OF 2(2), of busy] by (simp add: defs 2(3))
  moreover have "S \<le> (if resting w then 0 else 1)" using inv unfolding single_inv_def defs by simp
  moreover have "(busy acts + N \<le> (if active a then 1 else 0)
        \<and> (resting w1 \<longrightarrow> resting w \<or> active a \<and> busy acts + N = 0))
      \<or> (resting w \<and> \<not> resting w1 \<and> busy acts + N = 1)"
    using new'(5) unfolding new defs .
  ultimately have "S' \<le> (if resting w1 then 0 else 1)"
    by (auto split: if_splits)
  moreover have "list_all (list_all no_restart_act) (w_threads ?w)"
    using inv new' new th(2) unfolding 2(6)
    by (auto simp: single_inv_def list_all_iff dest!: set_update_subset_insert [THEN subsetD])
  ultimately show ?thesis
    using inv new'(4) unfolding single_inv_def r defs by simp
qed simp

lemma single_inv_reach:
  assumes "p_restart cfg \<noteq> ''on-failure''"
  shows "child_reach {child_start, child_stop} (init_world i cfg s) w \<Longrightarrow> single_inv w"
proof (induction rule: child_reach.induct)
  case reach_init
  then show ?case using assms by (simp add: single_inv_def init_world_def new_child_def new_policy_def)
next
  case (reach_exec w n inp)
  then show ?case by (simp add: single_inv_exec)
next
  case (reach_call w t)
  then show ?case by (auto simp: single_inv_def resting_def call_def child_start_def child_stop_def)
next
  case (reach_tick w now)
  then show ?case by (simp add: single_inv_def resting_def tick_def)
next
  case (reach_consume w)
  then show ?case by (simp add: single_inv_def resting_def consume_def)
qed

section \<open>Signals\<close>

text \<open>A group is killed only after it was asked to terminate.\<close>

definition term_first :: "signal list \<Rightarrow> bool" where
  "term_first sigs \<longleftrightarrow> (\<forall>k p. k < length sigs \<longrightarrow> sigs ! k = SigKillGroup p
     \<longrightarrow> (\<exists>j < k. sigs ! j = SigTermGroup p))"

fun waits_for :: "act \<Rightarrow> nat option" where
  "waits_for (GraceWait _ p _) = Some p"
| "waits_for _ = None"

definition signal_inv :: "world \<Rightarrow> bool" where
  "signal_inv w \<longleftrightarrow> term_first (w_signals w)
     \<and> (\<forall>t \<in> set (w_threads w). \<forall>a \<in> set t. \<forall>p. waits_for a = Some p \<longrightarrow> SigTermGroup p \<in> set (w_signals w))"

lemma term_first_snoc:
  assumes "term_first sigs" "\<forall>p. x = SigKillGroup p \<longrightarrow> SigTermGroup p \<in> set sigs"
  shows "term_first (sigs @ [x])"
  unfolding term_first_def
proof (intro allI impI)
  fix k p
  assume k: "k < length (sigs @ [x])" "(sigs @ [x]) ! k = SigKillGroup p"
  show "\<exists>j<k. (sigs @ [x]) ! j = SigTermGroup p"
  proof (cases "k < length sigs")
    case True
    then have "sigs ! k = SigKillGroup p" using k(2) by (simp add: nth_append)
    then obtain j where "j < k" "sigs ! j = SigTermGroup p"
      using assms(1) True unfolding term_first_def by blast
    then have "j < k \<and> (sigs @ [x]) ! j = SigTermGroup p" using True by (simp add: nth_append)
    then show ?thesis by blast
  next
    case False
    then have "k = length sigs" using k(1) by simp
    moreover from this have "x = SigKillGroup p" using k(2) by simp
    ultimately have "k = length sigs" "x = SigKillGroup p" by simp_all
    then obtain j where "j < length sigs" "sigs ! j = SigTermGroup p"
      using assms(2) by (auto simp: in_set_conv_nth)
    then have "j < k \<and> (sigs @ [x]) ! j = SigTermGroup p"
      using \<open>k = length sigs\<close> by (simp add: nth_append)
    then show ?thesis by blast
  qed
qed

lemma waits_parts [simp]:
  "a \<in> set (set_state i st) \<Longrightarrow> waits_for a = None" "a \<in> set (start_failed i o') \<Longrightarrow> waits_for a = None"
  "a \<in> set (start_done o') \<Longrightarrow> waits_for a = None" "a \<in> set (run_end ctx) \<Longrightarrow> waits_for a = None"
  "a \<in> set (abort_restart i ctx) \<Longrightarrow> waits_for a = None" "a \<in> set (result r b) \<Longrightarrow> waits_for a = None"
  "a \<in> set (tail_event i l) \<Longrightarrow> waits_for a = None" "waits_for (log_event i ln) = None"
  by (auto simp: set_state_def start_failed_def start_done_def run_end_def abort_restart_def result_def
      tail_event_def log_event_def split: origin.splits option.splits if_splits)

lemma act_step_signals:
  assumes "act_step inp a w = (acts, w')" "term_first (w_signals w)"
    "\<forall>p. waits_for a = Some p \<longrightarrow> SigTermGroup p \<in> set (w_signals w)"
  shows "\<exists>new. w_threads w' = w_threads w @ new \<and> term_first (w_signals w')
    \<and> set (w_signals w) \<subseteq> set (w_signals w')
    \<and> (\<forall>b \<in> set acts. \<forall>p. waits_for b = Some p \<longrightarrow> SigTermGroup p \<in> set (w_signals w'))
    \<and> (\<forall>t \<in> set new. \<forall>b \<in> set t. waits_for b = None)"
proof (cases a)
  case (RunRead ctx cmd ptmx lb)
  then have r: "read_step inp ctx cmd ptmx lb w = (acts, w')" using assms by simp
  show ?thesis using read_step_frame [OF r] assms(2) by (intro exI [of _ "[]"]) auto
next
  case (GoRun ctx)
  then show ?thesis using assms by (intro exI [of _ "[[RunInit ctx]]"]) auto
qed (use assms in \<open>auto simp: Let_def intro!: term_first_snoc exI [of _ "[]"]
    split: if_splits sum.splits option.splits prod.splits action.splits\<close>)

lemma signal_inv_exec: "signal_inv w \<Longrightarrow> signal_inv (exec n inp w)"
proof (cases rule: exec_cases [of n inp w])
  case (2 a rest acts w1 new)
  assume inv: "signal_inv w"
  have mem: "a # rest \<in> set (w_threads w)" using 2(2,3) nth_mem by metis
  then have a: "\<forall>p. waits_for a = Some p \<longrightarrow> SigTermGroup p \<in> set (w_signals w)"
    and rest: "\<forall>b \<in> set rest. \<forall>p. waits_for b = Some p \<longrightarrow> SigTermGroup p \<in> set (w_signals w)"
    using inv by (auto simp: signal_inv_def)
  have s: "w_signals (exec n inp w) = w_signals w1" by (simp add: 2(6))
  have sub: "set (w_threads (exec n inp w)) \<subseteq> insert (acts @ rest) (set (w_threads w)) \<union> set new"
    using set_update_subset_insert by (fastforce simp: 2(6))
  show ?thesis
    using act_step_signals [OF 2(4) _ a] inv rest sub 2(5) unfolding signal_inv_def s
    by (fastforce simp: subset_iff)
qed simp

lemma signal_inv_reach: "child_reach all_ops (init_world i cfg s) w \<Longrightarrow> signal_inv w"
proof (induction rule: child_reach.induct)
  case reach_init
  then show ?case by (simp add: signal_inv_def term_first_def init_world_def)
next
  case (reach_exec w n inp)
  then show ?case by (simp add: signal_inv_exec)
next
  case (reach_call w t)
  then show ?case
    by (auto simp: signal_inv_def call_def all_ops_def child_start_def child_stop_def child_restart_def)
next
  case (reach_tick w now)
  then show ?case by (simp add: signal_inv_def tick_def)
next
  case (reach_consume w)
  then show ?case by (simp add: signal_inv_def consume_def)
qed

section \<open>Calls that run alone\<close>

text \<open>A goroutine that runs without interruption: \<open>k\<close> actions of the thread \<open>t\<close>.\<close>

fun run_alone :: "input \<Rightarrow> nat \<Rightarrow> thread \<Rightarrow> world \<Rightarrow> thread \<times> world" where
  "run_alone inp 0 t w = (t, w)"
| "run_alone inp (Suc k) t w =
     (case t of
        [] \<Rightarrow> ([], w)
      | a # rest \<Rightarrow> (let (acts, w1) = act_step inp a w in run_alone inp k (acts @ rest) w1))"

lemma run_alone_numeral [simp]:
  "run_alone inp (numeral k) (a # rest) w =
     (let (acts, w1) = act_step inp a w in run_alone inp (pred_numeral k) (acts @ rest) w1)"
  "run_alone inp (numeral k) [] w = ([], w)"
  by (simp_all add: numeral_eq_Suc)

lemmas part_defs = set_state_def start_failed_def start_done_def run_end_def result_def abort_restart_def
  upd_child_def clear_proc_def

lemma start_refused:
  assumes "ch_state (w_child w) \<noteq> state_idle" "ch_state (w_child w) \<noteq> state_crashed"
  shows "run_alone inp 2 child_start w = ([], w\<lparr>w_results := w_results w @ [False]\<rparr>)"
  using assms by (simp add: child_start_def part_defs)

lemma start_env_error:
  assumes "ch_state (w_child w) = state_idle \<or> ch_state (w_child w) = state_crashed"
    "build_env (in_files inp) (child_env (in_environ inp)) (ch_cfg (w_child w)) = Inl e"
  shows "\<exists>w'. run_alone inp 6 child_start w = ([], w') \<and> ch_state (w_child w') = state_idle
    \<and> w_spawns w' = w_spawns w \<and> w_wg w' = w_wg w \<and> w_threads w' = w_threads w
    \<and> w_results w' = w_results w @ [False]"
  using assms by (auto simp add: child_start_def part_defs emit_def Let_def)

lemma start_spawn_error:
  assumes "ch_state (w_child w) = state_idle \<or> ch_state (w_child w) = state_crashed"
    "build_env (in_files inp) (child_env (in_environ inp)) (ch_cfg (w_child w)) = Inr env"
    "in_spawn inp = None"
  shows "\<exists>w'. run_alone inp 8 child_start w = ([], w') \<and> ch_state (w_child w') = state_idle
    \<and> w_spawns w' = w_spawns w \<and> w_wg w' = w_wg w \<and> w_threads w' = w_threads w
    \<and> w_results w' = w_results w @ [False]"
  using assms by (auto simp add: child_start_def part_defs emit_def Let_def)

lemma start_succeeds:
  assumes "ch_state (w_child w) = state_idle \<or> ch_state (w_child w) = state_crashed"
    "build_env (in_files inp) (child_env (in_environ inp)) (ch_cfg (w_child w)) = Inr env"
    "in_spawn inp = Some pid" "length (w_events w) + 2 \<le> events_buf_size"
  shows "\<exists>w' ctx. run_alone inp 12 child_start w = ([], w') \<and>
    (let c = w_child w; c' = w_child w' in
    ch_state c' = state_running \<and> ch_pid c' = pid \<and> ch_cmd c' \<noteq> None \<and> ch_ptmx c' = ch_cmd c'
    \<and> \<not> ch_stop_requested c' \<and> ch_policy c' = snd (policy_on_start (in_now inp) (ch_policy c))
    \<and> w_events w' = w_events w @ [StateChangedEvent (ch_id c) state_running, StartedEvent (ch_id c) pid (in_now inp)]
    \<and> w_spawns w' = w_spawns w @ [(p_path (ch_cfg c), p_cmd (ch_cfg c), env,
         uint16 (pty_cols (ch_settings c)), uint16 (pty_rows (ch_settings c)))]
    \<and> w_wg w' = w_wg w + 1 \<and> w_results w' = w_results w @ [True]
    \<and> ch_cancel c' = Some ctx \<and> w_threads w' = w_threads w @ [[RunInit ctx]])"
  using assms by (auto simp add: child_start_def part_defs emit_def Let_def)


lemma exit_requested:
  assumes "ch_stop_requested (w_child w)" "length (w_events w) < events_buf_size" "0 < w_wg w"
  shows "\<exists>w'. run_alone inp 7 [RunDecide ctx code sig] w = ([], w') \<and> ch_state (w_child w') = state_idle
    \<and> ch_cmd (w_child w') = None \<and> ch_pid (w_child w') = 0
    \<and> po_attempts (ch_policy (w_child w')) = po_attempts (ch_policy (w_child w))
    \<and> w_events w' = w_events w @ [StateChangedEvent (ch_id (w_child w)) state_idle]
    \<and> w_wg w' = w_wg w - 1 \<and> w_panic w' = w_panic w \<and> w_threads w' = w_threads w"
  using assms by (auto simp: part_defs emit_def Let_def policy_stop_def stop_reset_timer_def)

lemma exit_unrequested:
  assumes "\<not> ch_stop_requested (w_child w)" "length (w_events w) + 2 \<le> events_buf_size" "0 < w_wg w"
    "policy_on_exit code sig (ch_policy (w_child w)) = ((action, delay), p)"
  shows "action \<noteq> ActionRestart \<Longrightarrow>
    \<exists>w'. run_alone inp 7 [RunDecide ctx code sig] w = ([], w')
      \<and> ch_state (w_child w') = (if action = ActionGiveUp then state_giving_up
            else if code = 0 then state_idle else state_crashed)
      \<and> ch_cmd (w_child w') = None \<and> ch_pid (w_child w') = 0 \<and> ch_policy (w_child w') = p
      \<and> w_wg w' = w_wg w - 1 \<and> w_panic w' = w_panic w \<and> w_threads w' = w_threads w"
    and "action = ActionRestart \<Longrightarrow>
    \<exists>w'. run_alone inp 6 [RunDecide ctx code sig] w = ([if delay > 0 then DelayWait ctx else CtxCheck ctx], w')
      \<and> ch_state (w_child w') = state_restarting \<and> ch_policy (w_child w') = p \<and> w_wg w' = w_wg w
      \<and> w_events w' = w_events w @ [StateChangedEvent (ch_id (w_child w)) state_restarting,
            RestartingEvent (ch_id (w_child w)) (po_attempts p) delay]"
proof -
  show "action \<noteq> ActionRestart \<Longrightarrow>
    \<exists>w'. run_alone inp 7 [RunDecide ctx code sig] w = ([], w')
      \<and> ch_state (w_child w') = (if action = ActionGiveUp then state_giving_up
            else if code = 0 then state_idle else state_crashed)
      \<and> ch_cmd (w_child w') = None \<and> ch_pid (w_child w') = 0 \<and> ch_policy (w_child w') = p
      \<and> w_wg w' = w_wg w - 1 \<and> w_panic w' = w_panic w \<and> w_threads w' = w_threads w"
    using assms by (cases action) (auto simp: part_defs emit_def Let_def)
  show "action = ActionRestart \<Longrightarrow>
    \<exists>w'. run_alone inp 6 [RunDecide ctx code sig] w = ([if delay > 0 then DelayWait ctx else CtxCheck ctx], w')
      \<and> ch_state (w_child w') = state_restarting \<and> ch_policy (w_child w') = p \<and> w_wg w' = w_wg w
      \<and> w_events w' = w_events w @ [StateChangedEvent (ch_id (w_child w)) state_restarting,
            RestartingEvent (ch_id (w_child w)) (po_attempts p) delay]"
    using assms by (auto simp: part_defs emit_def Let_def policy_attempts_def)
qed

lemma run_alone_done:
  "run_alone inp k t w = ([], w') \<Longrightarrow> k \<le> m \<Longrightarrow> run_alone inp m t w = ([], w')"
proof (induction k arbitrary: t w m)
  case 0
  then show ?case by (cases m) auto
next
  case (Suc k)
  then obtain m' where m: "m = Suc m'" "k \<le> m'" by (cases m) auto
  show ?case
  proof (cases t)
    case (Cons a rest)
    obtain acts w1 where s: "act_step inp a w = (acts, w1)" by (metis prod.collapse)
    have "run_alone inp m' (acts @ rest) w1 = ([], w')"
      by (rule Suc.IH [OF _ m(2)]) (use Suc.prems(1) Cons s in simp)
    then show ?thesis by (simp add: m Cons s)
  qed (use Suc.prems m in simp)
qed

section \<open>Schedules\<close>

datatype sched = Call thread | Step nat input

fun run_sched :: "sched list \<Rightarrow> world \<Rightarrow> world" where
  "run_sched [] w = w"
| "run_sched (Call t # ss) w = run_sched ss (call t w)"
| "run_sched (Step n inp # ss) w = run_sched ss (exec n inp w)"

lemma run_sched_reach:
  "child_reach ops w0 w \<Longrightarrow> \<forall>t. Call t \<in> set ss \<longrightarrow> t \<in> ops \<Longrightarrow> child_reach ops w0 (run_sched ss w)"
  by (induction ss w rule: run_sched.induct) (auto intro: child_reach.intros)

definition quiet_input :: input where
  "quiet_input = \<lparr>in_now = 1, in_files = (\<lambda>_. None), in_environ = [], in_spawn = Some 100,
     in_read = ([], True), in_tee_fails = (\<lambda>_. False), in_exit = ExitCode 0, in_pgid_ok = False,
     in_elapsed = True, in_done_first = False\<rparr>"

definition steps :: "nat \<Rightarrow> nat \<Rightarrow> sched list" where
  "steps n k = replicate k (Step n quiet_input)"

definition demo_project :: project where
  "demo_project = \<lparr>p_path = ''/'', p_cmd = ''x'', p_restart = ''never'', p_env = [], p_env_file = []\<rparr>"

text \<open>The process ends by itself while \<open>Stop\<close> is between reading \<open>cmd\<close> and setting the state.\<close>

definition stuck_schedule :: "sched list" where
  "stuck_schedule = [Call child_start] @ steps 0 12 @ steps 1 6 @ [Call child_stop] @ steps 2 2
     @ steps 1 6 @ steps 2 5"

definition stuck_world :: world where
  "stuck_world = run_sched stuck_schedule (init_world ''a'' demo_project default_settings)"



lemma demo_env: "\<exists>env. build_env (\<lambda>_. None) e demo_project = Inr env"
  by (simp add: build_env_def demo_project_def Let_def)

lemmas run_defs = exec_def part_defs emit_def Let_def quiet_input_def events_buf_size_def child_start_def child_stop_def
  child_restart_def call_def read_step_def flush_def new_line_buffer_def tail_event_def exit_code_def
  policy_on_exit_def policy_on_start_def policy_manual_restart_def policy_stop_def stop_reset_timer_def
  chan_closed_def fanout_def

lemma steps_Suc: "steps n (Suc k) = Step n quiet_input # steps n k" "steps n 0 = []"
  "steps n (numeral m) = Step n quiet_input # steps n (pred_numeral m)"
  by (simp_all add: steps_def numeral_eq_Suc)

lemma stuck_stopping:
  "ch_state (w_child stuck_world) = state_stopping \<and> w_threads stuck_world = [[], [], []]
   \<and> \<not> w_panic stuck_world"
proof -
  obtain env where env: "build_env (\<lambda>_. None) (child_env []) demo_project = Inr env" using demo_env by blast
  have m: "p_restart demo_project = ''never''" by (simp add: demo_project_def)
  show ?thesis
    by (simp add: stuck_world_def stuck_schedule_def steps_Suc run_defs init_world_def new_child_def new_policy_def env m)
qed
lemma stuck_reachable: "child_reach all_ops (init_world ''a'' demo_project default_settings) stuck_world"
  unfolding stuck_world_def
  by (rule run_sched_reach [OF reach_init])
    (auto simp: stuck_schedule_def steps_def all_ops_def)

text \<open>
  From there every \<open>Start\<close> is refused, although nothing runs any more: the project is stuck in
  \<open>stopping\<close> until a manual restart forces it to idle.
\<close>

lemma stuck_refuses_start:
  "run_alone inp 2 child_start stuck_world = ([], stuck_world\<lparr>w_results := w_results stuck_world @ [False]\<rparr>)"
  by (rule start_refused) (simp_all add: stuck_stopping)

text \<open>
  \<open>Restart\<close> waits 50 ms at most for the old goroutine. When the old process is not reaped by then, the
  old goroutine closes the \<open>waitDone\<close> channel of the new process, whose own goroutine then closes it a
  second time, which is a panic of the whole daemon.
\<close>

definition panic_schedule :: "sched list" where
  "panic_schedule = [Call child_start] @ steps 0 12 @ steps 1 3 @ [Call child_restart] @ steps 2 22
     @ steps 3 3 @ steps 1 1 @ steps 3 1"

definition panic_world :: world where
  "panic_world = run_sched panic_schedule (init_world ''a'' demo_project default_settings)"

lemma restart_panics:
  "w_panic panic_world \<and> child_reach all_ops (init_world ''a'' demo_project default_settings) panic_world"
proof
  obtain env where env: "build_env (\<lambda>_. None) (child_env []) demo_project = Inr env" using demo_env by blast
  have m: "p_restart demo_project = ''never''" by (simp add: demo_project_def)
  show "w_panic panic_world"
    by (simp add: panic_world_def panic_schedule_def steps_Suc run_defs init_world_def new_child_def
        new_policy_def env m)
  show "child_reach all_ops (init_world ''a'' demo_project default_settings) panic_world"
    unfolding panic_world_def
    by (rule run_sched_reach [OF reach_init]) (auto simp: panic_schedule_def steps_def all_ops_def)
qed

text \<open>Validation accepts a terminal size that the conversion to 16 bits turns into zero.\<close>

lemma pty_size_wraps:
  "valid_settings (default_settings\<lparr>pty_cols := 65536\<rparr>)
   \<and> uint16 (pty_cols (default_settings\<lparr>pty_cols := 65536\<rparr>)) = 0"
  by (simp add: valid_settings_def default_settings_def uint16_def)

section \<open>Properties\<close>

text \<open>
  C1: a project that is not restarted automatically never has two instances: whatever the interleaving
  of any number of \<open>Start\<close> and \<open>Stop\<close> calls with the goroutines, timers and exits, at most one thread is
  between the decision to spawn and the report that the process is gone, and none is while the state
  reads idle or crashed.
\<close>
theorem child_single_instance:
  assumes "p_restart cfg \<noteq> ''on-failure''"
    and "child_reach {child_start, child_stop} (init_world i cfg settings) w"
  shows "length (filter active (concat (w_threads w))) \<le> 1
    \<and> (ch_state (w_child w) = state_idle \<or> ch_state (w_child w) = state_crashed
         \<longrightarrow> filter active (concat (w_threads w)) = [])"
proof -
  have eq: "length (filter active (concat ts)) = sum_list (map busy ts)" for ts
    by (induction ts) (simp_all add: busy_def)
  have "length (filter active (concat (w_threads w))) \<le> (if resting w then 0 else 1)"
    unfolding eq using single_inv_reach [OF assms] unfolding single_inv_def by blast
  then show ?thesis
    unfolding resting_def by (simp split: if_splits)
qed

theorem child_single_instance_witness:
  "length (filter active (concat (w_threads
     (run_sched (Call child_start # steps 0 12) (init_world ''a'' demo_project default_settings))))) \<le> 1"
proof -
  have "child_reach {child_start, child_stop} (init_world ''a'' demo_project default_settings)
      (run_sched (Call child_start # steps 0 12) (init_world ''a'' demo_project default_settings))"
    by (rule run_sched_reach [OF reach_init]) (auto simp: steps_def)
  moreover have "p_restart demo_project \<noteq> ''on-failure''" by (simp add: demo_project_def)
  ultimately show ?thesis using child_single_instance by blast
qed

text \<open>
  C8: the manager's wait group is balanced under every interleaving, restarts included: its counter is
  never negative, and when it is zero no goroutine of the child is between its start and its last
  emission, so \<open>Manager.Close\<close> may close the events channel.
\<close>
theorem child_wait_group:
  assumes "child_reach all_ops (init_world i cfg settings) w"
  shows "0 \<le> w_wg w \<and> w_wg w = sum_list (map owed (w_threads w))
    \<and> (w_wg w = 0 \<longrightarrow> (\<forall>t \<in> set (w_threads w). \<forall>a \<in> set t. weight a = 1 \<longrightarrow> (\<exists>c. a = GoRun c)))"
proof -
  have inv: "list_all paired (w_threads w)" "w_wg w = sum_list (map owed (w_threads w))"
    using wg_inv_reach [OF assms] by (simp_all add: wg_inv_def)
  then have pos: "\<forall>t \<in> set (w_threads w). 0 \<le> owed t" using paired_owed by (auto simp: list_all_iff)
  then have "0 \<le> sum_list (map owed (w_threads w))" by (intro sum_list_nonneg) auto
  moreover have "owed t = 0" if "w_wg w = 0" "t \<in> set (w_threads w)" for t
    using that pos inv(2) sum_list_nonneg_eq_0_iff [of "map owed (w_threads w)"] by auto
  ultimately show ?thesis using inv paired_owed by (auto simp: list_all_iff)
qed

theorem child_wait_group_witness:
  "w_wg stuck_world = sum_list (map owed (w_threads stuck_world))"
  using child_wait_group [OF stuck_reachable] by blast

text \<open>
  C9: a process group gets SIGKILL only after it got SIGTERM, under every interleaving of calls.
\<close>
theorem child_term_before_kill:
  assumes "child_reach all_ops (init_world i cfg settings) w"
    and "k < length (w_signals w)" "w_signals w ! k = SigKillGroup p"
  shows "\<exists>j < k. w_signals w ! j = SigTermGroup p"
  using signal_inv_reach [OF assms(1)] assms(2,3) by (auto simp: signal_inv_def term_first_def)

definition kill_world :: world where
  "kill_world = run_sched ([Call child_start] @ steps 0 12 @ [Call child_stop] @ steps 2 5
     @ [Step 2 (quiet_input\<lparr>in_pgid_ok := True\<rparr>)] @ steps 2 1) (init_world ''a'' demo_project default_settings)"

theorem child_term_before_kill_witness:
  "\<exists>j < (1::nat). w_signals kill_world ! j = SigTermGroup 1"
proof -
  obtain env where env: "build_env (\<lambda>_. None) (child_env []) demo_project = Inr env" using demo_env by blast
  have m: "p_restart demo_project = ''never''" by (simp add: demo_project_def)
  have "w_signals kill_world = [SigTermGroup 1, SigKillGroup 1]"
    by (simp add: kill_world_def steps_Suc run_defs init_world_def new_child_def new_policy_def env m)
  moreover have "child_reach all_ops (init_world ''a'' demo_project default_settings) kill_world"
    unfolding kill_world_def
    by (rule run_sched_reach [OF reach_init]) (auto simp: steps_def all_ops_def)
  ultimately show ?thesis using child_term_before_kill [of "''a''" demo_project default_settings kill_world 1 1] by simp
qed

text \<open>
  C4: what \<open>Start\<close> does on every branch: outside idle and crashed it fails and changes nothing; when the
  environment cannot be built or the spawn fails it fails, leaves the child idle and starts no
  goroutine; otherwise the configured command is spawned in the configured directory with the built
  environment and a 16-bit terminal size, the pid is recorded, the state is running, both events are
  emitted, and one goroutine, counted in the wait group, reads its output.
\<close>
theorem child_start_outcome:
  assumes "length (w_events w) + 2 \<le> events_buf_size"
  shows "\<exists>w'. run_alone inp 12 child_start w = ([], w') \<and>
    (let c = w_child w; c' = w_child w' in
     if ch_state c \<noteq> state_idle \<and> ch_state c \<noteq> state_crashed then w' = w\<lparr>w_results := w_results w @ [False]\<rparr>
     else case build_env (in_files inp) (child_env (in_environ inp)) (ch_cfg c) of
       Inl _ \<Rightarrow> ch_state c' = state_idle \<and> w_spawns w' = w_spawns w \<and> w_wg w' = w_wg w
         \<and> w_threads w' = w_threads w \<and> w_results w' = w_results w @ [False]
     | Inr env \<Rightarrow>
       (case in_spawn inp of
          None \<Rightarrow> ch_state c' = state_idle \<and> w_spawns w' = w_spawns w \<and> w_wg w' = w_wg w
            \<and> w_threads w' = w_threads w \<and> w_results w' = w_results w @ [False]
        | Some pid \<Rightarrow> ch_state c' = state_running \<and> ch_pid c' = pid \<and> ch_cmd c' \<noteq> None
            \<and> \<not> ch_stop_requested c'
            \<and> w_events w' = w_events w @ [StateChangedEvent (ch_id c) state_running,
                 StartedEvent (ch_id c) pid (in_now inp)]
            \<and> w_spawns w' = w_spawns w @ [(p_path (ch_cfg c), p_cmd (ch_cfg c), env,
                 uint16 (pty_cols (ch_settings c)), uint16 (pty_rows (ch_settings c)))]
            \<and> w_wg w' = w_wg w + 1 \<and> w_results w' = w_results w @ [True]
            \<and> (\<exists>ctx. w_threads w' = w_threads w @ [[RunInit ctx]])))"
proof -
  let ?c = "w_child w" and ?env = "build_env (in_files inp) (child_env (in_environ inp)) (ch_cfg (w_child w))"
  consider (refused) "ch_state ?c \<noteq> state_idle" "ch_state ?c \<noteq> state_crashed"
    | (noenv) e where "ch_state ?c = state_idle \<or> ch_state ?c = state_crashed" "?env = Inl e"
    | (nospawn) env where "ch_state ?c = state_idle \<or> ch_state ?c = state_crashed" "?env = Inr env" "in_spawn inp = None"
    | (ok) env pid where "ch_state ?c = state_idle \<or> ch_state ?c = state_crashed" "?env = Inr env" "in_spawn inp = Some pid"
    by (cases ?env; cases "in_spawn inp") auto
  then show ?thesis
  proof cases
    case refused
    then show ?thesis using run_alone_done [OF start_refused [OF refused], of 12] by (simp del: run_alone_numeral)
  next
    case noenv
    then show ?thesis using start_env_error [OF noenv] run_alone_done [of inp 6 child_start w _ 12]
      by (force simp del: run_alone_numeral)
  next
    case nospawn
    then show ?thesis using start_spawn_error [OF nospawn] run_alone_done [of inp 8 child_start w _ 12]
      by (force simp del: run_alone_numeral)
  next
    case ok
    then show ?thesis using start_succeeds [OF ok assms] by (auto simp: Let_def simp del: run_alone_numeral)
  qed
qed

theorem child_start_outcome_witness:
  "\<exists>w'. run_alone quiet_input 12 child_start (init_world ''a'' demo_project default_settings) = ([], w')"
  using child_start_outcome [of "init_world ''a'' demo_project default_settings" quiet_input]
  by (auto simp: init_world_def events_buf_size_def simp del: run_alone_numeral)

text \<open>
  C6: what \<open>run\<close> does when the process has ended: after a requested stop the child is idle whatever the
  exit code and the policy is not consulted; otherwise the policy decides, the child is idle after a
  clean exit, crashed or giving up after a failure that is not restarted, with no process left in
  any of these, and a restart is announced with its attempt number and waits for its delay.
\<close>
theorem child_exit_outcome:
  assumes "length (w_events w) + 2 \<le> events_buf_size" "0 < w_wg w"
    and "policy_on_exit code sig (ch_policy (w_child w)) = ((action, delay), p)"
  shows "\<exists>w' t. run_alone inp (if \<not> ch_stop_requested (w_child w) \<and> action = ActionRestart then 6 else 7)
      [RunDecide ctx code sig] w = (t, w') \<and>
    (let c = w_child w; c' = w_child w' in
     if ch_stop_requested c then
       t = [] \<and> ch_state c' = state_idle \<and> ch_cmd c' = None \<and> ch_pid c' = 0 \<and> w_wg w' = w_wg w - 1
       \<and> po_attempts (ch_policy c') = po_attempts (ch_policy c) \<and> w_threads w' = w_threads w
     else if action = ActionRestart then
       t = [if delay > 0 then DelayWait ctx else CtxCheck ctx] \<and> ch_state c' = state_restarting
       \<and> ch_policy c' = p \<and> w_wg w' = w_wg w
       \<and> w_events w' = w_events w @ [StateChangedEvent (ch_id c) state_restarting,
            RestartingEvent (ch_id c) (po_attempts p) delay]
     else
       t = [] \<and> ch_state c' = (if action = ActionGiveUp then state_giving_up
           else if code = 0 then state_idle else state_crashed)
       \<and> ch_cmd c' = None \<and> ch_pid c' = 0 \<and> ch_policy c' = p \<and> w_wg w' = w_wg w - 1
       \<and> w_threads w' = w_threads w)"
proof (cases "ch_stop_requested (w_child w)")
  case True
  then show ?thesis
    using exit_requested [OF True _ assms(2), of inp ctx code sig] assms(1) by (auto simp: Let_def simp del: run_alone_numeral)
next
  case False
  show ?thesis
  proof (cases "action = ActionRestart")
    case restart: True
    then show ?thesis
      using exit_unrequested(2) [OF False assms, of inp ctx] False by (auto simp: Let_def simp del: run_alone_numeral)
  next
    case other: False
    then show ?thesis
      using exit_unrequested(1) [OF False assms other, of inp ctx] False by (auto simp: Let_def simp del: run_alone_numeral)
  qed
qed

theorem child_exit_outcome_witness:
  "\<exists>w' t. run_alone quiet_input 7 [RunDecide 0 3 []]
     ((init_world ''a'' demo_project default_settings)\<lparr>w_wg := 1\<rparr>) = (t, w')
   \<and> ch_state (w_child w') = state_crashed"
proof -
  let ?w = "(init_world ''a'' demo_project default_settings)\<lparr>w_wg := 1\<rparr>"
  have f: "\<not> ch_stop_requested (w_child ?w)" by (simp add: init_world_def new_child_def)
  obtain p where p: "policy_on_exit 3 [] (ch_policy (w_child ?w)) = ((ActionNone, 0), p)"
    by (simp add: init_world_def new_child_def new_policy_def demo_project_def policy_on_exit_def
        stop_reset_timer_def Let_def)
  show ?thesis
    using child_exit_outcome [OF _ _ p, of quiet_input 0] f
    by (auto simp: init_world_def events_buf_size_def Let_def simp del: run_alone_numeral split: if_splits)
qed

end
