(* ===== verification/Manager.thy ===== *)
theory Manager
  imports Child_Safety
begin

text \<open>
  The process manager of \<open>internal/process/manager.go\<close>: the map of children, created on first use with
  the definition the configuration has at that moment, the group and reload operations. A call into a
  child runs to its end on the child's model (\<open>do_call\<close>); the environment's answers are an argument.
\<close>

section \<open>Calls into a child run to their end\<close>

definition call_fuel :: nat where "call_fuel = 40"

definition do_call :: "input \<Rightarrow> thread \<Rightarrow> world \<Rightarrow> bool \<times> world" where
  "do_call inp t w = (let (_, w') = run_alone inp call_fuel t w in (last (w_results w'), w'))"

text \<open>An upper bound of the actions a call still needs once its waits have elapsed.\<close>

fun cost :: "act \<Rightarrow> nat" where
  "cost (StartCheck _) = 14" | "cost (StartCtx _) = 13" | "cost (StartEnv _ _) = 12"
| "cost (StartSpawn _ _ _) = 11" | "cost (StartStore _ _ _ _) = 10"
| "cost (StopRead _) = 9" | "cost (GetPgid _ _ _) = 4" | "cost (GraceWait _ _ _) = 2"
| "cost _ = 1"

fun call_act :: "act \<Rightarrow> bool" where
  "call_act (StartCheck o') \<longleftrightarrow> o' = Api" | "call_act (StartCtx o') \<longleftrightarrow> o' = Api"
| "call_act (StartEnv o' _) \<longleftrightarrow> o' = Api" | "call_act (StartSpawn o' _ _) \<longleftrightarrow> o' = Api"
| "call_act (StartStore o' _ _ _) \<longleftrightarrow> o' = Api"
| "call_act (RunInit _) \<longleftrightarrow> False" | "call_act (RunRead _ _ _ _) \<longleftrightarrow> False" | "call_act (RunWait _ _) \<longleftrightarrow> False"
| "call_act (RunClose _ _) \<longleftrightarrow> False" | "call_act (RunDecide _ _ _) \<longleftrightarrow> False"
| "call_act (PolicyExit _ _ _) \<longleftrightarrow> False" | "call_act (ReadAttempts _ _) \<longleftrightarrow> False"
| "call_act (DelayWait _) \<longleftrightarrow> False" | "call_act (CtxCheck _) \<longleftrightarrow> False"
| "call_act _ \<longleftrightarrow> True"

definition total_cost :: "thread \<Rightarrow> nat" where
  "total_cost t = sum_list (map cost t)"

lemma total_cost_simps [simp]: "total_cost [] = 0" "total_cost (a # t) = cost a + total_cost t"
  "total_cost (s @ t) = total_cost s + total_cost t"
  by (simp_all add: total_cost_def)

lemma cost_decreases:
  assumes "in_elapsed inp" "call_act a" "act_step inp a w = (acts, w')"
  shows "total_cost acts < cost a \<and> list_all call_act acts"
  using assms
  by (cases a) (auto simp: Let_def part_defs split: if_splits sum.splits option.splits)

lemma run_alone_finishes:
  "in_elapsed inp \<Longrightarrow> list_all call_act t \<Longrightarrow> total_cost t \<le> k \<Longrightarrow> fst (run_alone inp k t w) = []"
proof (induction k arbitrary: t w)
  case 0
  then show ?case
    by (cases t; cases "hd t") auto
next
  case (Suc k)
  show ?case
  proof (cases t)
    case (Cons a rest)
    obtain acts w1 where s: "act_step inp a w = (acts, w1)" by (metis prod.collapse)
    have "call_act a" using Suc.prems Cons by simp
    from cost_decreases [OF Suc.prems(1) this s] show ?thesis
      using Suc.IH [of "acts @ rest" w1] Suc.prems Cons s by simp
  qed simp
qed

lemma do_call_finishes:
  "in_elapsed inp \<Longrightarrow> t \<in> all_ops \<Longrightarrow> fst (run_alone inp call_fuel t w) = []"
  by (rule run_alone_finishes)
    (auto simp: all_ops_def child_start_def child_stop_def child_restart_def call_fuel_def)

section \<open>State\<close>

text \<open>
  \<open>mg_dropped\<close> are the children that were deleted from the map, as they were then: the objects live on in their
  goroutines, although the manager has forgotten them.
\<close>

record manager =
  mg_cfg :: config
  mg_children :: "world gomap"
  mg_closed :: bool
  mg_dropped :: "(string \<times> world) list"

datatype manager_error =
    UnknownProject string
  | UnknownGroup string
  | ChildError string
  | GroupMember string string manager_error

record reload_result =
  rr_added :: "string list"
  rr_removed :: "string list"
  rr_changed :: "string list"
  rr_stopped :: "string list"

definition new_manager :: "config \<Rightarrow> manager" where
  "new_manager cfg = \<lparr>mg_cfg = cfg, mg_children = [], mg_closed = False, mg_dropped = []\<rparr>"

section \<open>Operations\<close>

definition get_or_create :: "string \<Rightarrow> manager \<Rightarrow> manager_error + (world \<times> manager)" where
  "get_or_create i m =
     (case map_of (mg_children m) i of
        Some w \<Rightarrow> Inr (w, m)
      | None \<Rightarrow>
          (case map_of (c_projects (mg_cfg m)) i of
             None \<Rightarrow> Inl (UnknownProject i)
           | Some p \<Rightarrow>
               (let w = init_world i p (c_settings (mg_cfg m))
                in Inr (w, m\<lparr>mg_children := AList.update i w (mg_children m)\<rparr>))))"

definition on_child :: "input \<Rightarrow> string \<Rightarrow> thread \<Rightarrow> world \<Rightarrow> manager \<Rightarrow> manager_error option \<times> manager" where
  "on_child inp i t w m =
     (let (ok, w') = do_call inp t w
      in (if ok then None else Some (ChildError i), m\<lparr>mg_children := AList.update i w' (mg_children m)\<rparr>))"

definition mgr_start :: "input \<Rightarrow> string \<Rightarrow> manager \<Rightarrow> manager_error option \<times> manager" where
  "mgr_start inp i m =
     (case get_or_create i m of Inl e \<Rightarrow> (Some e, m) | Inr (w, m1) \<Rightarrow> on_child inp i child_start w m1)"

definition mgr_stop :: "input \<Rightarrow> string \<Rightarrow> manager \<Rightarrow> manager_error option \<times> manager" where
  "mgr_stop inp i m =
     (case map_of (mg_children m) i of
        None \<Rightarrow> (Some (UnknownProject i), m)
      | Some w \<Rightarrow> on_child inp i child_stop w m)"

definition mgr_restart :: "input \<Rightarrow> string \<Rightarrow> manager \<Rightarrow> manager_error option \<times> manager" where
  "mgr_restart inp i m =
     (case get_or_create i m of Inl e \<Rightarrow> (Some e, m) | Inr (w, m1) \<Rightarrow> on_child inp i child_restart w m1)"

text \<open>The loop of \<open>StartGroup\<close>; the delay between members has no effect on the state.\<close>

fun start_members :: "input \<Rightarrow> string \<Rightarrow> string list \<Rightarrow> manager \<Rightarrow> manager_error option \<times> manager" where
  "start_members inp g [] m = (None, m)"
| "start_members inp g (i # ms) m =
     (case mgr_start inp i m of
        (Some e, m1) \<Rightarrow> (Some (GroupMember g i e), m1)
      | (None, m1) \<Rightarrow> start_members inp g ms m1)"

definition start_group :: "input \<Rightarrow> string \<Rightarrow> manager \<Rightarrow> manager_error option \<times> manager" where
  "start_group inp g m =
     (case map_of (c_groups (mg_cfg m)) g of
        None \<Rightarrow> (Some (UnknownGroup g), m)
      | Some ms \<Rightarrow> start_members inp g ms m)"

definition stop_all :: "input \<Rightarrow> manager \<Rightarrow> manager" where
  "stop_all inp m = fold (\<lambda>i m'. snd (mgr_stop inp i m')) (keys_of (mg_children m)) m"

definition mgr_close :: "input \<Rightarrow> manager \<Rightarrow> manager" where
  "mgr_close inp m = (if mg_closed m then m else stop_all inp (m\<lparr>mg_closed := True\<rparr>))"

definition mgr_resize :: "string \<Rightarrow> 16 word \<Rightarrow> 16 word \<Rightarrow> manager \<Rightarrow> (nat \<times> 16 word \<times> 16 word) option" where
  "mgr_resize i cols rows m =
     (case map_of (mg_children m) i of None \<Rightarrow> None | Some w \<Rightarrow> child_resize cols rows (w_child w))"

definition mgr_attach :: "string \<Rightarrow> manager \<Rightarrow> manager_error + nat" where
  "mgr_attach i m =
     (case map_of (mg_children m) i of
        None \<Rightarrow> Inl (UnknownProject i)
      | Some w \<Rightarrow> (case child_attach (w_child w) of Inl _ \<Rightarrow> Inl (ChildError i) | Inr p \<Rightarrow> Inr p))"

definition mgr_subscribe :: "string \<Rightarrow> nat \<Rightarrow> manager \<Rightarrow> manager_error + manager" where
  "mgr_subscribe i s m =
     (case map_of (mg_children m) i of
        None \<Rightarrow> Inl (UnknownProject i)
      | Some w \<Rightarrow> Inr (m\<lparr>mg_children := AList.update i (upd_child (child_subscribe s) w) (mg_children m)\<rparr>))"

text \<open>\<open>delete(m.children, id)\<close>.\<close>

definition drop_child :: "string \<Rightarrow> manager \<Rightarrow> manager" where
  "drop_child i m = m\<lparr>mg_children := AList.delete i (mg_children m),
     mg_dropped := mg_dropped m @ (case map_of (mg_children m) i of None \<Rightarrow> [] | Some w \<Rightarrow> [(i, w)])\<rparr>"

section \<open>Reload\<close>

definition maps_equal :: "string gomap \<Rightarrow> string gomap \<Rightarrow> bool" where
  "maps_equal a b \<longleftrightarrow> length a = length b \<and> list_all (\<lambda>(k, v). map_of b k = Some v) a"

definition project_changed :: "project \<Rightarrow> project \<Rightarrow> bool" where
  "project_changed a b =
     (if p_path a \<noteq> p_path b \<or> p_cmd a \<noteq> p_cmd b \<or> p_restart a \<noteq> p_restart b \<or> p_env_file a \<noteq> p_env_file b
      then True else \<not> maps_equal (p_env a) (p_env b))"

definition removed_of :: "project gomap \<Rightarrow> project gomap \<Rightarrow> string list" where
  "removed_of old_ps new_ps = filter (\<lambda>i. map_of new_ps i = None) (keys_of old_ps)"

definition added_of :: "project gomap \<Rightarrow> project gomap \<Rightarrow> string list" where
  "added_of old_ps new_ps = filter (\<lambda>i. map_of old_ps i = None) (keys_of new_ps)"

definition changed_of :: "project gomap \<Rightarrow> project gomap \<Rightarrow> string list" where
  "changed_of old_ps new_ps = map fst (filter (\<lambda>(i, p).
     case map_of new_ps i of None \<Rightarrow> False | Some q \<Rightarrow> project_changed p q) old_ps)"

text \<open>
  The loop over the removed projects: stop the child, whatever it answers, and drop it. The ids that
  had a child when the configuration was swapped are an argument, as the code snapshots them.
\<close>

fun stop_removed :: "input \<Rightarrow> string list \<Rightarrow> string list \<Rightarrow> manager \<Rightarrow> string list \<times> manager" where
  "stop_removed inp running [] m = ([], m)"
| "stop_removed inp running (i # is) m =
     (if i \<notin> set running then stop_removed inp running is m
      else case map_of (mg_children m) i of
             None \<Rightarrow> stop_removed inp running is m
           | Some w \<Rightarrow>
               (let (_, m1) = on_child inp i child_stop w m;
                    (st, m3) = stop_removed inp running is (drop_child i m1)
                in (i # st, m3)))"

definition mgr_reload :: "input \<Rightarrow> config option \<Rightarrow> manager \<Rightarrow> reload_result \<times> manager" where
  "mgr_reload inp new_cfg m =
     (case new_cfg of
        None \<Rightarrow> (\<lparr>rr_added = [], rr_removed = [], rr_changed = [], rr_stopped = []\<rparr>, m)
      | Some cfg \<Rightarrow>
          (let old_ps = c_projects (mg_cfg m); new_ps = c_projects cfg;
               running = keys_of (mg_children m);
               removed = removed_of old_ps new_ps;
               (stopped, m1) = stop_removed inp running removed (m\<lparr>mg_cfg := cfg\<rparr>)
           in (\<lparr>rr_added = added_of old_ps new_ps, rr_removed = removed,
                rr_changed = changed_of old_ps new_ps, rr_stopped = stopped\<rparr>, m1)))"

section \<open>Lemmas\<close>

definition mgr_inv :: "manager \<Rightarrow> bool" where
  "mgr_inv m \<longleftrightarrow> gomap_ok (mg_children m)"

lemma on_child_frame:
  "mg_cfg (snd (on_child inp i t w m)) = mg_cfg m" "mg_closed (snd (on_child inp i t w m)) = mg_closed m"
  "gomap_ok (mg_children m) \<Longrightarrow> gomap_ok (mg_children (snd (on_child inp i t w m)))"
  "map_of (mg_children (snd (on_child inp i t w m))) =
     (map_of (mg_children m))(i \<mapsto> snd (do_call inp t w))"
  by (simp_all add: on_child_def case_prod_unfold Let_def)

lemma on_child_dropped [simp]: "mg_dropped (snd (on_child inp i t w m)) = mg_dropped m"
  by (simp add: on_child_def case_prod_unfold Let_def)

lemma maps_equal_iff:
  assumes "gomap_ok a" "gomap_ok b"
  shows "maps_equal a b \<longleftrightarrow> map_of a = map_of b"
proof
  assume eq: "maps_equal a b"
  then have sub: "set (keys_of a) \<subseteq> set (keys_of b)"
    by (force simp: maps_equal_def list_all_iff map_of_in_keys dest: map_of_SomeD)
  have "card (set (keys_of a)) = card (set (keys_of b))"
    using eq assms by (simp add: maps_equal_def gomap_ok_def distinct_card del: set_map)
  then have keys: "set (keys_of a) = set (keys_of b)" using sub by (intro card_subset_eq) auto
  show "map_of a = map_of b"
  proof
    fix k
    show "map_of a k = map_of b k"
    proof (cases "map_of a k")
      case None
      then show ?thesis using keys by (metis map_of_eq_None_iff set_map)
    next
      case (Some v)
      then show ?thesis using eq map_of_SomeD [OF Some] by (force simp: maps_equal_def list_all_iff)
    qed
  qed
next
  assume eq: "map_of a = map_of b"
  then have "set a = set b" using assms by (simp add: gomap_ok_def map_of_inject_set)
  moreover from this have "length a = length b"
    using assms by (metis distinct_card distinct_map gomap_ok_def)
  ultimately show "maps_equal a b" using assms by (auto simp: maps_equal_def list_all_iff gomap_ok_def)
qed

lemma stop_removed_result:
  assumes "distinct is"
  shows "set (fst (stop_removed inp running is m)) = {i \<in> set is. i \<in> set running \<and> map_of (mg_children m) i \<noteq> None}
    \<and> mg_cfg (snd (stop_removed inp running is m)) = mg_cfg m
    \<and> (\<forall>j. map_of (mg_children (snd (stop_removed inp running is m))) j
          = (if j \<in> set is \<and> j \<in> set running then None else map_of (mg_children m) j))"
  using assms
proof (induction "is" arbitrary: m)
  case (Cons i "is")
  show ?case
  proof (cases "i \<in> set running \<and> map_of (mg_children m) i \<noteq> None")
    case False
    then show ?thesis using Cons by (auto split: option.splits)
  next
    case True
    then obtain w where w: "map_of (mg_children m) i = Some w" by auto
    define m2 where "m2 = drop_child i (snd (on_child inp i child_stop w m))"
    have m2: "mg_cfg m2 = mg_cfg m" "map_of (mg_children m2) = (map_of (mg_children m))(i := None)"
      by (simp_all add: m2_def on_child_frame drop_child_def)
    have "stop_removed inp running (i # is) m
        = (i # fst (stop_removed inp running is m2), snd (stop_removed inp running is m2))"
      using True w by (simp add: m2_def case_prod_unfold Let_def)
    then show ?thesis using Cons m2 True by (auto split: if_splits)
  qed
qed simp

text \<open>
  What \<open>Stop\<close> has done to a child: the flag is set, its context is cancelled, and a process that was
  running is being stopped: its group got the termination signal or, when the group is not known, the process was killed.
\<close>

definition was_stopped :: "input \<Rightarrow> world \<Rightarrow> world \<Rightarrow> bool" where
  "was_stopped inp w w' \<longleftrightarrow> ch_stop_requested (w_child w')
     \<and> (\<forall>ctx. ch_cancel (w_child w) = Some ctx \<longrightarrow> ctx \<in> set (w_cancelled w'))
     \<and> (\<forall>p. ch_cmd (w_child w) = Some p \<longrightarrow> ch_state (w_child w') = state_stopping
          \<and> prefix (w_signals w @ [if in_pgid_ok inp then SigTermGroup p else KillProcess p]) (w_signals w'))"

lemma return_frame:
  "w_child (snd (run_alone inp k [Return b] w)) = w_child w"
  "w_cancelled (snd (run_alone inp k [Return b] w)) = w_cancelled w"
  "w_signals (snd (run_alone inp k [Return b] w)) = w_signals w"
  "run_alone inp k [] w = ([], w)"
  by (cases k; cases "k - 1"; simp)+

lemma grace_frame:
  "w_child (snd (run_alone inp k [GraceWait True p done] w)) = w_child w
   \<and> w_cancelled (snd (run_alone inp k [GraceWait True p done] w)) = w_cancelled w
   \<and> prefix (w_signals w) (w_signals (snd (run_alone inp k [GraceWait True p done] w)))"
  by (induction k) (auto simp: result_def return_frame)

lemma grace_signals:
  "prefix s (w_signals w) \<Longrightarrow> prefix s (w_signals (snd (run_alone inp k [GraceWait True p done] w)))"
  using grace_frame prefix_order.trans by blast

lemma emit_frame:
  "w_child (emit ev w) = w_child w" "w_cancelled (emit ev w) = w_cancelled w" "w_signals (emit ev w) = w_signals w"
  by (simp_all add: emit_def)

lemma stop_stops: "was_stopped inp w (snd (do_call inp child_stop w))"
proof (cases "ch_cmd (w_child w)")
  case None
  then show ?thesis
    by (cases "ch_cancel (w_child w)")
      (simp_all add: do_call_def call_fuel_def was_stopped_def child_stop_def upd_child_def result_def case_prod_unfold)
next
  case (Some p)
  show ?thesis
  proof (cases "ch_cancel (w_child w)")
    case None
    obtain k where k: "call_fuel = Suc (Suc (Suc (Suc (Suc k))))" by (simp add: call_fuel_def numeral_eq_Suc)
    show ?thesis
      using Some None
      by (simp add: do_call_def k grace_frame was_stopped_def child_stop_def upd_child_def result_def set_state_def return_frame
          emit_frame case_prod_unfold Let_def grace_signals)
  next
    case ctx: (Some ctx)
    obtain k where k: "call_fuel = Suc (Suc (Suc (Suc (Suc (Suc k)))))" by (simp add: call_fuel_def numeral_eq_Suc)
    show ?thesis
      using Some ctx
      by (simp add: do_call_def k grace_frame was_stopped_def child_stop_def upd_child_def result_def set_state_def return_frame
          emit_frame case_prod_unfold Let_def grace_signals)
  qed
qed

lemma stop_removed_dropped:
  assumes "distinct is"
  shows "\<exists>D. mg_dropped (snd (stop_removed inp running is m)) = mg_dropped m @ D
    \<and> map fst D = fst (stop_removed inp running is m)
    \<and> (\<forall>(i, w') \<in> set D. \<exists>w. map_of (mg_children m) i = Some w \<and> w' = snd (do_call inp child_stop w))"
  using assms
proof (induction "is" arbitrary: m)
  case (Cons i "is")
  show ?case
  proof (cases "i \<in> set running \<and> map_of (mg_children m) i \<noteq> None")
    case False
    then show ?thesis using Cons by (auto split: option.splits)
  next
    case True
    then obtain w where w: "map_of (mg_children m) i = Some w" by auto
    define m2 where "m2 = drop_child i (snd (on_child inp i child_stop w m))"
    have m2: "mg_dropped m2 = mg_dropped m @ [(i, snd (do_call inp child_stop w))]"
      "map_of (mg_children m2) = (map_of (mg_children m))(i := None)"
      by (simp_all add: m2_def on_child_frame drop_child_def)
    have eq: "stop_removed inp running (i # is) m
        = (i # fst (stop_removed inp running is m2), snd (stop_removed inp running is m2))"
      using True w by (simp add: m2_def case_prod_unfold Let_def)
    obtain D where D: "mg_dropped (snd (stop_removed inp running is m2)) = mg_dropped m2 @ D"
      "map fst D = fst (stop_removed inp running is m2)"
      "\<forall>(i, w') \<in> set D. \<exists>w. map_of (mg_children m2) i = Some w \<and> w' = snd (do_call inp child_stop w)"
      using Cons.IH [of m2] Cons.prems by auto
    have "\<forall>(j, w') \<in> set D. \<exists>w. map_of (mg_children m) j = Some w \<and> w' = snd (do_call inp child_stop w)"
      using D(3) m2(2) by (auto split: if_splits)
    then show ?thesis
      using D(1,2) m2(1) w unfolding eq by (intro exI [of _ "(i, snd (do_call inp child_stop w)) # D"]) auto
  qed
qed simp

section \<open>Properties\<close>

text \<open>
  C10: a reload reports exactly the difference of the two configurations: added, removed, and, among the
  projects in both, those whose path, command, restart mode, env file or environment differ. It
  installs the new configuration and leaves the children of all other projects as they were. Exactly the removed projects
  that had a child, running or not, are reported as stopped; each of these children has been stopped (its flag is set,
  its context is cancelled and its process, if it had one, got the termination signal or was killed) and then
  forgotten.
\<close>
theorem reload_reconciles:
  assumes "mgr_inv m" "gomap_ok (c_projects (mg_cfg m))" "mgr_reload inp (Some cfg) m = (res, m')"
  shows "set (rr_added res) = set (keys_of (c_projects cfg)) - set (keys_of (c_projects (mg_cfg m)))
    \<and> set (rr_removed res) = set (keys_of (c_projects (mg_cfg m))) - set (keys_of (c_projects cfg))
    \<and> set (rr_changed res) = {i. \<exists>p q. map_of (c_projects (mg_cfg m)) i = Some p
          \<and> map_of (c_projects cfg) i = Some q \<and> project_changed p q}
    \<and> set (rr_stopped res) = {i \<in> set (rr_removed res). map_of (mg_children m) i \<noteq> None}
    \<and> mg_cfg m' = cfg
    \<and> (\<forall>i. map_of (mg_children m') i = (if i \<in> set (rr_removed res) then None else map_of (mg_children m) i))
    \<and> (\<exists>D. mg_dropped m' = mg_dropped m @ D \<and> map fst D = rr_stopped res
        \<and> (\<forall>(i, w') \<in> set D. \<exists>w. map_of (mg_children m) i = Some w \<and> was_stopped inp w w'))"
proof -
  let ?old = "c_projects (mg_cfg m)" and ?new = "c_projects cfg"
  let ?run = "keys_of (mg_children m)"
  have "distinct (removed_of ?old ?new)" using assms(2) by (simp add: removed_of_def gomap_ok_def)
  note loop = stop_removed_result [OF this, of inp ?run "m\<lparr>mg_cfg := cfg\<rparr>"]
    and dropped = stop_removed_dropped [OF this, of inp ?run "m\<lparr>mg_cfg := cfg\<rparr>"]
  have run: "stop_removed inp ?run (removed_of ?old ?new) (m\<lparr>mg_cfg := cfg\<rparr>) = (rr_stopped res, m')"
    using assms(3) by (auto simp: mgr_reload_def Let_def split: prod.splits)
  then have st: "set (rr_stopped res) = {i \<in> set (removed_of ?old ?new). i \<in> set ?run \<and> map_of (mg_children m) i \<noteq> None}"
    "mg_cfg m' = cfg"
    "map_of (mg_children m') j = (if j \<in> set (removed_of ?old ?new) \<and> j \<in> set ?run then None
       else map_of (mg_children m) j)" for j
    using loop run by simp_all
  have drop: "\<exists>D. mg_dropped m' = mg_dropped m @ D \<and> map fst D = rr_stopped res
      \<and> (\<forall>(i, w') \<in> set D. \<exists>w. map_of (mg_children m) i = Some w \<and> was_stopped inp w w')"
    using dropped stop_stops unfolding run by fastforce
  have res: "rr_added res = added_of ?old ?new" "rr_removed res = removed_of ?old ?new"
    "rr_changed res = changed_of ?old ?new"
    using assms(3) by (auto simp: mgr_reload_def Let_def split: prod.splits)
  have keys: "set (keys_of ps) = {i. map_of ps i \<noteq> None}" for ps :: "project gomap"
    using map_of_in_keys [of _ ps] by (simp add: set_eq_iff)
  have had: "i \<in> set ?run \<longleftrightarrow> map_of (mg_children m) i \<noteq> None" for i
    using map_of_in_keys [of i "mg_children m"] by simp
  have changed: "set (changed_of ?old ?new) = {i. \<exists>p q. map_of ?old i = Some p
      \<and> map_of ?new i = Some q \<and> project_changed p q}"
    using assms(2) by (force simp: changed_of_def map_of_mem split: option.splits)
  have "set (rr_added res) = set (keys_of ?new) - set (keys_of ?old)"
    "set (rr_removed res) = set (keys_of ?old) - set (keys_of ?new)"
    by (auto simp: res added_of_def removed_of_def keys map_of_eq_None_iff)
  then show ?thesis using st changed res had drop by auto
qed

theorem reload_reconciles_witness:
  "rr_removed (fst (mgr_reload quiet_input (Some (sample_config\<lparr>c_projects := []\<rparr>)) (new_manager sample_config)))
     = [''api'']
   \<and> set (rr_removed (fst (mgr_reload quiet_input (Some (sample_config\<lparr>c_projects := []\<rparr>)) (new_manager sample_config))))
     = {''api''}"
proof
  let ?r = "mgr_reload quiet_input (Some (sample_config\<lparr>c_projects := []\<rparr>)) (new_manager sample_config)"
  show "rr_removed (fst ?r) = [''api'']"
    by (simp add: mgr_reload_def removed_of_def new_manager_def sample_config_def Let_def)
  have "mgr_inv (new_manager sample_config)" "gomap_ok (c_projects (mg_cfg (new_manager sample_config)))"
    by (simp_all add: mgr_inv_def new_manager_def sample_config_def gomap_ok_def)
  from reload_reconciles [OF this prod.collapse [symmetric], of quiet_input "sample_config\<lparr>c_projects := []\<rparr>"]
  show "set (rr_removed (fst ?r)) = {''api''}"
    by (simp add: new_manager_def sample_config_def)
qed

text \<open>A child whose \<open>Start\<close> failed runs nothing, and the reload still reports it as stopped.\<close>

definition idle_child :: manager where
  "idle_child = snd (mgr_start (quiet_input\<lparr>in_spawn := None\<rparr>) ''api'' (new_manager sample_config))"

lemma find_idle_reported_stopped:
  "map_option (\<lambda>w. (ch_cmd (w_child w), ch_state (w_child w), w_spawns w)) (map_of (mg_children idle_child) ''api'') = Some (None, state_idle, [])
   \<and> rr_stopped (fst (mgr_reload quiet_input (Some (sample_config\<lparr>c_projects := []\<rparr>)) idle_child)) = [''api'']"
  by code_simp

lemma start_members_result:
  "start_members inp g ms m = (r, m') \<Longrightarrow>
    \<exists>n mgrs. n \<le> length ms \<and> length mgrs = Suc n \<and> mgrs ! 0 = m
      \<and> (\<forall>k < n. mgr_start inp (ms ! k) (mgrs ! k) = (None, mgrs ! Suc k))
      \<and> (if n = length ms then r = None \<and> m' = mgrs ! n
         else \<exists>e. mgr_start inp (ms ! n) (mgrs ! n) = (Some e, m') \<and> r = Some (GroupMember g (ms ! n) e))"
proof (induction ms arbitrary: m)
  case Nil
  then show ?case by (intro exI [of _ 0] exI [of _ "[m]"]) simp
next
  case (Cons i ms)
  obtain e m1 where s: "mgr_start inp i m = (e, m1)" by (metis prod.collapse)
  show ?case
  proof (cases e)
    case (Some err)
    then show ?thesis using Cons.prems s by (intro exI [of _ 0] exI [of _ "[m]"]) auto
  next
    case None
    then obtain n mgrs where n: "n \<le> length ms" "length mgrs = Suc n" "mgrs ! 0 = m1"
      "\<forall>k < n. mgr_start inp (ms ! k) (mgrs ! k) = (None, mgrs ! Suc k)"
      "if n = length ms then r = None \<and> m' = mgrs ! n
         else \<exists>e. mgr_start inp (ms ! n) (mgrs ! n) = (Some e, m') \<and> r = Some (GroupMember g (ms ! n) e)"
      using Cons.IH [of m1] Cons.prems s by auto
    then show ?thesis using s None
      by (intro exI [of _ "Suc n"] exI [of _ "m # mgrs"]) (auto simp: nth_Cons split: nat.splits)
  qed
qed

text \<open>
  Starting a group starts its members in order and stops at the first failure: there is a number
  \<open>n\<close> of members whose \<open>Start\<close> succeeded one after the other; either these are all and the group
  succeeds, or the next member's error is returned with the names of group and member and no later
  member is touched.
\<close>
theorem start_group_in_order:
  assumes "map_of (c_groups (mg_cfg m)) g = Some ms" "start_group inp g m = (r, m')"
  shows "\<exists>n mgrs. n \<le> length ms \<and> length mgrs = Suc n \<and> mgrs ! 0 = m
      \<and> (\<forall>k < n. mgr_start inp (ms ! k) (mgrs ! k) = (None, mgrs ! Suc k))
      \<and> (if n = length ms then r = None \<and> m' = mgrs ! n
         else \<exists>e. mgr_start inp (ms ! n) (mgrs ! n) = (Some e, m') \<and> r = Some (GroupMember g (ms ! n) e))"
  using assms start_members_result by (simp add: start_group_def)

theorem start_group_in_order_witness:
  "\<exists>n mgrs. n \<le> length [''api''] \<and> length mgrs = Suc n \<and> mgrs ! 0 = new_manager sample_config"
proof -
  have "map_of (c_groups (mg_cfg (new_manager sample_config))) ''all'' = Some [''api'']"
    by (simp add: new_manager_def sample_config_def)
  from start_group_in_order [OF this prod.collapse [symmetric]] show ?thesis by blast
qed

text \<open>
  A changed definition is never picked up: after a reload that reports a project as changed, the child
  of that project is the old one, so \<open>Start\<close> and \<open>Restart\<close> still spawn the old command, while the README
  and the comment on \<open>Reload\<close> say that a restart applies the change.
\<close>

definition changed_sample :: config where
  "changed_sample = sample_config\<lparr>c_projects := [(''api'', \<lparr>p_path = ''/srv'', p_cmd = ''run2'', p_restart = [],
      p_env = [], p_env_file = []\<rparr>)]\<rparr>"

lemma reload_keeps_old_definition:
  assumes "mgr_inv m" "map_of (mg_children m) i = Some w" "map_of (c_projects cfg) i \<noteq> None"
    "gomap_ok (c_projects (mg_cfg m))" "mgr_reload inp (Some cfg) m = (res, m')"
  shows "\<exists>m''. get_or_create i m' = Inr (w, m'')"
proof -
  let ?old = "c_projects (mg_cfg m)" and ?new = "c_projects cfg"
  have "stop_removed inp (keys_of (mg_children m)) (removed_of ?old ?new) (m\<lparr>mg_cfg := cfg\<rparr>) = (rr_stopped res, m')"
    using assms(5) by (auto simp: mgr_reload_def Let_def split: prod.splits)
  moreover have "distinct (removed_of ?old ?new)" using assms(4) by (simp add: removed_of_def gomap_ok_def)
  moreover have "i \<notin> set (removed_of ?old ?new)" using assms(3) by (auto simp: removed_of_def)
  ultimately have "map_of (mg_children m') i = Some w"
    using stop_removed_result [of "removed_of ?old ?new" inp "keys_of (mg_children m)" "m\<lparr>mg_cfg := cfg\<rparr>"] assms(2)
    by simp
  then show ?thesis by (simp add: get_or_create_def)
qed

text \<open>
  C38: every call comes back: whatever the state of the world, and whatever the environment, the process
  table, the files and the child process answer, \<open>Start\<close>, \<open>Stop\<close> and \<open>Restart\<close> run to their end in at
  most 40 sections once their timers elapse (a stop of a live process reads its state, signals, waits for
  the grace period and may kill).
\<close>
theorem calls_return:
  assumes "in_elapsed inp" "t \<in> {child_start, child_stop, child_restart}"
  shows "fst (run_alone inp 40 t w) = []"
  using do_call_finishes [of inp t w] assms by (simp add: all_ops_def call_fuel_def)

theorem calls_return_witness:
  "fst (run_alone quiet_input 40 child_restart (init_world ''a'' demo_project default_settings)) = []"
  using calls_return [of quiet_input child_restart] by (simp add: quiet_input_def)

end
