(* ===== verification/Ipc.thy ===== *)
theory Ipc
  imports Line_Buffer Runtime_Store
begin

text \<open>
  The wire between daemon and client: the messages of \<open>internal/ipc/message.go\<close>, the length-prefixed
  frames of \<open>codec.go\<close>, and the decisions of \<open>paths.go\<close> about the cache directory and a stale socket.
  The gob encoding of an envelope is a parameter (a function to bytes); what is modelled is the framing
  around it, on a byte stream that the network cuts into arbitrary pieces.
\<close>

section \<open>Messages\<close>

datatype kind = KindCommand | KindEvent | KindSnapshot

datatype op = OpStart | OpStop | OpRestart | OpStartGroup | OpStopAll | OpReload | OpShutdown | OpStatus

record command =
  cmd_op :: op
  cmd_id :: string
  cmd_group :: string

datatype event_kind = EvStarted | EvExited | EvStateChanged | EvLogLine | EvRestarting
  | EvReloadResult | EvToast | EvErr

record wire_reload =
  wr_added :: "string list"
  wr_removed :: "string list"
  wr_changed :: "string list"
  wr_stopped :: "string list"

record wire_toast =
  wt_text :: string
  wt_level :: string

text \<open>The five lifecycle payloads share one field here: the event with its kind.\<close>

record event_msg =
  em_kind :: event_kind
  em_event :: "event option"
  em_reload :: "wire_reload option"
  em_toast :: "wire_toast option"
  em_err :: string

record project_snap =
  ps_id :: string
  ps_state :: string
  ps_pid :: int
  ps_lines :: "line list"

type_synonym wire_snapshot = "project_snap list"

record envelope =
  env_kind :: kind
  env_command :: "command option"
  env_event :: "event_msg option"
  env_snapshot :: "wire_snapshot option"

section \<open>Frames\<close>

definition max_frame_size :: nat where "max_frame_size = 16 * 2 ^ 20"

definition put_uint32 :: "32 word \<Rightarrow> bytes" where
  "put_uint32 w = map (\<lambda>k. char_of (unat (drop_bit (8 * k) w) mod 256)) [3, 2, 1, 0]"

definition get_uint32 :: "bytes \<Rightarrow> 32 word" where
  "get_uint32 h = of_nat (foldl (\<lambda>a c. a * 256 + of_char c) 0 h)"

datatype write_result = Written bytes | FrameTooLarge | EncodeError

text \<open>\<open>Encoder.Write\<close>: \<open>None\<close> is a gob error; the bytes go to the connection.\<close>

definition enc_write :: "bytes option \<Rightarrow> write_result" where
  "enc_write payload =
     (case payload of
        None \<Rightarrow> EncodeError
      | Some p \<Rightarrow>
          if length p > max_frame_size then FrameTooLarge
          else Written (put_uint32 (of_nat (length p)) @ p))"

text \<open>
  The stream a decoder reads: the pieces that are still to arrive, then the end. A read gives at most
  what is left of the first piece.
\<close>

type_synonym stream = "bytes list"

fun read_some :: "nat \<Rightarrow> stream \<Rightarrow> bytes \<times> stream" where
  "read_some n [] = ([], [])"
| "read_some n (c # cs) = (if length c \<le> n then (c, cs) else (take n c, drop n c # cs))"

datatype read_error = EOF | UnexpectedEOF | ZeroLengthFrame | TooLarge

text \<open>\<open>io.ReadFull\<close>: keep reading until \<open>n\<close> bytes are there.\<close>

function read_full :: "nat \<Rightarrow> bytes \<Rightarrow> stream \<Rightarrow> (read_error + bytes) \<times> stream" where
  "read_full n got src =
     (if n = 0 then (Inr got, src)
      else case src of
        [] \<Rightarrow> (Inl (if got = [] then EOF else UnexpectedEOF), [])
      | c # cs \<Rightarrow>
          if length c \<le> n then read_full (n - length c) (got @ c) cs
          else (Inr (got @ take n c), drop n c # cs))"
  by pat_completeness auto
termination by (relation "measure (\<lambda>(n, got, src). length src)") auto

declare read_full.simps [simp del]

record framed_reader =
  fr_src :: stream
  fr_max :: "32 word"
  fr_remaining :: "32 word"

definition new_decoder :: "stream \<Rightarrow> framed_reader" where
  "new_decoder src = \<lparr>fr_src = src, fr_max = of_nat max_frame_size, fr_remaining = 0\<rparr>"

text \<open>\<open>framedReader.Read\<close> for a buffer of \<open>plen\<close> bytes.\<close>

definition frame_header :: "framed_reader \<Rightarrow> read_error option \<times> framed_reader" where
  "frame_header fr =
     (if fr_remaining fr \<noteq> 0 then (None, fr)
      else case read_full 4 [] (fr_src fr) of
        (Inl e, src) \<Rightarrow> (Some e, fr\<lparr>fr_src := src\<rparr>)
      | (Inr h, src) \<Rightarrow>
          (let n = get_uint32 h; fr1 = fr\<lparr>fr_src := src\<rparr>
           in if n = 0 then (Some ZeroLengthFrame, fr1)
              else if n > fr_max fr then (Some TooLarge, fr1)
              else (None, fr1\<lparr>fr_remaining := n\<rparr>)))"

definition framed_read :: "nat \<Rightarrow> framed_reader \<Rightarrow> (read_error + bytes) \<times> framed_reader" where
  "framed_read plen fr =
     (case frame_header fr of
        (Some e, fr1) \<Rightarrow> (Inl e, fr1)
      | (None, fr1) \<Rightarrow>
          (let plen1 = (if (of_nat plen :: 32 word) > fr_remaining fr1 then unat (fr_remaining fr1) else plen)
           in if fr_src fr1 = [] then (Inl EOF, fr1)
              else (let (b, src) = read_some plen1 (fr_src fr1)
                    in (Inr b, fr1\<lparr>fr_src := src, fr_remaining := fr_remaining fr1 - of_nat (length b)\<rparr>))))"

text \<open>A consumer that reads with buffers of \<open>plen\<close> bytes until an error, \<open>fuel\<close> times at most.\<close>

fun drain :: "nat \<Rightarrow> nat \<Rightarrow> framed_reader \<Rightarrow> bytes \<times> read_error option" where
  "drain 0 plen fr = ([], None)"
| "drain (Suc k) plen fr =
     (case framed_read plen fr of
        (Inl e, _) \<Rightarrow> ([], Some e)
      | (Inr b, fr1) \<Rightarrow> (let (rest, e) = drain k plen fr1 in (b @ rest, e)))"

definition frame :: "bytes \<Rightarrow> bytes" where
  "frame p = put_uint32 (of_nat (length p)) @ p"

section \<open>Header round trip\<close>

lemma base256:
  fixes n :: nat
  assumes "n < 2 ^ 32"
  shows "((n div 2 ^ 24 mod 256 * 256 + n div 2 ^ 16 mod 256) * 256 + n div 2 ^ 8 mod 256) * 256 + n mod 256 = n"
proof -
  have 1: "n div 2 ^ 24 mod 256 = n div 2 ^ 24"
    using assms by (intro mod_less) (simp add: div_less_iff_less_mult)
  have 2: "n div 2 ^ 16 = n div 2 ^ 24 * 256 + n div 2 ^ 16 mod 256"
    using div_mult_mod_eq [of "n div 2 ^ 16" 256] by (simp add: div_mult2_eq [symmetric])
  have 3: "n div 2 ^ 8 = n div 2 ^ 16 * 256 + n div 2 ^ 8 mod 256"
    using div_mult_mod_eq [of "n div 2 ^ 8" 256] by (simp add: div_mult2_eq [symmetric])
  have 4: "n = n div 2 ^ 8 * 256 + n mod 256"
    using div_mult_mod_eq [of n 256] by simp
  show ?thesis using 1 2 3 4 by metis
qed

lemma word32_bound: "unat (w :: 32 word) < 2 ^ 32"
  by (rule order_less_le_trans, rule unsigned_less) simp

lemma put_uint32_length [simp]: "length (put_uint32 w) = 4"
  by (simp add: put_uint32_def)

lemma get_put_uint32 [simp]: "get_uint32 (put_uint32 w) = w"
proof -
  have d: "unat (drop_bit k w) = unat w div 2 ^ k" for k
    by (subst unat_drop_bit_eq) (simp add: drop_bit_eq_div)
  have "unat w < 2 ^ 32" by (rule word32_bound)
  then have m: "unat w div 16777216 mod 256 = unat w div 16777216"
    by (intro mod_less) (simp add: div_less_iff_less_mult)
  from base256 [OF word32_bound [of w]] have "foldl (\<lambda>a c. a * 256 + of_char c) 0 (put_uint32 w) = unat w"
    by (simp add: put_uint32_def d m)
  then show ?thesis by (simp add: get_uint32_def)
qed

section \<open>Reading from pieces\<close>

definition pieces :: "stream \<Rightarrow> bool" where
  "pieces src \<longleftrightarrow> (\<forall>c \<in> set src. c \<noteq> [])"

lemma read_full_ok:
  "n \<le> length (concat src) \<Longrightarrow> pieces src \<Longrightarrow>
   \<exists>src'. read_full n got src = (Inr (got @ take n (concat src)), src')
     \<and> concat src' = drop n (concat src) \<and> pieces src'"
proof (induction n got src rule: read_full.induct)
  case (1 n got src)
  show ?case
  proof (cases "n = 0")
    case True
    then show ?thesis using 1 by (simp add: read_full.simps)
  next
    case False
    then obtain c cs where src: "src = c # cs" using 1(2) by (cases src) auto
    then have cs: "c \<noteq> []" "pieces cs" using 1(3) by (auto simp: pieces_def)
    show ?thesis
    proof (cases "length c \<le> n")
      case True
      have "n - length c \<le> length (concat cs)" using 1(2) src by simp
      from 1(1) [OF False src True this cs(2)] show ?thesis
        using False True src by (simp add: read_full.simps [of n])
    next
      case short: False
      then show ?thesis using False src cs
        by (intro exI [of _ "drop n c # cs"]) (auto simp: read_full.simps [of n] pieces_def)
    qed
  qed
qed

lemma read_some_ok:
  "src \<noteq> [] \<Longrightarrow> pieces src \<Longrightarrow> 0 < n \<Longrightarrow> read_some n src = (b, src') \<Longrightarrow>
   b \<noteq> [] \<and> length b \<le> n \<and> concat src = b @ concat src' \<and> pieces src'"
proof (cases src)
  case (Cons c cs)
  assume "pieces src" "0 < n" "read_some n src = (b, src')"
  then show ?thesis
    using Cons by (cases "length c \<le> n") (auto simp: pieces_def)
qed simp

text \<open>
  A reader in the middle of a frame: \<open>q\<close> is what is left of its payload, \<open>ps\<close> the payloads to come.
\<close>

definition payload_ok :: "bytes \<Rightarrow> bool" where
  "payload_ok p \<longleftrightarrow> p \<noteq> [] \<and> length p \<le> max_frame_size"

definition reads :: "framed_reader \<Rightarrow> bytes \<Rightarrow> bytes list \<Rightarrow> bool" where
  "reads fr q ps \<longleftrightarrow> fr_max fr = of_nat max_frame_size \<and> unat (fr_remaining fr) = length q
     \<and> concat (fr_src fr) = q @ concat (map frame ps) \<and> pieces (fr_src fr)
     \<and> (\<forall>p \<in> set ps. payload_ok p)"

lemma max_frame_word: "unat (of_nat max_frame_size :: 32 word) = max_frame_size"
  by (simp add: max_frame_size_def)

lemma payload_word: "payload_ok p \<Longrightarrow> unat (of_nat (length p) :: 32 word) = length p"
  by (auto simp: payload_ok_def max_frame_size_def unat_of_nat intro!: mod_less)

lemma frame_header_next:
  assumes "reads fr [] (p # ps)"
  shows "\<exists>fr1. frame_header fr = (None, fr1) \<and> reads fr1 p ps"
proof -
  have src: "concat (fr_src fr) = put_uint32 (of_nat (length p)) @ p @ concat (map frame ps)"
    and p: "payload_ok p" and rem: "fr_remaining fr = 0"
    using assms by (auto simp: reads_def frame_def unat_eq_0)
  have "4 \<le> length (concat (fr_src fr))" using src by simp
  then obtain src' where r: "read_full 4 [] (fr_src fr) = (Inr (put_uint32 (of_nat (length p))), src')"
    "concat src' = p @ concat (map frame ps)" "pieces src'"
    using read_full_ok [of 4 "fr_src fr" "[]"] assms src by (auto simp: reads_def)
  have w: "unat (of_nat (length p) :: 32 word) = length p" by (rule payload_word [OF p])
  then have "(of_nat (length p) :: 32 word) \<noteq> 0" using p by (auto simp: payload_ok_def)
  moreover have "\<not> (of_nat (length p) :: 32 word) > of_nat max_frame_size"
    using p w max_frame_word by (simp add: word_less_nat_alt payload_ok_def)
  ultimately have "frame_header fr = (None, fr\<lparr>fr_src := src', fr_remaining := of_nat (length p)\<rparr>)"
    using assms rem r(1) by (simp add: frame_header_def reads_def Let_def)
  then show ?thesis using assms r w by (auto simp: reads_def)
qed

lemma read_payload:
  assumes "reads fr q ps" "q \<noteq> []" "0 < plen" "plen < 2 ^ 32"
  shows "\<exists>b fr1 q'. framed_read plen fr = (Inr b, fr1) \<and> b \<noteq> [] \<and> q = b @ q' \<and> reads fr1 q' ps"
proof -
  have rem: "fr_remaining fr \<noteq> 0" "unat (fr_remaining fr) = length q"
    using assms(1,2) by (auto simp: reads_def)
  define plen1 where "plen1 = (if (of_nat plen :: 32 word) > fr_remaining fr then unat (fr_remaining fr) else plen)"
  have "unat (of_nat plen :: 32 word) = plen" using assms(4) by (simp add: unat_of_nat)
  then have plen1: "0 < plen1" "plen1 \<le> length q"
    using assms(2,3) rem by (auto simp: plen1_def word_less_nat_alt)
  have src: "fr_src fr \<noteq> []" using assms(1,2) by (auto simp: reads_def)
  obtain b src' where r: "read_some plen1 (fr_src fr) = (b, src')" by (meson surj_pair)
  have b: "b \<noteq> []" "length b \<le> plen1" "concat (fr_src fr) = b @ concat src'" "pieces src'"
    using read_some_ok [OF src _ plen1(1) r] assms(1) by (auto simp: reads_def)
  have lb: "length b \<le> length q" using b(2) plen1(2) by simp
  moreover have "q @ concat (map frame ps) = b @ concat src'" using assms(1) b(3) by (simp add: reads_def)
  ultimately obtain q' where q': "q = b @ q'" "concat src' = q' @ concat (map frame ps)"
    by (auto simp: append_eq_append_conv2 append_eq_append_conv)
  let ?r1 = "fr_remaining fr - of_nat (length b)"
  have "length b < 2 ^ 32" using lb rem(2) word32_bound [of "fr_remaining fr"] by simp
  then have "unat (of_nat (length b) :: 32 word) = length b" by (simp add: unat_of_nat)
  then have "unat ?r1 = length q'"
    using rem(2) q'(1) lb by (subst unat_sub) (auto simp: word_le_nat_alt)
  moreover have "framed_read plen fr = (Inr b, fr\<lparr>fr_src := src', fr_remaining := ?r1\<rparr>)"
    using rem(1) src r by (simp add: framed_read_def frame_header_def plen1_def Let_def)
  ultimately show ?thesis using assms(1) b(1,4) q' by (auto simp: reads_def)
qed

lemma framed_read_header:
  "frame_header fr = (None, fr1) \<Longrightarrow> fr_remaining fr1 \<noteq> 0 \<Longrightarrow> framed_read plen fr = framed_read plen fr1"
  by (simp add: framed_read_def frame_header_def [of fr1])

lemma framed_read_end: "reads fr [] [] \<Longrightarrow> fst (framed_read plen fr) = Inl EOF"
proof -
  assume r: "reads fr [] []"
  then have "fr_src fr = []" by (cases "fr_src fr") (auto simp: reads_def pieces_def)
  moreover have "fr_remaining fr = 0" using r by (simp add: reads_def unat_eq_0)
  ultimately show ?thesis by (simp add: framed_read_def frame_header_def read_full.simps)
qed

lemma drain_reads:
  assumes "0 < plen" "plen < 2 ^ 32"
  shows "reads fr q ps \<Longrightarrow> length (q @ concat ps) < k \<Longrightarrow> drain k plen fr = (q @ concat ps, Some EOF)"
proof (induction k arbitrary: fr q ps)
  case (Suc k)
  have payload: "drain (Suc k) plen fr' = (q' @ concat ps', Some EOF)"
    if "framed_read plen fr' = framed_read plen fr1" "reads fr1 q' ps'" "q' \<noteq> []" "length (q' @ concat ps') < Suc k"
    for fr' fr1 q' ps'
  proof -
    note facts = that
    obtain b fr2 q2 where b: "framed_read plen fr1 = (Inr b, fr2)" "b \<noteq> []" "q' = b @ q2" "reads fr2 q2 ps'"
      using read_payload [OF facts(2,3) assms] by blast
    obtain m where "length b = Suc m" using b(2) by (cases b) auto
    then have "length (q2 @ concat ps') < k" using facts(4) b(3) by simp
    from Suc.IH [OF b(4) this] show ?thesis using facts(1) b by simp
  qed
  show ?case
  proof (cases "q = []")
    case False
    then show ?thesis using payload [of fr fr q ps] Suc.prems by simp
  next
    case q: True
    show ?thesis
    proof (cases ps)
      case Nil
      then show ?thesis using framed_read_end [of fr plen] Suc.prems q
        by (auto split: prod.splits)
    next
      case (Cons p ps')
      then obtain fr1 where fr1: "frame_header fr = (None, fr1)" "reads fr1 p ps'"
        using frame_header_next [of fr p ps'] Suc.prems q by auto
      have "p \<noteq> []" using Suc.prems Cons by (auto simp: reads_def payload_ok_def)
      moreover from this have "fr_remaining fr1 \<noteq> 0" using fr1(2) by (auto simp: reads_def)
      ultimately show ?thesis
        using payload [of fr fr1 p ps'] framed_read_header [OF fr1(1)] fr1(2) Suc.prems q Cons by simp
    qed
  qed
qed simp

section \<open>Paths\<close>

text \<open>The hash of a configuration path and the user's cache directory are parameters.\<close>

definition cache_subdir :: string where "cache_subdir = ''procs''"

definition cache_dir :: "string option \<Rightarrow> string option" where
  "cache_dir base = map_option (\<lambda>b. join_path [b, cache_subdir]) base"

definition path_for :: "(string \<Rightarrow> string) \<Rightarrow> string option \<Rightarrow> string \<Rightarrow> string \<Rightarrow> string option" where
  "path_for hash_cfg base cfg_path sfx =
     (case cache_dir base of None \<Rightarrow> None | Some dir \<Rightarrow> Some (join_path [dir, hash_cfg cfg_path @ sfx]))"

definition socket_path :: "(string \<Rightarrow> string) \<Rightarrow> string option \<Rightarrow> string \<Rightarrow> string option" where
  "socket_path hash_cfg base p = path_for hash_cfg base p ''.sock''"
definition pid_path :: "(string \<Rightarrow> string) \<Rightarrow> string option \<Rightarrow> string \<Rightarrow> string option" where
  "pid_path hash_cfg base p = path_for hash_cfg base p ''.pid''"
definition daemon_log_path :: "(string \<Rightarrow> string) \<Rightarrow> string option \<Rightarrow> string \<Rightarrow> string option" where
  "daemon_log_path hash_cfg base p = path_for hash_cfg base p ''.daemon.log''"
definition children_path :: "(string \<Rightarrow> string) \<Rightarrow> string option \<Rightarrow> string \<Rightarrow> string option" where
  "children_path hash_cfg base p = path_for hash_cfg base p ''.children''"

text \<open>What \<open>Lstat\<close> tells: the owner is unknown where the platform has no unix stat.\<close>

record file_info =
  fi_symlink :: bool
  fi_socket :: bool
  fi_owner :: "int option"

datatype lstat_result = NotExist | LstatError | Info file_info

datatype file_effect = MkdirOwnerOnly string | ChmodOwnerOnly string | Unlink string

definition check_owner :: "int \<Rightarrow> file_info \<Rightarrow> bool" where
  "check_owner uid fi = (case fi_owner fi of None \<Rightarrow> True | Some u \<Rightarrow> u = uid)"

text \<open>The effects performed and whether the call succeeded.\<close>

definition ensure_secure_dir ::
  "int \<Rightarrow> (file_effect \<Rightarrow> bool) \<Rightarrow> (string \<Rightarrow> lstat_result) \<Rightarrow> string \<Rightarrow> file_effect list \<times> bool" where
  "ensure_secure_dir uid succeeds lstat dir =
     (if \<not> succeeds (MkdirOwnerOnly dir) then ([], False)
      else if \<not> succeeds (ChmodOwnerOnly dir) then ([MkdirOwnerOnly dir], False)
      else ([MkdirOwnerOnly dir, ChmodOwnerOnly dir],
            case lstat dir of
              Info fi \<Rightarrow> \<not> fi_symlink fi \<and> check_owner uid fi
            | _ \<Rightarrow> False))"

definition remove_stale_socket ::
  "int \<Rightarrow> (file_effect \<Rightarrow> bool) \<Rightarrow> (string \<Rightarrow> lstat_result) \<Rightarrow> string \<Rightarrow> file_effect list \<times> bool" where
  "remove_stale_socket uid succeeds lstat sock =
     (case lstat sock of
        NotExist \<Rightarrow> ([], True)
      | LstatError \<Rightarrow> ([], False)
      | Info fi \<Rightarrow>
          if fi_symlink fi then ([], False)
          else if \<not> fi_socket fi then ([], False)
          else if \<not> check_owner uid fi then ([], False)
          else if succeeds (Unlink sock) then ([Unlink sock], True) else ([], False))"

text \<open>
  \<open>ensureSecureDir\<close> changes the mode before it looks for a symlink, and \<open>chmod\<close> follows links: a cache
  directory that is a symlink is refused, but its target has been made owner-only by then.
\<close>

lemma symlink_chmodded_before_refusal:
  assumes "succeeds (MkdirOwnerOnly dir)" "succeeds (ChmodOwnerOnly dir)" "lstat dir = Info fi" "fi_symlink fi"
  shows "ensure_secure_dir uid succeeds lstat dir = ([MkdirOwnerOnly dir, ChmodOwnerOnly dir], False)"
  using assms by (simp add: ensure_secure_dir_def)

section \<open>Properties\<close>

text \<open>
  The daemon only unlinks what it may: whatever is found at the path, a file is removed only when it
  is a socket, no symlink, and not owned by somebody else; and the cache directory is accepted only
  when it was made owner-only and is no symlink and not somebody else's.
\<close>
theorem secure_paths:
  "(Unlink s \<in> set (fst (remove_stale_socket uid succeeds lstat sock)) \<longrightarrow>
      s = sock \<and> (\<exists>fi. lstat sock = Info fi \<and> fi_socket fi \<and> \<not> fi_symlink fi
        \<and> (fi_owner fi = None \<or> fi_owner fi = Some uid)))
   \<and> (snd (ensure_secure_dir uid succeeds lstat dir) \<longrightarrow>
      ChmodOwnerOnly dir \<in> set (fst (ensure_secure_dir uid succeeds lstat dir))
      \<and> (\<exists>fi. lstat dir = Info fi \<and> \<not> fi_symlink fi
        \<and> (fi_owner fi = None \<or> fi_owner fi = Some uid)))"
  by (auto simp: remove_stale_socket_def ensure_secure_dir_def check_owner_def
      split: lstat_result.splits option.splits)

definition own_socket :: file_info where
  "own_socket = \<lparr>fi_symlink = False, fi_socket = True, fi_owner = Some 7\<rparr>"

theorem secure_paths_witness:
  "fst (remove_stale_socket 7 (\<lambda>_. True) (\<lambda>_. Info own_socket) ''s'') = [Unlink ''s'']
   \<and> (fi_owner own_socket = None \<or> fi_owner own_socket = Some 7)"
  using secure_paths [of "''s''" 7 "\<lambda>_. True" "\<lambda>_. Info own_socket" "''s''" "''d''"]
  by (simp add: remove_stale_socket_def own_socket_def check_owner_def)


text \<open>
  C20: frames survive the network: when payloads of 1 byte to 16 MiB are written as frames and the byte
  stream arrives cut into any non-empty pieces, a reader with a buffer of any size gets exactly the
  payloads, in order and without the headers, and then the end of the stream.
\<close>
theorem frames_roundtrip:
  assumes "\<forall>p \<in> set ps. p \<noteq> [] \<and> length p \<le> max_frame_size"
    and "\<forall>p \<in> set ps. \<exists>f. enc_write (Some p) = Written f"
    and "concat src = concat (map (\<lambda>p. case enc_write (Some p) of Written f \<Rightarrow> f | _ \<Rightarrow> []) ps)"
    and "\<forall>c \<in> set src. c \<noteq> []" "0 < plen" "plen < 2 ^ 32" "length (concat ps) < fuel"
  shows "drain fuel plen (new_decoder src) = (concat ps, Some EOF)"
proof -
  have eq: "map (\<lambda>p. case enc_write (Some p) of Written f \<Rightarrow> f | _ \<Rightarrow> []) ps = map frame ps"
    using assms(1) by (auto simp: enc_write_def frame_def)
  have "reads (new_decoder src) [] ps"
    using assms(1,4) assms(3) [unfolded eq] by (simp add: reads_def new_decoder_def pieces_def payload_ok_def)
  from drain_reads [OF assms(5,6) this] show ?thesis using assms(7) by simp
qed

theorem frames_roundtrip_witness:
  "drain 9 2 (new_decoder [put_uint32 3, ''ab'', ''c'' @ put_uint32 1 @ ''d'']) = (''abcd'', Some EOF)"
proof -
  have "put_uint32 1 \<noteq> []" "put_uint32 3 \<noteq> []"
    using put_uint32_length [of 1] put_uint32_length [of 3] by (metis list.size(3) zero_neq_numeral)+
  then show ?thesis
    using frames_roundtrip [of "[''abc'', ''d'']" "[put_uint32 3, ''ab'', ''c'' @ put_uint32 1 @ ''d'']" 2 9]
    by (simp add: enc_write_def max_frame_size_def)
qed

text \<open>
  A forged length does no harm: when the next four bytes declare a length of zero or above 16 MiB,
  the read fails with the matching error and no byte after the header is consumed.
\<close>
theorem forged_length_refused:
  assumes "fr_remaining fr = 0" "read_full 4 [] (fr_src fr) = (Inr h, src)"
    and "get_uint32 h = 0 \<or> get_uint32 h > fr_max fr"
  shows "framed_read plen fr =
    (Inl (if get_uint32 h = 0 then ZeroLengthFrame else TooLarge), fr\<lparr>fr_src := src\<rparr>)"
  using assms by (auto simp: framed_read_def frame_header_def Let_def)

theorem forged_length_refused_witness:
  "fst (framed_read 10 (new_decoder [put_uint32 (2 ^ 31), ''x''])) = Inl TooLarge"
proof -
  have "read_full 4 [] [put_uint32 (2 ^ 31), ''x''] = (Inr (put_uint32 (2 ^ 31)), [''x''])"
    by (simp add: read_full.simps)
  moreover have "put_uint32 (2 ^ 31) = put_uint32 0x80000000" by simp
  ultimately show ?thesis
    using forged_length_refused [of "new_decoder [put_uint32 (2 ^ 31), ''x'']" "put_uint32 (2 ^ 31)" "[''x'']" 10]
    by (simp add: new_decoder_def max_frame_size_def del: get_put_uint32) (simp add: word_less_nat_alt)
qed

end
