(* ===== verification/Daemon.thy ===== *)
theory Daemon
  imports Manager Ipc Registry
begin

text \<open>
  The daemon's server, \<open>internal/daemon\<close>: the two queues of a client connection, the source loop that
  applies events, fills the broadcast rings, forwards to the client and serves snapshots, the dispatch
  of commands to the manager, the reload, and the file of live children. Each case of the source
  loop's \<open>select\<close>, each section under a connection's mutex and each command is one step.
\<close>

section \<open>A client connection\<close>

definition max_log_queue :: nat where "max_log_queue = 4096"
definition max_ctrl_queue :: nat where "max_ctrl_queue = 2 ^ 16"

text \<open>\<open>cc_sent\<close> is what went over the socket.\<close>

record client_conn =
  cc_ctrl :: "envelope list"
  cc_logq :: "envelope list"
  cc_closed :: bool
  cc_sent :: "envelope list"

definition new_client_conn :: client_conn where
  "new_client_conn = \<lparr>cc_ctrl = [], cc_logq = [], cc_closed = False, cc_sent = []\<rparr>"

definition is_log_envelope :: "envelope \<Rightarrow> bool" where
  "is_log_envelope env \<longleftrightarrow> env_kind env = KindEvent
     \<and> (case env_event env of None \<Rightarrow> False | Some em \<Rightarrow> em_kind em = EvLogLine)"

definition conn_close :: "client_conn \<Rightarrow> client_conn" where
  "conn_close c = (if cc_closed c then c else c\<lparr>cc_closed := True\<rparr>)"

definition conn_enqueue :: "envelope \<Rightarrow> client_conn \<Rightarrow> client_conn" where
  "conn_enqueue env c =
     (if cc_closed c then c
      else if is_log_envelope env then
        (let q = (if length (cc_logq c) \<ge> max_log_queue then tl (cc_logq c) else cc_logq c)
         in c\<lparr>cc_logq := q @ [env]\<rparr>)
      else if length (cc_ctrl c) \<ge> max_ctrl_queue then conn_close c
      else c\<lparr>cc_ctrl := cc_ctrl c @ [env]\<rparr>)"

text \<open>One round of \<open>writeLoop\<close>: what it takes, control first; \<open>None\<close> while it waits or has ended.\<close>

definition conn_next :: "client_conn \<Rightarrow> (envelope \<times> client_conn) option" where
  "conn_next c =
     (if cc_closed c then None
      else case cc_ctrl c of
        e # es \<Rightarrow> Some (e, c\<lparr>cc_ctrl := es\<rparr>)
      | [] \<Rightarrow> (case cc_logq c of e # es \<Rightarrow> Some (e, c\<lparr>cc_logq := es\<rparr>) | [] \<Rightarrow> None))"

definition conn_write_ok :: "client_conn \<Rightarrow> client_conn" where
  "conn_write_ok c = (case conn_next c of None \<Rightarrow> c | Some (e, c1) \<Rightarrow> c1\<lparr>cc_sent := cc_sent c1 @ [e]\<rparr>)"

section \<open>The server\<close>

record child_rec =
  cr_id :: string
  cr_pid :: int

record server =
  sv_cfg :: config
  sv_cfg_path :: string
  sv_rt :: runtime_store
  sv_mgr :: manager
  sv_children_path :: string
  sv_children_file :: "child_rec list option"
  sv_bring :: "line ring gomap"
  sv_conns :: "nat \<Rightarrow> client_conn"
  sv_client :: "nat option"
  sv_shutdown :: bool
  sv_source_done :: bool

definition new_server :: "config \<Rightarrow> string \<Rightarrow> runtime_store \<Rightarrow> manager \<Rightarrow> string \<Rightarrow> server" where
  "new_server cfg cfg_path rt mgr ch_path =
     \<lparr>sv_cfg = cfg, sv_cfg_path = cfg_path, sv_rt = rt, sv_mgr = mgr, sv_children_path = ch_path,
      sv_children_file = None, sv_bring = [], sv_conns = (\<lambda>_. new_client_conn), sv_client = None,
      sv_shutdown = False, sv_source_done = False\<rparr>"

definition on_conn :: "nat \<Rightarrow> (client_conn \<Rightarrow> client_conn) \<Rightarrow> server \<Rightarrow> server" where
  "on_conn n f s = s\<lparr>sv_conns := (sv_conns s)(n := f (sv_conns s n))\<rparr>"

text \<open>\<open>eventEnvelope\<close>: every event has an envelope.\<close>

fun wire_kind :: "event \<Rightarrow> event_kind" where
  "wire_kind (StartedEvent _ _ _) = EvStarted"
| "wire_kind (ExitedEvent _ _ _ _) = EvExited"
| "wire_kind (StateChangedEvent _ _) = EvStateChanged"
| "wire_kind (LogLineEvent _ _ _ _) = EvLogLine"
| "wire_kind (RestartingEvent _ _ _) = EvRestarting"

definition empty_msg :: "event_kind \<Rightarrow> event_msg" where
  "empty_msg k = \<lparr>em_kind = k, em_event = None, em_reload = None, em_toast = None, em_err = []\<rparr>"

definition event_of_msg :: "event_msg \<Rightarrow> envelope" where
  "event_of_msg em = \<lparr>env_kind = KindEvent, env_command = None, env_event = Some em, env_snapshot = None\<rparr>"

definition event_envelope :: "event \<Rightarrow> envelope" where
  "event_envelope ev = event_of_msg ((empty_msg (wire_kind ev))\<lparr>em_event := Some ev\<rparr>)"

definition toast_envelope :: "string \<Rightarrow> string \<Rightarrow> envelope" where
  "toast_envelope txt level = event_of_msg ((empty_msg EvToast)\<lparr>em_toast := Some \<lparr>wt_text = txt, wt_level = level\<rparr>\<rparr>)"

definition snapshot_envelope :: "wire_snapshot \<Rightarrow> envelope" where
  "snapshot_envelope sn = \<lparr>env_kind = KindSnapshot, env_command = None, env_event = None, env_snapshot = Some sn\<rparr>"

definition ring_capacity :: "settings \<Rightarrow> int" where
  "ring_capacity st = (if log_buffer_lines st \<le> 0 then 1000 else log_buffer_lines st)"

definition ring_for :: "string \<Rightarrow> server \<Rightarrow> line ring" where
  "ring_for i s = (case map_of (sv_bring s) i of
     Some r \<Rightarrow> r | None \<Rightarrow> new_ring_buffer zero_line (ring_capacity (c_settings (sv_cfg s))))"

definition push_line :: "string \<Rightarrow> line \<Rightarrow> server \<Rightarrow> server" where
  "push_line i l s = s\<lparr>sv_bring := AList.update i (ring_push l (ring_for i s)) (sv_bring s)\<rparr>"

definition build_snapshot :: "server \<Rightarrow> wire_snapshot" where
  "build_snapshot s = map (\<lambda>r. \<lparr>ps_id = pr_id r, ps_state = pr_state r, ps_pid = pr_pid r,
      ps_lines = (case map_of (sv_bring s) (pr_id r) of None \<Rightarrow> [] | Some rg \<Rightarrow> ring_snapshot rg)\<rparr>)
    (rs_snapshot (sv_rt s))"

definition live_children :: "runtime_store \<Rightarrow> child_rec list" where
  "live_children rt = map (\<lambda>r. \<lparr>cr_id = pr_id r, cr_pid = pr_pid r\<rparr>)
     (filter (\<lambda>r. pr_pid r > 0) (rs_snapshot rt))"

text \<open>\<open>writeChildren\<close> replaces the file by a rename; \<open>ok\<close> tells whether every step of it succeeded.\<close>

definition persist_children :: "bool \<Rightarrow> server \<Rightarrow> server" where
  "persist_children ok s =
     (if sv_children_path s = [] then s
      else if ok then s\<lparr>sv_children_file := Some (live_children (sv_rt s))\<rparr> else s)"

definition alive_children :: "(int \<Rightarrow> bool) \<Rightarrow> child_rec list \<Rightarrow> child_rec list" where
  "alive_children alive recs = filter (\<lambda>r. \<not> cr_pid r \<le> 0 \<and> alive (cr_pid r)) recs"

definition log_line_of :: "bytes \<Rightarrow> bool \<Rightarrow> time \<Rightarrow> line" where
  "log_line_of b p at = \<lparr>ln_bytes = b, ln_rendered = decode_for_render b, ln_partial = p, ln_time = at\<rparr>"

definition record_event :: "bool \<Rightarrow> event \<Rightarrow> server \<Rightarrow> server" where
  "record_event ok ev s = (case ev of
     LogLineEvent i b p at \<Rightarrow> push_line i (log_line_of b p at) s
   | StartedEvent _ _ _ \<Rightarrow> persist_children ok s
   | ExitedEvent _ _ _ _ \<Rightarrow> persist_children ok s
   | _ \<Rightarrow> s)"

definition forward :: "envelope \<Rightarrow> server \<Rightarrow> server" where
  "forward env s = (case sv_client s of None \<Rightarrow> s | Some n \<Rightarrow> on_conn n (conn_enqueue env) s)"

definition apply_and_forward :: "bool \<Rightarrow> time \<Rightarrow> event \<Rightarrow> server \<Rightarrow> server" where
  "apply_and_forward ok now ev s =
     forward (event_envelope ev) (record_event ok ev (s\<lparr>sv_rt := rs_apply now ev (sv_rt s)\<rparr>))"

section \<open>The source loop\<close>

definition source_closed :: "server \<Rightarrow> server" where
  "source_closed s =
     (let s1 = (case sv_client s of None \<Rightarrow> s | Some n \<Rightarrow> on_conn n conn_close s)
      in s1\<lparr>sv_client := None, sv_source_done := True\<rparr>)"

definition source_register :: "nat \<Rightarrow> server \<Rightarrow> server" where
  "source_register n s =
     (let s1 = (case sv_client s of
                  Some k \<Rightarrow> if k \<noteq> n then on_conn k conn_close s else s
                | None \<Rightarrow> s);
          s2 = on_conn n (conn_enqueue (snapshot_envelope (build_snapshot s1))) s1
      in s2\<lparr>sv_client := Some n\<rparr>)"

definition source_unregister :: "nat \<Rightarrow> server \<Rightarrow> server" where
  "source_unregister n s =
     on_conn n conn_close (if sv_client s = Some n then s\<lparr>sv_client := None\<rparr> else s)"

section \<open>Commands\<close>

text \<open>
  Error texts are rendered by \<open>show_err\<close> and \<open>show_cfg\<close>; \<open>load\<close> is the configuration loader on the daemon's
  own path.
\<close>

definition to_wire :: "reload_result \<Rightarrow> wire_reload" where
  "to_wire r = \<lparr>wr_added = rr_added r, wr_removed = rr_removed r, wr_changed = rr_changed r, wr_stopped = rr_stopped r\<rparr>"

definition reload_envelope :: "reload_result \<Rightarrow> envelope" where
  "reload_envelope r = event_of_msg ((empty_msg EvReloadResult)\<lparr>em_reload := Some (to_wire r)\<rparr>)"

definition handle_reload ::
  "(config_error \<Rightarrow> string) \<Rightarrow> (string \<Rightarrow> config_error + config) \<Rightarrow> input \<Rightarrow> nat \<Rightarrow> server \<Rightarrow> server" where
  "handle_reload show_cfg load inp n s =
     (if sv_cfg_path s = [] then
        on_conn n (conn_enqueue (toast_envelope ''reload unavailable (no config path)'' ''warn'')) s
      else case load (sv_cfg_path s) of
        Inl e \<Rightarrow> on_conn n (conn_enqueue (toast_envelope (''config error: '' @ show_cfg e) ''error'')) s
      | Inr cfg \<Rightarrow>
          (let (res, m) = mgr_reload inp (Some cfg) (sv_mgr s);
               s1 = s\<lparr>sv_mgr := m, sv_cfg := cfg\<rparr>;
               s2 = (if rr_added res \<noteq> [] then s1\<lparr>sv_rt := rs_seed (rr_added res) (sv_rt s1)\<rparr> else s1);
               s3 = (if rr_removed res \<noteq> [] then s2\<lparr>sv_rt := rs_delete (rr_removed res) (sv_rt s2)\<rparr> else s2)
           in on_conn n (conn_enqueue (reload_envelope res)) s3))"

definition status_snapshot :: "server \<Rightarrow> wire_snapshot" where
  "status_snapshot s = map (\<lambda>r. \<lparr>ps_id = pr_id r, ps_state = pr_state r, ps_pid = pr_pid r, ps_lines = []\<rparr>)
     (rs_snapshot (sv_rt s))"

definition toast_error :: "(manager_error \<Rightarrow> string) \<Rightarrow> nat \<Rightarrow> manager_error option \<Rightarrow> server \<Rightarrow> server" where
  "toast_error show_err n e s = (case e of
     None \<Rightarrow> s | Some err \<Rightarrow> on_conn n (conn_enqueue (toast_envelope (show_err err) ''error'')) s)"

definition dispatch ::
  "(manager_error \<Rightarrow> string) \<Rightarrow> (config_error \<Rightarrow> string) \<Rightarrow> (string \<Rightarrow> config_error + config) \<Rightarrow> input
   \<Rightarrow> command \<Rightarrow> nat \<Rightarrow> server \<Rightarrow> server" where
  "dispatch show_err show_cfg load inp cmd n s =
     (case cmd_op cmd of
        OpStart \<Rightarrow> (let (e, m) = mgr_start inp (cmd_id cmd) (sv_mgr s)
                    in toast_error show_err n e (s\<lparr>sv_mgr := m\<rparr>))
      | OpStop \<Rightarrow> s\<lparr>sv_mgr := snd (mgr_stop inp (cmd_id cmd) (sv_mgr s))\<rparr>
      | OpRestart \<Rightarrow> s\<lparr>sv_mgr := snd (mgr_restart inp (cmd_id cmd) (sv_mgr s))\<rparr>
      | OpStartGroup \<Rightarrow> (let (e, m) = start_group inp (cmd_group cmd) (sv_mgr s)
                         in toast_error show_err n e (s\<lparr>sv_mgr := m\<rparr>))
      | OpStopAll \<Rightarrow> s\<lparr>sv_mgr := stop_all inp (sv_mgr s)\<rparr>
      | OpStatus \<Rightarrow> on_conn n (conn_enqueue (snapshot_envelope (status_snapshot s))) s
      | OpReload \<Rightarrow> handle_reload show_cfg load inp n s
      | OpShutdown \<Rightarrow> s\<lparr>sv_shutdown := True\<rparr>)"

text \<open>\<open>readLoop\<close> dispatches commands and ignores other envelopes.\<close>

definition read_envelope ::
  "(manager_error \<Rightarrow> string) \<Rightarrow> (config_error \<Rightarrow> string) \<Rightarrow> (string \<Rightarrow> config_error + config) \<Rightarrow> input
   \<Rightarrow> envelope \<Rightarrow> nat \<Rightarrow> server \<Rightarrow> server" where
  "read_envelope show_err show_cfg load inp env n s =
     (case env_command env of
        Some cmd \<Rightarrow> if env_kind env = KindCommand then dispatch show_err show_cfg load inp cmd n s else s
      | None \<Rightarrow> s)"

text \<open>
  Once a shutdown is requested, \<open>dropClient\<close> and \<open>unregisterClient\<close> may take either case of their select;
  \<open>taken\<close> tells whether the source loop still received the connection.
\<close>

definition unregister_client :: "bool \<Rightarrow> nat \<Rightarrow> server \<Rightarrow> server" where
  "unregister_client taken n s =
     (if sv_shutdown s \<and> (sv_source_done s \<or> \<not> taken) then s else source_unregister n s)"

definition drop_client :: "bool \<Rightarrow> nat \<Rightarrow> server \<Rightarrow> server" where
  "drop_client taken n s =
     (if sv_shutdown s \<and> (sv_source_done s \<or> \<not> taken) then on_conn n conn_close s
      else source_unregister n s)"

text \<open>A round of the writer of connection \<open>n\<close>; a failed write drops the client.\<close>

definition write_round :: "bool \<Rightarrow> bool \<Rightarrow> nat \<Rightarrow> server \<Rightarrow> server" where
  "write_round ok taken n s =
     (case conn_next (sv_conns s n) of
        None \<Rightarrow> s
      | Some (e, c1) \<Rightarrow>
          if ok then on_conn n conn_write_ok s
          else drop_client taken n (on_conn n (\<lambda>_. c1) s))"

text \<open>The end of \<open>readLoop\<close>, on a read error or a contained panic.\<close>

definition read_end :: "bool \<Rightarrow> nat \<Rightarrow> server \<Rightarrow> server" where
  "read_end taken n s = on_conn n conn_close (unregister_client taken n s)"

text \<open>
  One accepted connection \<open>n\<close>: a peer of another user is turned away before anything is sent; with a
  shutdown pending the registration may lose the race and the connection is closed.
\<close>

definition accept_conn :: "int option \<Rightarrow> int \<Rightarrow> bool \<Rightarrow> nat \<Rightarrow> server \<Rightarrow> server" where
  "accept_conn peer me taken n s =
     (case peer of
        None \<Rightarrow> on_conn n conn_close s
      | Some uid \<Rightarrow>
          if uid \<noteq> me then on_conn n conn_close s
          else if sv_shutdown s \<and> (sv_source_done s \<or> \<not> taken) then on_conn n conn_close s
          else source_register n s)"

text \<open>
  The end of \<open>ListenAndServe\<close>: the manager is closed, the source loop applies the events \<open>evs\<close> that the
  dying children still send, and finds the channel closed.
\<close>

definition shut_down :: "input \<Rightarrow> (bool \<times> time \<times> event) list \<Rightarrow> server \<Rightarrow> server" where
  "shut_down inp evs s =
     source_closed (fold (\<lambda>(ok, now, ev). apply_and_forward ok now ev) evs (s\<lparr>sv_mgr := mgr_close inp (sv_mgr s)\<rparr>))"

section \<open>The queues of a connection\<close>

datatype conn_op = Enqueue envelope | WriteOne

fun conn_step :: "conn_op \<Rightarrow> client_conn \<Rightarrow> client_conn" where
  "conn_step (Enqueue e) c = conn_enqueue e c"
| "conn_step WriteOne c = conn_write_ok c"

definition enqueued :: "conn_op list \<Rightarrow> envelope list" where
  "enqueued ops = concat (map (\<lambda>x. case x of Enqueue e \<Rightarrow> [e] | WriteOne \<Rightarrow> []) ops)"

abbreviation logs_of :: "envelope list \<Rightarrow> envelope list" where
  "logs_of \<equiv> filter is_log_envelope"

abbreviation ctrl_of :: "envelope list \<Rightarrow> envelope list" where
  "ctrl_of \<equiv> filter (\<lambda>e. \<not> is_log_envelope e)"

definition conn_inv :: "envelope list \<Rightarrow> client_conn \<Rightarrow> bool" where
  "conn_inv hist c \<longleftrightarrow> length (cc_logq c) \<le> max_log_queue \<and> length (cc_ctrl c) \<le> max_ctrl_queue
     \<and> list_all is_log_envelope (cc_logq c) \<and> list_all (\<lambda>e. \<not> is_log_envelope e) (cc_ctrl c)
     \<and> (\<not> cc_closed c \<longrightarrow> ctrl_of (cc_sent c) @ cc_ctrl c = ctrl_of hist)
     \<and> (\<not> cc_closed c \<longrightarrow> subseq (logs_of (cc_sent c) @ cc_logq c) (logs_of hist))"

lemma conn_inv_new: "conn_inv [] new_client_conn"
  by (simp add: conn_inv_def new_client_conn_def max_log_queue_def max_ctrl_queue_def)

lemma subseq_drop_middle: "subseq (a @ tl b) (a @ b)"
  by (cases b) (auto intro: list_emb_append_mono)

lemma set_tl_subset: "set (tl xs) \<subseteq> set xs"
  by (cases xs) auto

lemma conn_inv_enqueue:
  assumes "conn_inv hist c"
  shows "conn_inv (hist @ [e]) (conn_enqueue e c)"
proof (cases "is_log_envelope e \<and> \<not> cc_closed c")
  case True
  define q where "q = (if length (cc_logq c) \<ge> max_log_queue then tl (cc_logq c) else cc_logq c)"
  have "subseq (logs_of (cc_sent c) @ q) (logs_of (cc_sent c) @ cc_logq c)"
    using subseq_drop_middle [of "logs_of (cc_sent c)" "cc_logq c"] by (auto simp: q_def)
  then have "subseq (logs_of (cc_sent c) @ q) (logs_of hist)"
    using assms True subseq_order.order_trans by (auto simp: conn_inv_def)
  then have "subseq ((logs_of (cc_sent c) @ q) @ [e]) (logs_of hist @ [e])"
    by (rule list_emb_append_mono) simp
  moreover have "list_all is_log_envelope q" "length q < max_log_queue"
    using assms set_tl_subset [of "cc_logq c"] by (auto simp: q_def conn_inv_def list_all_iff max_log_queue_def)
  ultimately show ?thesis
    using assms True by (simp add: conn_inv_def conn_enqueue_def q_def [symmetric] Let_def)
next
  case False
  then show ?thesis
    using assms by (auto simp: conn_inv_def conn_enqueue_def conn_close_def)
qed

lemma conn_inv_write: "conn_inv hist c \<Longrightarrow> conn_inv hist (conn_write_ok c)"
  by (auto simp: conn_inv_def conn_write_ok_def conn_next_def split: list.splits option.splits)

lemma conn_inv_run: "conn_inv hist c \<Longrightarrow> conn_inv (hist @ enqueued ops) (fold conn_step ops c)"
proof (induction ops arbitrary: hist c)
  case Nil
  then show ?case by (simp add: enqueued_def)
next
  case (Cons x ops)
  show ?case
  proof (cases x)
    case (Enqueue e)
    then show ?thesis
      using Cons.IH [OF conn_inv_enqueue [OF Cons.prems, of e]] by (simp add: enqueued_def)
  next
    case WriteOne
    then show ?thesis using Cons.IH [OF conn_inv_write [OF Cons.prems]] by (simp add: enqueued_def)
  qed
qed

section \<open>What the source loop keeps\<close>

lemma on_conn_frame [simp]:
  "sv_rt (on_conn n f s) = sv_rt s" "sv_children_file (on_conn n f s) = sv_children_file s"
  "sv_children_path (on_conn n f s) = sv_children_path s" "sv_bring (on_conn n f s) = sv_bring s"
  "sv_cfg (on_conn n f s) = sv_cfg s" "sv_client (on_conn n f s) = sv_client s"
  "sv_conns (on_conn n f s) = (sv_conns s)(n := f (sv_conns s n))"
  by (simp_all add: on_conn_def)

lemma forward_frame [simp]:
  "sv_rt (forward env s) = sv_rt s" "sv_children_file (forward env s) = sv_children_file s"
  "sv_children_path (forward env s) = sv_children_path s" "sv_bring (forward env s) = sv_bring s"
  "sv_cfg (forward env s) = sv_cfg s" "sv_client (forward env s) = sv_client s"
  by (simp_all add: forward_def split: option.splits)

lemma record_event_frame [simp]:
  "sv_rt (record_event ok ev s) = sv_rt s" "sv_children_path (record_event ok ev s) = sv_children_path s"
  "sv_cfg (record_event ok ev s) = sv_cfg s" "sv_client (record_event ok ev s) = sv_client s"
  "sv_conns (record_event ok ev s) = sv_conns s"
  by (simp_all add: record_event_def push_line_def persist_children_def split: event.splits)

lemma apply_and_forward_frame [simp]:
  "sv_rt (apply_and_forward ok now ev s) = rs_apply now ev (sv_rt s)"
  "sv_children_path (apply_and_forward ok now ev s) = sv_children_path s"
  "sv_cfg (apply_and_forward ok now ev s) = sv_cfg s"
  "sv_client (apply_and_forward ok now ev s) = sv_client s"
  by (simp_all add: apply_and_forward_def)

lemma rs_snapshot_mem: "rs_inv rt \<Longrightarrow> r \<in> set (rs_snapshot rt) \<longleftrightarrow> rs_lookup rt (pr_id r) = Some r"
  by (force simp: rs_snapshot_def rs_inv_def rs_lookup_def simp flip: map_of_mem)

definition pid_of :: "runtime_store \<Rightarrow> string \<Rightarrow> int" where
  "pid_of rt i = (case rs_lookup rt i of None \<Rightarrow> 0 | Some r \<Rightarrow> pr_pid r)"

lemma live_children_mem:
  assumes "rs_inv rt"
  shows "c \<in> set (live_children rt) \<longleftrightarrow> cr_pid c > 0 \<and> pid_of rt (cr_id c) = cr_pid c"
proof -
  have id: "pr_id r = i" if "rs_lookup rt i = Some r" for i r
    using assms that rs_inv_lookup [of rt] by (simp add: rs_inv_def)
  have "c \<in> set (live_children rt) \<longleftrightarrow> (\<exists>r. rs_lookup rt (pr_id r) = Some r \<and> pr_pid r > 0
      \<and> c = \<lparr>cr_id = pr_id r, cr_pid = pr_pid r\<rparr>)"
    by (auto simp: live_children_def rs_snapshot_mem [OF assms])
  also have "\<dots> \<longleftrightarrow> (\<exists>r. rs_lookup rt (cr_id c) = Some r \<and> pr_pid r > 0 \<and> pr_pid r = cr_pid c)"
    using id by (cases c) auto
  finally show ?thesis by (auto simp: pid_of_def split: option.splits)
qed

section \<open>The goroutines of the daemon\<close>

text \<open>
  Besides the source loop, the goroutines of the commands and of the writers run: a reload swaps the
  configuration, seeds and deletes entries of the store and answers; a command that fails is answered by a toast; a status request
  rd the store and, later, sends what it read; a writer writes. Each of these sections is a step, and any of them can
  come between two events and between the applying, the recording and the forwarding of an event. The snapshots that were
  read and not yet sent are kept beside the server.
\<close>

datatype other_step =
    Seeded "string list"
  | Deleted "string list"
  | Managed manager config
  | Toasted nat string string
  | Reported nat reload_result
  | StatusRead
  | StatusSent nat nat
  | Wrote nat
  | ShutdownAsked

type_synonym running = "server \<times> wire_snapshot list"

fun do_other :: "other_step \<Rightarrow> running \<Rightarrow> running" where
  "do_other (Seeded ids) (s, rd) = (s\<lparr>sv_rt := rs_seed ids (sv_rt s)\<rparr>, rd)"
| "do_other (Deleted ids) (s, rd) = (s\<lparr>sv_rt := rs_delete ids (sv_rt s)\<rparr>, rd)"
| "do_other (Managed m cfg) (s, rd) = (s\<lparr>sv_mgr := m, sv_cfg := cfg\<rparr>, rd)"
| "do_other (Toasted k txt level) (s, rd) = (on_conn k (conn_enqueue (toast_envelope txt level)) s, rd)"
| "do_other (Reported k res) (s, rd) = (on_conn k (conn_enqueue (reload_envelope res)) s, rd)"
| "do_other StatusRead (s, rd) = (s, rd @ [status_snapshot s])"
| "do_other (StatusSent k j) (s, rd) =
     (if j < length rd
      then (on_conn k (conn_enqueue (snapshot_envelope (rd ! j))) s, take j rd @ drop (Suc j) rd)
      else (s, rd))"
| "do_other (Wrote k) (s, rd) = (write_round True True k s, rd)"
| "do_other ShutdownAsked (s, rd) = (s\<lparr>sv_shutdown := True\<rparr>, rd)"

text \<open>One event in the source loop, with what the others do before it is recorded and before it is forwarded.\<close>

datatype daemon_item = Other other_step | SourceEvent time event "other_step list" bool "other_step list"

fun source_event :: "time \<Rightarrow> event \<Rightarrow> other_step list \<Rightarrow> bool \<Rightarrow> other_step list \<Rightarrow> running \<Rightarrow> running" where
  "source_event now ev mid1 ok mid2 (s, rd) =
     (let st1 = fold do_other mid1 (s\<lparr>sv_rt := rs_apply now ev (sv_rt s)\<rparr>, rd);
          st2 = fold do_other mid2 (apfst (record_event ok ev) st1)
      in apfst (forward (event_envelope ev)) st2)"

fun run_step :: "daemon_item \<Rightarrow> running \<Rightarrow> running" where
  "run_step (Other st) w = do_other st w"
| "run_step (SourceEvent now ev mid1 ok mid2) w = source_event now ev mid1 ok mid2 w"

definition run_daemon :: "daemon_item list \<Rightarrow> running \<Rightarrow> running" where
  "run_daemon items w = fold run_step items w"

text \<open>The handlers of the source are such steps when nothing comes between.\<close>

lemma source_event_alone:
  "source_event now ev [] ok [] (s, rd) = (apply_and_forward ok now ev s, rd)"
  by (simp add: apply_and_forward_def)

lemma handle_reload_steps:
  "\<exists>os. fold do_other os (s, rd) = (handle_reload show_cfg load inp n s, rd)"
proof (cases "sv_cfg_path s = []")
  case True
  then show ?thesis
    by (intro exI [of _ "[Toasted n ''reload unavailable (no config path)'' ''warn'']"]) (simp add: handle_reload_def)
next
  case False
  show ?thesis
  proof (cases "load (sv_cfg_path s)")
    case (Inl e)
    then show ?thesis using False
      by (intro exI [of _ "[Toasted n (''config error: '' @ show_cfg e) ''error'']"]) (simp add: handle_reload_def)
  next
    case (Inr cfg)
    obtain res m where r: "mgr_reload inp (Some cfg) (sv_mgr s) = (res, m)" by (meson surj_pair)
    show ?thesis using False Inr r
      by (intro exI [of _ "[Managed m cfg] @ (if rr_added res \<noteq> [] then [Seeded (rr_added res)] else [])
          @ (if rr_removed res \<noteq> [] then [Deleted (rr_removed res)] else []) @ [Reported n res]"])
        (simp add: handle_reload_def Let_def)
  qed
qed

lemma managed_steps: "\<exists>os. fold do_other os (s, rd) = (s\<lparr>sv_mgr := m\<rparr>, rd)"
  by (intro exI [of _ "[Managed m (sv_cfg s)]"]) simp

lemma toast_error_steps:
  "\<exists>os. fold do_other os (s, rd) = (toast_error show_err n e (s\<lparr>sv_mgr := m\<rparr>), rd)"
proof (cases e)
  case None
  then show ?thesis using managed_steps by (simp add: toast_error_def)
next
  case (Some err)
  then show ?thesis
    by (intro exI [of _ "[Managed m (sv_cfg s), Toasted n (show_err err) ''error'']"]) (simp add: toast_error_def)
qed

lemma dispatch_steps:
  "\<exists>os. fold do_other os (s, rd) = (dispatch show_err show_cfg load inp cmd n s, rd)"
proof (cases "cmd_op cmd")
  case OpStart
  then show ?thesis using toast_error_steps by (simp add: dispatch_def split: prod.split)
next
  case OpStartGroup
  then show ?thesis using toast_error_steps by (simp add: dispatch_def split: prod.split)
next
  case OpStatus
  then show ?thesis
    by (intro exI [of _ "[StatusRead, StatusSent n (length rd)]"]) (simp add: dispatch_def)
next
  case OpReload
  then show ?thesis using handle_reload_steps by (simp add: dispatch_def)
next
  case OpShutdown
  then show ?thesis by (intro exI [of _ "[ShutdownAsked]"]) (simp add: dispatch_def)
qed (use managed_steps in \<open>auto simp: dispatch_def\<close>)

section \<open>The file of children\<close>

text \<open>
  What a run means for the pids: an event that sets the pid of its project, entries that are deleted, and the writing of
  the file after a start or an exit, which may fail.
\<close>

datatype mark = Took event | Forgot "string list" | Saved bool

fun other_marks :: "other_step \<Rightarrow> mark list" where
  "other_marks (Deleted ids) = [Forgot ids]"
| "other_marks _ = []"

fun step_marks :: "daemon_item \<Rightarrow> mark list" where
  "step_marks (Other st) = other_marks st"
| "step_marks (SourceEvent now ev mid1 ok mid2) =
     [Took ev] @ concat (map other_marks mid1) @ (if sets_pid (project_id ev) ev then [Saved ok] else [])
     @ concat (map other_marks mid2)"

definition run_marks :: "daemon_item list \<Rightarrow> mark list" where
  "run_marks items = concat (map step_marks items)"

text \<open>The pid of the last start of \<open>i\<close>, 0 when it exited or was deleted since, or has not started.\<close>

definition last_pid :: "mark list \<Rightarrow> string \<Rightarrow> int" where
  "last_pid ms i = foldl (\<lambda>p m. case m of
     Took ev \<Rightarrow> if sets_pid i ev then event_pid ev else p
   | Forgot ids \<Rightarrow> if i \<in> set ids then 0 else p
   | Saved ok \<Rightarrow> p) 0 ms"

text \<open>The run up to the last writing that succeeded, empty if there is none.\<close>

definition upto_saved :: "mark list \<Rightarrow> mark list" where
  "upto_saved ms = rev (dropWhile (\<lambda>m. m \<noteq> Saved True) (rev ms))"

lemma upto_saved_snoc [simp]:
  "upto_saved [] = []" "upto_saved (ms @ [m]) = (if m = Saved True then ms @ [m] else upto_saved ms)"
  by (simp_all add: upto_saved_def)

lemma last_pid_simps [simp]:
  "last_pid [] i = 0"
  "last_pid (ms @ [Took ev]) i = (if sets_pid i ev then event_pid ev else last_pid ms i)"
  "last_pid (ms @ [Forgot ids]) i = (if i \<in> set ids then 0 else last_pid ms i)"
  "last_pid (ms @ [Saved ok]) i = last_pid ms i"
  by (simp_all add: last_pid_def)

lemma pid_step: "pid_of (rs_apply now ev rt) i = (if sets_pid i ev then event_pid ev else pid_of rt i)"
  by (cases ev) (auto simp: pid_of_def rs_lookup_apply split: option.splits)

lemma pid_of_seed: "pid_of (rs_seed ids rt) i = pid_of rt i"
  by (auto simp: pid_of_def rs_lookup_seed split: option.splits)

lemma pid_of_delete: "pid_of (rs_delete ids rt) i = (if i \<in> set ids then 0 else pid_of rt i)"
  by (auto simp: pid_of_def rs_lookup_delete)

definition children_inv :: "child_rec list option \<Rightarrow> mark list \<Rightarrow> server \<Rightarrow> bool" where
  "children_inv old ms s \<longleftrightarrow> rs_inv (sv_rt s) \<and> sv_children_path s \<noteq> []
     \<and> (\<forall>i. last_pid ms i = pid_of (sv_rt s) i)
     \<and> (if upto_saved ms = [] then sv_children_file s = old
        else \<exists>recs. sv_children_file s = Some recs
          \<and> (\<forall>c. c \<in> set recs \<longleftrightarrow> cr_pid c > 0 \<and> last_pid (upto_saved ms) (cr_id c) = cr_pid c))"

lemma write_round_frame [simp]:
  "sv_rt (write_round True taken k s) = sv_rt s"
  "sv_children_path (write_round True taken k s) = sv_children_path s"
  "sv_children_file (write_round True taken k s) = sv_children_file s"
  "sv_client (write_round True taken k s) = sv_client s"
  by (simp_all add: write_round_def split: option.splits prod.splits)

lemma children_inv_frame:
  assumes "children_inv old ms s" "sv_rt s' = sv_rt s" "sv_children_path s' = sv_children_path s"
    "sv_children_file s' = sv_children_file s"
  shows "children_inv old ms s'"
  using assms by (simp add: children_inv_def)

lemma children_inv_other:
  assumes "children_inv old ms (fst w)"
  shows "children_inv old (ms @ other_marks st) (fst (do_other st w))"
proof -
  obtain s rd where w: "w = (s, rd)" by (cases w)
  show ?thesis
    using assms children_inv_frame [of old ms s]
    by (cases st) (auto simp: w children_inv_def rs_inv_ops pid_of_seed pid_of_delete)
qed

lemma children_inv_others:
  "children_inv old ms (fst w) \<Longrightarrow> children_inv old (ms @ concat (map other_marks os)) (fst (fold do_other os w))"
proof (induction os arbitrary: ms w)
  case (Cons st os)
  from Cons.IH [OF children_inv_other [OF Cons.prems, of st]] show ?case by simp
qed simp

lemma children_inv_applied:
  "children_inv old ms s \<Longrightarrow> children_inv old (ms @ [Took ev]) (s\<lparr>sv_rt := rs_apply now ev (sv_rt s)\<rparr>)"
  by (simp add: children_inv_def rs_inv_ops pid_step)

lemma record_event_children:
  "sv_children_file (record_event ok ev s) =
     (if sv_children_path s \<noteq> [] \<and> sets_pid (project_id ev) ev \<and> ok then Some (live_children (sv_rt s))
      else sv_children_file s)"
  by (cases ev) (simp_all add: record_event_def persist_children_def push_line_def)

lemma children_inv_recorded:
  assumes "children_inv old ms s"
  shows "children_inv old (ms @ (if sets_pid (project_id ev) ev then [Saved ok] else [])) (record_event ok ev s)"
  using assms live_children_mem [of "sv_rt s"] by (auto simp: children_inv_def record_event_children)

lemma children_inv_step:
  assumes "children_inv old ms (fst w)"
  shows "children_inv old (ms @ step_marks st) (fst (run_step st w))"
proof (cases st)
  case (Other o')
  then show ?thesis using children_inv_other [OF assms] by simp
next
  case (SourceEvent now ev mid1 ok mid2)
  obtain s rd where w: "w = (s, rd)" by (cases w)
  let ?w1 = "fold do_other mid1 (s\<lparr>sv_rt := rs_apply now ev (sv_rt s)\<rparr>, rd)"
  let ?w2 = "fold do_other mid2 (apfst (record_event ok ev) ?w1)"
  have "children_inv old (ms @ [Took ev] @ concat (map other_marks mid1)) (fst ?w1)"
    using children_inv_others [of old "ms @ [Took ev]" "(s\<lparr>sv_rt := rs_apply now ev (sv_rt s)\<rparr>, rd)" mid1]
      children_inv_applied [of old ms s ev now] assms w by simp
  from children_inv_recorded [OF this, of ev ok]
  have "children_inv old (ms @ step_marks st) (fst ?w2)"
    using children_inv_others [of old _ "apfst (record_event ok ev) ?w1" mid2] SourceEvent by fastforce
  then show ?thesis
    using SourceEvent w by (auto simp: Let_def intro: children_inv_frame)
qed

lemma children_inv_run:
  "children_inv old ms (fst w) \<Longrightarrow> children_inv old (ms @ run_marks items) (fst (run_daemon items w))"
proof (induction items arbitrary: ms w)
  case (Cons st items)
  from Cons.IH [OF children_inv_step [OF Cons.prems, of st]] show ?case
    by (simp add: run_daemon_def run_marks_def)
qed (simp add: run_daemon_def run_marks_def)

section \<open>Properties\<close>


text \<open>The write at the exit of \<open>b\<close> fails: its pid stays in the file.\<close>

definition children_demo :: "daemon_item list" where
  "children_demo = [SourceEvent 1 (StartedEvent ''a'' 7 1) [] True [], SourceEvent 2 (StartedEvent ''b'' 8 2) [StatusRead] True [],
     SourceEvent 3 (StateChangedEvent ''a'' ''running'') [] True [], SourceEvent 4 (ExitedEvent ''b'' 0 [] 4) [] False []]"


text \<open>
  C21: what a connection delivers: as long as it is open, every control message put into it has been
  sent or waits, all of them, once and in order; the log lines sent and waiting are a subsequence, in
  order, of those put in (a full backlog loses the oldest ones); and the backlogs never exceed 65536
  control messages and 4096 log lines.
\<close>
theorem conn_control_lossless:
  "let c = fold conn_step ops new_client_conn
   in length (cc_logq c) \<le> max_log_queue \<and> length (cc_ctrl c) \<le> max_ctrl_queue
     \<and> (\<not> cc_closed c \<longrightarrow> ctrl_of (cc_sent c) @ cc_ctrl c = ctrl_of (enqueued ops)
          \<and> subseq (logs_of (cc_sent c) @ cc_logq c) (logs_of (enqueued ops)))"
  using conn_inv_run [OF conn_inv_new, of ops] by (auto simp: conn_inv_def Let_def)

theorem conn_control_lossless_witness:
  "let c = fold conn_step [Enqueue (toast_envelope ''x'' ''info''), WriteOne] new_client_conn
   in \<not> cc_closed c \<and> ctrl_of (cc_sent c) @ cc_ctrl c = [toast_envelope ''x'' ''info'']"
proof -
  let ?ops = "[Enqueue (toast_envelope ''x'' ''info''), WriteOne]"
  have t: "\<not> is_log_envelope (toast_envelope ''x'' ''info'')"
    by (simp add: toast_envelope_def is_log_envelope_def event_of_msg_def empty_msg_def)
  have "\<not> cc_closed (fold conn_step ?ops new_client_conn)"
    using t by (simp add: conn_enqueue_def conn_write_ok_def conn_next_def new_client_conn_def max_ctrl_queue_def)
  then show ?thesis using conn_control_lossless [of ?ops] t by (simp add: enqueued_def Let_def)
qed

end
