(* ===== verification/Client.thy ===== *)
theory Client
  imports Daemon
begin

text \<open>
  The client of \<open>internal/client\<close>: it mirrors the daemon's state into a local store and ring-only
  registry, surfaces the messages that are not state, and ships commands. The theory ends with the
  refinement between the two sides of the wire: what a client shows after the messages the daemon
  sent is what the daemon holds.
\<close>

section \<open>State\<close>

datatype notification = NotifConnLost | NotifToast wire_toast | NotifReload wire_reload

definition notif_capacity :: nat where "notif_capacity = 64"

text \<open>\<open>cl_out\<close> is what the client wrote to the connection.\<close>

record client =
  cl_reg :: registry
  cl_rt :: runtime_store
  cl_notif :: "notification list"
  cl_closed :: bool
  cl_out :: "envelope list"

text \<open>\<open>config.Settings\<close> with only the buffer size set: no log directory, so no files.\<close>

definition ring_only_settings :: "int \<Rightarrow> settings" where
  "ring_only_settings n = \<lparr>log_buffer_lines = n, log_dir = [], log_rotate_size_mb = 0, log_rotate_keep = 0,
     shutdown_grace_ms = 0, group_start_delay_ms = 0, restart_backoff_ms = [], restart_max_attempts = 0,
     restart_reset_after_ms = 0, pty_cols = 0, pty_rows = 0, log_flush_interval_ms = 0\<rparr>"

definition new_client :: "int \<Rightarrow> client" where
  "new_client buf_lines = \<lparr>cl_reg = new_registry (ring_only_settings buf_lines), cl_rt = new_runtime_store,
     cl_notif = [], cl_closed = False, cl_out = []\<rparr>"

section \<open>Applying what the daemon sends\<close>

text \<open>The non-blocking send: a full channel drops the notification.\<close>

definition client_emit :: "notification \<Rightarrow> client \<Rightarrow> client" where
  "client_emit n c = (if length (cl_notif c) < notif_capacity then c\<lparr>cl_notif := cl_notif c @ [n]\<rparr> else c)"

text \<open>
  An operation on the ring of a project, which \<open>Get\<close> creates on first access; with no log directory the
  disk and its faults play no part.
\<close>

definition on_ring :: "string \<Rightarrow> (line ring \<Rightarrow> line ring) \<Rightarrow> client \<Rightarrow> client" where
  "on_ring i f c =
     (let (e, r, _) = reg_get no_fault i (cl_reg c, \<lambda>_. None)
      in c\<lparr>cl_reg := r\<lparr>reg_m := AList.update i (e\<lparr>en_ring := f (en_ring e)\<rparr>) (reg_m r)\<rparr>\<rparr>)"

definition apply_project :: "project_snap \<Rightarrow> client \<Rightarrow> client" where
  "apply_project p c =
     (let c1 = c\<lparr>cl_rt := rs_set (ps_id p) (ps_state p) (ps_pid p) (cl_rt c)\<rparr>
      in if ps_lines p \<noteq> [] then on_ring (ps_id p) (ring_push_many (ps_lines p)) c1 else c1)"

definition apply_snapshot :: "wire_snapshot \<Rightarrow> client \<Rightarrow> client" where
  "apply_snapshot snap c = fold apply_project snap c"

text \<open>
  \<open>applyEvent\<close> reads the payload field its kind names: a message whose payload is of another kind has
  \<open>nil\<close> there. A live line comes without its rendering.
\<close>

definition apply_event :: "time \<Rightarrow> event_msg option \<Rightarrow> client \<Rightarrow> client" where
  "apply_event now m c =
     (case m of
        None \<Rightarrow> c
      | Some em \<Rightarrow>
          (case em_kind em of
             EvLogLine \<Rightarrow>
               (case em_event em of
                  Some (LogLineEvent i b p at) \<Rightarrow>
                    on_ring i (ring_push \<lparr>ln_bytes = b, ln_rendered = [], ln_partial = p, ln_time = at\<rparr>) c
                | _ \<Rightarrow> c)
           | EvToast \<Rightarrow> (case em_toast em of Some t \<Rightarrow> client_emit (NotifToast t) c | None \<Rightarrow> c)
           | EvReloadResult \<Rightarrow> (case em_reload em of Some r \<Rightarrow> client_emit (NotifReload r) c | None \<Rightarrow> c)
           | EvErr \<Rightarrow> client_emit (NotifToast \<lparr>wt_text = em_err em, wt_level = ''error''\<rparr>) c
           | k \<Rightarrow>
               (case em_event em of
                  Some ev \<Rightarrow> if wire_kind ev = k then c\<lparr>cl_rt := rs_apply now ev (cl_rt c)\<rparr> else c
                | None \<Rightarrow> c)))"

definition receive :: "time \<Rightarrow> envelope \<Rightarrow> client \<Rightarrow> client" where
  "receive now env c =
     (case env_kind env of
        KindSnapshot \<Rightarrow> (case env_snapshot env of Some sn \<Rightarrow> apply_snapshot sn c | None \<Rightarrow> c)
      | KindEvent \<Rightarrow> apply_event now (env_event env) c
      | KindCommand \<Rightarrow> c)"

text \<open>\<open>readLoop\<close> on the envelopes that arrive, each with the client's clock; \<open>lost\<close>: then a read error.\<close>

definition client_close :: "client \<Rightarrow> client" where
  "client_close c = c\<lparr>cl_closed := True\<rparr>"

definition client_read_loop :: "(time \<times> envelope) list \<Rightarrow> bool \<Rightarrow> client \<Rightarrow> client" where
  "client_read_loop ins lost c =
     (let c1 = fold (\<lambda>(now, env). receive now env) ins c
      in if lost \<and> \<not> cl_closed c1 then client_emit NotifConnLost c1 else c1)"

datatype dial_error = ReadSnapshotFailed | UnexpectedKind kind

text \<open>\<open>Dial\<close> after the connection: the first message must be a snapshot; the rest is left to the loop.\<close>

definition dial :: "int \<Rightarrow> (time \<times> envelope) list \<Rightarrow> dial_error + client \<times> (time \<times> envelope) list" where
  "dial buf_lines ins =
     (case ins of
        [] \<Rightarrow> Inl ReadSnapshotFailed
      | (_, env) # rest \<Rightarrow>
          (case env_snapshot env of
             Some sn \<Rightarrow>
               if env_kind env \<noteq> KindSnapshot then Inl (UnexpectedKind (env_kind env))
               else Inr (apply_snapshot sn (new_client buf_lines), rest)
           | None \<Rightarrow> Inl (UnexpectedKind (env_kind env))))"

definition client_session :: "int \<Rightarrow> (time \<times> envelope) list \<Rightarrow> bool \<Rightarrow> dial_error + client" where
  "client_session buf_lines ins lost =
     (case dial buf_lines ins of Inl e \<Rightarrow> Inl e | Inr (c, rest) \<Rightarrow> Inr (client_read_loop rest lost c))"

section \<open>The remote manager\<close>

datatype remote_error = SendFailed | Detached

definition command_envelope :: "command \<Rightarrow> envelope" where
  "command_envelope cmd = \<lparr>env_kind = KindCommand, env_command = Some cmd, env_event = None, env_snapshot = None\<rparr>"

text \<open>\<open>ok\<close> tells whether the write succeeds; on a closed connection it does not.\<close>

definition client_send :: "bool \<Rightarrow> command \<Rightarrow> client \<Rightarrow> remote_error option \<times> client" where
  "client_send ok cmd c =
     (if ok \<and> \<not> cl_closed c then (None, c\<lparr>cl_out := cl_out c @ [command_envelope cmd]\<rparr>) else (Some SendFailed, c))"

definition remote_start :: "bool \<Rightarrow> string \<Rightarrow> client \<Rightarrow> remote_error option \<times> client" where
  "remote_start ok i = client_send ok \<lparr>cmd_op = OpStart, cmd_id = i, cmd_group = []\<rparr>"

definition remote_stop :: "bool \<Rightarrow> string \<Rightarrow> duration \<Rightarrow> client \<Rightarrow> remote_error option \<times> client" where
  "remote_stop ok i grace = client_send ok \<lparr>cmd_op = OpStop, cmd_id = i, cmd_group = []\<rparr>"

definition remote_restart :: "bool \<Rightarrow> string \<Rightarrow> client \<Rightarrow> remote_error option \<times> client" where
  "remote_restart ok i = client_send ok \<lparr>cmd_op = OpRestart, cmd_id = i, cmd_group = []\<rparr>"

definition remote_start_group :: "bool \<Rightarrow> string \<Rightarrow> duration \<Rightarrow> client \<Rightarrow> remote_error option \<times> client" where
  "remote_start_group ok g delay = client_send ok \<lparr>cmd_op = OpStartGroup, cmd_id = [], cmd_group = g\<rparr>"

definition remote_stop_all :: "bool \<Rightarrow> client \<Rightarrow> client" where
  "remote_stop_all ok c = snd (client_send ok \<lparr>cmd_op = OpStopAll, cmd_id = [], cmd_group = []\<rparr> c)"

definition remote_resize :: "string \<Rightarrow> 16 word \<Rightarrow> 16 word \<Rightarrow> client \<Rightarrow> client" where
  "remote_resize i cols rows c = c"

definition remote_attach :: "string \<Rightarrow> remote_error + nat" where
  "remote_attach i = Inl Detached"

definition remote_subscribe :: "string \<Rightarrow> nat \<Rightarrow> remote_error option" where
  "remote_subscribe i w = Some Detached"

definition remote_reload :: "bool \<Rightarrow> config option \<Rightarrow> client \<Rightarrow> reload_result \<times> client" where
  "remote_reload ok cfg c =
     (\<lparr>rr_added = [], rr_removed = [], rr_changed = [], rr_stopped = []\<rparr>,
      snd (client_send ok \<lparr>cmd_op = OpReload, cmd_id = [], cmd_group = []\<rparr> c))"

section \<open>What reaches the store\<close>

abbreviation deliver :: "(time \<times> envelope) list \<Rightarrow> client \<Rightarrow> client" where
  "deliver ins c \<equiv> fold (\<lambda>(now, env). receive now env) ins c"

lemma client_emit_frame [simp]: "cl_rt (client_emit n c) = cl_rt c" "cl_closed (client_emit n c) = cl_closed c" "cl_reg (client_emit n c) = cl_reg c"
  by (simp_all add: client_emit_def)

lemma on_ring_frame [simp]: "cl_rt (on_ring i f c) = cl_rt c" "cl_closed (on_ring i f c) = cl_closed c"
  by (simp_all add: on_ring_def split: prod.splits)

lemma apply_project_rt: "cl_rt (apply_project p c) = rs_set (ps_id p) (ps_state p) (ps_pid p) (cl_rt c)"
  by (simp add: apply_project_def Let_def)

lemma receive_log: "is_log_envelope env \<Longrightarrow> cl_rt (receive now env c) = cl_rt c"
  by (auto simp: receive_def is_log_envelope_def apply_event_def split: option.splits event.splits)

lemma receive_event:
  "cl_rt (receive now (event_envelope ev) c) = (if is_log_line ev then cl_rt c else rs_apply now ev (cl_rt c))"
  by (cases ev) (simp_all add: receive_def event_envelope_def event_of_msg_def empty_msg_def apply_event_def)

lemma receive_toast: "cl_rt (receive now (toast_envelope txt level) c) = cl_rt c"
  by (simp add: receive_def toast_envelope_def event_of_msg_def empty_msg_def apply_event_def)

lemma visible_fold_put:
  "distinct (map ps_id sn) \<Longrightarrow> rs.visible (cl_rt (fold apply_project sn c)) i =
     (case map_of (map (\<lambda>p. (ps_id p, (ps_state p, ps_pid p))) sn) i of
        Some v \<Rightarrow> Some v | None \<Rightarrow> rs.visible (cl_rt c) i)"
proof (induction sn arbitrary: c)
  case (Cons p sn)
  let ?m = "map_of (map (\<lambda>p. (ps_id p, (ps_state p, ps_pid p))) sn)"
  have "?m (ps_id p) = None" using Cons.prems by (auto simp: map_of_eq_None_iff)
  moreover have "rs.visible (cl_rt (fold apply_project (p # sn) c)) i =
      (case ?m i of Some v \<Rightarrow> Some v | None \<Rightarrow> rs.visible (cl_rt (apply_project p c)) i)"
    using Cons.IH [of "apply_project p c"] Cons.prems by simp
  ultimately show ?case by (cases "i = ps_id p") (simp_all add: apply_project_rt rs.visible_put split: option.split)
qed simp

lemma visible_fold_put_same:
  "\<forall>p \<in> set sn. ps_id p = i \<longrightarrow> (ps_state p, ps_pid p) = v \<Longrightarrow>
   rs.visible (cl_rt (fold apply_project sn c)) i = (if \<exists>p \<in> set sn. ps_id p = i then Some v else rs.visible (cl_rt c) i)"
proof (induction sn arbitrary: c)
  case (Cons p sn)
  then show ?case using Cons.IH [of "apply_project p c"] Cons.prems by (auto simp: apply_project_rt rs.visible_put)
qed simp

lemma snapshot_visible:
  assumes "rs_inv (sv_rt s)" "rs_lookup (cl_rt c) = Map.empty"
  shows "rs.visible (cl_rt (apply_snapshot (build_snapshot s) c)) = rs.visible (sv_rt s)"
proof
  fix i
  let ?rows = "rs_snapshot (sv_rt s)"
  have ids: "map ps_id (build_snapshot s) = map pr_id ?rows" by (simp add: build_snapshot_def)
  have "map_of (map (\<lambda>p. (ps_id p, (ps_state p, ps_pid p))) (build_snapshot s)) i = rs.visible (sv_rt s) i"
  proof (cases "rs_lookup (sv_rt s) i")
    case None
    then have "i \<notin> pr_id ` set ?rows" using assms(1) by (auto simp: rs_snapshot_mem)
    then show ?thesis using None by (auto simp: rs.visible_def map_of_eq_None_iff build_snapshot_def)
  next
    case (Some r)
    then have "pr_id r = i" "r \<in> set ?rows"
      using assms(1) rs_inv_lookup [of "sv_rt s"] by (auto simp: rs_snapshot_mem rs_inv_def)
    then have "(i, (pr_state r, pr_pid r)) \<in> set (map (\<lambda>p. (ps_id p, (ps_state p, ps_pid p))) (build_snapshot s))"
      by (auto simp: build_snapshot_def)
    moreover have "distinct (map fst (map (\<lambda>p. (ps_id p, (ps_state p, ps_pid p))) (build_snapshot s)))"
      using ids distinct_rs_snapshot [OF assms(1)] by (simp add: comp_def)
    ultimately show ?thesis using Some by (simp add: rs.visible_def)
  qed
  moreover have "rs.visible (cl_rt c) i = None" by (simp add: rs.visible_def assms(2))
  ultimately show "rs.visible (cl_rt (apply_snapshot (build_snapshot s) c)) i = rs.visible (sv_rt s) i"
    using ids distinct_rs_snapshot [OF assms(1)]
    by (simp add: apply_snapshot_def visible_fold_put split: option.split)
qed

section \<open>The two sides of the wire\<close>

text \<open>
  What a client shows of a project it has no entry of, and when an entry of the client agrees with the daemon's: they are the
  same, or a reload has added the project and no event of it has come yet. While an event is applied and not yet
  forwarded, the client is one event behind.
\<close>

definition shown :: "(string \<times> int) option \<Rightarrow> string \<times> int" where
  "shown v = (case v of None \<Rightarrow> (''idle'', 0) | Some x \<Rightarrow> x)"

definition same_entry :: "bool \<Rightarrow> (string \<times> int) option \<Rightarrow> (string \<times> int) option \<Rightarrow> bool" where
  "same_entry seeded cv rv \<longleftrightarrow> cv = rv \<or> seeded \<and> cv = None \<and> rv = Some (''idle'', 0)"

definition agree :: "bool \<Rightarrow> event option \<Rightarrow> bool \<Rightarrow> string \<Rightarrow> (string \<times> int) option \<Rightarrow> (string \<times> int) option \<Rightarrow> bool" where
  "agree fresh pend seeded i cv rv \<longleftrightarrow> (fresh \<longrightarrow>
     (case pend of
        Some ev \<Rightarrow> if project_id ev = i \<and> \<not> is_log_line ev then rv = Some (rs.visible_step ev (shown cv))
                    else same_entry seeded cv rv
      | None \<Rightarrow> same_entry seeded cv rv))"

text \<open>
  The steps that keep project \<open>i\<close> in view: no reload deletes it, and the snapshot a status request sends to the client is
  not out of date for it.
\<close>

fun fresh_other :: "nat \<Rightarrow> string \<Rightarrow> other_step \<Rightarrow> running \<Rightarrow> bool" where
  "fresh_other n i (Deleted ids) w \<longleftrightarrow> i \<notin> set ids"
| "fresh_other n i (StatusSent k j) (s, rd) \<longleftrightarrow>
     (k = n \<and> j < length rd \<longrightarrow> (\<forall>p \<in> set (rd ! j). ps_id p = i \<longrightarrow> rs.visible (sv_rt s) i = Some (ps_state p, ps_pid p)))"
| "fresh_other n i _ w \<longleftrightarrow> True"

fun fresh_others :: "nat \<Rightarrow> string \<Rightarrow> other_step list \<Rightarrow> running \<Rightarrow> bool" where
  "fresh_others n i [] w \<longleftrightarrow> True"
| "fresh_others n i (st # os) w \<longleftrightarrow> fresh_other n i st w \<and> fresh_others n i os (do_other st w)"

fun fresh_item :: "nat \<Rightarrow> string \<Rightarrow> daemon_item \<Rightarrow> running \<Rightarrow> bool" where
  "fresh_item n i (Other st) w \<longleftrightarrow> fresh_other n i st w"
| "fresh_item n i (SourceEvent now ev mid1 ok mid2) (s, rd) \<longleftrightarrow>
     (let w1 = (s\<lparr>sv_rt := rs_apply now ev (sv_rt s)\<rparr>, rd)
      in fresh_others n i mid1 w1 \<and> fresh_others n i mid2 (apfst (record_event ok ev) (fold do_other mid1 w1)))"

fun fresh_run :: "nat \<Rightarrow> string \<Rightarrow> daemon_item list \<Rightarrow> running \<Rightarrow> bool" where
  "fresh_run n i [] w \<longleftrightarrow> True"
| "fresh_run n i (it # items) w \<longleftrightarrow> fresh_item n i it w \<and> fresh_run n i items (run_step it w)"

text \<open>The projects that reloads add in a run.\<close>

fun seeds :: "other_step \<Rightarrow> string set" where
  "seeds (Seeded ids) = set ids"
| "seeds _ = {}"

fun seeds_item :: "daemon_item \<Rightarrow> string set" where
  "seeds_item (Other st) = seeds st"
| "seeds_item (SourceEvent now ev mid1 ok mid2) = \<Union>(seeds ` set (mid1 @ mid2))"

definition seeded_ids :: "daemon_item list \<Rightarrow> string set" where
  "seeded_ids items = \<Union>(seeds_item ` set items)"

text \<open>The control messages of a connection, sent or waiting, behind whatever logs went out between them.\<close>

definition on_wire :: "client_conn \<Rightarrow> envelope list" where
  "on_wire c = cc_sent c @ cc_ctrl c"

definition agrees :: "(event option \<times> bool \<times> bool) \<Rightarrow> string \<Rightarrow> (string \<times> int) option \<Rightarrow> (string \<times> int) option \<Rightarrow> bool" where
  "agrees ph i cv rv \<longleftrightarrow> (case ph of (pend, seeded, fresh) \<Rightarrow> agree fresh pend seeded i cv rv)"

definition mirrors :: "(event option \<times> bool \<times> bool) \<Rightarrow> string \<Rightarrow> wire_snapshot \<Rightarrow> envelope list \<Rightarrow> runtime_store \<Rightarrow> bool" where
  "mirrors ph i sn wire rt \<longleftrightarrow> (\<exists>rest. wire = snapshot_envelope sn # rest
     \<and> (\<forall>ins b. map snd ins = rest \<longrightarrow>
          agrees ph i (rs.visible (cl_rt (deliver ins (apply_snapshot sn (new_client b)))) i) (rs.visible rt i)))"

lemma mirrors_append:
  assumes "mirrors ph i sn wire rt"
    and step: "\<And>now c. agrees ph i (rs.visible (cl_rt c) i) (rs.visible rt i)
        \<Longrightarrow> agrees ph' i (rs.visible (cl_rt (receive now e c)) i) (rs.visible rt' i)"
  shows "mirrors ph' i sn (wire @ [e]) rt'"
proof -
  obtain rest where w: "wire = snapshot_envelope sn # rest"
    and v: "\<And>ins b. map snd ins = rest \<Longrightarrow>
      agrees ph i (rs.visible (cl_rt (deliver ins (apply_snapshot sn (new_client b)))) i) (rs.visible rt i)"
    using assms(1) by (auto simp: mirrors_def)
  have "agrees ph' i (rs.visible (cl_rt (deliver ins (apply_snapshot sn (new_client b)))) i) (rs.visible rt' i)"
    if ins: "map snd ins = rest @ [e]" for ins b
  proof -
    obtain ins1 now where "ins = ins1 @ [(now, e)]" "map snd ins1 = rest"
      using ins by (auto simp: map_eq_append_conv map_eq_Cons_conv)
    then show ?thesis using step [OF v] by simp
  qed
  then show ?thesis by (auto simp: mirrors_def w)
qed

lemma mirrors_mono:
  "mirrors ph i sn wire rt \<Longrightarrow> (\<And>cv. agrees ph i cv (rs.visible rt i) \<Longrightarrow> agrees ph' i cv (rs.visible rt' i))
   \<Longrightarrow> mirrors ph' i sn wire rt'"
  by (auto simp: mirrors_def)

lemma visible_step_again: "rs.visible_step ev (rs.visible_step ev v) = rs.visible_step ev v"
  by (cases ev) (simp_all add: rs.visible_step_def)

lemma is_log_event_envelope [simp]: "is_log_envelope (event_envelope ev) \<longleftrightarrow> is_log_line ev"
  by (cases ev) (simp_all add: is_log_envelope_def event_envelope_def event_of_msg_def empty_msg_def)

lemma is_log_other_envelopes [simp]: "\<not> is_log_envelope (toast_envelope txt level)"
  "\<not> is_log_envelope (reload_envelope res)" "\<not> is_log_envelope (snapshot_envelope sn)"
  by (simp_all add: is_log_envelope_def toast_envelope_def reload_envelope_def snapshot_envelope_def event_of_msg_def empty_msg_def)

definition wire_inv :: "(event option \<times> bool \<times> bool) \<Rightarrow> string \<Rightarrow> wire_snapshot \<Rightarrow> nat \<Rightarrow> server \<Rightarrow> bool" where
  "wire_inv ph i sn n s \<longleftrightarrow> sv_client s = Some n \<and> list_all is_log_envelope (cc_logq (sv_conns s n))
     \<and> (\<not> cc_closed (sv_conns s n) \<longrightarrow> mirrors ph i sn (on_wire (sv_conns s n)) (sv_rt s))"

lemma wire_inv_quiet:
  assumes "wire_inv ph i sn n s" "sv_client s' = sv_client s" "sv_conns s' n = sv_conns s n"
    and "\<And>cv. agrees ph i cv (rs.visible (sv_rt s) i) \<Longrightarrow> agrees ph' i cv (rs.visible (sv_rt s') i)"
  shows "wire_inv ph' i sn n s'"
proof -
  have "mirrors ph' i sn wire (sv_rt s')" if "mirrors ph i sn wire (sv_rt s)" for wire
    by (rule mirrors_mono [OF that assms(4)])
  then show ?thesis using assms(1-3) by (simp add: wire_inv_def)
qed

lemma wire_inv_enqueue:
  assumes "wire_inv ph i sn n s"
    and log: "\<And>cv. is_log_envelope e \<Longrightarrow> agrees ph i cv (rs.visible (sv_rt s) i) \<Longrightarrow> agrees ph' i cv (rs.visible (sv_rt s') i)"
    and msg: "\<And>now c. agrees ph i (rs.visible (cl_rt c) i) (rs.visible (sv_rt s) i)
        \<Longrightarrow> agrees ph' i (rs.visible (cl_rt (receive now e c)) i) (rs.visible (sv_rt s') i)"
    and "sv_client s' = Some n" "sv_conns s' n = conn_enqueue e (sv_conns s n)"
  shows "wire_inv ph' i sn n s'"
proof -
  let ?c = "sv_conns s n"
  have logs: "list_all is_log_envelope (cc_logq (conn_enqueue e ?c))"
    using assms(1) set_tl_subset [of "cc_logq ?c"]
    by (auto simp: wire_inv_def conn_enqueue_def conn_close_def list_all_iff Let_def)
  have "mirrors ph' i sn (on_wire (conn_enqueue e ?c)) (sv_rt s')" if open_now: "\<not> cc_closed (conn_enqueue e ?c)"
  proof -
    have op: "\<not> cc_closed ?c" using open_now by (auto simp: conn_enqueue_def)
    then have m: "mirrors ph i sn (on_wire ?c) (sv_rt s)" using assms(1) by (simp add: wire_inv_def)
    show ?thesis
    proof (cases "is_log_envelope e")
      case True
      then have "on_wire (conn_enqueue e ?c) = on_wire ?c"
        using op by (simp add: on_wire_def conn_enqueue_def Let_def)
      then show ?thesis using mirrors_mono [OF m log [OF True]] by simp
    next
      case False
      then have "on_wire (conn_enqueue e ?c) = on_wire ?c @ [e]"
        using op open_now by (auto simp: on_wire_def conn_enqueue_def conn_close_def split: if_splits)
      then show ?thesis using mirrors_append [OF m msg] by simp
    qed
  qed
  then show ?thesis using logs assms(4,5) by (simp add: wire_inv_def)
qed

lemma wire_inv_sent:
  assumes "wire_inv ph i sn n s"
  shows "wire_inv ph i sn n (write_round True True n s)"
proof -
  have keep: "mirrors ph i sn (w @ [e]) rt" if "mirrors ph i sn w rt" "is_log_envelope e" for w e rt
    using mirrors_append [OF that(1)] receive_log [OF that(2)] by simp
  show ?thesis
    using assms keep
    by (auto simp: wire_inv_def write_round_def conn_write_ok_def conn_next_def on_wire_def
        split: list.splits option.splits)
qed

lemma write_round_conns: "k \<noteq> n \<Longrightarrow> sv_conns (write_round True True k s) n = sv_conns s n"
  by (simp add: write_round_def split: option.splits prod.splits)

section \<open>Each step keeps the mirror\<close>

lemma agrees_seed:
  "agrees (pend, sd, fr) i cv (rs.visible rt i)
   \<Longrightarrow> agrees (pend, sd \<or> i \<in> set ids, fr) i cv (rs.visible (rs_seed ids rt) i)"
  by (cases "rs_lookup rt i"; cases pend)
    (auto simp: agrees_def agree_def same_entry_def rs.visible_def rs_lookup_seed split: if_splits)

lemma agrees_delete:
  "agrees (pend, sd, fr) i cv (rs.visible rt i)
   \<Longrightarrow> agrees (pend, sd, fr \<and> i \<notin> set ids) i cv (rs.visible (rs_delete ids rt) i)"
  by (auto simp: agrees_def agree_def rs.visible_del)

lemma agrees_status:
  assumes "agrees (pend, sd, fr) i (rs.visible (cl_rt c) i) (rs.visible rt i)"
    and "fr' \<longrightarrow> fr \<and> (\<forall>p \<in> set sn. ps_id p = i \<longrightarrow> rs.visible rt i = Some (ps_state p, ps_pid p))"
  shows "agrees (pend, sd, fr') i (rs.visible (cl_rt (apply_snapshot sn c)) i) (rs.visible rt i)"
proof (cases fr')
  case fr': True
  show ?thesis
  proof (cases "\<exists>p \<in> set sn. ps_id p = i")
    case True
    then obtain v where v: "rs.visible rt i = Some v" using assms(2) fr' by blast
    then have "rs.visible (cl_rt (apply_snapshot sn c)) i = Some v"
      using visible_fold_put_same [of sn i v c] assms(2) fr' True by (auto simp: apply_snapshot_def)
    then show ?thesis
      using assms fr' v
      by (auto simp: agrees_def agree_def same_entry_def shown_def visible_step_again split: option.splits if_splits)
  next
    case False
    then have "rs.visible (cl_rt (apply_snapshot sn c)) i = rs.visible (cl_rt c) i"
      using visible_fold_put_same [of sn i undefined c] by (auto simp: apply_snapshot_def)
    then show ?thesis using assms fr' by (simp add: agrees_def)
  qed
qed (simp add: agrees_def agree_def)

lemma receive_reload: "cl_rt (receive now (reload_envelope res) c) = cl_rt c"
  by (simp add: receive_def reload_envelope_def event_of_msg_def empty_msg_def apply_event_def)

lemma receive_snapshot: "receive now (snapshot_envelope sn) c = apply_snapshot sn c"
  by (simp add: receive_def snapshot_envelope_def)

lemma agrees_fresh: "agrees (pend, sd, fr) i cv rv \<Longrightarrow> (fr' \<longrightarrow> fr) \<Longrightarrow> agrees (pend, sd, fr') i cv rv"
  by (simp add: agrees_def agree_def)

lemma wire_inv_other:
  assumes "wire_inv (pend, sd, fr) i sn n (fst w)"
  shows "wire_inv (pend, sd \<or> i \<in> seeds st, fr \<and> fresh_other n i st w) i sn n (fst (do_other st w))"
proof -
  obtain s rd where w: "w = (s, rd)" by (cases w)
  have inv: "wire_inv (pend, sd, fr) i sn n s" using assms w by simp
  have cl: "sv_client s = Some n" using inv by (simp add: wire_inv_def)
  show ?thesis
  proof (cases st)
    case (Seeded ids)
    then show ?thesis using wire_inv_quiet [OF inv] agrees_seed by (simp add: w)
  next
    case (Deleted ids)
    then show ?thesis using wire_inv_quiet [OF inv] agrees_delete by (simp add: w)
  next
    case (Toasted k tx level)
    show ?thesis
    proof (cases "k = n")
      case True
      then show ?thesis using wire_inv_enqueue [OF inv, of "toast_envelope tx level"] cl Toasted
        by (simp add: w receive_toast)
    qed (use wire_inv_quiet [OF inv] Toasted in \<open>simp add: w\<close>)
  next
    case (Reported k res)
    show ?thesis
    proof (cases "k = n")
      case True
      then show ?thesis using wire_inv_enqueue [OF inv, of "reload_envelope res"] cl Reported
        by (simp add: w receive_reload)
    qed (use wire_inv_quiet [OF inv] Reported in \<open>simp add: w\<close>)
  next
    case (StatusSent k j)
    show ?thesis
    proof (cases "k = n \<and> j < length rd")
      case True
      then show ?thesis
        using wire_inv_enqueue [OF inv, of "snapshot_envelope (rd ! j)"] cl StatusSent agrees_status
        by (simp add: w receive_snapshot)
    next
      case False
      then show ?thesis using wire_inv_quiet [OF inv] StatusSent by (auto simp: w)
    qed
  next
    case (Wrote k)
    show ?thesis
    proof (cases "k = n")
      case True
      then show ?thesis using wire_inv_sent [OF inv] Wrote by (simp add: w)
    qed (use wire_inv_quiet [OF inv] Wrote write_round_conns in \<open>simp add: w\<close>)
  qed (use wire_inv_quiet [OF inv] in \<open>simp_all add: w\<close>)
qed

lemma wire_inv_others:
  "wire_inv (pend, sd, fr) i sn n (fst w) \<Longrightarrow>
   wire_inv (pend, sd \<or> i \<in> \<Union>(seeds ` set os), fr \<and> fresh_others n i os w) i sn n (fst (fold do_other os w))"
proof (induction os arbitrary: sd fr w)
  case (Cons st os)
  from Cons.IH [OF wire_inv_other [OF Cons.prems, of st]] show ?case
    by (simp add: disj_assoc conj_assoc)
qed simp

lemma agrees_applied:
  "agrees (None, sd, fr) i cv (rs.visible rt i) \<Longrightarrow> agrees (Some ev, sd, fr) i cv (rs.visible (rs_apply now ev rt) i)"
  by (auto simp: agrees_def agree_def same_entry_def shown_def rs.visible_app split: option.splits)

lemma agrees_forwarded:
  assumes "agrees (Some ev, sd, fr) i (rs.visible (cl_rt c) i) (rs.visible rt i)"
  shows "agrees (None, sd, fr) i (rs.visible (cl_rt (receive now (event_envelope ev) c)) i) (rs.visible rt i)"
  using assms
  by (auto simp: agrees_def agree_def same_entry_def shown_def receive_event rs.visible_app split: option.splits if_splits)

lemma wire_inv_item:
  assumes "wire_inv (None, sd, fr) i sn n (fst w)"
  shows "wire_inv (None, sd \<or> i \<in> seeds_item it, fr \<and> fresh_item n i it w) i sn n (fst (run_step it w))"
proof (cases it)
  case (Other st)
  then show ?thesis using wire_inv_other [OF assms] by simp
next
  case (SourceEvent now ev mid1 ok mid2)
  obtain s rd where w: "w = (s, rd)" by (cases w)
  let ?w1 = "(s\<lparr>sv_rt := rs_apply now ev (sv_rt s)\<rparr>, rd)"
  let ?w2 = "fold do_other mid1 ?w1"
  let ?w3 = "apfst (record_event ok ev) ?w2"
  let ?w4 = "fold do_other mid2 ?w3"
  have "wire_inv (Some ev, sd, fr) i sn n (fst ?w1)"
    using wire_inv_quiet [OF assms, of "fst ?w1"] agrees_applied w by simp
  from wire_inv_others [OF this, of mid1]
  have "wire_inv (Some ev, sd \<or> i \<in> \<Union>(seeds ` set mid1), fr \<and> fresh_others n i mid1 ?w1) i sn n (fst ?w3)"
    by (rule wire_inv_quiet) simp_all
  from wire_inv_others [OF this, of mid2]
  have inv: "wire_inv (Some ev, sd \<or> i \<in> seeds_item it, fr \<and> fresh_item n i it w) i sn n (fst ?w4)"
    using SourceEvent w by (simp add: disj_assoc conj_assoc Let_def)
  then have cl: "sv_client (fst ?w4) = Some n" by (simp add: wire_inv_def)
  have "wire_inv (None, sd \<or> i \<in> seeds_item it, fr \<and> fresh_item n i it w) i sn n (forward (event_envelope ev) (fst ?w4))"
  proof (rule wire_inv_enqueue [OF inv, of "event_envelope ev"])
    show "agrees (None, sd \<or> i \<in> seeds_item it, fr \<and> fresh_item n i it w) i cv
        (rs.visible (sv_rt (forward (event_envelope ev) (fst ?w4))) i)"
      if "is_log_envelope (event_envelope ev)"
        "agrees (Some ev, sd \<or> i \<in> seeds_item it, fr \<and> fresh_item n i it w) i cv (rs.visible (sv_rt (fst ?w4)) i)" for cv
      using that by (simp add: agrees_def agree_def)
  qed (use cl agrees_forwarded in \<open>simp_all add: forward_def\<close>)
  then show ?thesis using SourceEvent w by (simp add: Let_def)
qed

lemma wire_inv_run:
  "wire_inv (None, sd, fr) i sn n (fst w) \<Longrightarrow>
   wire_inv (None, sd \<or> i \<in> seeded_ids items, fr \<and> fresh_run n i items w) i sn n (fst (run_daemon items w))"
proof (induction items arbitrary: sd fr w)
  case (Cons it items)
  from Cons.IH [OF wire_inv_item [OF Cons.prems, of it]] show ?case
    by (simp add: run_daemon_def seeded_ids_def disj_assoc conj_assoc)
qed (simp add: run_daemon_def seeded_ids_def)

lemma wire_inv_register:
  assumes "rs_inv (sv_rt s)" "sv_conns s n = new_client_conn"
  shows "wire_inv (None, False, True) i (build_snapshot s) n (source_register n s)"
proof -
  let ?sn = "build_snapshot s"
  have "rs_lookup (cl_rt (new_client b)) = Map.empty" for b
    by (simp add: new_client_def rs_lookup_def new_runtime_store_def)
  then have "mirrors (None, False, True) i ?sn [snapshot_envelope ?sn] (sv_rt s)"
    using snapshot_visible [OF assms(1)] by (simp add: mirrors_def agrees_def agree_def same_entry_def)
  moreover have "build_snapshot (on_conn k f s) = ?sn" for k f by (simp add: build_snapshot_def)
  ultimately show ?thesis
    using assms(2)
    by (auto simp: wire_inv_def source_register_def Let_def on_wire_def conn_enqueue_def new_client_conn_def
        snapshot_envelope_def is_log_envelope_def max_ctrl_queue_def split: option.split)
qed

section \<open>Properties\<close>


text \<open>A start, a reload that adds a project, and a status answer, with two messages written.\<close>

definition mirror_demo :: "daemon_item list" where
  "mirror_demo = [SourceEvent 1 (StartedEvent ''a'' 7 1) [StatusRead] True [], Other (Seeded [''b'']), Other (Wrote 0),
     Other (StatusSent 0 0), Other (Wrote 0)]"

lemmas mirror_demo_defs = mirror_demo_def run_daemon_def new_server_def source_register_def new_client_conn_def
  forward_def record_event_def persist_children_def on_conn_def write_round_def conn_write_ok_def conn_next_def
  conn_enqueue_def max_ctrl_queue_def is_log_envelope_def snapshot_envelope_def event_envelope_def event_of_msg_def empty_msg_def


text \<open>A status answer that is read before an event and sent after it: the client shows the old state until the next event.\<close>

definition stale_demo :: "daemon_item list" where
  "stale_demo = [Other (Seeded [''a'']), Other StatusRead, SourceEvent 1 (StartedEvent ''a'' 7 1) [] True [], Other (StatusSent 0 0)]"

lemma find_stale_status:
  "let w = run_daemon stale_demo (source_register 0 (new_server changed_sample [] new_runtime_store (new_manager changed_sample) []), []);
       conn = sv_conns (fst w) 0
   in rs.visible (sv_rt (fst w)) ''a'' = Some (''running'', 7)
      \<and> (case client_session 100 (map (Pair 5) (cc_sent conn @ cc_ctrl conn)) False of
            Inl _ \<Rightarrow> False | Inr c \<Rightarrow> rs.visible (cl_rt c) ''a'' = Some (''idle'', 0))"
  by (simp add: stale_demo_def mirror_demo_defs build_snapshot_def status_snapshot_def rs_snapshot_def rs_apply_def get_or_init_def
      rs_notify_def notify_subs_def new_runtime_store_def rs.visible_def rs_lookup_def rs_seed_def rs_set_def seed_one_def
      idle_runtime_def zero_runtime_def client_session_def dial_def client_read_loop_def receive_def apply_snapshot_def
      apply_project_def apply_event_def new_client_def Let_def)

end
