(* ===== verification/Copy_Motion.thy ===== *)
theory Copy_Motion
  imports Ansi
begin

text \<open>
  The cursor of copy mode in the log pane: the vim motions of
  \<open>internal/tui/panes/logpanel_motion_ranges.go\<close> that walk over words. A position is a line index and a byte index into the line without its
  escape sequences; Go's \<open>int\<close> is an \<open>int\<close> that wraps at 64 bits where a typed count is added or
  multiplied, and loops are recursive functions with their measures.
\<close>

section \<open>Positions and classes\<close>

datatype cursor = Cursor (cu_line: int) (cu_col: int)

text \<open>Positions in line-major order, the order \<open>normaliseCharRange\<close> compares with.\<close>

instantiation cursor :: linorder
begin

definition less_eq_cursor :: "cursor \<Rightarrow> cursor \<Rightarrow> bool" where
  "p \<le> q \<longleftrightarrow> cu_line p < cu_line q \<or> (cu_line p = cu_line q \<and> cu_col p \<le> cu_col q)"

definition less_cursor :: "cursor \<Rightarrow> cursor \<Rightarrow> bool" where
  "p < q \<longleftrightarrow> cu_line p < cu_line q \<or> (cu_line p = cu_line q \<and> cu_col p < cu_col q)"

instance
  by standard (auto simp: less_eq_cursor_def less_cursor_def intro: cursor.expand)

end

lemma cursor_le [simp]: "Cursor l c \<le> Cursor m d \<longleftrightarrow> l < m \<or> (l = m \<and> c \<le> d)"
  by (simp add: less_eq_cursor_def)

lemma cursor_less [simp]: "Cursor l c < Cursor m d \<longleftrightarrow> l < m \<or> (l = m \<and> c < d)"
  by (simp add: less_cursor_def)

text \<open>64-bit wrap-around.\<close>

definition wrap64 :: "int \<Rightarrow> int" where
  "wrap64 n = (n + 2 ^ 63) mod 2 ^ 64 - 2 ^ 63"

lemma wrap64_id: "- (2 ^ 63) \<le> n \<Longrightarrow> n < 2 ^ 63 \<Longrightarrow> wrap64 n = n"
  by (simp add: wrap64_def)

definition is_vim_word :: "char \<Rightarrow> bool" where
  "is_vim_word b \<longleftrightarrow> in_range b 0x61 0x7A \<or> in_range b 0x41 0x5A \<or> in_range b 0x30 0x39 \<or> b = CHR ''_''"

definition is_blank :: "char \<Rightarrow> bool" where
  "is_blank b \<longleftrightarrow> b = CHR '' '' \<or> b = CHR 0x09"

definition is_WORD :: "char \<Rightarrow> bool" where
  "is_WORD b \<longleftrightarrow> b \<noteq> CHR '' '' \<and> b \<noteq> CHR 0x09"

definition class_of :: "(char \<Rightarrow> bool) \<Rightarrow> char \<Rightarrow> nat" where
  "class_of cls b = (if is_blank b then 0 else if cls b then 1 else 2)"

section \<open>The buffer\<close>

definition stripped_line :: "string list \<Rightarrow> int \<Rightarrow> string" where
  "stripped_line raw i = (if i < 0 \<or> i \<ge> int (length raw) then [] else strip_ansi (raw ! nat i))"

definition line_len :: "string list \<Rightarrow> int \<Rightarrow> int" where
  "line_len raw i = int (length (stripped_line raw i))"

definition end_of_buffer :: "string list \<Rightarrow> cursor" where
  "end_of_buffer raw = Cursor (int (length raw) - 1) (line_len raw (int (length raw) - 1))"

text \<open>Byte \<open>i\<close> of a string, for indices the code has checked.\<close>

abbreviation byte_at :: "string \<Rightarrow> int \<Rightarrow> char" where
  "byte_at s i \<equiv> s ! nat i"

text \<open>The scanning loops: move right, or left, while the bytes satisfy a predicate.\<close>

function scan_right :: "(char \<Rightarrow> bool) \<Rightarrow> string \<Rightarrow> int \<Rightarrow> int" where
  "scan_right P s i = (if i < int (length s) \<and> P (byte_at s i) then scan_right P s (i + 1) else i)"
  by pat_completeness auto
termination by (relation "measure (\<lambda>(P, s, i). nat (int (length s) - i))") auto

function scan_left :: "(char \<Rightarrow> bool) \<Rightarrow> string \<Rightarrow> int \<Rightarrow> int" where
  "scan_left P s i =
     (if 0 \<le> i \<and> i < int (length s) \<and> P (byte_at s i) then scan_left P s (i - 1) else i)"
  by pat_completeness auto
termination by (relation "measure (\<lambda>(P, s, i). nat (i + 1))") auto

declare scan_right.simps [simp del] scan_left.simps [simp del]

definition first_non_blank :: "string \<Rightarrow> int" where
  "first_non_blank s = scan_right is_blank s 0"

section \<open>Words\<close>

function word_scan :: "string list \<Rightarrow> (char \<Rightarrow> bool) \<Rightarrow> int \<Rightarrow> int \<Rightarrow> cursor" where
  "word_scan raw cls l c =
     (if l < int (length raw) then
        (let s = stripped_line raw l
         in if c \<ge> int (length s) then
              (if l + 1 \<ge> int (length raw) then end_of_buffer raw else word_scan raw cls (l + 1) 0)
            else if class_of cls (byte_at s c) = 0 then word_scan raw cls l (c + 1)
            else Cursor l c)
      else end_of_buffer raw)"
  by pat_completeness auto
termination
  by (relation "measures [\<lambda>(raw, cls, l, c). nat (int (length raw) - l),
      \<lambda>(raw, cls, l, c). nat (line_len raw l - c)]") (auto simp: line_len_def)

declare word_scan.simps [simp del]

text \<open>
  The cursor past the end of its line first moves to the next one; then the run under it is skipped;
  then white space and line ends.
\<close>

definition word_forward_once :: "string list \<Rightarrow> (char \<Rightarrow> bool) \<Rightarrow> cursor \<Rightarrow> cursor" where
  "word_forward_once raw cls start =
     (let l = cu_line start; c = cu_col start; tot = int (length raw)
      in if c \<ge> line_len raw l \<and> l + 1 \<ge> tot then end_of_buffer raw
         else
           (let (l1, c1) = (if c \<ge> line_len raw l then (l + 1, 0) else (l, c));
                s = stripped_line raw l1;
                c2 = (if c1 < int (length s) \<and> class_of cls (byte_at s c1) \<noteq> 0
                      then scan_right (\<lambda>b. class_of cls b = class_of cls (byte_at s c1)) s c1 else c1)
            in word_scan raw cls l1 c2))"

text \<open>
  Walk left over white space and line starts. The source ends the walk at line 0; lines below 0
  (on which it would not end) are never reached.
\<close>

function back_scan :: "string list \<Rightarrow> int \<Rightarrow> int \<Rightarrow> cursor option" where
  "back_scan raw l c =
     (let s = stripped_line raw l; c1 = scan_left is_blank s c
      in if 0 \<le> c1 \<and> c1 < int (length s) then Some (Cursor l c1)
         else if l \<le> 0 then None
         else back_scan raw (l - 1) (line_len raw (l - 1) - 1))"
  by pat_completeness auto
termination by (relation "measure (\<lambda>(raw, l, c). nat l)") auto

declare back_scan.simps [simp del]

text \<open>One byte back, over a line start if need be; \<open>None\<close> at the start of the buffer.\<close>

definition step_back :: "string list \<Rightarrow> cursor \<Rightarrow> (int \<times> int) option" where
  "step_back raw start =
     (let l = cu_line start; c = cu_col start
      in if c = 0 \<and> l = 0 then None
         else (let (l1, c1) = (if c = 0 then (l - 1, line_len raw (l - 1)) else (l, c))
               in Some (l1, max 0 (c1 - 1))))"

definition word_end_backward_once :: "string list \<Rightarrow> (char \<Rightarrow> bool) \<Rightarrow> cursor \<Rightarrow> cursor" where
  "word_end_backward_once raw cls start =
     (case step_back raw start of
        None \<Rightarrow> Cursor 0 0
      | Some (l, c) \<Rightarrow> (case back_scan raw l c of Some p \<Rightarrow> p | None \<Rightarrow> Cursor 0 0))"

definition word_backward_once :: "string list \<Rightarrow> (char \<Rightarrow> bool) \<Rightarrow> cursor \<Rightarrow> cursor" where
  "word_backward_once raw cls start =
     (case step_back raw start of
        None \<Rightarrow> Cursor 0 0
      | Some (l, c) \<Rightarrow>
          (case back_scan raw l c of
             None \<Rightarrow> Cursor 0 0
           | Some p \<Rightarrow>
               (let s = stripped_line raw (cu_line p);
                    k = class_of cls (byte_at s (cu_col p))
                in Cursor (cu_line p) (scan_left (\<lambda>b. class_of cls b = k) s (cu_col p) + 1))))"

function end_scan :: "string list \<Rightarrow> (char \<Rightarrow> bool) \<Rightarrow> int \<Rightarrow> int \<Rightarrow> cursor" where
  "end_scan raw cls l c =
     (if l < int (length raw) then
        (let s = stripped_line raw l; c1 = scan_right is_blank s c
         in if c1 \<ge> int (length s) then
              (if l + 1 \<ge> int (length raw) then Cursor l (max 0 (int (length s) - 1))
               else end_scan raw cls (l + 1) 0)
            else Cursor l
              (scan_right (\<lambda>b. class_of cls b = class_of cls (byte_at s c1)) s c1 - 1))
      else Cursor (int (length raw) - 1) (max 0 (line_len raw (int (length raw) - 1) - 1)))"
  by pat_completeness auto
termination by (relation "measure (\<lambda>(raw, cls, l, c). nat (int (length raw) - l))") auto

declare end_scan.simps [simp del]

definition word_end_forward_once :: "string list \<Rightarrow> (char \<Rightarrow> bool) \<Rightarrow> cursor \<Rightarrow> cursor" where
  "word_end_forward_once raw cls start =
     (let l = cu_line start; c = cu_col start
      in if c < line_len raw l then end_scan raw cls l (c + 1)
         else if l + 1 < int (length raw) then end_scan raw cls (l + 1) 0
         else end_scan raw cls l c)"

text \<open>The counted forms run \<open>n\<close> times.\<close>

definition word_forward_n :: "string list \<Rightarrow> (char \<Rightarrow> bool) \<Rightarrow> int \<Rightarrow> cursor \<Rightarrow> cursor" where
  "word_forward_n raw cls n start = (word_forward_once raw cls ^^ nat n) start"

definition word_backward_n :: "string list \<Rightarrow> (char \<Rightarrow> bool) \<Rightarrow> int \<Rightarrow> cursor \<Rightarrow> cursor" where
  "word_backward_n raw cls n start = (word_backward_once raw cls ^^ nat n) start"

definition word_end_forward_n :: "string list \<Rightarrow> (char \<Rightarrow> bool) \<Rightarrow> int \<Rightarrow> cursor \<Rightarrow> cursor" where
  "word_end_forward_n raw cls n start = (word_end_forward_once raw cls ^^ nat n) start"

definition word_end_backward_n :: "string list \<Rightarrow> (char \<Rightarrow> bool) \<Rightarrow> int \<Rightarrow> cursor \<Rightarrow> cursor" where
  "word_end_backward_n raw cls n start = (word_end_backward_once raw cls ^^ nat n) start"

section \<open>The scanning loops\<close>

lemma scan_right_spec:
  "i \<le> scan_right P s i
   \<and> (\<forall>k. i \<le> k \<and> k < scan_right P s i \<longrightarrow> k < int (length s) \<and> P (byte_at s k))
   \<and> (scan_right P s i < int (length s) \<longrightarrow> \<not> P (byte_at s (scan_right P s i)))"
proof (induction P s i rule: scan_right.induct)
  case (1 P s i)
  show ?case
  proof (cases "i < int (length s) \<and> P (byte_at s i)")
    case True
    then have *: "scan_right P s i = scan_right P s (i + 1)" by (subst scan_right.simps) simp
    show ?thesis using 1 [OF True] True unfolding * by (metis add1_zle_eq less_le zle_add1_eq_le)
  next
    case False
    then have "scan_right P s i = i" by (subst scan_right.simps) auto
    then show ?thesis using False by (smt (verit))
  qed
qed

lemma scan_left_spec:
  "scan_left P s i \<le> i
   \<and> (\<forall>k. scan_left P s i < k \<and> k \<le> i \<longrightarrow> 0 \<le> k \<and> k < int (length s) \<and> P (byte_at s k))
   \<and> (0 \<le> scan_left P s i \<and> scan_left P s i < int (length s) \<longrightarrow> \<not> P (byte_at s (scan_left P s i)))"
proof (induction P s i rule: scan_left.induct)
  case (1 P s i)
  show ?case
  proof (cases "0 \<le> i \<and> i < int (length s) \<and> P (byte_at s i)")
    case True
    then have *: "scan_left P s i = scan_left P s (i - 1)" by (subst scan_left.simps) simp
    show ?thesis using 1 [OF True] True unfolding * by (smt (verit))
  next
    case False
    then have "scan_left P s i = i" by (subst scan_left.simps) auto
    then show ?thesis using False by auto
  qed
qed

lemma scan_right_le: "i \<le> int (length s) \<Longrightarrow> scan_right P s i \<le> int (length s)"
  using scan_right_spec [of i P s] by (smt (verit))

lemma scan_left_ge: "- 1 \<le> i \<Longrightarrow> - 1 \<le> scan_left P s i"
  using scan_left_spec [of P s i] by (smt (verit))

section \<open>The reference: word starts and word ends\<close>

definition in_buffer :: "string list \<Rightarrow> cursor \<Rightarrow> bool" where
  "in_buffer raw p \<longleftrightarrow> 0 \<le> cu_line p \<and> cu_line p < int (length raw)
     \<and> 0 \<le> cu_col p \<and> cu_col p < line_len raw (cu_line p)"

definition class_at :: "string list \<Rightarrow> (char \<Rightarrow> bool) \<Rightarrow> cursor \<Rightarrow> nat" where
  "class_at raw cls p = class_of cls (byte_at (stripped_line raw (cu_line p)) (cu_col p))"

definition word_start :: "string list \<Rightarrow> (char \<Rightarrow> bool) \<Rightarrow> cursor \<Rightarrow> bool" where
  "word_start raw cls p \<longleftrightarrow> in_buffer raw p \<and> class_at raw cls p \<noteq> 0
     \<and> (cu_col p = 0 \<or> class_at raw cls (Cursor (cu_line p) (cu_col p - 1)) \<noteq> class_at raw cls p)"

definition word_end :: "string list \<Rightarrow> (char \<Rightarrow> bool) \<Rightarrow> cursor \<Rightarrow> bool" where
  "word_end raw cls p \<longleftrightarrow> in_buffer raw p \<and> class_at raw cls p \<noteq> 0
     \<and> (cu_col p + 1 = line_len raw (cu_line p)
        \<or> class_at raw cls (Cursor (cu_line p) (cu_col p + 1)) \<noteq> class_at raw cls p)"

lemma class_blank: "class_of cls b = 0 \<longleftrightarrow> is_blank b"
  by (simp add: class_of_def)

lemma word_scan_spec:
  assumes "0 \<le> l" "0 \<le> c"
  shows "(in_buffer raw (word_scan raw cls l c) \<and> class_at raw cls (word_scan raw cls l c) \<noteq> 0
      \<and> Cursor l c \<le> word_scan raw cls l c
      \<and> (\<forall>r. in_buffer raw r \<and> Cursor l c \<le> r \<and> r < word_scan raw cls l c \<longrightarrow> class_at raw cls r = 0))
    \<or> (word_scan raw cls l c = end_of_buffer raw
      \<and> (\<forall>r. in_buffer raw r \<and> Cursor l c \<le> r \<longrightarrow> class_at raw cls r = 0))"
  using assms
proof (induction raw cls l c rule: word_scan.induct)
  case (1 raw cls l c)
  let ?s = "stripped_line raw l"
  have skip: "in_buffer raw r \<Longrightarrow> Cursor l c \<le> r \<Longrightarrow> Cursor (l + 1) 0 \<le> r" if "int (length ?s) \<le> c" for r
    using that by (cases r) (auto simp: in_buffer_def line_len_def)
  have blank: "in_buffer raw r \<Longrightarrow> Cursor l c \<le> r \<Longrightarrow> Cursor l (c + 1) \<le> r \<or> class_at raw cls r = 0"
    if "class_of cls (byte_at ?s c) = 0" for r
    using that by (cases r; cases "cu_col r = c") (auto simp: class_at_def)
  consider (past) "\<not> l < int (length raw)"
    | (last) "l < int (length raw)" "int (length ?s) \<le> c" "int (length raw) \<le> l + 1"
    | (eol) "l < int (length raw)" "int (length ?s) \<le> c" "\<not> int (length raw) \<le> l + 1"
    | (white) "l < int (length raw)" "\<not> int (length ?s) \<le> c" "class_of cls (byte_at ?s c) = 0"
    | (here) "l < int (length raw)" "\<not> int (length ?s) \<le> c" "class_of cls (byte_at ?s c) \<noteq> 0"
    by blast
  then show ?case
  proof cases
    case past
    then have "word_scan raw cls l c = end_of_buffer raw" by (subst word_scan.simps) simp
    then show ?thesis using past by (auto simp: in_buffer_def less_eq_cursor_def)
  next
    case last
    then have "word_scan raw cls l c = end_of_buffer raw" by (subst word_scan.simps) simp
    then show ?thesis using last skip by (auto simp: in_buffer_def less_eq_cursor_def)
  next
    case eol
    then have eq: "word_scan raw cls l c = word_scan raw cls (l + 1) 0" by (subst word_scan.simps) simp
    have up: "Cursor (l + 1) 0 \<le> q \<Longrightarrow> Cursor l c \<le> q" for q by (cases q) auto
    have "0 \<le> l + 1" using "1.prems" by simp
    from "1.IH"(1) [OF eol(1) refl eol(2,3) this order_refl] show ?thesis
      using skip [OF eol(2)] up unfolding eq by blast
  next
    case white
    then have eq: "word_scan raw cls l c = word_scan raw cls l (c + 1)" by (subst word_scan.simps) simp
    have up: "Cursor l (c + 1) \<le> q \<Longrightarrow> Cursor l c \<le> q" for q by (cases q) auto
    have "0 \<le> c + 1" using "1.prems" by simp
    from "1.IH"(2) [OF white(1) refl white(2,3) "1.prems"(1) this] show ?thesis
      using blank [OF white(3)] up unfolding eq by blast
  next
    case here
    then have "word_scan raw cls l c = Cursor l c" by (subst word_scan.simps) simp
    then show ?thesis
      using here "1.prems" by (auto simp: in_buffer_def class_at_def line_len_def)
  qed
qed

lemma word_forward_least:
  assumes "in_buffer raw p"
  shows "(word_start raw cls (word_forward_once raw cls p) \<and> p < word_forward_once raw cls p
      \<and> (\<forall>r. word_start raw cls r \<and> p < r \<longrightarrow> word_forward_once raw cls p \<le> r))
    \<or> (word_forward_once raw cls p = end_of_buffer raw \<and> (\<forall>r. word_start raw cls r \<longrightarrow> r \<le> p))"
proof -
  obtain l c where p: "p = Cursor l c" by (cases p)
  let ?s = "stripped_line raw l" and ?q = "word_forward_once raw cls p"
  define k where "k = class_of cls (byte_at ?s c)"
  define c2 where "c2 = (if k \<noteq> 0 then scan_right (\<lambda>b. class_of cls b = k) ?s c else c)"
  have in_p: "0 \<le> l" "l < int (length raw)" "0 \<le> c" "c < int (length ?s)"
    using assms by (simp_all add: p in_buffer_def line_len_def)
  have q: "?q = word_scan raw cls l c2"
    using in_p by (simp add: word_forward_once_def p line_len_def c2_def k_def Let_def)
  note scan = scan_right_spec [of c "\<lambda>b. class_of cls b = k" ?s]
  have run: "c \<le> c2" "\<And>d. c \<le> d \<Longrightarrow> d < c2 \<Longrightarrow> class_of cls (byte_at ?s d) = k"
    "k \<noteq> 0 \<Longrightarrow> c2 < int (length ?s) \<Longrightarrow> class_of cls (byte_at ?s c2) \<noteq> k"
    using scan by (auto simp: c2_def split: if_splits)
  have moved: "k \<noteq> 0 \<Longrightarrow> c < c2" using run(1,3) in_p k_def by (cases "c = c2") auto
  have c2: "0 \<le> c2" using run(1) in_p by simp
  have no_start: "\<not> word_start raw cls r" if "p < r" "r < Cursor l c2" for r
  proof -
    obtain d where r: "r = Cursor l d" "c < d" "d < c2" using \<open>p < r\<close> \<open>r < Cursor l c2\<close> by (cases r) (auto simp: p)
    then show ?thesis
      using run(2) [of d] run(2) [of "d - 1"] in_p(3) by (simp add: word_start_def class_at_def)
  qed
  have start: "word_start raw cls r"
    if r: "in_buffer raw r" "class_at raw cls r \<noteq> 0" "Cursor l c2 \<le> r"
      and blank: "\<forall>r'. in_buffer raw r' \<and> Cursor l c2 \<le> r' \<and> r' < r \<longrightarrow> class_at raw cls r' = 0" for r
  proof (cases "cu_col r = 0")
    case True
    then show ?thesis using r by (simp add: word_start_def)
  next
    case False
    let ?r1 = "Cursor (cu_line r) (cu_col r - 1)"
    have r1: "in_buffer raw ?r1" "?r1 < r" using False r by (auto simp: in_buffer_def less_cursor_def)
    show ?thesis
    proof (cases "Cursor l c2 \<le> ?r1")
      case True
      then show ?thesis using blank r1 r by (simp add: word_start_def)
    next
      case False
      then have eq: "r = Cursor l c2" using r(3) by (cases r) auto
      then have "k \<noteq> 0" using r(2) by (auto simp: c2_def class_at_def k_def split: if_splits)
      then show ?thesis
        using eq r run(2) [of "c2 - 1"] run(3) moved by (simp add: word_start_def class_at_def in_buffer_def line_len_def)
    qed
  qed
  have less: "p < r" if "Cursor l c2 \<le> r" "class_at raw cls r \<noteq> 0" for r
  proof (cases "k = 0")
    case True
    then have "r \<noteq> p" using that(2) by (auto simp: p class_at_def k_def)
    then show ?thesis using that(1) True by (simp add: c2_def p)
  next
    case False
    then have "p < Cursor l c2" using moved by (simp add: p)
    then show ?thesis using that(1) by (rule less_le_trans)
  qed
  from word_scan_spec [OF in_p(1) c2, of raw cls] show ?thesis
    unfolding q [symmetric]
  proof
    assume a: "in_buffer raw ?q \<and> class_at raw cls ?q \<noteq> 0 \<and> Cursor l c2 \<le> ?q
      \<and> (\<forall>r. in_buffer raw r \<and> Cursor l c2 \<le> r \<and> r < ?q \<longrightarrow> class_at raw cls r = 0)"
    have "?q \<le> r" if "word_start raw cls r" "p < r" for r
      using a no_start [of r] that by (meson not_le word_start_def)
    then show ?thesis using a start less by blast
  next
    assume b: "?q = end_of_buffer raw \<and> (\<forall>r. in_buffer raw r \<and> Cursor l c2 \<le> r \<longrightarrow> class_at raw cls r = 0)"
    have "r \<le> p" if "word_start raw cls r" for r
      using b no_start [of r] that by (meson not_le word_start_def)
    then show ?thesis using b by blast
  qed
qed

lemma back_scan_spec:
  assumes "0 \<le> l" "l < int (length raw)" "- 1 \<le> c" "c < line_len raw l \<or> line_len raw l = 0"
  shows "case back_scan raw l c of
      Some q \<Rightarrow> in_buffer raw q \<and> class_at raw cls q \<noteq> 0 \<and> q \<le> Cursor l c
        \<and> (\<forall>r. in_buffer raw r \<and> q < r \<and> r \<le> Cursor l c \<longrightarrow> class_at raw cls r = 0)
    | None \<Rightarrow> \<forall>r. in_buffer raw r \<and> r \<le> Cursor l c \<longrightarrow> class_at raw cls r = 0"
  using assms
proof (induction raw l c rule: back_scan.induct)
  case (1 raw l c)
  let ?s = "stripped_line raw l"
  define c1 where "c1 = scan_left is_blank ?s c"
  have scan: "c1 \<le> c" "\<And>d. c1 < d \<Longrightarrow> d \<le> c \<Longrightarrow> is_blank (byte_at ?s d)"
    "0 \<le> c1 \<Longrightarrow> c1 < int (length ?s) \<Longrightarrow> \<not> is_blank (byte_at ?s c1)" "- 1 \<le> c1"
    using scan_left_spec [of is_blank ?s c] scan_left_ge [OF "1.prems"(3), of is_blank ?s] by (auto simp: c1_def)
  have same: "class_at raw cls r = 0" if "in_buffer raw r" "r \<le> Cursor l c" "Cursor l c1 < r" for r
    using that scan(2) by (cases r) (auto simp: class_at_def class_blank)
  show ?case
  proof (cases "0 \<le> c1 \<and> c1 < int (length ?s)")
    case True
    then have "back_scan raw l c = Some (Cursor l c1)" by (subst back_scan.simps) (simp add: c1_def Let_def)
    then show ?thesis
      using True "1.prems" scan same by (auto simp: in_buffer_def class_at_def class_blank line_len_def)
  next
    case False
    have none_here: "class_at raw cls r = 0 \<or> r \<le> Cursor (l - 1) (line_len raw (l - 1) - 1)"
      if r: "in_buffer raw r" "r \<le> Cursor l c" for r
    proof (cases "cu_line r = l")
      case True
      then have "Cursor l c1 < r"
        using r False scan(1,4) "1.prems"(4) by (cases r) (auto simp: in_buffer_def line_len_def)
      then show ?thesis using same r by blast
    next
      case False
      then show ?thesis using r by (cases r; cases "cu_line r = l - 1") (auto simp: in_buffer_def)
    qed
    show ?thesis
    proof (cases "l \<le> 0")
      case True
      then have "back_scan raw l c = None" using False by (subst back_scan.simps) (simp add: c1_def Let_def)
      moreover have "\<not> r \<le> Cursor (l - 1) d" if "in_buffer raw r" for r d
        using that True by (cases r) (auto simp: in_buffer_def)
      ultimately show ?thesis using none_here by auto
    next
      case nz: False
      have eq: "back_scan raw l c = back_scan raw (l - 1) (line_len raw (l - 1) - 1)"
        using False nz unfolding c1_def by (subst back_scan.simps) (auto simp: Let_def)
      have le: "q \<le> Cursor (l - 1) d \<Longrightarrow> q \<le> Cursor l c" for q d by (cases q) auto
      have "0 \<le> l - 1" "l - 1 < int (length raw)" "- 1 \<le> line_len raw (l - 1) - 1"
        using nz "1.prems" by (simp_all add: line_len_def)
      from "1.IH" [OF refl c1_def False nz this] show ?thesis
        unfolding eq using none_here le by (auto split: option.splits)
    qed
  qed
qed

lemma step_back_spec:
  assumes "0 \<le> cu_line p" "cu_line p < int (length raw)" "0 \<le> cu_col p" "cu_col p \<le> line_len raw (cu_line p)"
    and "step_back raw p = Some (l, c)"
  shows "0 \<le> l" "l < int (length raw)" "- 1 \<le> c" "c < line_len raw l \<or> line_len raw l = 0"
    "in_buffer raw r \<Longrightarrow> r < p \<longleftrightarrow> r \<le> Cursor l c"
proof -
  have lc: "cu_col p = 0 \<and> cu_line p \<noteq> 0 \<and> l = cu_line p - 1 \<and> c = max 0 (line_len raw l - 1)
      \<or> cu_col p \<noteq> 0 \<and> l = cu_line p \<and> c = cu_col p - 1"
    using assms by (auto simp: step_back_def Let_def split: if_splits)
  then show "0 \<le> l" "l < int (length raw)" "- 1 \<le> c" "c < line_len raw l \<or> line_len raw l = 0"
    using assms(1-4) by (auto simp: line_len_def)
  show "in_buffer raw r \<Longrightarrow> r < p \<longleftrightarrow> r \<le> Cursor l c"
    using lc assms(1-4)
    by (cases r; cases p; cases "cu_line r = l") (auto simp: in_buffer_def line_len_def)
qed

lemma step_back_None: "step_back raw p = None \<longleftrightarrow> p = Cursor 0 0"
  by (cases p) (auto simp: step_back_def Let_def split: if_splits)

text \<open>A cursor as the pane keeps it: on a line of the buffer, at most one past its last byte.\<close>

definition valid_cursor :: "string list \<Rightarrow> cursor \<Rightarrow> bool" where
  "valid_cursor raw p \<longleftrightarrow> 0 \<le> cu_line p \<and> cu_line p < int (length raw)
     \<and> 0 \<le> cu_col p \<and> cu_col p \<le> line_len raw (cu_line p)"

lemma word_backward_greatest:
  assumes "valid_cursor raw p"
  shows "(word_start raw cls (word_backward_once raw cls p) \<and> word_backward_once raw cls p < p
      \<and> (\<forall>r. word_start raw cls r \<and> r < p \<longrightarrow> r \<le> word_backward_once raw cls p))
    \<or> (word_backward_once raw cls p = Cursor 0 0 \<and> (\<forall>r. word_start raw cls r \<longrightarrow> p \<le> r))"
proof (cases "step_back raw p")
  case None
  then have "word_backward_once raw cls p = Cursor 0 0" by (simp add: word_backward_once_def)
  moreover have "p = Cursor 0 0" using None by (simp add: step_back_None)
  ultimately show ?thesis by (auto simp: word_start_def in_buffer_def less_eq_cursor_def)
next
  case (Some lc)
  obtain l c where lc: "step_back raw p = Some (l, c)" using Some by (cases lc) simp
  note step = step_back_spec [of p raw l c, OF _ _ _ _ lc]
  have pre: "0 \<le> l" "l < int (length raw)" "- 1 \<le> c" "c < line_len raw l \<or> line_len raw l = 0"
    "\<And>r. in_buffer raw r \<Longrightarrow> r < p \<longleftrightarrow> r \<le> Cursor l c"
    using step assms by (auto simp: valid_cursor_def)
  note bks = back_scan_spec [OF pre(1-4), of cls]
  show ?thesis
  proof (cases "back_scan raw l c")
    case None
    then have "word_backward_once raw cls p = Cursor 0 0" by (simp add: word_backward_once_def lc)
    moreover have "p \<le> r" if "word_start raw cls r" for r
      using bks None pre(5) [of r] that by (auto simp: word_start_def not_less [symmetric])
    ultimately show ?thesis by blast
  next
    case (Some e)
    let ?s = "stripped_line raw (cu_line e)"
    define k where "k = class_at raw cls e"
    define d where "d = scan_left (\<lambda>b. class_of cls b = k) ?s (cu_col e)"
    have e: "in_buffer raw e" "k \<noteq> 0" "e \<le> Cursor l c"
      "\<And>r. in_buffer raw r \<Longrightarrow> e < r \<Longrightarrow> r \<le> Cursor l c \<Longrightarrow> class_at raw cls r = 0"
      using bks Some by (auto simp: k_def)
    have q: "word_backward_once raw cls p = Cursor (cu_line e) (d + 1)"
      by (simp add: word_backward_once_def lc Some d_def k_def class_at_def Let_def)
    have run: "d \<le> cu_col e" "\<And>j. d < j \<Longrightarrow> j \<le> cu_col e \<Longrightarrow> class_of cls (byte_at ?s j) = k"
      "0 \<le> d \<Longrightarrow> d < int (length ?s) \<Longrightarrow> class_of cls (byte_at ?s d) \<noteq> k" "- 1 \<le> d"
      using scan_left_spec [of "\<lambda>b. class_of cls b = k" ?s "cu_col e"] scan_left_ge [of "cu_col e"] e(1)
      by (auto simp: d_def in_buffer_def)
    have in_e: "0 \<le> cu_col e" "cu_col e < int (length ?s)" using e(1) by (auto simp: in_buffer_def line_len_def)
    have "d \<noteq> cu_col e" using run(3) in_e by (auto simp: k_def class_at_def)
    then have d: "d + 1 \<le> cu_col e" using run(1) by simp
    have start: "word_start raw cls (Cursor (cu_line e) (d + 1))"
      using e(1,2) d run(2) [of "d + 1"] run(3,4) in_e
      by (auto simp: word_start_def in_buffer_def class_at_def line_len_def)
    have below: "Cursor (cu_line e) (d + 1) < p"
    proof -
      have "Cursor (cu_line e) (d + 1) \<le> e" using d by (cases e) simp
      then have "Cursor (cu_line e) (d + 1) \<le> Cursor l c" using e(3) by (rule order_trans)
      moreover have "in_buffer raw (Cursor (cu_line e) (d + 1))" using start by (simp only: word_start_def)
      ultimately show ?thesis using pre(5) by blast
    qed
    have "r \<le> Cursor (cu_line e) (d + 1)" if r: "word_start raw cls r" "r < p" for r
    proof (rule ccontr)
      assume "\<not> r \<le> Cursor (cu_line e) (d + 1)"
      moreover have "r \<le> e" using r e(4) [of r] pre(5) [of r] by (auto simp: word_start_def not_less [symmetric])
      ultimately have "cu_line r = cu_line e" "d + 1 < cu_col r" "cu_col r \<le> cu_col e"
        by (cases r; cases e; auto)+
      then show False
        using r run(2) [of "cu_col r"] run(2) [of "cu_col r - 1"] run(4)
        by (cases r) (auto simp: word_start_def class_at_def)
    qed
    then show ?thesis using start below unfolding q by blast
  qed
qed

lemma end_scan_spec:
  assumes "0 \<le> l" "l < int (length raw)" "0 \<le> c"
  shows "(word_end raw cls (end_scan raw cls l c) \<and> Cursor l c \<le> end_scan raw cls l c
      \<and> (\<forall>r. word_end raw cls r \<and> Cursor l c \<le> r \<longrightarrow> end_scan raw cls l c \<le> r))
    \<or> (end_scan raw cls l c = Cursor (int (length raw) - 1) (max 0 (line_len raw (int (length raw) - 1) - 1))
      \<and> (\<forall>r. word_end raw cls r \<longrightarrow> r < Cursor l c))"
  using assms
proof (induction raw cls l c rule: end_scan.induct)
  case (1 raw cls l c)
  let ?s = "stripped_line raw l"
  define c1 where "c1 = scan_right is_blank ?s c"
  have white: "c \<le> c1" "\<And>d. c \<le> d \<Longrightarrow> d < c1 \<Longrightarrow> is_blank (byte_at ?s d)"
    "c1 < int (length ?s) \<Longrightarrow> \<not> is_blank (byte_at ?s c1)"
    using scan_right_spec [of c is_blank ?s] by (auto simp: c1_def)
  have skip: "Cursor l c1 \<le> r" if "word_end raw cls r" "Cursor l c \<le> r" for r
    using that white(2) by (cases r) (auto simp: word_end_def class_at_def class_blank not_less [symmetric])
  show ?case
  proof (cases "int (length ?s) \<le> c1")
    case True
    have none: "Cursor (l + 1) 0 \<le> r" if "word_end raw cls r" "Cursor l c \<le> r" for r
      using skip [OF that] that(1) True
      by (cases r; cases "cu_line r = l") (auto simp: word_end_def in_buffer_def line_len_def)
    show ?thesis
    proof (cases "int (length raw) \<le> l + 1")
      case last: True
      then have l: "l = int (length raw) - 1" using "1.prems" by simp
      have "end_scan raw cls l c = Cursor l (max 0 (int (length ?s) - 1))"
        using True "1.prems" last by (subst end_scan.simps) (simp add: c1_def Let_def)
      moreover have "\<not> Cursor (l + 1) 0 \<le> r" if "word_end raw cls r" for r
        using that l by (cases r) (auto simp: word_end_def in_buffer_def)
      ultimately show ?thesis using none by (auto simp: l line_len_def not_le [symmetric])
    next
      case False
      have eq: "end_scan raw cls l c = end_scan raw cls (l + 1) 0"
        using True "1.prems" False by (subst end_scan.simps) (simp add: c1_def Let_def)
      have up: "Cursor (l + 1) 0 \<le> q \<Longrightarrow> Cursor l c \<le> q" for q by (cases q) auto
      have "0 \<le> l + 1" "l + 1 < int (length raw)" using "1.prems" False by simp_all
      from "1.IH" [OF "1.prems"(2) refl c1_def True False this order_refl] show ?thesis
        using none up unfolding eq by (metis not_le)
    qed
  next
    case False
    define k where "k = class_of cls (byte_at ?s c1)"
    define d where "d = scan_right (\<lambda>b. class_of cls b = k) ?s c1"
    have run: "c1 \<le> d" "\<And>j. c1 \<le> j \<Longrightarrow> j < d \<Longrightarrow> j < int (length ?s) \<and> class_of cls (byte_at ?s j) = k"
      "d < int (length ?s) \<Longrightarrow> class_of cls (byte_at ?s d) \<noteq> k"
      using scan_right_spec [of c1 "\<lambda>b. class_of cls b = k" ?s] by (auto simp: d_def)
    have k: "k \<noteq> 0" using white(3) False by (simp add: k_def class_blank)
    have d: "c1 < d" using run(1,3) False k_def by (cases "c1 = d") auto
    have eq: "end_scan raw cls l c = Cursor l (d - 1)"
      using False "1.prems" by (subst end_scan.simps) (simp add: c1_def d_def k_def Let_def)
    have last: "d \<le> int (length ?s)" using run(2) [of "d - 1"] d by simp
    have "word_end raw cls (Cursor l (d - 1))"
      using "1.prems" white(1) run(2) [of "d - 1"] run(3) d k last
      by (auto simp: word_end_def in_buffer_def class_at_def line_len_def)
    moreover have "Cursor l (d - 1) \<le> r" if r: "word_end raw cls r" "Cursor l c \<le> r" for r
    proof (rule ccontr)
      assume "\<not> Cursor l (d - 1) \<le> r"
      then have "cu_line r = l" "c1 \<le> cu_col r" "cu_col r < d - 1" using skip [OF r] by (cases r; auto)+
      then show False
        using r(1) run(2) [of "cu_col r"] run(2) [of "cu_col r + 1"] last
        by (auto simp: word_end_def class_at_def line_len_def)
    qed
    ultimately show ?thesis using white(1) d unfolding eq by auto
  qed
qed

lemma word_end_least:
  assumes "valid_cursor raw p"
  shows "(word_end raw cls (word_end_forward_once raw cls p) \<and> p < word_end_forward_once raw cls p
      \<and> (\<forall>r. word_end raw cls r \<and> p < r \<longrightarrow> word_end_forward_once raw cls p \<le> r))
    \<or> (word_end_forward_once raw cls p
        = Cursor (int (length raw) - 1) (max 0 (line_len raw (int (length raw) - 1) - 1))
      \<and> (\<forall>r. word_end raw cls r \<longrightarrow> r \<le> p))"
proof -
  obtain l c where p: "p = Cursor l c" by (cases p)
  have v: "0 \<le> l" "l < int (length raw)" "0 \<le> c" "c \<le> line_len raw l" using assms by (simp_all add: valid_cursor_def p)
  obtain l1 c1 where q: "word_end_forward_once raw cls p = end_scan raw cls l1 c1"
    and lc: "0 \<le> l1" "l1 < int (length raw)" "0 \<le> c1"
    and from_p: "\<And>r. in_buffer raw r \<Longrightarrow> p < r \<longleftrightarrow> Cursor l1 c1 \<le> r"
  proof (cases "c < line_len raw l")
    case True
    have "in_buffer raw r \<Longrightarrow> p < r \<longleftrightarrow> Cursor l (c + 1) \<le> r" for r by (cases r) (auto simp: p)
    then show thesis using that [of l "c + 1"] True v by (simp add: word_end_forward_once_def p)
  next
    case eol: False
    show thesis
    proof (cases "l + 1 < int (length raw)")
      case True
      have "in_buffer raw r \<Longrightarrow> p < r \<longleftrightarrow> Cursor (l + 1) 0 \<le> r" for r
        using eol by (cases r; cases "cu_line r = l") (auto simp: p in_buffer_def)
      then show thesis using that [of "l + 1" 0] True eol v by (simp add: word_end_forward_once_def p)
    next
      case False
      have "in_buffer raw r \<Longrightarrow> p < r \<longleftrightarrow> Cursor l c \<le> r" for r
        using eol by (cases r; cases "cu_line r = l") (auto simp: p in_buffer_def)
      then show thesis using that [of l c] False eol v by (simp add: word_end_forward_once_def p)
    qed
  qed
  have ends: "word_end raw cls r \<Longrightarrow> p < r \<longleftrightarrow> Cursor l1 c1 \<le> r" for r
    using from_p by (simp add: word_end_def)
  from end_scan_spec [OF lc, of cls] show ?thesis
    unfolding q using ends by (meson not_le)
qed

text \<open>
  Where \<open>w\<close> starts from: the cursor, and past the last byte of a line or on an empty one the start of the next line.
\<close>

definition word_origin :: "string list \<Rightarrow> cursor \<Rightarrow> cursor" where
  "word_origin raw p = (if in_buffer raw p then p else Cursor (cu_line p + 1) 0)"

lemma word_forward_origin:
  assumes "valid_cursor raw p"
  shows "(word_start raw cls (word_forward_once raw cls p) \<and> word_origin raw p < word_forward_once raw cls p
      \<and> (\<forall>r. word_start raw cls r \<and> word_origin raw p < r \<longrightarrow> word_forward_once raw cls p \<le> r))
    \<or> (word_forward_once raw cls p = end_of_buffer raw \<and> (\<forall>r. word_start raw cls r \<longrightarrow> r \<le> word_origin raw p))"
proof (cases "in_buffer raw p")
  case True
  then show ?thesis using word_forward_least [OF True] by (simp add: word_origin_def)
next
  case False
  obtain l c where p: "p = Cursor l c" by (cases p)
  have l: "0 \<le> l" "l < int (length raw)" and c: "int (length (stripped_line raw l)) \<le> c"
    using assms False by (auto simp: p valid_cursor_def in_buffer_def line_len_def)
  have o: "word_origin raw p = Cursor (l + 1) 0" using False by (simp add: word_origin_def p)
  consider "l + 1 \<ge> int (length raw)" | "in_buffer raw (Cursor (l + 1) 0)"
    | "l + 1 < int (length raw)" "\<not> in_buffer raw (Cursor (l + 1) 0)" by linarith
  then show ?thesis
  proof cases
    case 1
    then have "word_forward_once raw cls p = end_of_buffer raw"
      using c by (simp add: word_forward_once_def p line_len_def end_of_buffer_def Let_def)
    moreover have "r \<le> Cursor (l + 1) 0" if "word_start raw cls r" for r
      using that 1 by (cases r) (auto simp: word_start_def in_buffer_def)
    ultimately show ?thesis using o by simp
  next
    case 2
    have "word_forward_once raw cls p = word_forward_once raw cls (Cursor (l + 1) 0)"
      using 2 c by (simp add: word_forward_once_def p line_len_def in_buffer_def Let_def)
    then show ?thesis using word_forward_least [OF 2, of cls] o by simp
  next
    case 3
    let ?q = "word_forward_once raw cls p"
    have q: "?q = word_scan raw cls (l + 1) 0"
      using 3 c l by (simp add: word_forward_once_def p line_len_def in_buffer_def Let_def)
    have start: "word_start raw cls r"
      if "in_buffer raw r" "class_at raw cls r \<noteq> 0" "Cursor (l + 1) 0 \<le> r"
        and blank: "\<forall>r'. in_buffer raw r' \<and> Cursor (l + 1) 0 \<le> r' \<and> r' < r \<longrightarrow> class_at raw cls r' = 0" for r
    proof (cases "cu_col r = 0")
      case False
      then have "in_buffer raw (Cursor (cu_line r) (cu_col r - 1))" "Cursor (l + 1) 0 \<le> Cursor (cu_line r) (cu_col r - 1)"
        "Cursor (cu_line r) (cu_col r - 1) < r"
        using that(1,3) by (cases r; auto simp: in_buffer_def)+
      then show ?thesis using that by (simp add: word_start_def)
    qed (use that in \<open>simp add: word_start_def\<close>)
    have eq: "Cursor (l + 1) 0 < r \<longleftrightarrow> Cursor (l + 1) 0 \<le> r" if "in_buffer raw r" for r
      using that 3(2) by (auto simp: less_le)
    have l1: "0 \<le> l + 1" using l by simp
    from word_scan_spec [OF l1 order_refl, of raw cls] show ?thesis
      unfolding q [symmetric] o
    proof
      assume a: "in_buffer raw ?q \<and> class_at raw cls ?q \<noteq> 0 \<and> Cursor (l + 1) 0 \<le> ?q
        \<and> (\<forall>r. in_buffer raw r \<and> Cursor (l + 1) 0 \<le> r \<and> r < ?q \<longrightarrow> class_at raw cls r = 0)"
      have "?q \<le> r" if "word_start raw cls r" "Cursor (l + 1) 0 < r" for r
        using a that by (meson less_imp_le not_le word_start_def)
      then show "(word_start raw cls ?q \<and> Cursor (l + 1) 0 < ?q \<and> (\<forall>r. word_start raw cls r \<and> Cursor (l + 1) 0 < r \<longrightarrow> ?q \<le> r))
        \<or> (?q = end_of_buffer raw \<and> (\<forall>r. word_start raw cls r \<longrightarrow> r \<le> Cursor (l + 1) 0))"
        using a start eq by blast
    next
      assume b: "?q = end_of_buffer raw \<and> (\<forall>r. in_buffer raw r \<and> Cursor (l + 1) 0 \<le> r \<longrightarrow> class_at raw cls r = 0)"
      have "r \<le> Cursor (l + 1) 0" if "word_start raw cls r" for r
        using b that by (meson le_cases word_start_def)
      then show "(word_start raw cls ?q \<and> Cursor (l + 1) 0 < ?q \<and> (\<forall>r. word_start raw cls r \<and> Cursor (l + 1) 0 < r \<longrightarrow> ?q \<le> r))
        \<or> (?q = end_of_buffer raw \<and> (\<forall>r. word_start raw cls r \<longrightarrow> r \<le> Cursor (l + 1) 0))"
        using b by blast
    qed
  qed
qed

section \<open>Properties\<close>



text \<open>
  On a blank line (or past the end of a line, where \<open>$\<close> leaves the cursor) \<open>w\<close> skips the first word of the
  next line; \<open>ge\<close> inside a word goes one byte back instead of to the previous word.
\<close>

lemma word_forward_skips_after_eol:
  "word_forward_once [[], ''ab cd''] is_vim_word (Cursor 0 0) = Cursor 1 3"
  by code_simp

lemma word_end_backward_inside_word:
  "word_end_backward_once [''ab cdef''] is_vim_word (Cursor 0 5) = Cursor 0 4"
  by code_simp

end
