(* ===== verification/Copy_Ranges.thy ===== *)
theory Copy_Ranges
  imports Copy_Motion
begin

text \<open>
  What the copy mode of the log pane does with positions: the ranges of \<open>logpanel_motion.go\<close> and the text
  they stand for, finding a character and the motion keys (\<open>logpanel_motion_ranges.go\<close>), and the text
  objects (\<open>logpanel_textobjects.go\<close>).
\<close>

section \<open>Ranges\<close>

abbreviation nl :: char where "nl \<equiv> CHR 0x0A"

record motion_range =
  mr_start :: cursor
  mr_end :: cursor
  mr_linewise :: bool
  mr_inclusive :: bool

definition char_range :: "cursor \<Rightarrow> cursor \<Rightarrow> motion_range" where
  "char_range a b = \<lparr>mr_start = a, mr_end = b, mr_linewise = False, mr_inclusive = False\<rparr>"

definition inclusive_range :: "cursor \<Rightarrow> cursor \<Rightarrow> motion_range" where
  "inclusive_range a b = \<lparr>mr_start = a, mr_end = b, mr_linewise = False, mr_inclusive = True\<rparr>"

definition linewise_range :: "cursor \<Rightarrow> cursor \<Rightarrow> motion_range" where
  "linewise_range a b = \<lparr>mr_start = a, mr_end = b, mr_linewise = True, mr_inclusive = False\<rparr>"

definition line_range :: "int \<Rightarrow> int \<Rightarrow> int \<Rightarrow> motion_range" where
  "line_range start count tot =
     (let n = (if count < 1 then 1 else count);
          e = wrap64 (start + n - 1);
          e1 = (if e \<ge> tot then tot - 1 else e)
      in linewise_range (Cursor start 0) (Cursor e1 0))"

definition normalise_char_range :: "cursor \<Rightarrow> cursor \<Rightarrow> cursor \<times> cursor" where
  "normalise_char_range a b =
     (if cu_line a < cu_line b \<or> (cu_line a = cu_line b \<and> cu_col a \<le> cu_col b) then (a, b) else (b, a))"

text \<open>Half-open slices \<open>s[a:b]\<close>; the callers clamp the bounds.\<close>

definition byte_slice :: "string \<Rightarrow> int \<Rightarrow> int \<Rightarrow> string" where
  "byte_slice s a b = take (nat b - nat a) (drop (nat a) s)"

definition lines_between :: "string list \<Rightarrow> int \<Rightarrow> int \<Rightarrow> string list" where
  "lines_between raw a b = map (stripped_line raw) [a..b]"

definition slice_char :: "string list \<Rightarrow> int \<Rightarrow> int \<Rightarrow> int \<Rightarrow> int \<Rightarrow> string" where
  "slice_char raw sl sc el ec =
     (if sl = el then
        (let s = stripped_line raw sl;
             a = max 0 sc; b = min ec (int (length s))
         in byte_slice s (min a b) b)
      else
        (let f = stripped_line raw sl; l = stripped_line raw el;
             a = min (max 0 sc) (int (length f)); b = min ec (int (length l))
         in join_with [nl] (byte_slice f a (int (length f)) # lines_between raw (sl + 1) (el - 1) @ [byte_slice l 0 b])))"

definition extract_range :: "string list \<Rightarrow> motion_range \<Rightarrow> string" where
  "extract_range raw r =
     (if mr_linewise r then
        (let a = cu_line (mr_start r); b = cu_line (mr_end r);
             (sl, el) = (if a > b then (b, a) else (a, b));
             sl1 = (if sl < 0 then 0 else sl);
             el1 = (if el \<ge> int (length raw) then int (length raw) - 1 else el)
         in join_with [nl] (lines_between raw sl1 el1))
      else
        (let (p, q) = normalise_char_range (mr_start r) (mr_end r)
         in slice_char raw (cu_line p) (cu_col p) (cu_line q)
              (if mr_inclusive r then cu_col q + 1 else cu_col q)))"

section \<open>Finding a character\<close>

record find_state =
  fs_ch :: char
  fs_forward :: bool
  fs_till :: bool
  fs_active :: bool

definition no_find :: find_state where
  "no_find = \<lparr>fs_ch = CHR 0x00, fs_forward = False, fs_till = False, fs_active = False\<rparr>"

text \<open>The loops remember the last occurrence seen, and stop at the \<open>n\<close>th. The leftward one does not check its
  first index against the length of the line: with the cursor further past the end than one byte it is
  out of range (\<open>None\<close>).\<close>

function find_right :: "char \<Rightarrow> string \<Rightarrow> int \<Rightarrow> int \<Rightarrow> int \<Rightarrow> int \<Rightarrow> int" where
  "find_right ch s n k i found =
     (if k < n \<and> i < int (length s) then
        (if byte_at s i = ch then (if k + 1 = n then i else find_right ch s n (k + 1) (i + 1) i)
         else find_right ch s n k (i + 1) found)
      else found)"
  by pat_completeness auto
termination by (relation "measure (\<lambda>(ch, s, n, k, i, found). nat (int (length s) - i))") auto

function find_left :: "char \<Rightarrow> string \<Rightarrow> int \<Rightarrow> int \<Rightarrow> int \<Rightarrow> int \<Rightarrow> int option" where
  "find_left ch s n k i found =
     (if k < n \<and> i \<ge> 0 then
        (if i \<ge> int (length s) then None
         else if byte_at s i = ch then (if k + 1 = n then Some i else find_left ch s n (k + 1) (i - 1) i)
         else find_left ch s n k (i - 1) found)
      else Some found)"
  by pat_completeness auto
termination by (relation "measure (\<lambda>(ch, s, n, k, i, found). nat (i + 1))") auto

declare find_right.simps [simp del] find_left.simps [simp del]

text \<open>The outer \<open>None\<close> is an index out of range, which panics; the inner one that nothing was found.\<close>

definition range_find :: "string list \<Rightarrow> cursor \<Rightarrow> find_state \<Rightarrow> int \<Rightarrow> motion_range option option" where
  "range_find raw start f n0 =
     (let n = (if n0 < 1 then 1 else n0);
          s = stripped_line raw (cu_line start)
      in map_option (\<lambda>found.
           if found < 0 then None
           else
             (let e = (if fs_till f then (if fs_forward f then found - 1 else found + 1) else found)
              in if e < 0 \<or> e > int (length s) then None
                 else Some \<lparr>mr_start = start, mr_end = Cursor (cu_line start) e, mr_linewise = False,
                            mr_inclusive = fs_forward f\<rparr>))
           (if fs_forward f then Some (find_right (fs_ch f) s n 0 (cu_col start + 1) (- 1))
            else find_left (fs_ch f) s n 0 (cu_col start - 1) (- 1)))"

section \<open>Text objects\<close>

definition tobj_word_like :: "string \<Rightarrow> int \<Rightarrow> (char \<Rightarrow> bool) \<Rightarrow> bool \<Rightarrow> (int \<times> int) option" where
  "tobj_word_like ln col0 cls around =
     (if ln = [] then None
      else
        (let col1 = (if col0 \<ge> int (length ln) then int (length ln) - 1 else col0);
             col = (if col1 < 0 then 0 else col1);
             k = class_of cls (byte_at ln col);
             s = scan_left (\<lambda>b. class_of cls b = k) ln (col - 1) + 1;
             e = scan_right (\<lambda>b. class_of cls b = k) ln (col + 1)
         in if k = 0 then
              Some (s, if around then scan_right (\<lambda>b. class_of cls b \<noteq> 0) ln e else e)
            else if around then
              (let e1 = scan_right is_blank ln e
               in Some (if e1 = e then scan_left is_blank ln (s - 1) + 1 else s, e1))
            else Some (s, e)))"

fun quote_positions :: "char \<Rightarrow> int \<Rightarrow> string \<Rightarrow> int list" where
  "quote_positions q i [] = []"
| "quote_positions q i (b # t) = (if b = q then i # quote_positions q (i + 1) t else quote_positions q (i + 1) t)"

fun quote_pair :: "string \<Rightarrow> int \<Rightarrow> bool \<Rightarrow> int list \<Rightarrow> (int \<times> int) option" where
  "quote_pair ln col around (a # b # ps) =
     (if col \<ge> a \<and> col \<le> b then
        Some (if around then (a, scan_right is_blank ln (b + 1)) else (a + 1, b))
      else quote_pair ln col around ps)"
| "quote_pair ln col around _ = None"

definition tobj_quote :: "string \<Rightarrow> int \<Rightarrow> char \<Rightarrow> bool \<Rightarrow> (int \<times> int) option" where
  "tobj_quote ln col q around =
     (case quote_positions q 0 ln of
        a # b # ps \<Rightarrow>
          (case quote_pair ln col around (a # b # ps) of
             Some r \<Rightarrow> Some r
           | None \<Rightarrow> if col < a then Some (if around then (a, b + 1) else (a + 1, b)) else None)
      | _ \<Rightarrow> None)"

text \<open>The stack has its top first; the pairs come in the order of their closing bytes.\<close>

fun bracket_pairs :: "char \<Rightarrow> char \<Rightarrow> int \<Rightarrow> int list \<Rightarrow> string \<Rightarrow> (int \<times> int) list" where
  "bracket_pairs oc cc i st [] = []"
| "bracket_pairs oc cc i st (b # t) =
     (if b = oc then bracket_pairs oc cc (i + 1) (if oc = cc then st else i # st) t
      else if b = cc then
        (case st of
           [] \<Rightarrow> bracket_pairs oc cc (i + 1) [] t
         | s # st' \<Rightarrow> (s, i) # bracket_pairs oc cc (i + 1) st' t)
      else bracket_pairs oc cc (i + 1) st t)"

definition better_pair :: "int \<Rightarrow> int \<times> int \<Rightarrow> (int \<times> int) option \<Rightarrow> (int \<times> int) option" where
  "better_pair col p best =
     (if col \<ge> fst p \<and> col \<le> snd p then
        (case best of
           None \<Rightarrow> Some p
         | Some b \<Rightarrow> if fst p \<ge> fst b \<and> snd p \<le> snd b then Some p else best)
      else best)"

definition tobj_bracket :: "string \<Rightarrow> int \<Rightarrow> char \<Rightarrow> char \<Rightarrow> bool \<Rightarrow> (int \<times> int) option" where
  "tobj_bracket ln col oc cc around =
     (case fold (better_pair col) (bracket_pairs oc cc 0 [] ln) None of
        None \<Rightarrow> None
      | Some (s, e) \<Rightarrow> Some (if around then (s, e + 1) else (s + 1, e)))"

definition text_object :: "string \<Rightarrow> int \<Rightarrow> char \<Rightarrow> bool \<Rightarrow> (int \<times> int) option" where
  "text_object ln col ch around =
     (if ch = CHR ''w'' then tobj_word_like ln col is_vim_word around
      else if ch = CHR ''W'' then tobj_word_like ln col is_WORD around
      else if ch = CHR 0x22 \<or> ch = CHR 0x27 \<or> ch = CHR 0x60 then tobj_quote ln col ch around
      else if ch = CHR ''('' \<or> ch = CHR '')'' \<or> ch = CHR ''b'' then tobj_bracket ln col (CHR ''('') (CHR '')'') around
      else if ch = CHR ''['' \<or> ch = CHR '']'' then tobj_bracket ln col (CHR ''['') (CHR '']'') around
      else if ch = CHR ''{'' \<or> ch = CHR ''}'' \<or> ch = CHR ''B'' then tobj_bracket ln col (CHR ''{'') (CHR ''}'') around
      else if ch = CHR ''<'' \<or> ch = CHR ''>'' then tobj_bracket ln col (CHR ''<'') (CHR ''>'') around
      else None)"

definition range_text_object :: "string list \<Rightarrow> cursor \<Rightarrow> char \<Rightarrow> bool \<Rightarrow> motion_range option" where
  "range_text_object raw pos ch around =
     (case text_object (stripped_line raw (cu_line pos)) (cu_col pos) ch around of
        None \<Rightarrow> None
      | Some (s, e) \<Rightarrow>
          if s \<ge> e then None else Some (char_range (Cursor (cu_line pos) s) (Cursor (cu_line pos) e)))"

section \<open>Motions by key\<close>

text \<open>Moving one column or line at a time, at most \<open>n\<close> times, up to a limit.\<close>

fun step_down :: "nat \<Rightarrow> int \<Rightarrow> int" where
  "step_down 0 x = x"
| "step_down (Suc i) x = (if x > 0 then step_down i (x - 1) else x)"

fun step_up :: "nat \<Rightarrow> int \<Rightarrow> int \<Rightarrow> int" where
  "step_up 0 lim x = x"
| "step_up (Suc i) lim x = (if x < lim then step_up i lim (x + 1) else x)"

text \<open>The column is cut to the length of the line reached.\<close>

definition on_line :: "string list \<Rightarrow> int \<Rightarrow> int \<Rightarrow> cursor" where
  "on_line raw l c = Cursor l (if c > line_len raw l then line_len raw l else c)"

definition half_page :: "int \<Rightarrow> int" where
  "half_page height = (let h = height div 2 in if h < 1 then 1 else h)"

text \<open>
  \<open>height\<close> and \<open>yoff\<close> are those of the window. The key \<open>g\<close>, which only sets the pending state, is left to
  the dispatcher.
\<close>

definition resolve_motion ::
  "string list \<Rightarrow> int \<Rightarrow> int \<Rightarrow> cursor \<Rightarrow> string \<Rightarrow> int \<Rightarrow> motion_range option" where
  "resolve_motion raw height yoff start key n =
     (let mul = (if n < 1 then 1 else n); l = cu_line start; c = cu_col start; tot = int (length raw)
      in if key = ''h'' \<or> key = ''left'' then Some (char_range start (Cursor l (step_down (nat mul) c)))
         else if key = ''l'' \<or> key = ''right'' then
           Some (char_range start (Cursor l (step_up (nat mul) (line_len raw l) c)))
         else if key = ''j'' \<or> key = ''down'' then
           Some (linewise_range start (on_line raw (step_up (nat mul) (tot - 1) l) c))
         else if key = ''k'' \<or> key = ''up'' then
           Some (linewise_range start (on_line raw (step_down (nat mul) l) c))
         else if key = ''0'' then Some (char_range start (Cursor l 0))
         else if key = ''^'' then Some (char_range start (Cursor l (first_non_blank (stripped_line raw l))))
         else if key = ''$'' then Some (inclusive_range start (Cursor l (line_len raw l)))
         else if key = ''+'' then
           (let t = wrap64 (l + mul); t1 = (if t \<ge> tot then tot - 1 else t)
            in Some (linewise_range start (Cursor t1 (first_non_blank (stripped_line raw t1)))))
         else if key = ''-'' then
           (let t = wrap64 (l - mul); t1 = (if t < 0 then 0 else t)
            in Some (linewise_range start (Cursor t1 (first_non_blank (stripped_line raw t1)))))
         else if key = ''G'' then Some (linewise_range start (Cursor (tot - 1) 0))
         else if key = ''w'' then Some (char_range start (word_forward_n raw is_vim_word mul start))
         else if key = ''W'' then Some (char_range start (word_forward_n raw is_WORD mul start))
         else if key = ''b'' then Some (char_range start (word_backward_n raw is_vim_word mul start))
         else if key = ''B'' then Some (char_range start (word_backward_n raw is_WORD mul start))
         else if key = ''e'' then Some (inclusive_range start (word_end_forward_n raw is_vim_word mul start))
         else if key = ''E'' then Some (inclusive_range start (word_end_forward_n raw is_WORD mul start))
         else if key = ''ctrl+u'' then
           Some (linewise_range start (on_line raw (max 0 (wrap64 (l - wrap64 (half_page height * mul)))) c))
         else if key = ''ctrl+d'' then
           Some (linewise_range start (on_line raw (min (tot - 1) (wrap64 (l + wrap64 (half_page height * mul)))) c))
         else if key = ''ctrl+b'' then
           Some (linewise_range start (on_line raw (max 0 (wrap64 (l - wrap64 (height * mul)))) c))
         else if key = ''ctrl+f'' then
           Some (linewise_range start (on_line raw (min (tot - 1) (wrap64 (l + wrap64 (height * mul)))) c))
         else if key = ''H'' then Some (linewise_range start (on_line raw yoff c))
         else if key = ''M'' then Some (linewise_range start (on_line raw (min (tot - 1) (yoff + height div 2)) c))
         else if key = ''L'' then Some (linewise_range start (on_line raw (min (tot - 1) (yoff + height - 1)) c))
         else None)"

section \<open>Balanced brackets\<close>

text \<open>The nesting depth after a text, from depth \<open>d\<close>; \<open>None\<close> once a bracket closes what is not open.\<close>

fun depth :: "char \<Rightarrow> char \<Rightarrow> nat \<Rightarrow> string \<Rightarrow> nat option" where
  "depth oc cc d [] = Some d"
| "depth oc cc d (b # t) =
     (if b = oc then depth oc cc (d + 1) t
      else if b = cc then (case d of 0 \<Rightarrow> None | Suc d' \<Rightarrow> depth oc cc d' t)
      else depth oc cc d t)"

definition between :: "string \<Rightarrow> nat \<Rightarrow> nat \<Rightarrow> string" where
  "between ln s e = take (e - Suc s) (drop (Suc s) ln)"

definition matched :: "char \<Rightarrow> char \<Rightarrow> string \<Rightarrow> nat \<Rightarrow> nat \<Rightarrow> bool" where
  "matched oc cc ln s e \<longleftrightarrow> s < e \<and> e < length ln \<and> ln ! s = oc \<and> ln ! e = cc
     \<and> depth oc cc 0 (between ln s e) = Some 0"

lemma depth_append:
  "depth oc cc d (u @ v) = (case depth oc cc d u of None \<Rightarrow> None | Some k \<Rightarrow> depth oc cc k v)"
  by (induction oc cc d u rule: depth.induct) (auto split: nat.splits)

lemma depth_shift: "depth oc cc d u = Some k \<Longrightarrow> depth oc cc (d + m) u = Some (k + m)"
proof (induction oc cc d u arbitrary: k rule: depth.induct)
  case (2 oc cc d b t)
  then show ?case by (cases d) (auto split: if_splits)
qed simp

text \<open>What the stack of the scan holds after a prefix: the open brackets, each at its depth.\<close>

definition stack_inv :: "char \<Rightarrow> char \<Rightarrow> string \<Rightarrow> nat list \<Rightarrow> bool" where
  "stack_inv oc cc u st \<longleftrightarrow> (\<forall>s d. s < length u \<and> u ! s = oc \<and> depth oc cc 0 (drop (Suc s) u) = Some d
     \<longleftrightarrow> d < length st \<and> st ! d = s)"

lemma stack_invD: "stack_inv oc cc u st \<Longrightarrow>
    (s < length u \<and> u ! s = oc \<and> depth oc cc 0 (drop (Suc s) u) = Some d) = (d < length st \<and> st ! d = s)"
  by (simp add: stack_inv_def)

lemma stack_inv_open:
  assumes "stack_inv oc cc u st" "oc \<noteq> cc"
  shows "stack_inv oc cc (u @ [oc]) (length u # st)"
  unfolding stack_inv_def
proof (intro allI)
  fix s d
  have old: "depth oc cc 0 (drop (Suc s) (u @ [oc])) = Some d
      \<longleftrightarrow> (\<exists>k. d = Suc k \<and> depth oc cc 0 (drop (Suc s) u) = Some k)" if "s < length u"
    using that by (auto simp: depth_append split: option.splits)
  show "s < length (u @ [oc]) \<and> (u @ [oc]) ! s = oc \<and> depth oc cc 0 (drop (Suc s) (u @ [oc])) = Some d
      \<longleftrightarrow> d < length (length u # st) \<and> (length u # st) ! d = s"
  proof (cases "s < length u")
    case True
    then show ?thesis
      using stack_invD [OF assms(1), of s "d - 1"] old by (cases d) (auto simp: nth_append)
  next
    case False
    have "\<not> (k < length st \<and> st ! k = s)" for k using assms(1) False by (auto simp: stack_inv_def)
    then show ?thesis using False by (cases d) (auto simp: nth_append)
  qed
qed

lemma stack_inv_close:
  assumes "stack_inv oc cc u st" "oc \<noteq> cc"
  shows "stack_inv oc cc (u @ [cc]) (tl st)"
  unfolding stack_inv_def
proof (intro allI)
  fix s d
  have old: "depth oc cc 0 (drop (Suc s) (u @ [cc])) = Some d
      \<longleftrightarrow> depth oc cc 0 (drop (Suc s) u) = Some (Suc d)" if "s < length u"
    using that assms(2) by (auto simp: depth_append split: option.splits nat.splits)
  show "s < length (u @ [cc]) \<and> (u @ [cc]) ! s = oc \<and> depth oc cc 0 (drop (Suc s) (u @ [cc])) = Some d
      \<longleftrightarrow> d < length (tl st) \<and> tl st ! d = s"
  proof (cases "s < length u")
    case True
    then show ?thesis
      using stack_invD [OF assms(1), of s "Suc d"] old by (cases st) (simp_all add: nth_append)
  next
    case False
    have "\<not> (k < length st \<and> st ! k = s)" for k using assms(1) False by (auto simp: stack_inv_def)
    from this [of "Suc d"] show ?thesis using False assms(2) by (cases st) (auto simp: nth_append)
  qed
qed

lemma stack_inv_other:
  assumes "stack_inv oc cc u st" "b \<noteq> oc" "b \<noteq> cc"
  shows "stack_inv oc cc (u @ [b]) st"
  unfolding stack_inv_def
proof (intro allI)
  fix s d
  have "\<not> (k < length st \<and> st ! k = s)" if "\<not> s < length u" for k
    using assms(1) that by (auto simp: stack_inv_def)
  then show "s < length (u @ [b]) \<and> (u @ [b]) ! s = oc \<and> depth oc cc 0 (drop (Suc s) (u @ [b])) = Some d
      \<longleftrightarrow> d < length st \<and> st ! d = s"
    using stack_invD [OF assms(1), of s d] assms(2,3)
    by (cases "s < length u") (auto simp: nth_append depth_append split: option.splits)
qed

lemma between_append: "e = length u \<Longrightarrow> s < e \<Longrightarrow> between (u @ v) s e = drop (Suc s) u"
  by (simp add: between_def)

lemma bracket_pairs_matched:
  assumes "oc \<noteq> cc" "stack_inv oc cc u st"
  shows "set (bracket_pairs oc cc (int (length u)) (map int st) v)
    = {(int s, int e) | s e. matched oc cc (u @ v) s e \<and> length u \<le> e}"
  using assms(2)
proof (induction v arbitrary: u st)
  case Nil
  then show ?case by (auto simp: matched_def)
next
  case (Cons b v)
  have later: "{(int s, int e) | s e. matched oc cc (u @ b # v) s e \<and> length u \<le> e}
      = {(int s, int e) | s e. matched oc cc ((u @ [b]) @ v) s e \<and> length (u @ [b]) \<le> e}
        \<union> {(int s, int (length u)) | s. matched oc cc (u @ b # v) s (length u)}"
    by (auto simp: le_eq_less_or_eq)
  have here: "matched oc cc (u @ b # v) s (length u)
      \<longleftrightarrow> b = cc \<and> s < length u \<and> u ! s = oc \<and> depth oc cc 0 (drop (Suc s) u) = Some 0" for s
    by (auto simp: matched_def nth_append between_append)
  have top: "(s < length u \<and> u ! s = oc \<and> depth oc cc 0 (drop (Suc s) u) = Some 0)
      \<longleftrightarrow> (st \<noteq> [] \<and> hd st = s)" for s
    using Cons.prems by (cases st) (auto simp: stack_inv_def)
  have len: "int (length u) + 1 = int (length (u @ [b]))" by simp
  consider (opn) "b = oc" | (cls) "b = cc" "b \<noteq> oc" | (oth) "b \<noteq> oc" "b \<noteq> cc" by blast
  then show ?case
  proof cases
    case opn
    then have "stack_inv oc cc (u @ [b]) (length u # st)" using stack_inv_open [OF Cons.prems assms(1)] by simp
    from Cons.IH [OF this] show ?thesis
      unfolding later here using opn assms(1) by (simp add: len)
  next
    case cls
    then have "stack_inv oc cc (u @ [b]) (tl st)" using stack_inv_close [OF Cons.prems assms(1)] by simp
    from Cons.IH [OF this] show ?thesis
      unfolding later here top using cls by (cases st) (auto simp: len)
  next
    case oth
    then have "stack_inv oc cc (u @ [b]) st" using stack_inv_other [OF Cons.prems] by simp
    from Cons.IH [OF this] show ?thesis
      unfolding later here using oth by (simp add: len)
  qed
qed

lemma bracket_pairs_sorted:
  "sorted_wrt (\<lambda>p q. snd p < snd q) (bracket_pairs oc cc i st v) \<and> (\<forall>p \<in> set (bracket_pairs oc cc i st v). i \<le> snd p)"
proof (induction v arbitrary: i st)
  case (Cons b v)
  have "sorted_wrt (\<lambda>p q. snd p < snd q) (bracket_pairs oc cc (i + 1) st' v)"
    "p \<in> set (bracket_pairs oc cc (i + 1) st' v) \<Longrightarrow> i < snd p" for st' p
    using Cons.IH [of "i + 1" st'] by fastforce+
  then show ?case by (auto split: list.splits intro: less_imp_le)
qed simp

lemma better_pair_stays:
  "\<forall>p \<in> set ps. snd b < snd p \<Longrightarrow> fold (better_pair col) ps (Some b) = Some b"
  by (induction ps) (auto simp: better_pair_def)

lemma better_pair_first:
  "sorted_wrt (\<lambda>p q. snd p < snd q) ps \<Longrightarrow>
   fold (better_pair col) ps None = find (\<lambda>p. col \<ge> fst p \<and> col \<le> snd p) ps"
proof (induction ps)
  case (Cons p ps)
  have "better_pair col p None = (if fst p \<le> col \<and> col \<le> snd p then Some p else None)"
    by (simp add: better_pair_def)
  then show ?case using Cons better_pair_stays [of ps p col] by simp
qed simp

lemma find_sorted:
  assumes "sorted_wrt (\<lambda>p q. snd p < (snd q :: int)) ps" "find P ps = Some b"
  shows "b \<in> set ps \<and> P b \<and> (\<forall>p \<in> set ps. P p \<longrightarrow> snd b \<le> snd p)"
  using assms by (induction ps) (auto split: if_splits)

lemma between_split:
  assumes "s < m" "m < e" "e \<le> length ln"
  shows "between ln s e = between ln s m @ ln ! m # between ln m e"
proof -
  let ?w = "take (e - Suc s) (drop (Suc s) ln)"
  have m: "m - Suc s < length ?w" using assms by simp
  have w: "?w = take (m - Suc s) ?w @ ?w ! (m - Suc s) # drop (Suc (m - Suc s)) ?w"
    by (rule id_take_nth_drop [OF m])
  have "?w ! (m - Suc s) = ln ! m" "take (m - Suc s) ?w = between ln s m"
    "drop (Suc (m - Suc s)) ?w = between ln m e"
    using assms by (simp_all add: between_def drop_take min_absorb1)
  then have "?w = between ln s m @ ln ! m # between ln m e" using w by (simp only:)
  then show ?thesis by (subst between_def)
qed

lemma matched_nested:
  assumes "oc \<noteq> cc" "matched oc cc ln s e" "matched oc cc ln s' e'" "s' \<le> e" "e < e'"
  shows "s' \<le> s"
proof (rule ccontr)
  assume "\<not> s' \<le> s"
  moreover have "s' \<noteq> e" using assms(1-3) by (auto simp: matched_def)
  ultimately have o1: "s < s'" "s' < e" "e < length ln" "e' < length ln" using assms(2-4) by (auto simp: matched_def)
  have w: "depth oc cc 0 (between ln s s' @ oc # between ln s' e) = Some 0"
    using assms(2,3) between_split [of s s' e ln] o1 by (simp add: matched_def)
  then obtain d where "depth oc cc (Suc d) (between ln s' e) = Some 0"
    by (auto simp: depth_append split: option.splits)
  then have "depth oc cc 0 (between ln s' e) = None"
    using depth_shift [of oc cc 0 "between ln s' e" _ "Suc d"] by (cases "depth oc cc 0 (between ln s' e)") auto
  then have "depth oc cc 0 (between ln s' e') = None"
    using between_split [of s' e e' ln] o1 assms(5) by (simp add: depth_append)
  then show False using assms(3) by (simp add: matched_def)
qed

lemma matched_unique:
  assumes "oc \<noteq> cc" "matched oc cc ln s e" "matched oc cc ln s' e"
  shows "s = s'"
proof -
  have no_cc: "matched oc cc ln a e \<Longrightarrow> matched oc cc ln b e \<Longrightarrow> \<not> a < b" for a b
  proof
    assume m: "matched oc cc ln a e" "matched oc cc ln b e" "a < b"
    then have "between ln a e = between ln a b @ oc # between ln b e"
      using between_split [of a b e ln] by (auto simp: matched_def)
    then obtain d where "depth oc cc (Suc d) (between ln b e) = Some 0"
      using m(1) by (auto simp: matched_def depth_append split: option.splits)
    then show False
      using depth_shift [of oc cc 0 "between ln b e" 0 "Suc d"] m(2) by (simp add: matched_def)
  qed
  then show ?thesis using assms by (meson nat_neq_iff)
qed

section \<open>Motions stay in the buffer\<close>

lemma line_len_ge [simp]: "0 \<le> line_len raw l"
  by (simp add: line_len_def)

lemma valid_in_buffer: "in_buffer raw p \<Longrightarrow> valid_cursor raw p"
  by (simp add: in_buffer_def valid_cursor_def)

lemma valid_origin: "raw \<noteq> [] \<Longrightarrow> valid_cursor raw (Cursor 0 0)"
  by (simp add: valid_cursor_def)

lemma valid_end: "raw \<noteq> [] \<Longrightarrow> valid_cursor raw (end_of_buffer raw)"
  by (cases raw) (simp_all add: valid_cursor_def end_of_buffer_def)

lemma valid_nonempty: "valid_cursor raw p \<Longrightarrow> raw \<noteq> []"
  by (auto simp: valid_cursor_def)

lemma valid_word_scan: "raw \<noteq> [] \<Longrightarrow> 0 \<le> l \<Longrightarrow> 0 \<le> c \<Longrightarrow> valid_cursor raw (word_scan raw cls l c)"
  using word_scan_spec [of l c raw cls] valid_in_buffer valid_end by metis

lemma valid_word_forward: "valid_cursor raw p \<Longrightarrow> valid_cursor raw (word_forward_once raw cls p)"
proof -
  assume v: "valid_cursor raw p"
  have "0 \<le> scan_right P s i" if "0 \<le> i" for P s i using scan_right_spec [of i P s] that by simp
  then show ?thesis
    using v valid_nonempty [OF v] valid_end
    by (auto simp: word_forward_once_def Let_def valid_cursor_def [of raw p] intro!: valid_word_scan split: prod.split)
qed

lemma valid_word_backward: "valid_cursor raw p \<Longrightarrow> valid_cursor raw (word_backward_once raw cls p)"
  using word_backward_greatest [of raw p cls] valid_origin valid_nonempty valid_in_buffer
  by (metis word_start_def)

lemma valid_word_end: "valid_cursor raw p \<Longrightarrow> valid_cursor raw (word_end_forward_once raw cls p)"
proof -
  assume v: "valid_cursor raw p"
  have "valid_cursor raw (Cursor (int (length raw) - 1) (max 0 (line_len raw (int (length raw) - 1) - 1)))"
    using valid_nonempty [OF v] by (cases raw) (auto simp: valid_cursor_def)
  then show ?thesis
    using word_end_least [OF v, of cls] valid_in_buffer by (metis word_end_def)
qed

lemma valid_word_end_backward: "valid_cursor raw p \<Longrightarrow> valid_cursor raw (word_end_backward_once raw cls p)"
proof -
  assume v: "valid_cursor raw p"
  show ?thesis
  proof (cases "step_back raw p")
    case None
    then show ?thesis using valid_origin [OF valid_nonempty [OF v]] by (simp add: word_end_backward_once_def)
  next
    case (Some lc)
    obtain l c where lc: "step_back raw p = Some (l, c)" using Some by (cases lc) simp
    have pre: "0 \<le> l" "l < int (length raw)" "- 1 \<le> c" "c < line_len raw l \<or> line_len raw l = 0"
      using step_back_spec [of p raw l c, OF _ _ _ _ lc] v by (auto simp: valid_cursor_def)
    show ?thesis
      using back_scan_spec [OF pre, of cls] valid_origin [OF valid_nonempty [OF v]] valid_in_buffer
      by (auto simp: word_end_backward_once_def lc split: option.splits)
  qed
qed

lemma valid_funpow: "(\<And>p. valid_cursor raw p \<Longrightarrow> valid_cursor raw (f p)) \<Longrightarrow> valid_cursor raw p
    \<Longrightarrow> valid_cursor raw ((f ^^ n) p)"
  by (induction n) auto

lemmas valid_words = valid_word_forward valid_word_backward valid_word_end valid_word_end_backward

lemma valid_words_n:
  assumes "valid_cursor raw p"
  shows "valid_cursor raw (word_forward_n raw cls n p)" "valid_cursor raw (word_backward_n raw cls n p)"
    "valid_cursor raw (word_end_forward_n raw cls n p)" "valid_cursor raw (word_end_backward_n raw cls n p)"
  unfolding word_forward_n_def word_backward_n_def word_end_forward_n_def word_end_backward_n_def
  using assms by (auto intro!: valid_funpow valid_words)

lemma step_down_bounds: "0 \<le> x \<Longrightarrow> 0 \<le> step_down n x \<and> step_down n x \<le> x"
  by (induction n x rule: step_down.induct) auto

lemma step_up_bounds: "x \<le> lim \<Longrightarrow> x \<le> step_up n lim x \<and> step_up n lim x \<le> lim"
  by (induction n lim x rule: step_up.induct) auto

lemma valid_on_line: "0 \<le> l \<Longrightarrow> l < int (length raw) \<Longrightarrow> 0 \<le> c \<Longrightarrow> valid_cursor raw (on_line raw l c)"
  by (simp add: valid_cursor_def on_line_def)

lemma first_non_blank_bounds: "0 \<le> first_non_blank s \<and> first_non_blank s \<le> int (length s)"
  using scan_right_spec [of 0 is_blank s] scan_right_le [of 0 s is_blank] by (simp add: first_non_blank_def)

text \<open>The sizes at which the 64-bit arithmetic of a motion does not wrap: a count below \<open>2^31\<close>.\<close>

definition small :: "int \<Rightarrow> bool" where
  "small n \<longleftrightarrow> n < 2 ^ 31"

lemma small_mult: "small h \<Longrightarrow> small n \<Longrightarrow> 0 \<le> h \<Longrightarrow> 0 \<le> n \<Longrightarrow> 0 \<le> h * n \<and> h * n < 2 ^ 62"
  using mult_mono [of h "2 ^ 31" n "2 ^ 31"] mult_strict_mono [of h "2 ^ 31" n "2 ^ 31"]
  by (auto simp: small_def)

definition end_ok :: "string list \<Rightarrow> motion_range option \<Rightarrow> bool" where
  "end_ok raw r \<longleftrightarrow> (\<forall>m. r = Some m \<longrightarrow> valid_cursor raw (mr_end m))"

lemma end_ok_if: "end_ok raw x \<Longrightarrow> end_ok raw y \<Longrightarrow> end_ok raw (if b then x else y)"
  by simp

lemma end_ok_None: "end_ok raw None"
  by (simp add: end_ok_def)

lemma end_ok_range: "valid_cursor raw q \<Longrightarrow> end_ok raw (Some (char_range p q))"
  "valid_cursor raw q \<Longrightarrow> end_ok raw (Some (inclusive_range p q))"
  "valid_cursor raw q \<Longrightarrow> end_ok raw (Some (linewise_range p q))"
  by (simp_all add: end_ok_def char_range_def inclusive_range_def linewise_range_def)

lemma motion_end_valid:
  assumes v: "valid_cursor raw p" and y: "0 \<le> yoff" "yoff < int (length raw)"
    and h: "1 \<le> height" "small height" and n: "small n" and raw: "small (int (length raw))"
    and r: "resolve_motion raw height yoff p key n = Some r"
  shows "valid_cursor raw (mr_end r)"
proof -
  define mul where "mul = (if n < 1 then 1 else n)"
  define l where "l = cu_line p"
  define c where "c = cu_col p"
  have p: "p = Cursor l c" "0 \<le> l" "l < int (length raw)" "0 \<le> c" "c \<le> line_len raw l"
    using v by (auto simp: valid_cursor_def l_def c_def)
  have mul: "1 \<le> mul" "small mul" using n by (auto simp: mul_def small_def)
  have half: "0 \<le> half_page height" "small (half_page height)" using h by (auto simp: half_page_def small_def Let_def)
  have prods: "0 \<le> half_page height * mul" "half_page height * mul < 2 ^ 62" "0 \<le> height * mul" "height * mul < 2 ^ 62"
    using small_mult [of "half_page height" mul] small_mult [of height mul] half mul h by auto
  have wraps: "wrap64 (half_page height * mul) = half_page height * mul" "wrap64 (height * mul) = height * mul"
    "wrap64 (l - half_page height * mul) = l - half_page height * mul"
    "wrap64 (l + half_page height * mul) = l + half_page height * mul"
    "wrap64 (l - height * mul) = l - height * mul" "wrap64 (l + height * mul) = l + height * mul"
    "wrap64 (l + mul) = l + mul" "wrap64 (l - mul) = l - mul"
    using prods p mul raw by (auto intro!: wrap64_id simp: small_def)
  have col0: "valid_cursor raw (Cursor k (first_non_blank (stripped_line raw k)))" "valid_cursor raw (Cursor k 0)"
    "valid_cursor raw (Cursor k (line_len raw k))" if "0 \<le> k" "k < int (length raw)" for k
    using that first_non_blank_bounds [of "stripped_line raw k"] by (auto simp: valid_cursor_def line_len_def)
  have lines: "valid_cursor raw (on_line raw k c)" if "0 \<le> k" "k < int (length raw)" for k
    using valid_on_line that p(4) by blast
  have cols: "valid_cursor raw (Cursor l k)" if "0 \<le> k" "k \<le> line_len raw l" for k
    using that p by (simp add: valid_cursor_def)
  have downs: "0 \<le> step_down (nat mul) c" "step_down (nat mul) c \<le> c"
    "0 \<le> step_down (nat mul) l" "step_down (nat mul) l \<le> l"
    using step_down_bounds [OF p(2)] step_down_bounds [OF p(4)] by auto
  have ups: "c \<le> step_up (nat mul) (line_len raw l) c" "step_up (nat mul) (line_len raw l) c \<le> line_len raw l"
    "l \<le> step_up (nat mul) (int (length raw) - 1) l" "step_up (nat mul) (int (length raw) - 1) l \<le> int (length raw) - 1"
    using step_up_bounds [OF p(5)] step_up_bounds [of l "int (length raw) - 1"] p(3) by auto
  have "0 \<le> height div 2" "l - height * mul < int (length raw)" using h p(3) prods(3) by simp_all
  note bounds = this downs ups prods p(2-5) y h(1) mul(1)
  note words = valid_words_n [OF v]
  have "end_ok raw (resolve_motion raw height yoff p key n)"
    unfolding resolve_motion_def Let_def l_def [symmetric] c_def [symmetric] mul_def [symmetric] wraps
    by (intro end_ok_if end_ok_range end_ok_None words col0 lines cols)
      (insert bounds valid_nonempty [OF v], (linarith | simp add: min_def max_def)+)
  then show ?thesis using r by (simp add: end_ok_def)
qed

lemma find_left_in_range: "i < int (length s) \<Longrightarrow> \<exists>r. find_left ch s n k i found = Some r"
proof (induction ch s n k i found rule: find_left.induct)
  case (1 ch s n k i found)
  show ?case
  proof (cases "k < n \<and> i \<ge> 0")
    case True
    then have "\<exists>r. find_left ch s n (k + 1) (i - 1) i = Some r" if "byte_at s i = ch" "k + 1 \<noteq> n"
      using 1(1) 1(3) that by simp
    moreover have "\<exists>r. find_left ch s n k (i - 1) found = Some r" if "byte_at s i \<noteq> ch"
      using 1(2) 1(3) that True by simp
    ultimately show ?thesis
      using True 1(3) unfolding find_left.simps [of ch s n k i found]
      by (cases "byte_at s i = ch"; cases "k + 1 = n") simp_all
  next
    case False
    then show ?thesis unfolding find_left.simps [of ch s n k i found] by auto
  qed
qed

text \<open>A valid cursor finds without leaving its line; and a motion from one ends on a line of the buffer.\<close>

lemma range_find_total:
  assumes "valid_cursor raw p"
  shows "\<exists>r. range_find raw p f n = Some r \<and> (\<forall>m. r = Some m \<longrightarrow> cu_line (mr_end m) = cu_line p)"
proof -
  have "cu_col p - 1 < int (length (stripped_line raw (cu_line p)))"
    using assms by (simp add: valid_cursor_def line_len_def)
  then obtain k where "find_left (fs_ch f) (stripped_line raw (cu_line p)) (if n < 1 then 1 else n) 0 (cu_col p - 1) (- 1) = Some k"
    using find_left_in_range by blast
  then show ?thesis by (simp add: range_find_def Let_def)
qed

lemma text_object_line: "range_text_object raw p ch around = Some m \<Longrightarrow> cu_line (mr_end m) = cu_line p"
  by (auto simp: range_text_object_def char_range_def split: option.splits if_splits)

lemma motion_end_line:
  assumes v: "valid_cursor raw p" and y: "0 \<le> yoff" "key = ''H'' \<Longrightarrow> yoff < int (length raw)"
    and h: "1 \<le> height" "small height" and n: "small n" and raw: "small (int (length raw))"
    and r: "resolve_motion raw height yoff p key n = Some r"
  shows "0 \<le> cu_line (mr_end r) \<and> cu_line (mr_end r) < int (length raw)"
proof -
  have ne: "0 < length raw" using valid_nonempty [OF v] by simp
  consider "key = ''H''" | "key = ''M''" | "key = ''L''" | "key \<noteq> ''H''" "key \<noteq> ''M''" "key \<noteq> ''L''" by blast
  then show ?thesis
  proof cases
    case 1
    then show ?thesis using motion_end_valid [OF v y(1) _ h n raw r] y(2) by (simp add: valid_cursor_def)
  next
    case 2
    have "r = linewise_range p (on_line raw (min (int (length raw) - 1) (yoff + height div 2)) (cu_col p))"
      using r unfolding resolve_motion_def Let_def 2 by simp
    then show ?thesis using y(1) h(1) ne by (simp add: linewise_range_def on_line_def min_def)
  next
    case 3
    have "r = linewise_range p (on_line raw (min (int (length raw) - 1) (yoff + height - 1)) (cu_col p))"
      using r unfolding resolve_motion_def Let_def 3 by simp
    then show ?thesis using y(1) h(1) ne by (simp add: linewise_range_def on_line_def min_def)
  next
    case 4
    then have "resolve_motion raw height 0 p key n = resolve_motion raw height yoff p key n"
      by (simp only: resolve_motion_def Let_def if_False)
    then have "resolve_motion raw height 0 p key n = Some r" using r by (rule trans)
    then show ?thesis using motion_end_valid [OF v _ _ h n raw, of 0] ne by (simp add: valid_cursor_def)
  qed
qed

section \<open>A range as a piece of the text\<close>

definition buffer_text :: "string list \<Rightarrow> string" where
  "buffer_text raw = join_with [nl] (map strip_ansi raw)"

definition text_offset :: "string list \<Rightarrow> cursor \<Rightarrow> nat" where
  "text_offset raw p = length (concat (map (\<lambda>x. strip_ansi x @ [nl]) (take (nat (cu_line p)) raw))) + nat (cu_col p)"

lemma join_with_append:
  "join_with [nl] (A @ x # B) = concat (map (\<lambda>y. y @ [nl]) A) @ join_with [nl] (x # B)"
proof (induction A)
  case (Cons y A)
  then show ?case by (cases A) auto
qed simp

lemma join_with_Cons: "join_with [nl] (x # B) = x @ (if B = [] then [] else nl # join_with [nl] B)"
  by (cases B) auto

lemma text_offset_mono:
  assumes "valid_cursor raw x" "valid_cursor raw y" "x \<le> y"
  shows "text_offset raw x \<le> text_offset raw y"
proof (cases "cu_line x = cu_line y")
  case True
  then show ?thesis using assms(3) by (simp add: text_offset_def less_eq_cursor_def nat_mono)
next
  case False
  define i where "i = nat (cu_line x)"
  define j where "j = nat (cu_line y)"
  let ?f = "\<lambda>x. strip_ansi x @ [nl]"
  have ij: "i < j" "j < length raw" "cu_line x = int i"
    using False assms by (auto simp: i_def j_def valid_cursor_def less_eq_cursor_def)
  then have "take j raw = take i raw @ raw ! i # take (j - Suc i) (drop (Suc i) raw)"
    using id_take_nth_drop [of i "take j raw"] by (simp add: drop_take min_absorb1)
  moreover have "nat (cu_col x) \<le> length (?f (raw ! i))"
    using assms(1) ij by (auto simp: valid_cursor_def line_len_def stripped_line_def)
  ultimately show ?thesis by (simp add: text_offset_def i_def [symmetric] j_def [symmetric])
qed

lemma slice_char_text:
  assumes "valid_cursor raw p" "valid_cursor raw q" "p \<le> q"
  shows "slice_char raw (cu_line p) (cu_col p) (cu_line q) (cu_col q)
    = take (text_offset raw q - text_offset raw p) (drop (text_offset raw p) (buffer_text raw))"
proof -
  define i where "i = nat (cu_line p)"
  define j where "j = nat (cu_line q)"
  define ls where "ls = map strip_ansi raw"
  have ij: "cu_line p = int i" "cu_line q = int j" "i \<le> j" "j < length ls"
    using assms by (auto simp: i_def j_def ls_def valid_cursor_def less_eq_cursor_def)
  obtain c d where cd: "cu_col p = int c" "cu_col q = int d"
    using assms by (auto simp: valid_cursor_def dest!: zero_le_imp_eq_int)
  have st: "stripped_line raw (int k) = ls ! k" if "k < length ls" for k
    using that by (simp add: stripped_line_def ls_def)
  have c: "c \<le> length (ls ! i)" "d \<le> length (ls ! j)"
    using assms(1,2) ij cd st [of i] st [of j] by (auto simp: valid_cursor_def line_len_def)
  have off: "text_offset raw p = length (concat (map (\<lambda>x. x @ [nl]) (take i ls))) + c"
    "text_offset raw q = length (concat (map (\<lambda>x. x @ [nl]) (take j ls))) + d"
    by (simp_all add: text_offset_def ij cd ls_def take_map comp_def)
  show ?thesis
  proof (cases "i = j")
    case True
    have "c \<le> d" using assms(3) True ij cd by (simp add: less_eq_cursor_def)
    have "ls = take i ls @ ls ! i # drop (Suc i) ls" using ij True by (simp add: id_take_nth_drop)
    then have "buffer_text raw = concat (map (\<lambda>x. x @ [nl]) (take i ls)) @ join_with [nl] (ls ! i # drop (Suc i) ls)"
      unfolding buffer_text_def ls_def [symmetric] by (metis join_with_append)
    then show ?thesis
      using \<open>c \<le> d\<close> c True ij cd by (simp add: off slice_char_def st byte_slice_def join_with_Cons min_absorb1 Let_def)
  next
    case False
    then have ij': "i < j" using ij by simp
    define mid where "mid = take (j - Suc i) (drop (Suc i) ls)"
    let ?cat = "\<lambda>xs. concat (map (\<lambda>x. x @ [nl]) xs)"
    have tj: "take j ls = take i ls @ ls ! i # mid"
      using id_take_nth_drop [of i "take j ls"] ij ij' by (simp add: mid_def drop_take min_absorb1)
    have "ls = take j ls @ ls ! j # drop (Suc j) ls" using ij by (simp add: id_take_nth_drop)
    then have "buffer_text raw = ?cat (take j ls) @ join_with [nl] (ls ! j # drop (Suc j) ls)"
      unfolding buffer_text_def ls_def [symmetric] by (metis join_with_append)
    then have btext: "buffer_text raw
        = ?cat (take i ls) @ (ls ! i @ [nl]) @ ?cat mid @ join_with [nl] (ls ! j # drop (Suc j) ls)"
      by (simp add: tj)
    have between: "lines_between raw (int i + 1) (int j - 1) = mid"
    proof (rule nth_equalityI)
      show "length (lines_between raw (int i + 1) (int j - 1)) = length mid"
        using ij ij' by (simp add: lines_between_def mid_def)
      fix k
      assume "k < length (lines_between raw (int i + 1) (int j - 1))"
      then have "k < j - Suc i" using ij' by (simp add: lines_between_def)
      then show "lines_between raw (int i + 1) (int j - 1) ! k = mid ! k"
        using ij st [of "Suc i + k"] by (simp add: lines_between_def mid_def algebra_simps)
    qed
    have "slice_char raw (cu_line p) (cu_col p) (cu_line q) (cu_col q)
        = drop c (ls ! i) @ [nl] @ ?cat mid @ take d (ls ! j)"
      using c ij ij' cd join_with_append [of "drop c (ls ! i) # mid" "take d (ls ! j)" "[]"]
      by (simp add: slice_char_def st between byte_slice_def min_absorb1 Let_def)
    moreover have "drop (text_offset raw p) (buffer_text raw)
        = drop c (ls ! i) @ [nl] @ ?cat mid @ join_with [nl] (ls ! j # drop (Suc j) ls)"
      using c by (simp add: btext off)
    moreover have "text_offset raw q - text_offset raw p = length (drop c (ls ! i) @ [nl] @ ?cat mid) + d"
      using c by (simp add: off tj)
    ultimately show ?thesis using c by (simp add: join_with_Cons)
  qed
qed

section \<open>Properties\<close>

text \<open>
  What a charwise yank copies is a piece of the text on the screen: the range between two positions
  of the buffer, in either order, is the bytes between their offsets in the lines without escape
  sequences joined by newlines.
\<close>
theorem yank_is_substring:
  assumes "valid_cursor raw p" "valid_cursor raw q"
  shows "extract_range raw (char_range p q)
    = (let a = min (text_offset raw p) (text_offset raw q); b = max (text_offset raw p) (text_offset raw q)
       in take (b - a) (drop a (buffer_text raw)))"
proof -
  have n: "normalise_char_range p q = (if p \<le> q then (p, q) else (q, p))"
    by (simp add: normalise_char_range_def less_eq_cursor_def)
  show ?thesis
  proof (cases "p \<le> q")
    case True
    then show ?thesis
      using text_offset_mono [OF assms True] slice_char_text [OF assms True]
      by (simp add: extract_range_def char_range_def n Let_def)
  next
    case False
    then have qp: "q \<le> p" by simp
    show ?thesis
      using False text_offset_mono [OF assms(2,1) qp] slice_char_text [OF assms(2,1) qp]
      by (simp add: extract_range_def char_range_def n Let_def min_def max_def)
  qed
qed

theorem yank_is_substring_witness:
  "extract_range [''ab'', ''cd'', ''ef''] (char_range (Cursor 2 1) (Cursor 0 1)) = ''b'' @ [nl] @ ''cd'' @ [nl] @ ''e''"
proof -
  let ?raw = "[''ab'', ''cd'', ''ef'']"
  have "valid_cursor ?raw (Cursor 2 1)" "valid_cursor ?raw (Cursor 0 1)"
    by (simp_all add: valid_cursor_def line_len_def stripped_line_def strip_ansi_def)
  then show ?thesis
    using yank_is_substring [of ?raw "Cursor 2 1" "Cursor 0 1"]
    by (simp add: text_offset_def buffer_text_def strip_ansi_def Let_def numeral_2_eq_2)
qed

text \<open>
  C37: the bracket objects select by balance: \<open>i(\<close> and \<open>a(\<close> (and the other kinds) find something exactly when
  a matched pair of brackets of the line, the text between them balanced, encloses the cursor, and then
  it is the innermost such pair, with (\<open>around\<close>) or without its brackets; unbalanced brackets elsewhere
  on the line do not matter.
\<close>
theorem bracket_object_innermost:
  assumes "oc \<noteq> cc"
  shows "case tobj_bracket ln col oc cc around of
      None \<Rightarrow> \<not> (\<exists>s e. matched oc cc ln s e \<and> int s \<le> col \<and> col \<le> int e)
    | Some r \<Rightarrow> \<exists>s e. matched oc cc ln s e \<and> int s \<le> col \<and> col \<le> int e
        \<and> r = (if around then (int s, int e + 1) else (int s + 1, int e))
        \<and> \<not> (\<exists>s' e'. matched oc cc ln s' e' \<and> int s' \<le> col \<and> col \<le> int e' \<and> (s < s' \<or> e' < e))"
proof -
  let ?ps = "bracket_pairs oc cc 0 [] ln" and ?P = "\<lambda>p. col \<ge> fst p \<and> col \<le> snd p"
  have sorted: "sorted_wrt (\<lambda>p q. snd p < snd q) ?ps" using bracket_pairs_sorted by blast
  have ps: "set ?ps = {(int s, int e) | s e. matched oc cc ln s e}"
    using bracket_pairs_matched [OF assms, of "[]" "[]" ln] by (simp add: stack_inv_def)
  show ?thesis
  proof (cases "find ?P ?ps")
    case None
    then have "tobj_bracket ln col oc cc around = None"
      by (simp add: tobj_bracket_def better_pair_first [OF sorted])
    moreover have "\<not> (\<exists>s e. matched oc cc ln s e \<and> int s \<le> col \<and> col \<le> int e)"
      using None ps by (fastforce simp: find_None_iff)
    ultimately show ?thesis by simp
  next
    case (Some b)
    note first = find_sorted [OF sorted Some]
    then obtain s e where b: "b = (int s, int e)" "matched oc cc ln s e" using ps by auto
    have r: "tobj_bracket ln col oc cc around = Some (if around then (int s, int e + 1) else (int s + 1, int e))"
      by (simp add: tobj_bracket_def better_pair_first [OF sorted] Some b(1))
    have inner: "s' \<le> s \<and> e \<le> e'" if m: "matched oc cc ln s' e'" "int s' \<le> col" "col \<le> int e'" for s' e'
    proof -
      have "(int s', int e') \<in> set ?ps" using m ps by auto
      then have "e \<le> e'" using first m b(1) by fastforce
      moreover have "s' \<le> s"
      proof (cases "e = e'")
        case True
        then show ?thesis using matched_unique [OF assms b(2)] m(1) by simp
      next
        case False
        then show ?thesis
          using matched_nested [OF assms b(2) m(1)] \<open>e \<le> e'\<close> first m(2) b(1) by auto
      qed
      ultimately show ?thesis by simp
    qed
    show ?thesis unfolding r option.case using b(2) first inner by (auto simp: b(1) not_less)
  qed
qed


theorem bracket_object_innermost_witness:
  "\<exists>s e. matched CHR ''('' CHR '')'' '')f(a(b)'' s e \<and> (5::int, 6::int) = (int s + 1, int e)"
proof -
  have "tobj_bracket '')f(a(b)'' 5 CHR ''('' CHR '')'' False = Some (5, 6)" by code_simp
  then show ?thesis
    using bracket_object_innermost [of "CHR ''(''" "CHR '')''" "'')f(a(b)''" 5 False] by auto
qed

text \<open>
  A count too high for \<open>f\<close> does not fail: the cursor goes to the last occurrence there is.
\<close>

lemma find_count_too_high:
  "range_find [''axbx''] (Cursor 0 0) \<lparr>fs_ch = CHR ''x'', fs_forward = True, fs_till = False, fs_active = True\<rparr> 3
     = Some (Some (inclusive_range (Cursor 0 0) (Cursor 0 3)))"
  by code_simp

end
