(* ===== verification/Log_Render.thy ===== *)
theory Log_Render
  imports Copy_Ranges
begin

text \<open>
  How the log pane draws its lines, \<open>internal/tui/panes\<close>: the scroll window (\<open>logpanel_window.go\<close>), the
  mapping between a line and its text without escape sequences, the overlays for filter matches and
  the cursor (\<open>logpanel.go\<close>), severity colours (\<open>logpanel_severity.go\<close>), hard wrapping
  (\<open>logpanel_wrap.go\<close>) and the scroll bar. Wherever the source finds all escape sequences of a line up
  front and then walks over it, the walk here asks the matcher at each position it reaches, which are
  the positions the search goes through.
\<close>

section \<open>The window\<close>

record window =
  wi_width :: int
  wi_height :: int
  wi_yoff :: int
  wi_rows :: "string list"

definition new_window :: "int \<Rightarrow> int \<Rightarrow> window" where
  "new_window width height = \<lparr>wi_width = width, wi_height = height, wi_yoff = 0, wi_rows = []\<rparr>"

definition wheel_delta :: int where "wheel_delta = 3"

definition max_yoff :: "window \<Rightarrow> int" where
  "max_yoff w = max 0 (int (length (wi_rows w)) - wi_height w)"

definition set_rows :: "string list \<Rightarrow> window \<Rightarrow> window" where
  "set_rows rows w =
     (let w1 = w\<lparr>wi_rows := rows\<rparr>
      in if wi_yoff w1 > max_yoff w1 then w1\<lparr>wi_yoff := max_yoff w1\<rparr> else w1)"

definition at_top :: "window \<Rightarrow> bool" where "at_top w \<longleftrightarrow> wi_yoff w \<le> 0"
definition at_bottom :: "window \<Rightarrow> bool" where "at_bottom w \<longleftrightarrow> wi_yoff w \<ge> max_yoff w"

definition set_yoff :: "int \<Rightarrow> window \<Rightarrow> window" where
  "set_yoff n w =
     (let n1 = (if n < 0 then 0 else n)
      in w\<lparr>wi_yoff := (if n1 > max_yoff w then max_yoff w else n1)\<rparr>)"

definition goto_top :: "window \<Rightarrow> window" where "goto_top w = w\<lparr>wi_yoff := 0\<rparr>"
definition goto_bottom :: "window \<Rightarrow> window" where "goto_bottom w = w\<lparr>wi_yoff := max_yoff w\<rparr>"
definition page_up :: "window \<Rightarrow> window" where "page_up w = set_yoff (wi_yoff w - wi_height w) w"
definition page_down :: "window \<Rightarrow> window" where "page_down w = set_yoff (wi_yoff w + wi_height w) w"
definition scroll_up :: "int \<Rightarrow> window \<Rightarrow> window" where "scroll_up n w = set_yoff (wi_yoff w - n) w"
definition scroll_down :: "int \<Rightarrow> window \<Rightarrow> window" where "scroll_down n w = set_yoff (wi_yoff w + n) w"

datatype wheel = WheelUp | WheelDown | OtherButton

definition window_wheel :: "bool \<Rightarrow> wheel \<Rightarrow> window \<Rightarrow> window" where
  "window_wheel press b w =
     (if \<not> press then w
      else case b of WheelUp \<Rightarrow> scroll_up wheel_delta w | WheelDown \<Rightarrow> scroll_down wheel_delta w | OtherButton \<Rightarrow> w)"

text \<open>The rows \<open>View\<close> draws.\<close>

definition visible_rows :: "window \<Rightarrow> string list" where
  "visible_rows w =
     (let n = int (length (wi_rows w));
          t0 = (if wi_yoff w < 0 then 0 else wi_yoff w); t = (if t0 > n then n else t0);
          b = (if t + wi_height w > n then n else t + wi_height w)
      in take (nat b - nat t) (drop (nat t) (wi_rows w)))"

definition window_ok :: "window \<Rightarrow> bool" where
  "window_ok w \<longleftrightarrow> 1 \<le> wi_height w \<and> 0 \<le> wi_yoff w \<and> wi_yoff w \<le> max_yoff w"

lemma set_yoff_ok: "1 \<le> wi_height w \<Longrightarrow> window_ok (set_yoff n w)"
  by (auto simp: window_ok_def set_yoff_def max_yoff_def Let_def)

lemma set_rows_ok: "1 \<le> wi_height w \<Longrightarrow> 0 \<le> wi_yoff w \<Longrightarrow> window_ok (set_rows rows w)"
  by (auto simp: window_ok_def set_rows_def max_yoff_def Let_def)

lemma window_ops_ok:
  assumes "window_ok w"
  shows "window_ok (goto_top w)" "window_ok (goto_bottom w)" "window_ok (page_up w)" "window_ok (page_down w)"
    "window_ok (scroll_up n w)" "window_ok (scroll_down n w)" "window_ok (window_wheel press b w)"
  using assms set_yoff_ok [of w]
  by (auto simp: goto_top_def goto_bottom_def page_up_def page_down_def scroll_up_def scroll_down_def
      window_wheel_def window_ok_def max_yoff_def split: wheel.split)

section \<open>The scroll bar\<close>

datatype bar_cell = BarBlank | BarRail | BarThumb

definition scrollbar_column :: "int \<Rightarrow> int \<Rightarrow> int \<Rightarrow> bar_cell list" where
  "scrollbar_column inner_h tot offset =
     (if inner_h \<le> 0 then []
      else if tot \<le> inner_h then replicate (nat inner_h) BarBlank
      else
        (let t0 = inner_h * inner_h div tot;
             t1 = (if t0 < 1 then 1 else t0);
             thumb = (if t1 > inner_h then inner_h else t1);
             denom = (if tot - inner_h < 1 then 1 else tot - inner_h);
             s0 = offset * (inner_h - thumb) div denom;
             s1 = (if s0 < 0 then 0 else s0);
             start = (if s1 > inner_h - thumb then inner_h - thumb else s1)
         in map (\<lambda>i. if i \<ge> start \<and> i < start + thumb then BarThumb else BarRail) [0..inner_h - 1]))"

section \<open>Lines and their text\<close>

text \<open>The offsets of the bytes that are not part of an escape sequence.\<close>

function visible_offsets :: "nat \<Rightarrow> bytes \<Rightarrow> nat list" where
  "visible_offsets i [] = []"
| "visible_offsets i (c # t) =
     (if ansi_seq (c # t) = 0 then i # visible_offsets (Suc i) t
      else visible_offsets (i + ansi_seq (c # t)) (drop (ansi_seq (c # t)) (c # t)))"
  by pat_completeness auto
termination by (relation "measure (\<lambda>(i, s). length s)") auto

text \<open>
  \<open>mapStrippedToRendered\<close>, with its fallback for a drift between the two walks; \<open>walk_length\<close> below shows
  that there is none.
\<close>

definition map_stripped :: "bytes \<Rightarrow> nat list" where
  "map_stripped r =
     (let offs = visible_offsets 0 r; n = length (strip_ansi r)
      in if length offs = n then offs @ [length r]
         else map (\<lambda>i. if i < length r then i else length r) [0..<Suc n])"

definition sgr_reverse :: bytes where "sgr_reverse = esc # ''[7m''"
definition sgr_reverse_off :: bytes where "sgr_reverse_off = esc # ''[27m''"
definition hl_cur_on :: bytes where "hl_cur_on = esc # ''[48;5;220m'' @ esc # ''[30m''"
definition hl_cur_off :: bytes where "hl_cur_off = esc # ''[39;49m''"

text \<open>
  A compiled filter is the function that lists the matches of a text, as byte intervals from left to
  right (\<open>FindAllStringIndex\<close>).
\<close>

type_synonym filter_rx = "bytes \<Rightarrow> (nat \<times> nat) list"

fun insert_marks :: "bytes \<Rightarrow> bytes \<Rightarrow> bytes \<Rightarrow> nat list \<Rightarrow> nat \<Rightarrow> (nat \<times> nat) list \<Rightarrow> bytes" where
  "insert_marks on off r offs cur [] = drop cur r"
| "insert_marks on off r offs cur (m # ms) =
     (let s = offs ! fst m; e = offs ! snd m
      in if s < cur then insert_marks on off r offs cur ms
         else take (s - cur) (drop cur r) @ on @ take (e - s) (drop s r) @ off @ insert_marks on off r offs e ms)"

definition highlight_line :: "filter_rx option \<Rightarrow> bool \<Rightarrow> bytes \<Rightarrow> bytes" where
  "highlight_line rx current r =
     (case rx of
        None \<Rightarrow> r
      | Some find_all \<Rightarrow>
          if r = [] then r
          else
            (let ms = find_all (strip_ansi r);
                 (on, off) = (if current then (hl_cur_on, hl_cur_off) else (sgr_reverse, sgr_reverse_off))
             in if ms = [] then r
                else if length (visible_offsets 0 r) \<noteq> length (strip_ansi r) then r
                else insert_marks on off r (visible_offsets 0 r @ [length r]) 0 ms))"

text \<open>The reverse-video cell at the cursor; past the end of the line an appended space.\<close>

definition overlay_cursor :: "bytes \<Rightarrow> int \<Rightarrow> bytes" where
  "overlay_cursor r col =
     (let offs = map_stripped r; n = int (length offs) - 1;
          c0 = (if col > n then n else col); c = (if c0 < 0 then 0 else c0)
      in if c = n then r @ sgr_reverse @ '' '' @ sgr_reverse_off
         else (let s = offs ! nat c; e = offs ! nat (c + 1)
               in take s r @ sgr_reverse @ take (e - s) (drop s r) @ sgr_reverse_off @ drop e r))"

section \<open>Severity\<close>

definition severity_words :: "string list" where
  "severity_words = [''ERROR'', ''ERR'', ''FATAL'', ''WARN'', ''WARNING'', ''INFO'', ''DEBUG'', ''TRACE'']"

definition severity_fg :: "string \<Rightarrow> bytes option" where
  "severity_fg tag = map_of
     [(''ERROR'', esc # ''[38;5;196m''), (''ERR'', esc # ''[38;5;196m''), (''FATAL'', esc # ''[38;5;196m''),
      (''WARN'', esc # ''[38;5;214m''), (''WARNING'', esc # ''[38;5;214m''), (''INFO'', esc # ''[38;5;40m''),
      (''DEBUG'', esc # ''[38;5;240m''), (''TRACE'', esc # ''[38;5;240m'')] tag"

definition severity_close :: bytes where "severity_close = esc # ''[39m''"

text \<open>The words of the expression, tried in order, between word boundaries; \<open>pre\<close> is the byte before.\<close>

definition severity_here :: "char option \<Rightarrow> bytes \<Rightarrow> string option" where
  "severity_here pre s =
     (if (case pre of Some c \<Rightarrow> is_vim_word c | None \<Rightarrow> False) then None
      else find (\<lambda>w. prefix w s \<and> (case drop (length w) s of [] \<Rightarrow> True | c # _ \<Rightarrow> \<not> is_vim_word c)) severity_words)"

fun severity_search :: "char option \<Rightarrow> bytes \<Rightarrow> string option" where
  "severity_search pre [] = None"
| "severity_search pre (c # t) =
     (case severity_here pre (c # t) of Some w \<Rightarrow> Some w | None \<Rightarrow> severity_search (Some c) t)"

definition severity_prefilter :: "string list" where
  "severity_prefilter = [''ERR'', ''FATAL'', ''WARN'', ''INFO'', ''DEBUG'', ''TRACE'']"

definition apply_severity :: "bytes \<Rightarrow> bytes" where
  "apply_severity ln =
     (let s = strip_ansi ln
      in if \<not> list_ex (\<lambda>tok. sublist tok s) severity_prefilter then ln
         else case severity_search None s of
           None \<Rightarrow> ln
         | Some tag \<Rightarrow> (case severity_fg tag of None \<Rightarrow> ln | Some c \<Rightarrow> c @ ln @ severity_close))"

section \<open>Wrapping\<close>

definition is_sgr :: "bytes \<Rightarrow> bool" where
  "is_sgr q \<longleftrightarrow> length q \<ge> 3 \<and> q ! 0 = esc \<and> q ! 1 = CHR ''['' \<and> q ! (length q - 1) = CHR ''m''"

definition is_sgr_reset :: "bytes \<Rightarrow> bool" where
  "is_sgr_reset q \<longleftrightarrow> is_sgr q \<and> (let body = take (length q - 3) (drop 2 q) in body = [] \<or> body = ''0'')"

function visible_columns :: "bytes \<Rightarrow> nat" where
  "visible_columns [] = 0"
| "visible_columns (c # t) =
     (if ansi_seq (c # t) = 0 then Suc (visible_columns t) else visible_columns (drop (ansi_seq (c # t)) (c # t)))"
  by pat_completeness auto
termination by (relation "measure length") auto

definition sgr_reset :: bytes where "sgr_reset = esc # ''[0m''"

text \<open>\<open>flushRow\<close>: what is appended to the rows.\<close>

definition flushed :: "bytes \<Rightarrow> bytes \<Rightarrow> bytes list" where
  "flushed row act = (if row = [] then [] else [if act \<noteq> [] then row @ sgr_reset else row])"

text \<open>The walk: the rows still to come, from the open row, the active colours and the visible bytes in it.\<close>

function wrap_walk :: "nat \<Rightarrow> bytes \<Rightarrow> bytes \<Rightarrow> bytes \<Rightarrow> nat \<Rightarrow> bytes list" where
  "wrap_walk w [] row act vis = flushed row act"
| "wrap_walk w (c # t) row act vis =
     (let k = ansi_seq (c # t); q = take k (c # t)
      in if k \<noteq> 0 then
           wrap_walk w (drop k (c # t)) (row @ q)
             (if is_sgr q then (if is_sgr_reset q then [] else act @ q) else act) vis
         else if Suc vis \<ge> w then flushed (row @ [c]) act @ wrap_walk w t act act 0
         else wrap_walk w t (row @ [c]) act (Suc vis))"
  by pat_completeness auto
termination by (relation "measure (\<lambda>(w, s, row, act, vis). length s)") auto

function chunk :: "nat \<Rightarrow> bytes \<Rightarrow> bytes list" where
  "chunk w s = (if s = [] \<or> w = 0 then [] else take w s # chunk w (drop w s))"
  by pat_completeness auto
termination by (relation "measure (\<lambda>(w, s). length s)") auto

declare chunk.simps [simp del]

definition wrap_line :: "bytes \<Rightarrow> int \<Rightarrow> bytes list" where
  "wrap_line ln width =
     (if width \<le> 0 then [ln]
      else if esc \<notin> set ln then (if int (length ln) \<le> width then [ln] else chunk (nat width) ln)
      else if int (visible_columns ln) \<le> width then [ln]
      else (let rows = wrap_walk (nat width) ln [] [] 0 in if rows = [] then [ln] else rows))"

section \<open>The walks agree\<close>

lemma walk_length: "length (visible_offsets i s) = length (regex_delete ansi_seq s)"
  by (induction i s rule: visible_offsets.induct) auto

lemma visible_columns_text: "visible_columns s = length (strip_ansi s)"
  unfolding strip_ansi_delete by (induction s rule: visible_columns.induct) auto

section \<open>Cutting between sequences\<close>

text \<open>
  \<open>clean_cut u v\<close>: in the text \<open>u @ v\<close> no escape sequence lies across the end of \<open>u\<close>; \<open>shown u v\<close> are the visible
  bytes of \<open>u\<close> there.
\<close>

function clean_cut :: "bytes \<Rightarrow> bytes \<Rightarrow> bool" where
  "clean_cut [] v \<longleftrightarrow> True"
| "clean_cut (c # t) v \<longleftrightarrow>
     (let k = ansi_seq (c # t @ v)
      in if k = 0 then clean_cut t v else k \<le> length (c # t) \<and> clean_cut (drop k (c # t)) v)"
  by pat_completeness auto
termination by (relation "measure (\<lambda>(u, v). length u)") auto

function shown :: "bytes \<Rightarrow> bytes \<Rightarrow> bytes" where
  "shown [] v = []"
| "shown (c # t) v =
     (let k = ansi_seq (c # t @ v) in if k = 0 then c # shown t v else shown (drop k (c # t)) v)"
  by pat_completeness auto
termination by (relation "measure (\<lambda>(u, v). length u)") auto

lemma ansi_seq_le: "ansi_seq s \<le> length s"
proof -
  have t: "length (takeWhile P xs) \<le> length xs" for P and xs :: bytes by (rule length_takeWhile_le)
  have "csi_len s \<le> length s"
  proof (cases "csi_len s = 0")
    case False
    then obtain t f r where s: "s = esc # CHR ''['' # t"
      and d: "dropWhile is_intermediate (dropWhile is_param t) = f # r"
      and k: "csi_len s = 2 + length (takeWhile is_param t) + length (takeWhile is_intermediate (dropWhile is_param t)) + 1"
      by (auto simp: csi_len_def Let_def split: list.splits if_splits)
    have "length t = length (takeWhile is_param t) + length (dropWhile is_param t)"
      by (metis length_append takeWhile_dropWhile_id)
    moreover have "length (dropWhile is_param t)
        = length (takeWhile is_intermediate (dropWhile is_param t)) + length (f # r)"
      by (metis d length_append takeWhile_dropWhile_id)
    ultimately show ?thesis using k s by simp
  qed simp
  moreover have "osc_len s \<le> length s" using t by (auto simp: osc_len_def Let_def split: list.splits)
  moreover have "esc2_len s \<le> length s" by (auto simp: esc2_len_def split: list.splits)
  ultimately show ?thesis by (simp add: ansi_seq_def)
qed

lemma drop_prefix: "k \<le> length u \<Longrightarrow> drop k (u @ v) = drop k u @ v"
  by simp

lemma strip_cut: "clean_cut u v \<Longrightarrow> strip_ansi (u @ v) = shown u v @ strip_ansi v"
  unfolding strip_ansi_delete
proof (induction u v rule: clean_cut.induct)
  case (2 c t v)
  let ?k = "ansi_seq (c # t @ v)"
  show ?case
  proof (cases "?k = 0")
    case True
    then show ?thesis using 2 by (simp add: Let_def)
  next
    case False
    then have k: "?k \<le> length (c # t)" "clean_cut (drop ?k (c # t)) v" using "2.prems" by (auto simp: Let_def)
    have "regex_delete ansi_seq ((c # t) @ v) = regex_delete ansi_seq (drop ?k ((c # t) @ v))" using False by simp
    also have "\<dots> = regex_delete ansi_seq (drop ?k (c # t) @ v)" unfolding drop_prefix [OF k(1)] ..
    also have "\<dots> = shown (drop ?k (c # t)) v @ regex_delete ansi_seq v" using 2 False k by blast
    also have "\<dots> = shown (c # t) v @ regex_delete ansi_seq v" using False by (simp add: Let_def)
    finally show ?thesis .
  qed
qed simp

text \<open>
  What may follow instead of \<open>v\<close>: nothing, or something that starts with an escape sequence and brings no
  new end of an operating system command.
\<close>

definition follows :: "bytes \<Rightarrow> bytes \<Rightarrow> bool" where
  "follows v w \<longleftrightarrow> (w = [] \<or> hd w = esc) \<and> (bel \<in> set w \<longrightarrow> bel \<in> set v)"

lemma csi_len_prefix:
  assumes "csi_len (u @ v) \<noteq> 0" "csi_len (u @ v) \<le> length u"
  shows "csi_len (u @ w) = csi_len (u @ v)"
proof -
  obtain t f rest where s: "u @ v = esc # CHR ''['' # t"
    and d: "dropWhile is_intermediate (dropWhile is_param t) = f # rest" and f: "is_final f"
    using assms(1) by (auto simp: csi_len_def Let_def split: list.splits if_splits)
  define p where "p = takeWhile is_param t"
  define q where "q = takeWhile is_intermediate (dropWhile is_param t)"
  define e where "e = encode (Csi p q f)"
  have t: "t = p @ q @ f # rest" unfolding p_def q_def by (metis d takeWhile_dropWhile_id)
  have ok: "list_all is_param p" "list_all is_intermediate q"
    by (auto simp: p_def q_def list_all_iff dest: set_takeWhileD)
  have e: "csi_len (e @ x) = length e" for x unfolding e_def by (rule csi_len_encode [OF ok f])
  have uv: "u @ v = e @ rest" by (simp add: s t e_def)
  then have "length e \<le> length u" using assms(2) e by simp
  then have "u = e @ drop (length e) u"
    by (metis uv append_take_drop_id append_eq_conv_conj take_append diff_is_0_eq take_0 append_Nil2)
  then show ?thesis using e uv by (metis append.assoc)
qed

lemma csi_len_no_esc: "0 < i \<Longrightarrow> i < csi_len s \<Longrightarrow> s ! i \<noteq> esc"
proof -
  assume i: "0 < i" "i < csi_len s"
  then obtain t f rest where s: "s = esc # CHR ''['' # t"
    and d: "dropWhile is_intermediate (dropWhile is_param t) = f # rest" and f: "is_final f"
    by (auto simp: csi_len_def Let_def split: list.splits if_splits)
  define p where "p = takeWhile is_param t"
  define q where "q = takeWhile is_intermediate (dropWhile is_param t)"
  have t: "t = p @ q @ f # rest" unfolding p_def q_def by (metis d takeWhile_dropWhile_id)
  have ok: "list_all is_param p" "list_all is_intermediate q"
    by (auto simp: p_def q_def list_all_iff dest: set_takeWhileD)
  have "csi_len s = length (encode (Csi p q f))" using csi_len_encode [OF ok f, of rest] by (simp add: s t)
  then have "s ! i = (CHR ''['' # p @ q @ [f]) ! (i - 1)" "i - 1 < length (CHR ''['' # p @ q @ [f])"
    using i by (cases i; simp add: s t nth_append nth_Cons')+
  then have "s ! i \<in> set (CHR ''['' # p @ q @ [f])" using nth_mem by metis
  moreover have "f \<noteq> esc" using f class_not_esc by blast
  ultimately show "s ! i \<noteq> esc" using ok class_not_esc(1,2) by (auto simp: list_all_iff)
qed

lemma csi_len_follows:
  assumes "follows v w" "u \<noteq> []" "csi_len (u @ v) = 0"
  shows "csi_len (u @ w) = 0"
proof (rule ccontr)
  assume n: "csi_len (u @ w) \<noteq> 0"
  show False
  proof (cases "csi_len (u @ w) \<le> length u")
    case True
    then show False using csi_len_prefix [of u w v] n assms(3) by simp
  next
    case False
    moreover have "csi_len (u @ w) \<le> length (u @ w)" using ansi_seq_le [of "u @ w"] n by (simp add: ansi_seq_def)
    ultimately have "w \<noteq> []" by auto
    then have "(u @ w) ! length u = esc" using assms(1) by (auto simp: follows_def nth_append hd_conv_nth)
    then show False using csi_len_no_esc [of "length u" "u @ w"] False assms(2) by simp
  qed
qed

lemma osc_len_iff:
  "osc_len (esc # CHR '']'' # t) = (if bel \<in> set t then 3 + length (takeWhile (\<lambda>c. c \<noteq> bel) t) else 0)"
proof -
  have "length (takeWhile (\<lambda>c. c \<noteq> bel) t) < length t \<longleftrightarrow> bel \<in> set t"
    by (induction t) auto
  then show ?thesis by (simp add: osc_len_def Let_def)
qed

lemma osc_len_other: "(\<nexists>t. s = esc # CHR '']'' # t) \<Longrightarrow> osc_len s = 0"
  by (auto simp: osc_len_def split: list.splits)

lemma osc_len_follows:
  assumes "follows v w" "u \<noteq> []" "osc_len (u @ v) \<le> length u"
  shows "osc_len (u @ w) = osc_len (u @ v)"
proof (cases "\<exists>t. u = esc # CHR '']'' # t")
  case True
  then obtain t where u: "u = esc # CHR '']'' # t" by blast
  show ?thesis
  proof (cases "bel \<in> set t")
    case True
    then show ?thesis by (simp add: u osc_len_iff takeWhile_append1)
  next
    case False
    then have "takeWhile (\<lambda>c. c \<noteq> bel) (t @ v) = t @ takeWhile (\<lambda>c. c \<noteq> bel) v"
      by (intro takeWhile_append2) auto
    then have "bel \<notin> set v" using assms(3) False by (auto simp: u osc_len_iff split: if_splits)
    then show ?thesis using False assms(1) by (auto simp: u osc_len_iff follows_def)
  qed
next
  case False
  have "\<nexists>t. u @ w = esc # CHR '']'' # t"
  proof
    assume "\<exists>t. u @ w = esc # CHR '']'' # t"
    then obtain t where "u @ w = esc # CHR '']'' # t" by blast
    then have "u = [esc]" "w = CHR '']'' # t"
      using False assms(2) by (cases u; cases "tl u"; auto)+
    then show False using assms(1) by (simp add: follows_def)
  qed
  moreover have "osc_len (u @ v) = 0"
  proof (cases "\<exists>t. u @ v = esc # CHR '']'' # t")
    case True
    then obtain t where "u @ v = esc # CHR '']'' # t" by blast
    moreover from this have "u = [esc]" using False assms(2) by (cases u; cases "tl u"; auto)
    ultimately show ?thesis using assms(3) by (auto simp: osc_len_iff split: if_splits)
  qed (rule osc_len_other)
  ultimately show ?thesis by (simp add: osc_len_other)
qed

lemma esc2_len_follows:
  assumes "follows v w" "u \<noteq> []" "esc2_len (u @ v) \<le> length u"
  shows "esc2_len (u @ w) = esc2_len (u @ v)"
proof (cases "tl u")
  case Nil
  then obtain c where u: "u = [c]" using assms(2) by (cases u) auto
  have "esc2_len (u @ v) = 0" using assms(3) by (auto simp: u esc2_len_def split: list.splits if_splits)
  moreover have "esc2_len (u @ w) = 0"
    using assms(1) by (cases w) (auto simp: u esc2_len_def follows_def in_range_def)
  ultimately show ?thesis by simp
next
  case (Cons d t)
  then obtain c where "u = c # d # t" by (cases u) auto
  then show ?thesis by (simp add: esc2_len_def)
qed

lemma ansi_seq_follows:
  assumes "follows v w" "u \<noteq> []" "ansi_seq (u @ v) \<le> length u"
  shows "ansi_seq (u @ w) = ansi_seq (u @ v)"
proof (cases "csi_len (u @ v) = 0")
  case True
  then have c: "csi_len (u @ w) = 0" by (rule csi_len_follows [OF assms(1,2)])
  show ?thesis
  proof (cases "osc_len (u @ v) = 0")
    case o: True
    then have "osc_len (u @ w) = 0" using osc_len_follows [OF assms(1,2)] by simp
    then show ?thesis
      using True c o assms(3) esc2_len_follows [OF assms(1,2)] by (simp add: ansi_seq_def)
  next
    case False
    then show ?thesis
      using True c assms(3) osc_len_follows [OF assms(1,2)] by (simp add: ansi_seq_def)
  qed
next
  case False
  then show ?thesis using csi_len_prefix [of u v w] assms(3) by (simp add: ansi_seq_def)
qed

lemma cut_follows:
  assumes "clean_cut u v" "follows v w"
  shows "clean_cut u w \<and> shown u w = shown u v"
  using assms
proof (induction u v rule: clean_cut.induct)
  case (2 c t v)
  let ?k = "ansi_seq (c # t @ v)"
  have "?k \<le> length (c # t)" using "2.prems"(1) by (auto simp: Let_def split: if_splits)
  then have k: "ansi_seq (c # t @ w) = ?k" using ansi_seq_follows [OF "2.prems"(2), of "c # t"] by simp
  show ?case
  proof (cases "?k = 0")
    case True
    then show ?thesis using 2 k by (simp add: Let_def)
  next
    case False
    then show ?thesis using 2 k by (simp add: Let_def)
  qed
qed simp

lemma cut_append: "clean_cut x (y @ z) \<Longrightarrow> clean_cut (x @ y) z = clean_cut y z \<and> shown (x @ y) z = shown x (y @ z) @ shown y z"
proof (induction x "y @ z" rule: clean_cut.induct)
  case (2 c t)
  let ?k = "ansi_seq (c # t @ y @ z)"
  show ?case
  proof (cases "?k = 0")
    case True
    then show ?thesis using 2 by (simp add: Let_def)
  next
    case False
    then have k: "?k \<le> length (c # t)" "clean_cut (drop ?k (c # t)) (y @ z)" using "2.prems" by (auto simp: Let_def)
    have "drop ?k (c # t @ y) = drop ?k (c # t) @ y" using drop_prefix [OF k(1), of y] by simp
    then show ?thesis using "2.hyps"(2) [OF refl False k(2)] False k by (simp add: Let_def)
  qed
qed simp

lemma cut_whole: "clean_cut s []"
proof (induction s "[] :: bytes" rule: clean_cut.induct)
  case (2 c t)
  then show ?case using ansi_seq_le [of "c # t"] by (auto simp: Let_def)
qed simp

lemma shown_whole: "shown s [] = strip_ansi s"
  using strip_cut [OF cut_whole, of s] by (simp add: strip_ansi_def)

text \<open>A colour sequence in front changes nothing of the text behind it.\<close>

definition quiet :: "bytes \<Rightarrow> bool" where
  "quiet q \<longleftrightarrow> (\<forall>y. clean_cut q y \<and> shown q y = []) \<and> bel \<notin> set q"

lemma quiet_csi:
  assumes "list_all is_param p" "list_all is_intermediate q" "is_final f"
  shows "quiet (encode (Csi p q f))"
proof -
  have "ansi_seq (encode (Csi p q f) @ y) = length (encode (Csi p q f))" for y
    using ansi_seq_encode [of "Csi p q f" y] assms by simp
  then have "clean_cut (encode (Csi p q f)) y \<and> shown (encode (Csi p q f)) y = []" for y
    by (simp add: Let_def)
  moreover have "c \<noteq> bel" if "is_param c \<or> is_intermediate c \<or> is_final c" for c
    using that by (auto simp: is_param_def is_intermediate_def is_final_def in_range_def)
  ultimately show ?thesis using assms unfolding quiet_def by (auto simp: list_all_iff)
qed

lemma quiet_append: "quiet a \<Longrightarrow> quiet b \<Longrightarrow> quiet (a @ b)"
  using cut_append by (auto simp: quiet_def)

lemma quiet_Nil [simp]: "quiet []"
  by (simp add: quiet_def)

lemma strip_quiet: "quiet q \<Longrightarrow> strip_ansi (q @ y) = strip_ansi y"
  using strip_cut [of q y] by (auto simp: quiet_def)

lemma quiet_sgrs [simp]:
  "quiet sgr_reverse" "quiet sgr_reverse_off" "quiet sgr_reset" "quiet severity_close" "quiet hl_cur_on" "quiet hl_cur_off"
proof -
  have c: "quiet (esc # CHR ''['' # ds @ ''m'')" if "list_all is_param ds" for ds
    using quiet_csi [of ds "[]" "CHR ''m''"] that by (simp add: is_final_def in_range_def)
  show "quiet sgr_reverse" using c [of "''7''"] by (simp add: sgr_reverse_def is_param_def in_range_def)
  show "quiet sgr_reverse_off" using c [of "''27''"] by (simp add: sgr_reverse_off_def is_param_def in_range_def)
  show "quiet sgr_reset" using c [of "''0''"] by (simp add: sgr_reset_def is_param_def in_range_def)
  show "quiet severity_close" using c [of "''39''"] by (simp add: severity_close_def is_param_def in_range_def)
  show "quiet hl_cur_off" using c [of "''39;49''"] by (simp add: hl_cur_off_def is_param_def in_range_def)
  show "quiet hl_cur_on"
    using quiet_append [OF c [of "''48;5;220''"] c [of "''30''"]] by (simp add: hl_cur_on_def is_param_def in_range_def)
qed

lemma severity_fg_quiet: "severity_fg tag = Some q \<Longrightarrow> quiet q"
proof -
  assume "severity_fg tag = Some q"
  then have "\<exists>ds. q = esc # CHR ''['' # ds @ ''m'' \<and> list_all is_param ds"
    by (auto simp: severity_fg_def is_param_def in_range_def split: if_splits)
  then show "quiet q" using quiet_csi [of _ "[]" "CHR ''m''"] by (auto simp: is_final_def in_range_def)
qed

text \<open>An overlay: a quiet sequence put in at a clean cut.\<close>

lemma quiet_hd: "quiet q \<Longrightarrow> q \<noteq> [] \<Longrightarrow> hd q = esc"
proof (rule ccontr)
  assume q: "quiet q" "q \<noteq> []" "hd q \<noteq> esc"
  then obtain c t where "q = c # t" "c \<noteq> esc" by (cases q) auto
  moreover have "ansi_seq (c # t) = 0" if "c \<noteq> esc" for c t using esc_only_ansi that by (simp add: esc_only_def)
  ultimately show False using q(1) by (auto simp: quiet_def Let_def)
qed

lemma strip_insert:
  assumes "clean_cut u v" "quiet q" "bel \<in> set y \<longrightarrow> bel \<in> set v" "q \<noteq> []"
  shows "strip_ansi (u @ q @ y) = shown u v @ strip_ansi y"
proof -
  have "follows v (q @ y)" using assms(2-4) quiet_hd [OF assms(2,4)] by (auto simp: follows_def quiet_def)
  from cut_follows [OF assms(1) this] show ?thesis
    using strip_cut [of u "q @ y"] strip_quiet [OF assms(2), of y] by simp
qed

section \<open>Overlays keep the text\<close>

text \<open>Every offset of the mapping is a clean cut, with as many visible bytes before it.\<close>

lemma offsets_cut:
  assumes "i < length (visible_offsets k s)"
  shows "k \<le> visible_offsets k s ! i \<and> visible_offsets k s ! i - k \<le> length s
    \<and> clean_cut (take (visible_offsets k s ! i - k) s) (drop (visible_offsets k s ! i - k) s)
    \<and> length (shown (take (visible_offsets k s ! i - k) s) (drop (visible_offsets k s ! i - k) s)) = i"
  using assms
proof (induction k s arbitrary: i rule: visible_offsets.induct)
  case (2 k c t)
  let ?n = "ansi_seq (c # t)"
  have n: "?n \<le> length (c # t)" by (rule ansi_seq_le)
  show ?case
  proof (cases "?n = 0")
    case True
    show ?thesis
    proof (cases i)
      case 0
      then show ?thesis using True by simp
    next
      case (Suc j)
      then have j: "j < length (visible_offsets (Suc k) t)" using "2.prems" True by simp
      have o: "visible_offsets k (c # t) ! i = visible_offsets (Suc k) t ! j" using True Suc by simp
      have "Suc k \<le> visible_offsets (Suc k) t ! j" using "2.IH"(1) [OF True j] by simp
      then obtain m where m: "visible_offsets (Suc k) t ! j = Suc k + m" using le_Suc_ex by blast
      show ?thesis using "2.IH"(1) [OF True j] True unfolding o m by (simp add: Let_def Suc Suc_diff_le)
    qed
  next
    case False
    then have i: "i < length (visible_offsets (k + ?n) (drop ?n (c # t)))" using "2.prems" by simp
    have o: "visible_offsets k (c # t) ! i = visible_offsets (k + ?n) (drop ?n (c # t)) ! i" using False by simp
    have "k + ?n \<le> visible_offsets (k + ?n) (drop ?n (c # t)) ! i" using "2.IH"(2) [OF False i] by simp
    then obtain m where m: "visible_offsets (k + ?n) (drop ?n (c # t)) ! i = k + ?n + m" using le_Suc_ex by blast
    have ih: "m \<le> length (drop ?n (c # t))" "clean_cut (take m (drop ?n (c # t))) (drop m (drop ?n (c # t)))"
      "length (shown (take m (drop ?n (c # t))) (drop m (drop ?n (c # t)))) = i"
      using "2.IH"(2) [OF False i] unfolding m by auto
    have tk: "take (?n + m) (c # t) = c # take (?n + m - 1) t" using False by (cases "?n + m") auto
    have all: "c # take (?n + m - 1) t @ drop (?n + m) (c # t) = c # t"
      using False by (cases "?n + m") auto
    have d: "drop ?n (c # take (?n + m - 1) t) = take m (drop ?n (c # t))"
      using tk by (metis add.commute take_drop add_diff_cancel_left')
    have len: "?n \<le> length (c # take (?n + m - 1) t)" using n False by (simp add: min_def)
    show ?thesis
      unfolding o m using ih n False tk all d len
      by (simp add: Let_def drop_drop add.commute)
  qed
qed simp

definition cut_at :: "bytes \<Rightarrow> nat \<Rightarrow> bool" where
  "cut_at r a \<longleftrightarrow> a \<le> length r \<and> clean_cut (take a r) (drop a r)"

lemma cut_at_offsets:
  assumes "i \<le> length (strip_ansi r)"
  shows "cut_at r ((visible_offsets 0 r @ [length r]) ! i)
    \<and> length (shown (take ((visible_offsets 0 r @ [length r]) ! i) r) (drop ((visible_offsets 0 r @ [length r]) ! i) r)) = i"
proof -
  have n: "length (visible_offsets 0 r) = length (strip_ansi r)" by (simp add: walk_length strip_ansi_delete)
  show ?thesis
  proof (cases "i < length (visible_offsets 0 r)")
    case True
    then show ?thesis using offsets_cut [OF True] by (simp add: cut_at_def nth_append)
  next
    case False
    then show ?thesis using assms n cut_whole [of r] shown_whole [of r] by (simp add: cut_at_def nth_append)
  qed
qed

text \<open>Between two cuts.\<close>

lemma cut_between:
  assumes "cut_at r a" "cut_at r b" "a \<le> b"
  shows "clean_cut (take (b - a) (drop a r)) (drop b r)"
    "shown (take b r) (drop b r) = shown (take a r) (drop a r) @ shown (take (b - a) (drop a r)) (drop b r)"
proof -
  have tb: "take b r = take a r @ take (b - a) (drop a r)" using assms(3) by (metis le_add_diff_inverse take_add)
  have da: "drop a r = take (b - a) (drop a r) @ drop b r"
    using assms(3) by (metis append_take_drop_id drop_drop le_add_diff_inverse2)
  have "clean_cut (take a r) (take (b - a) (drop a r) @ drop b r)"
    using assms(1) da by (simp add: cut_at_def)
  from cut_append [OF this] show "clean_cut (take (b - a) (drop a r)) (drop b r)"
    "shown (take b r) (drop b r) = shown (take a r) (drop a r) @ shown (take (b - a) (drop a r)) (drop b r)"
    using assms(2) da by (simp_all add: cut_at_def tb [symmetric])
qed

lemma offset_order:
  assumes "cut_at r a" "cut_at r b"
    and "length (shown (take a r) (drop a r)) < length (shown (take b r) (drop b r))"
  shows "a \<le> b"
proof (rule ccontr)
  assume "\<not> a \<le> b"
  then have "shown (take a r) (drop a r) = shown (take b r) (drop b r) @ shown (take (a - b) (drop b r)) (drop a r)"
    using cut_between(2) [OF assms(2,1)] by simp
  then show False using assms(3) by simp
qed

definition good_matches :: "nat \<Rightarrow> (nat \<times> nat) list \<Rightarrow> bool" where
  "good_matches n ms \<longleftrightarrow> list_all (\<lambda>m. fst m \<le> snd m \<and> snd m \<le> n) ms"

lemma insert_marks_step:
  fixes r :: bytes
  defines "offs \<equiv> visible_offsets 0 r @ [length r]"
  assumes "fst m \<le> snd m" "snd m \<le> length (strip_ansi r)"
  shows "cut_at r (offs ! fst m)" "cut_at r (offs ! snd m)" "offs ! fst m \<le> offs ! snd m"
proof -
  show c: "cut_at r (offs ! fst m)" "cut_at r (offs ! snd m)"
    using cut_at_offsets [of "fst m" r] cut_at_offsets [of "snd m" r] assms by auto
  show "offs ! fst m \<le> offs ! snd m"
    using offset_order [OF c] cut_at_offsets [of "fst m" r] cut_at_offsets [of "snd m" r] assms
    by (cases "fst m = snd m") auto
qed

lemma set_insert_marks:
  fixes r :: bytes
  defines "offs \<equiv> visible_offsets 0 r @ [length r]"
  assumes "good_matches (length (strip_ansi r)) ms"
  shows "set (insert_marks on off r offs cur ms) \<subseteq> set (drop cur r) \<union> set on \<union> set off"
  using assms(2)
proof (induction ms arbitrary: cur)
  case (Cons m ms)
  have m: "offs ! fst m \<le> offs ! snd m"
    using insert_marks_step(3) [of m r] Cons.prems by (simp add: good_matches_def offs_def)
  have ms: "good_matches (length (strip_ansi r)) ms" using Cons.prems by (simp add: good_matches_def)
  show ?case
  proof (cases "offs ! fst m < cur")
    case True
    then show ?thesis using Cons.IH [OF ms, of cur] by simp
  next
    case False
    then have d: "set (drop (offs ! fst m) r) \<subseteq> set (drop cur r)" "set (drop (offs ! snd m) r) \<subseteq> set (drop cur r)"
      using m by (simp_all add: set_drop_subset_set_drop)
    have t: "set (take (offs ! fst m - cur) (drop cur r)) \<subseteq> set (drop cur r)"
      "set (take (offs ! snd m - offs ! fst m) (drop (offs ! fst m) r)) \<subseteq> set (drop (offs ! fst m) r)"
      by (rule set_take_subset)+
    show ?thesis using Cons.IH [OF ms, of "offs ! snd m"] False d t by (simp add: Let_def) blast
  qed
qed auto

lemma strip_insert_marks:
  fixes r :: bytes
  defines "offs \<equiv> visible_offsets 0 r @ [length r]"
  assumes on: "quiet on" "on \<noteq> []" "quiet off" "off \<noteq> []"
    and "good_matches (length (strip_ansi r)) ms" "cut_at r cur"
  shows "strip_ansi (insert_marks on off r offs cur ms) = strip_ansi (drop cur r)"
  using assms(6,7)
proof (induction ms arbitrary: cur)
  case (Cons m ms)
  define a where "a = offs ! fst m"
  define b where "b = offs ! snd m"
  have ms: "good_matches (length (strip_ansi r)) ms" using Cons.prems by (simp add: good_matches_def)
  have cuts: "cut_at r a" "cut_at r b" "a \<le> b"
    using insert_marks_step [of m r] Cons.prems(1) by (simp_all add: good_matches_def a_def b_def offs_def)
  show ?case
  proof (cases "a < cur")
    case True
    then show ?thesis using Cons.IH [OF ms Cons.prems(2)] by (simp add: a_def)
  next
    case False
    then have ca: "cur \<le> a" by simp
    let ?rest = "insert_marks on off r offs b ms"
    let ?B = "take (b - a) (drop a r)"
    have bel: "bel \<notin> set on" "bel \<notin> set off" using on by (auto simp: quiet_def)
    have rest: "bel \<in> set ?rest \<longrightarrow> bel \<in> set (drop b r)"
      using set_insert_marks [OF ms, of on off b] bel by (auto simp: offs_def)
    have deep: "set (drop b r) \<subseteq> set (drop a r)" by (rule set_drop_subset_set_drop [OF cuts(3)])
    have "bel \<in> set (?B @ off @ ?rest) \<longrightarrow> bel \<in> set (drop a r)"
      using rest bel deep set_take_subset [of "b - a" "drop a r"] by auto
    from strip_insert [OF cut_between(1) [OF Cons.prems(2) cuts(1) ca] on(1) this on(2)]
    have "strip_ansi (take (a - cur) (drop cur r) @ on @ ?B @ off @ ?rest)
        = shown (take (a - cur) (drop cur r)) (drop a r) @ strip_ansi (?B @ off @ ?rest)" .
    also have "strip_ansi (?B @ off @ ?rest) = shown ?B (drop b r) @ strip_ansi ?rest"
      using strip_insert [OF cut_between(1) [OF cuts] on(3) rest on(4)] .
    also have "strip_ansi ?rest = strip_ansi (drop b r)" by (rule Cons.IH [OF ms cuts(2)])
    also have "shown ?B (drop b r) @ strip_ansi (drop b r) = strip_ansi (drop a r)"
      using strip_cut [OF cut_between(1) [OF cuts]] cuts(3)
      by (metis append_take_drop_id drop_drop le_add_diff_inverse2)
    also have "shown (take (a - cur) (drop cur r)) (drop a r) @ strip_ansi (drop a r) = strip_ansi (drop cur r)"
      using strip_cut [OF cut_between(1) [OF Cons.prems(2) cuts(1) ca]] ca
      by (metis append_take_drop_id drop_drop le_add_diff_inverse2)
    finally show ?thesis using False by (simp add: a_def b_def Let_def)
  qed
qed simp

lemma strip_severity: "strip_ansi (apply_severity ln) = strip_ansi ln"
proof -
  have "strip_ansi (c @ ln @ severity_close) = strip_ansi ln" if "severity_fg tag = Some c" for tag c
    using strip_quiet [OF severity_fg_quiet [OF that]] strip_insert [OF cut_whole, of severity_close "[]" ln]
    by (simp add: shown_whole severity_close_def [symmetric]) (simp add: severity_close_def strip_ansi_def)
  then show ?thesis by (auto simp: apply_severity_def Let_def split: option.split)
qed

lemma strip_highlight:
  assumes "good_matches (length (strip_ansi r)) (find_all (strip_ansi r))"
  shows "strip_ansi (highlight_line (Some find_all) current r) = strip_ansi r"
proof -
  have ne: "sgr_reverse \<noteq> []" "sgr_reverse_off \<noteq> []" "hl_cur_on \<noteq> []" "hl_cur_off \<noteq> []"
    by (simp_all add: sgr_reverse_def sgr_reverse_off_def hl_cur_on_def hl_cur_off_def)
  have "cut_at r 0" by (simp add: cut_at_def)
  then show ?thesis
    using assms strip_insert_marks [of hl_cur_on hl_cur_off r "find_all (strip_ansi r)" 0]
      strip_insert_marks [of sgr_reverse sgr_reverse_off r "find_all (strip_ansi r)" 0] ne
    by (simp add: highlight_line_def Let_def)
qed

section \<open>Wrapping keeps the text\<close>

lemma sgr_token:
  assumes "ansi_seq s \<noteq> 0" "is_sgr (take (ansi_seq s) s)"
  shows "quiet (take (ansi_seq s) s)"
proof -
  let ?q = "take (ansi_seq s) s"
  have len: "ansi_seq s \<ge> 3" "length s \<ge> 3" using assms(2) by (auto simp: is_sgr_def)
  then obtain t where s: "s = esc # CHR ''['' # t" using assms(2) by (cases s; cases "tl s") (auto simp: is_sgr_def)
  have "csi_len s \<noteq> 0" using len(1) by (auto simp: ansi_seq_def s osc_len_def esc2_len_def split: if_splits)
  then obtain f rest where d: "dropWhile is_intermediate (dropWhile is_param t) = f # rest" and f: "is_final f"
    by (auto simp: csi_len_def Let_def s split: list.splits if_splits)
  define p where "p = takeWhile is_param t"
  define q where "q = takeWhile is_intermediate (dropWhile is_param t)"
  have t: "t = p @ q @ f # rest" unfolding p_def q_def by (metis d takeWhile_dropWhile_id)
  have ok: "list_all is_param p" "list_all is_intermediate q"
    by (auto simp: p_def q_def list_all_iff dest: set_takeWhileD)
  have e: "s = encode (Csi p q f) @ rest" by (simp add: s t)
  have "ansi_seq s = length (encode (Csi p q f))"
    unfolding e using ansi_seq_encode [of "Csi p q f" rest] ok f by simp
  then have "?q = encode (Csi p q f)" using e by simp
  then show ?thesis using quiet_csi [OF ok f] by simp
qed

lemma token_cut:
  assumes "s = q @ y" "ansi_seq s = length q" "q \<noteq> []"
  shows "clean_cut q y" "shown q y = []"
proof -
  obtain c t where "q = c # t" using assms(3) by (cases q) auto
  then show "clean_cut q y" "shown q y = []" using assms by (simp_all add: Let_def)
qed

lemma strip_flushed:
  assumes "clean_cut row s" "vis = shown row s" "quiet act"
  shows "concat (map strip_ansi (flushed row act)) = vis" "list_all (\<lambda>r. strip_ansi r = vis) (flushed row act)"
proof -
  have "strip_ansi row = vis"
    using cut_follows [OF assms(1), of "[]"] shown_whole [of row] assms(2) by (simp add: follows_def)
  moreover have "strip_ansi (row @ sgr_reset) = vis"
    using strip_insert [OF assms(1), of sgr_reset "[]"] assms(2)
    by (simp add: sgr_reset_def [symmetric]) (simp add: sgr_reset_def strip_ansi_def)
  moreover have "row = [] \<Longrightarrow> vis = []" using assms(2) by simp
  ultimately show "concat (map strip_ansi (flushed row act)) = vis" "list_all (\<lambda>r. strip_ansi r = vis) (flushed row act)"
    by (auto simp: flushed_def)
qed

lemma wrap_walk_text:
  assumes "clean_cut row s" "vis = length (shown row s)" "vis < w" "quiet act"
  shows "concat (map strip_ansi (wrap_walk w s row act vis)) = shown row s @ strip_ansi s
    \<and> list_all (\<lambda>r. length (strip_ansi r) \<le> w) (wrap_walk w s row act vis)"
  using assms
proof (induction w s row act vis rule: wrap_walk.induct)
  case (1 w row act vis)
  have "list_all (\<lambda>r. length (strip_ansi r) \<le> w) (flushed row act)"
    using strip_flushed(2) [OF "1.prems"(1) refl "1.prems"(4)] "1.prems"(2,3) by (auto simp: list_all_iff)
  moreover have "strip_ansi [] = []" by (simp add: strip_ansi_def)
  ultimately show ?case using strip_flushed(1) [OF "1.prems"(1) refl "1.prems"(4)] by simp
next
  case (2 w c t row act vis)
  let ?s = "c # t"
  let ?k = "ansi_seq ?s" and ?q = "take (ansi_seq (c # t)) (c # t)"
  show ?case
  proof (cases "?k = 0")
    case False
    let ?rest = "drop ?k ?s"
    have q: "clean_cut ?q ?rest" "shown ?q ?rest = []"
      using token_cut [of ?s ?q ?rest] False ansi_seq_le [of ?s] by (simp_all add: min_absorb2)
    have "clean_cut row (?q @ ?rest)" using "2.prems"(1) by simp
    from cut_append [OF this] q have row: "clean_cut (row @ ?q) ?rest" "shown (row @ ?q) ?rest = shown row ?s"
      by simp_all
    let ?act = "if is_sgr ?q then (if is_sgr_reset ?q then [] else act @ ?q) else act"
    have act: "quiet ?act" using sgr_token [OF False] "2.prems"(4) quiet_append by auto
    have "strip_ansi ?s = strip_ansi ?rest" using False by (simp add: strip_ansi_delete)
    moreover have "wrap_walk w ?s row act vis = wrap_walk w ?rest (row @ ?q) ?act vis" using False by (simp add: Let_def)
    ultimately show ?thesis
      using "2.IH"(1) [OF refl refl False row(1) _ "2.prems"(3) act] "2.prems"(2) row(2) by simp
  next
    case True
    have one: "clean_cut [c] t" "shown [c] t = [c]" using True by simp_all
    have "clean_cut row ([c] @ t)" using "2.prems"(1) by simp
    from cut_append [OF this] one have row: "clean_cut (row @ [c]) t" "shown (row @ [c]) t = shown row ?s @ [c]" by simp_all
    have st: "strip_ansi ?s = c # strip_ansi t" using True by (simp add: strip_ansi_delete)
    show ?thesis
    proof (cases "Suc vis \<ge> w")
      case full: True
      have act: "clean_cut act t" "shown act t = []" using "2.prems"(4) by (simp_all add: quiet_def)
      have "0 < w" using "2.prems"(3) by simp
      then have ih: "concat (map strip_ansi (wrap_walk w t act act 0)) = strip_ansi t
          \<and> list_all (\<lambda>r. length (strip_ansi r) \<le> w) (wrap_walk w t act act 0)"
        using "2.IH"(2) [OF refl refl _ full act(1)] True act "2.prems"(4) by simp
      have "wrap_walk w ?s row act vis = flushed (row @ [c]) act @ wrap_walk w t act act 0"
        using True full by simp
      moreover note fl = strip_flushed [OF row(1) refl "2.prems"(4)]
      moreover have "list_all (\<lambda>r. length (strip_ansi r) \<le> w) (flushed (row @ [c]) act)"
        using fl(2) row(2) "2.prems"(2,3) by (auto simp: list_all_iff)
      ultimately show ?thesis using ih row(2) st by simp
    next
      case False
      then have "wrap_walk w ?s row act vis = wrap_walk w t (row @ [c]) act (Suc vis)" using True by simp
      then show ?thesis
        using "2.IH"(3) [OF refl refl _ False row(1) _ _ "2.prems"(4)] True False row(2) st "2.prems"(2) by simp
    qed
  qed
qed

lemma chunk_text:
  "0 < w \<Longrightarrow> concat (chunk w s) = s \<and> list_all (\<lambda>r. length r \<le> w \<and> set r \<subseteq> set s) (chunk w s)"
proof (induction w s rule: chunk.induct)
  case (1 w s)
  show ?case
  proof (cases "s = []")
    case True
    then show ?thesis by (subst (1 2) chunk.simps) simp
  next
    case False
    then have e: "chunk w s = take w s # chunk w (drop w s)" using "1.prems" by (subst chunk.simps) simp
    have "concat (chunk w (drop w s)) = drop w s
        \<and> list_all (\<lambda>r. length r \<le> w \<and> set r \<subseteq> set (drop w s)) (chunk w (drop w s))"
      using 1 False by simp
    then show ?thesis
      using set_drop_subset [of w s] set_take_subset [of w s] unfolding e by (auto simp: list_all_iff)
  qed
qed

section \<open>Properties\<close>

text \<open>
  C24: the overlays are only overlays: highlighting the matches of a filter (whatever it matches, as long as
  the intervals lie in the text) and colouring by severity add escape sequences between the visible
  bytes, so the text of a line, which filters, motions and yanks work on, is unchanged, even when the
  line has escape sequences of its own, complete or not.
\<close>
theorem overlays_keep_text:
  assumes "good_matches (length (strip_ansi r)) (find_all (strip_ansi r))"
  shows "strip_ansi (apply_severity (highlight_line (Some find_all) current r)) = strip_ansi r"
  using strip_highlight [of r find_all, OF assms] by (simp add: strip_severity)

theorem overlays_keep_text_witness:
  "strip_ansi (apply_severity (highlight_line (Some (\<lambda>s. [(0, 2), (3, 5)])) True (esc # ''[31mab'' @ esc # ''[0m cd''))) = ''ab cd''"
proof -
  have "strip_ansi (esc # ''[31mab'' @ esc # ''[0m cd'') = ''ab cd''" by code_simp
  then show ?thesis
    using overlays_keep_text [of "esc # ''[31mab'' @ esc # ''[0m cd''" "\<lambda>s. [(0, 2), (3, 5)]" True]
    by (simp add: good_matches_def)
qed

text \<open>
  C25: hard wrapping loses nothing: for every width of at least one, the rows of a line, their escape
  sequences removed, joined together are the text of the line, and no row has more visible bytes than
  the width, with or without colours that are carried over the breaks.
\<close>
theorem wrap_keeps_text:
  assumes "1 \<le> width"
  shows "concat (map strip_ansi (wrap_line ln width)) = strip_ansi ln
    \<and> list_all (\<lambda>r. int (length (strip_ansi r)) \<le> width) (wrap_line ln width)"
proof (cases "esc \<notin> set ln")
  case True
  have "concat (chunk (nat width) ln) = ln" "list_all (\<lambda>r. length r \<le> nat width \<and> set r \<subseteq> set ln) (chunk (nat width) ln)"
    using chunk_text [of "nat width" ln] assms by auto
  moreover have "map strip_ansi (chunk (nat width) ln) = chunk (nat width) ln"
    using calculation(2) True by (intro map_idI) (auto simp: strip_ansi_def list_all_iff)
  ultimately show ?thesis
    using True assms by (auto simp: wrap_line_def strip_ansi_def list_all_iff) 
next
  case False
  let ?rows = "wrap_walk (nat width) ln [] [] 0"
  have "concat (map strip_ansi ?rows) = strip_ansi ln \<and> list_all (\<lambda>r. length (strip_ansi r) \<le> nat width) ?rows"
    using wrap_walk_text [of "[]" ln 0 "nat width" "[]"] assms by simp
  moreover have "list_all (\<lambda>r. int (length (strip_ansi r)) \<le> width) ?rows"
    if "list_all (\<lambda>r. length (strip_ansi r) \<le> nat width) ?rows"
    using that assms by (auto simp: list_all_iff le_nat_iff)
  ultimately show ?thesis
    using False assms by (auto simp: wrap_line_def visible_columns_text Let_def)
qed

theorem wrap_keeps_text_witness:
  "concat (map strip_ansi (wrap_line (esc # ''[31mabcd'' @ esc # ''[0me'') 2)) = ''abcde''"
proof -
  have "strip_ansi (esc # ''[31mabcd'' @ esc # ''[0me'') = ''abcde''" by code_simp
  then show ?thesis using wrap_keeps_text [of 2 "esc # ''[31mabcd'' @ esc # ''[0me''"] by simp
qed

text \<open>A coloured line whose length is a multiple of the width gets an extra row without text.\<close>

lemma wrap_extra_row:
  "map strip_ansi (wrap_line (esc # ''[31mabcd'' @ esc # ''[0m'') 2) = [''ab'', ''cd'', []]"
  by code_simp

end
