(* ===== verification/Sql_Format.thy ===== *)
theory Sql_Format
  imports Copy_Motion
begin

text \<open>
  The SQL reformatting of the log pane, \<open>internal/tui/panes/logpanel_sql.go\<close>: which lines are SQL, the
  timing prefix of object-relational mappers, and the single-pass formatter that breaks a statement
  before its keywords. The regular expressions are matchers that give the length of the match at the
  head of a text; in each of them the parts that follow each other cannot both take the same byte, so
  there is one match at a position.
\<close>

section \<open>Matchers\<close>

definition is_re_space :: "char \<Rightarrow> bool" where
  "is_re_space c \<longleftrightarrow> c = CHR '' '' \<or> c = CHR 0x09 \<or> c = CHR 0x0A \<or> c = CHR 0x0C \<or> c = CHR 0x0D"

definition is_digit :: "char \<Rightarrow> bool" where
  "is_digit c \<longleftrightarrow> in_range c 0x30 0x39"

definition upper :: "char \<Rightarrow> char" where
  "upper c = (if in_range c 0x61 0x7A then char_of (of_char c - 32 :: nat) else c)"

text \<open>
  A keyword at the head of a text whatever the case: the bytes it takes and what is left. Go folds the
  long s (\<open>C5 BF\<close>) to \<open>S\<close> and the kelvin sign (\<open>E2 84 AA\<close>) to \<open>K\<close>.
\<close>

fun match_ci :: "string \<Rightarrow> string \<Rightarrow> (string \<times> string) option" where
  "match_ci [] s = Some ([], s)"
| "match_ci (k # ks) s =
     (case s of
        c # t \<Rightarrow>
          if upper c = k then map_option (\<lambda>(m, r). (c # m, r)) (match_ci ks t)
          else if k = CHR ''S'' \<and> take 2 s = [CHR 0xC5, CHR 0xBF] then
            map_option (\<lambda>(m, r). (take 2 s @ m, r)) (match_ci ks (drop 2 s))
          else if k = CHR ''K'' \<and> take 3 s = [CHR 0xE2, CHR 0x84, CHR 0xAA] then
            map_option (\<lambda>(m, r). (take 3 s @ m, r)) (match_ci ks (drop 3 s))
          else None
      | [] \<Rightarrow> None)"

definition sql_verbs :: "string list" where
  "sql_verbs = [''SELECT'', ''INSERT'', ''UPDATE'', ''DELETE'', ''WITH'', ''BEGIN'', ''COMMIT'', ''ROLLBACK'',
     ''ALTER'', ''CREATE'', ''DROP'', ''TRUNCATE'', ''EXPLAIN'']"

definition word_boundary :: "string \<Rightarrow> string \<Rightarrow> bool" where
  "word_boundary before after \<longleftrightarrow>
     (before \<noteq> [] \<and> is_vim_word (last before)) \<noteq> (after \<noteq> [] \<and> is_vim_word (hd after))"

definition sql_start :: "string \<Rightarrow> bool" where
  "sql_start s =
     (let t = dropWhile is_re_space s
      in list_ex (\<lambda>v. case match_ci v t of None \<Rightarrow> False | Some (m, r) \<Rightarrow> word_boundary m r) sql_verbs)"

definition is_open_tag :: "char \<Rightarrow> bool" where "is_open_tag c \<longleftrightarrow> c = CHR ''('' \<or> c = CHR ''[''"
definition is_close_tag :: "char \<Rightarrow> bool" where "is_close_tag c \<longleftrightarrow> c = CHR '')'' \<or> c = CHR '']''"

text \<open>What is left after a number, a unit, and a timing tag such as \<open>(0.8ms)\<close> at the head of a text.\<close>

definition orm_number :: "string \<Rightarrow> string option" where
  "orm_number t =
     (if t = [] \<or> \<not> is_digit (hd t) then None
      else (case dropWhile is_digit t of
              p # d # r \<Rightarrow> Some (if p = CHR ''.'' \<and> is_digit d then dropWhile is_digit (d # r) else p # d # r)
            | u \<Rightarrow> Some u))"

definition orm_unit :: "string \<Rightarrow> string option" where
  "orm_unit t =
     (if take 2 t = ''ms'' then Some (drop 2 t) else if take 1 t = ''s'' then Some (drop 1 t) else None)"

definition orm_tag :: "string \<Rightarrow> string option" where
  "orm_tag s =
     (case s of
        [] \<Rightarrow> None
      | c # t \<Rightarrow>
          if \<not> is_open_tag c then None
          else case orm_number (dropWhile is_re_space t) of
            None \<Rightarrow> None
          | Some t3 \<Rightarrow>
              (case orm_unit (dropWhile is_re_space t3) of
                 None \<Rightarrow> None
               | Some t6 \<Rightarrow>
                   (case dropWhile is_re_space t6 of
                      d # r \<Rightarrow> if is_close_tag d then Some r else None | [] \<Rightarrow> None)))"

lemma orm_number_le: "orm_number t = Some u \<Longrightarrow> length u \<le> length t"
proof -
  assume a: "orm_number t = Some u"
  define v where "v = dropWhile is_digit t"
  have "length u \<le> length v"
    using a length_dropWhile_le [of is_digit "tl v"] unfolding orm_number_def v_def [symmetric]
    by (auto split: if_splits list.splits)
  then show ?thesis using length_dropWhile_le [of is_digit t] by (simp add: v_def)
qed

lemma orm_unit_le: "orm_unit t = Some u \<Longrightarrow> length u \<le> length t"
  by (auto simp: orm_unit_def split: if_splits)

lemma orm_tag_shorter: "orm_tag s = Some r \<Longrightarrow> length r < length s"
proof -
  assume "orm_tag s = Some r"
  then obtain c t t3 t6 d where s: "s = c # t" and n: "orm_number (dropWhile is_re_space t) = Some t3"
    and u: "orm_unit (dropWhile is_re_space t3) = Some t6" and d: "dropWhile is_re_space t6 = d # r"
    by (auto simp: orm_tag_def split: list.splits if_splits option.splits)
  have "length (d # r) \<le> length t6" unfolding d [symmetric] by (rule length_dropWhile_le)
  also have "\<dots> \<le> length t3" using orm_unit_le [OF u] length_dropWhile_le [of is_re_space t3] by simp
  also have "\<dots> \<le> length t" using orm_number_le [OF n] length_dropWhile_le [of is_re_space t] by simp
  finally show ?thesis by (simp add: s)
qed

text \<open>What follows each timing tag of a line, from left to right.\<close>

function orm_rests :: "string \<Rightarrow> string list" where
  "orm_rests s =
     (case s of
        [] \<Rightarrow> []
      | c # t \<Rightarrow> (case orm_tag s of None \<Rightarrow> orm_rests t | Some r \<Rightarrow> r # orm_rests r))"
  by pat_completeness auto
termination by (relation "measure length") (auto dest: orm_tag_shorter)

declare orm_rests.simps [simp del]

text \<open>An auxiliary tag such as \<open>[rows:1]\<close> at the head.\<close>

definition extra_bracket :: "string \<Rightarrow> string option" where
  "extra_bracket s =
     (case dropWhile is_re_space s of
        c # t \<Rightarrow>
          if is_open_tag c then
            (case dropWhile (\<lambda>d. \<not> is_close_tag d) t of _ # r \<Rightarrow> Some r | [] \<Rightarrow> None)
          else None
      | [] \<Rightarrow> None)"

lemma trim_left_le: "length (trim_left s) \<le> length s"
  by (induction s rule: trim_left.induct) (subst trim_left.simps, auto)

lemma trim_right_le: "length (trim_right s) \<le> length s"
  by (induction s rule: trim_right.induct) (subst trim_right.simps, auto)

lemma trim_space_le: "length (trim_space s) \<le> length s"
  using trim_right_le [of "trim_left s"] trim_left_le [of s] by (simp add: trim_space_def)

lemma trim_left_set: "set (trim_left s) \<subseteq> set s"
proof (induction s rule: trim_left.induct)
  case (1 s)
  then show ?case
    using set_drop_subset [of "lead_space s" s] by (subst trim_left.simps) (cases "lead_space s = 0"; simp)
qed

lemma trim_right_set: "set (trim_right s) \<subseteq> set s"
proof (induction s rule: trim_right.induct)
  case (1 s)
  then show ?case
    using set_take_subset [of "length s - trail_space s" s]
    by (subst trim_right.simps) (cases "trail_space s = 0"; simp)
qed

lemma trim_space_set: "set (trim_space s) \<subseteq> set s"
  using trim_left_set [of s] trim_right_set [of "trim_left s"] by (auto simp: trim_space_def)

lemma extra_bracket_shorter: "extra_bracket s = Some r \<Longrightarrow> length r < length s"
proof -
  assume "extra_bracket s = Some r"
  then obtain c t d where s: "dropWhile is_re_space s = c # t" "dropWhile (\<lambda>d. \<not> is_close_tag d) t = d # r"
    by (auto simp: extra_bracket_def split: list.splits if_splits)
  have "length (d # r) \<le> length t" unfolding s(2) [symmetric] by (rule length_dropWhile_le)
  moreover have "length (c # t) \<le> length s" unfolding s(1) [symmetric] by (rule length_dropWhile_le)
  ultimately show ?thesis by simp
qed

function peel_tags :: "string \<Rightarrow> string" where
  "peel_tags s = (case extra_bracket s of None \<Rightarrow> s | Some r \<Rightarrow> peel_tags (trim_space r))"
  by pat_completeness auto
termination
proof (relation "measure length")
  fix s r
  assume "extra_bracket s = Some r"
  then show "(trim_space r, s) \<in> measure length"
    using extra_bracket_shorter [of s r] trim_space_le [of r] by simp
qed simp

declare peel_tags.simps [simp del]

definition trim_blanks_right :: "string \<Rightarrow> string" where
  "trim_blanks_right s = rev (dropWhile is_blank (rev s))"

text \<open>The last tag whose tail starts with an SQL verb wins.\<close>

definition split_orm_prefix :: "string \<Rightarrow> (string \<times> string) option" where
  "split_orm_prefix ln =
     (case find sql_start (map (\<lambda>r. peel_tags (trim_space r)) (rev (orm_rests ln))) of
        None \<Rightarrow> None
      | Some rest \<Rightarrow> Some (trim_blanks_right (take (length ln - length rest) ln), rest))"

section \<open>The formatter\<close>

definition sql_top_keywords :: "string list" where
  "sql_top_keywords = [''DELETE FROM'', ''INSERT INTO'', ''GROUP BY'', ''ORDER BY'', ''SELECT'', ''FROM'', ''WHERE'',
     ''HAVING'', ''LIMIT'', ''OFFSET'', ''UNION ALL'', ''UNION'', ''VALUES'', ''UPDATE'', ''SET'', ''RETURNING'', ''ON CONFLICT'']"

definition sql_sub_keywords :: "string list" where
  "sql_sub_keywords = [''LEFT OUTER JOIN'', ''RIGHT OUTER JOIN'', ''FULL OUTER JOIN'', ''INNER JOIN'', ''LEFT JOIN'',
     ''RIGHT JOIN'', ''FULL JOIN'', ''CROSS JOIN'', ''JOIN'', ''AND'', ''OR'', ''ON'']"

text \<open>
  \<open>EqualFold\<close> of a keyword with as many bytes: a letter of two or three bytes would leave too few letters,
  so only the case of ASCII letters matters.
\<close>

definition match_any :: "string \<Rightarrow> string list \<Rightarrow> string option" where
  "match_any s kws =
     map_option (\<lambda>kw. take (length kw) s)
       (find (\<lambda>kw. length kw \<le> length s \<and> map upper (take (length kw) s) = kw
          \<and> (case drop (length kw) s of [] \<Rightarrow> True | c # _ \<Rightarrow> \<not> is_vim_word c)) kws)"

definition match_keyword :: "string \<Rightarrow> (string \<times> bool) option" where
  "match_keyword s =
     (case match_any s sql_top_keywords of
        Some m \<Rightarrow> Some (m, False)
      | None \<Rightarrow> map_option (\<lambda>m. (m, True)) (match_any s sql_sub_keywords))"

lemma match_keyword_prefix: "match_keyword s = Some (m, sub) \<Longrightarrow> m \<noteq> [] \<and> (\<exists>r. s = m @ r)"
proof -
  have ne: "kw \<noteq> []" if "kw \<in> set sql_top_keywords \<union> set sql_sub_keywords" for kw
    using that by (auto simp: sql_top_keywords_def sql_sub_keywords_def)
  have any: "m \<noteq> [] \<and> (\<exists>r. s = m @ r)"
    if m: "match_any s kws = Some m" and sub: "set kws \<subseteq> set sql_top_keywords \<union> set sql_sub_keywords" for m kws
  proof -
    obtain kw where kw: "find (\<lambda>kw. length kw \<le> length s \<and> map upper (take (length kw) s) = kw
        \<and> (case drop (length kw) s of [] \<Rightarrow> True | c # _ \<Rightarrow> \<not> is_vim_word c)) kws = Some kw" "m = take (length kw) s"
      using m by (auto simp: match_any_def)
    then have "kw \<in> set kws" "length kw \<le> length s" by (auto simp: find_Some_iff)
    then show ?thesis using ne sub kw(2) by (metis append_take_drop_id in_mono length_0_conv length_take min_absorb2)
  qed
  assume "match_keyword s = Some (m, sub)"
  then show ?thesis using any [of sql_top_keywords m] any [of sql_sub_keywords m]
    by (auto simp: match_keyword_def split: option.splits)
qed

definition trim_blanks :: "string \<Rightarrow> string" where
  "trim_blanks s = dropWhile is_blank (trim_blanks_right s)"

text \<open>\<open>emit\<close>: the rows it adds and the chunk it leaves; a blank chunk stays in the buffer.\<close>

definition emit_row :: "nat \<Rightarrow> string \<Rightarrow> string list \<times> string" where
  "emit_row indent cur =
     (let t = trim_blanks cur
      in if t = [] then ([], cur) else ([if indent > 0 then replicate indent (CHR '' '') @ t else t], []))"

definition is_quote :: "char \<Rightarrow> bool" where
  "is_quote c \<longleftrightarrow> c = CHR 0x27 \<or> c = CHR 0x22 \<or> c = CHR 0x60"

text \<open>
  The loop on the rest of the text: the byte before it, the chunk, the open quote, the depth of
  parentheses and the indent of the chunk.
\<close>

function sql_walk ::
  "char option \<Rightarrow> string \<Rightarrow> string \<Rightarrow> char option \<Rightarrow> nat \<Rightarrow> nat \<Rightarrow> string list" where
  "sql_walk pre [] cur quote depth indent = fst (emit_row indent cur)"
| "sql_walk pre (c # t) cur quote depth indent =
     (case quote of
        Some q \<Rightarrow>
          if c = q then
            (if t \<noteq> [] \<and> hd t = q then sql_walk (Some q) (tl t) (cur @ [c, q]) quote depth indent
             else sql_walk (Some c) t (cur @ [c]) None depth indent)
          else sql_walk (Some c) t (cur @ [c]) quote depth indent
      | None \<Rightarrow>
          if is_quote c then sql_walk (Some c) t (cur @ [c]) (Some c) depth indent
          else if c = CHR ''('' then sql_walk (Some c) t (cur @ [c]) None (depth + 1) indent
          else if c = CHR '')'' then sql_walk (Some c) t (cur @ [c]) None (depth - 1) indent
          else
            (case (if depth = 0 \<and> (case pre of None \<Rightarrow> True | Some p \<Rightarrow> \<not> is_vim_word p)
                   then match_keyword (c # t) else None) of
               Some (hit, sub) \<Rightarrow>
                 (let (rows, cur1) = emit_row indent cur
                  in rows @ sql_walk (Some (last hit)) (drop (length hit) (c # t)) (cur1 @ hit) None depth
                       (if sub then 2 else 0))
             | None \<Rightarrow> sql_walk (Some c) t (cur @ [c]) None depth indent))"
  by pat_completeness auto
termination
  by (relation "measure (\<lambda>(pre, s, cur, quote, depth, indent). length s)")
    (auto split: if_splits dest!: match_keyword_prefix)

definition format_sql :: "string \<Rightarrow> string list" where
  "format_sql s = (let rows = sql_walk None s [] None 0 0 in if rows = [] then [trim_space s] else rows)"

definition sql_blue_open :: bytes where "sql_blue_open = esc # ''[38;5;39m''"
definition sql_blue_close :: bytes where "sql_blue_close = esc # ''[39m''"

definition tint_blue :: "string list \<Rightarrow> string list" where
  "tint_blue rows = map (\<lambda>r. sql_blue_open @ r @ sql_blue_close) rows"

definition prettify_sql :: "string \<Rightarrow> string list option" where
  "prettify_sql ln =
     (let s = strip_ansi ln
      in case split_orm_prefix s of
           Some (pre, sql) \<Rightarrow> Some (tint_blue (pre # format_sql sql))
         | None \<Rightarrow> if sql_start s then Some (tint_blue (format_sql s)) else None)"

definition flatten_sql_lines :: "string list \<Rightarrow> string list" where
  "flatten_sql_lines lines = concat (map (\<lambda>ln. case prettify_sql ln of Some parts \<Rightarrow> parts | None \<Rightarrow> [ln]) lines)"

section \<open>Nothing but white space changes\<close>

abbreviation ink :: "string \<Rightarrow> string" where
  "ink \<equiv> filter (\<lambda>c. \<not> is_blank c)"

lemma ink_dropWhile: "ink (dropWhile is_blank s) = ink s"
  by (induction s) auto

lemma ink_trim: "ink (trim_blanks s) = ink s"
proof -
  have "ink (rev (dropWhile is_blank (rev s))) = rev (ink (dropWhile is_blank (rev s)))" by (simp add: rev_filter)
  also have "\<dots> = ink s" by (simp add: ink_dropWhile rev_filter)
  finally show ?thesis by (simp add: trim_blanks_def ink_dropWhile trim_blanks_right_def)
qed

lemma ink_emit: "emit_row indent cur = (rows, cur1) \<Longrightarrow> ink (concat rows @ cur1) = ink cur"
  using ink_trim [of cur]
  by (auto simp: emit_row_def Let_def is_blank_def filter_replicate split: if_splits)

lemma ink_last_emit: "ink (concat (fst (emit_row indent cur))) = ink cur"
proof -
  obtain rows cur1 where e: "emit_row indent cur = (rows, cur1)" by (metis prod.collapse)
  have "ink cur1 = []"
    using e ink_trim [of cur] by (auto simp: emit_row_def Let_def split: if_splits)
  then show ?thesis using ink_emit [OF e] e by simp
qed

lemma ink_walk: "ink (concat (sql_walk pre s cur quote depth indent)) = ink (cur @ s)"
proof (induction pre s cur quote depth indent rule: sql_walk.induct)
  case (1 pre cur quote depth indent)
  then show ?case by (simp add: ink_last_emit)
next
  case (2 pre c t cur quote depth indent)
  show ?case
  proof (cases quote)
    case (Some q)
    consider (doubled) "c = q" "t \<noteq> [] \<and> hd t = q" | (closed) "c = q" "\<not> (t \<noteq> [] \<and> hd t = q)" | (inside) "c \<noteq> q"
      by blast
    then show ?thesis
    proof cases
      case doubled
      then have t: "t = q # tl t" by (cases t) auto
      have w: "sql_walk pre (c # t) cur quote depth indent = sql_walk (Some q) (tl t) (cur @ [c, q]) quote depth indent"
        using doubled Some by simp
      show ?thesis unfolding w "2.IH"(6) [OF Some doubled] by (subst (2) t) simp
    next
      case closed
      then have w: "sql_walk pre (c # t) cur quote depth indent = sql_walk (Some c) t (cur @ [c]) None depth indent"
        using Some by auto
      show ?thesis unfolding w "2.IH"(7) [OF Some closed] by simp
    next
      case inside
      then show ?thesis using Some "2.IH"(8) [OF Some inside] by simp
    qed
  next
    case None
    let ?k = "if depth = 0 \<and> (case pre of None \<Rightarrow> True | Some p \<Rightarrow> \<not> is_vim_word p) then match_keyword (c # t) else None"
    consider (quo) "is_quote c" | (opn) "\<not> is_quote c" "c = CHR ''(''"
      | (cls) "\<not> is_quote c" "c \<noteq> CHR ''(''" "c = CHR '')''"
      | (plain) "\<not> is_quote c" "c \<noteq> CHR ''(''" "c \<noteq> CHR '')''" "?k = None"
      | (kw) hit sub where "\<not> is_quote c" "c \<noteq> CHR ''(''" "c \<noteq> CHR '')''" "?k = Some (hit, sub)"
      by (metis option.exhaust surj_pair)
    then show ?thesis
    proof cases
      case quo
      then show ?thesis using None "2.IH"(1) [OF None quo] by simp
    next
      case opn
      then show ?thesis using None "2.IH"(2) [OF None opn] by simp
    next
      case cls
      then show ?thesis using None "2.IH"(3) [OF None cls] by simp
    next
      case plain
      then have "sql_walk pre (c # t) cur quote depth indent = sql_walk (Some c) t (cur @ [c]) None depth indent"
        using None by simp
      then show ?thesis using "2.IH"(4) [OF None plain] by simp
    next
      case kw
      obtain rows cur1 where e: "emit_row indent cur = (rows, cur1)" by (metis prod.collapse)
      have "match_keyword (c # t) = Some (hit, sub)" using kw(4) by (simp split: if_splits)
      then obtain r where r: "c # t = hit @ r" using match_keyword_prefix by blast
      then have d: "drop (length hit) (c # t) = r" by simp
      have w: "sql_walk pre (c # t) cur quote depth indent
          = rows @ sql_walk (Some (last hit)) r (cur1 @ hit) None depth (if sub then 2 else 0)"
        using None kw e d by simp
      have "ink (concat (sql_walk (Some (last hit)) r (cur1 @ hit) None depth (if sub then 2 else 0))) = ink ((cur1 @ hit) @ r)"
        using "2.IH"(5) [OF None kw refl refl e [symmetric]] d by simp
      then show ?thesis unfolding w using ink_emit [OF e] r by simp
    qed
  qed
qed

section \<open>Properties\<close>

text \<open>
  C27: reformatting a statement changes white space only: the rows of \<open>formatSQL\<close>, spaces and tabs aside, are
  the bytes of the statement in their order, whatever quotes, parentheses and keywords it has.
\<close>
theorem format_sql_keeps_text:
  "filter (\<lambda>c. \<not> is_blank c) (concat (format_sql s)) = filter (\<lambda>c. \<not> is_blank c) s"
proof (cases "sql_walk None s [] None 0 0 = []")
  case True
  then have "ink s = []" using ink_walk [of None s "[]" None 0 0] by simp
  moreover have "set (trim_space s) \<subseteq> set s" by (rule trim_space_set)
  ultimately have "ink (trim_space s) = []" by (auto simp: filter_empty_conv)
  then show ?thesis using True \<open>ink s = []\<close> by (simp add: format_sql_def)
next
  case False
  then show ?thesis using ink_walk [of None s "[]" None 0 0] by (simp add: format_sql_def Let_def)
qed

text \<open>
  With white space at the end of the line the prefix of a mapper's line takes the first bytes of the
  statement, which are then shown twice.
\<close>

lemma orm_prefix_repeats_statement:
  "split_orm_prefix ''(0.8ms) SELECT 1  '' = Some (''(0.8ms) SE'', ''SELECT 1'')"
  by code_simp

end
