(* ===== verification/Log_Panel.thy ===== *)
theory Log_Panel
  imports Log_Render Sql_Format
begin

text \<open>
  The log pane of \<open>internal/tui/panes\<close> as a state machine: what it shows and where
  (\<open>logpanel.go\<close>), the copy-mode keys with their counts, operators and pending states
  (\<open>logpanel_motion.go\<close>), the visual selection and its yank (\<open>logpanel_select.go\<close>), and the mouse
  (\<open>logpanel_mouse.go\<close>). An index out of range, which panics, is \<open>None\<close>. The styling of the gutter and the
  indentation of JSON are the parameters of \<open>render_env\<close>; the write-only fields \<open>dirty\<close> and
  \<open>lastGen\<close> are left out.
\<close>

section \<open>State\<close>

record render_env =
  re_gutter :: "string \<Rightarrow> string"
  re_json :: "string \<Rightarrow> string list option"

datatype sel_mode = SelNone | SelChar | SelLine

record selection =
  se_mode :: sel_mode
  se_anchor :: cursor

definition no_selection :: selection where
  "no_selection = \<lparr>se_mode = SelNone, se_anchor = Cursor 0 0\<rparr>"

datatype pending = PendNone | PendG | PendFind | PendYankI | PendYankA

record log_panel =
  lp_win :: window
  lp_filter :: "filter_rx option"
  lp_raw :: "string list"
  lp_sticky :: bool
  lp_width :: int
  lp_height :: int
  lp_matches :: "nat list"
  lp_match_cur :: int
  lp_gutter :: bool
  lp_in_copy :: bool
  lp_cur :: cursor
  lp_pending :: pending
  lp_op_yank :: bool
  lp_count :: int
  lp_pending_find :: find_state
  lp_last_find :: find_state
  lp_sel :: selection
  lp_paused :: bool
  lp_severity :: bool
  lp_json :: bool
  lp_sql :: bool
  lp_wrap :: bool
  lp_original :: "string list"
  lp_xo :: int
  lp_yo :: int
  lp_row_raw :: "nat list"
  lp_row_first :: "bool list"
  lp_pressed :: bool
  lp_drag_anchor :: cursor

definition new_log_panel :: "int \<Rightarrow> int \<Rightarrow> log_panel" where
  "new_log_panel width height =
     \<lparr>lp_win = new_window (max 1 (width - 3)) (max 1 (height - 2)), lp_filter = None, lp_raw = [], lp_sticky = True,
      lp_width = width, lp_height = height, lp_matches = [], lp_match_cur = - 1, lp_gutter = False,
      lp_in_copy = False, lp_cur = Cursor 0 0, lp_pending = PendNone, lp_op_yank = False, lp_count = 0,
      lp_pending_find = no_find, lp_last_find = no_find, lp_sel = no_selection, lp_paused = False,
      lp_severity = True, lp_json = False, lp_sql = False, lp_wrap = True, lp_original = [], lp_xo = 0, lp_yo = 0,
      lp_row_raw = [], lp_row_first = [], lp_pressed = False, lp_drag_anchor = Cursor 0 0\<rparr>"

abbreviation set_win :: "(window \<Rightarrow> window) \<Rightarrow> log_panel \<Rightarrow> log_panel" where
  "set_win f lp \<equiv> lp\<lparr>lp_win := f (lp_win lp)\<rparr>"

section \<open>Painting\<close>

fun decimal_width :: "nat \<Rightarrow> int" where
  "decimal_width n = (if n = 0 then 0 else 1 + decimal_width (n div 10))"

declare decimal_width.simps [simp del]

definition line_number_width :: "nat \<Rightarrow> int" where
  "line_number_width n = (if n < 1 then 1 else decimal_width n)"

definition gutter_width :: "log_panel \<Rightarrow> int" where
  "gutter_width lp =
     (if \<not> lp_gutter lp \<and> \<not> lp_in_copy lp then 0 else line_number_width (length (lp_raw lp)) + 3)"

text \<open>The viewport's share of the width of the panel.\<close>

definition fit_width :: "log_panel \<Rightarrow> log_panel" where
  "fit_width lp = set_win (\<lambda>w. w\<lparr>wi_width := max 1 (lp_width lp - 3 - gutter_width lp)\<rparr>) lp"

definition normalised_selection :: "log_panel \<Rightarrow> cursor \<times> cursor" where
  "normalised_selection lp = normalise_char_range (se_anchor (lp_sel lp)) (lp_cur lp)"

definition overlay_line :: "log_panel \<Rightarrow> cursor \<Rightarrow> cursor \<Rightarrow> int \<Rightarrow> string \<Rightarrow> string" where
  "overlay_line lp p q i ln =
     (if se_mode (lp_sel lp) = SelLine then sgr_reverse @ ln @ sgr_reverse_off
      else
        (let n = line_len (lp_raw lp) i;
             s0 = (if i = cu_line p then cu_col p else 0);
             e0 = (if i = cu_line q then cu_col q + 1 else n);
             s = (if s0 < 0 then 0 else s0); e = (if e0 > n then n else e0)
         in if s \<ge> e then ln
            else
              (let offs = map_stripped ln; a = offs ! nat s; b = offs ! nat e
               in take a ln @ sgr_reverse @ take (b - a) (drop a ln) @ sgr_reverse_off @ drop b ln)))"

definition overlay_selection :: "log_panel \<Rightarrow> string list \<Rightarrow> string list" where
  "overlay_selection lp out =
     (if se_mode (lp_sel lp) = SelNone \<or> out = [] then out
      else
        (let (p, q) = normalised_selection lp;
             sl = (if cu_line p < 0 then 0 else cu_line p);
             el = (if cu_line q \<ge> int (length out) then int (length out) - 1 else cu_line q)
         in map (\<lambda>i. if sl \<le> int i \<and> int i \<le> el
                     then overlay_line lp (Cursor sl (cu_col p))
                            (Cursor el (cu_col q)) (int i) (out ! i)
                     else out ! i) [0..<length out]))"

definition bar_glyph :: bytes where "bar_glyph = '' '' @ [CHR 0xE2, CHR 0x94, CHR 0x82] @ '' ''"

definition gutter_label :: "int \<Rightarrow> nat option \<Rightarrow> string" where
  "gutter_label num_w n =
     (case n of
        None \<Rightarrow> replicate (nat num_w) (CHR '' '') @ bar_glyph
      | Some k \<Rightarrow> (let d = show_nat k in replicate (nat num_w - length d) (CHR '' '') @ d @ bar_glyph))"

text \<open>The visual rows: the piece, the line it comes from, and whether it is its first.\<close>

definition visual_rows :: "log_panel \<Rightarrow> string list \<Rightarrow> (string \<times> nat \<times> bool) list" where
  "visual_rows lp out =
     (let w0 = wi_width (lp_win lp) - gutter_width lp; w = (if w0 < 1 then 1 else w0)
      in concat (map (\<lambda>i.
           if lp_wrap lp then
             map (\<lambda>(p, j). (p, i, j = 0)) (zip (wrap_line (out ! i) w) [0..<length (wrap_line (out ! i) w)])
           else [(out ! i, i, True)]) [0..<length out]))"

definition painted_lines :: "log_panel \<Rightarrow> string list" where
  "painted_lines lp =
     (let cur_line = (if lp_match_cur lp \<ge> 0 \<and> lp_match_cur lp < int (length (lp_matches lp))
                      then int (lp_matches lp ! nat (lp_match_cur lp)) else - 1);
          hl = (\<lambda>i. if i \<in> set (lp_matches lp) \<and> lp_filter lp \<noteq> None
                    then highlight_line (lp_filter lp) (int i = cur_line) (lp_raw lp ! i) else lp_raw lp ! i);
          out1 = map hl [0..<length (lp_raw lp)];
          out2 = (if lp_severity lp then map apply_severity out1 else out1)
      in if lp_in_copy lp \<or> se_mode (lp_sel lp) \<noteq> SelNone then overlay_selection lp out2 else out2)"

definition paint_matches :: "render_env \<Rightarrow> log_panel \<Rightarrow> log_panel option" where
  "paint_matches env lp =
     (if lp_raw lp = [] then Some (set_win (set_rows []) lp)
      else
        (let out = painted_lines lp; l = cu_line (lp_cur lp)
         in if lp_in_copy lp \<and> (l < 0 \<or> l \<ge> int (length out)) then None
            else
              (let out1 = (if lp_in_copy lp then out[nat l := overlay_cursor (out ! nat l) (cu_col (lp_cur lp))] else out);
                   rows = visual_rows lp out1; gw = gutter_width lp;
                   flat = map (\<lambda>(s, i, first).
                     if gw > 0 then re_gutter env (gutter_label (gw - 3) (if first then Some (i + 1) else None)) @ s
                     else s) rows
               in Some (set_win (set_rows flat)
                    (lp\<lparr>lp_row_raw := map (\<lambda>(s, i, first). i) rows, lp_row_first := map (\<lambda>(s, i, first). first) rows\<rparr>)))))"

definition render_content :: "render_env \<Rightarrow> log_panel \<Rightarrow> log_panel option" where
  "render_content env lp =
     (if lp_raw lp = [] then Some (set_win (set_rows []) (lp\<lparr>lp_matches := [], lp_match_cur := - 1\<rparr>))
      else
        (let ms = (case lp_filter lp of
                     None \<Rightarrow> []
                   | Some f \<Rightarrow> filter (\<lambda>i. f (strip_ansi (lp_raw lp ! i)) \<noteq> []) [0..<length (lp_raw lp)])
         in paint_matches env (lp\<lparr>lp_matches := ms, lp_match_cur := - 1\<rparr>)))"

section \<open>Lines, filter and toggles\<close>

definition prettify_json :: "render_env \<Rightarrow> string \<Rightarrow> string list option" where
  "prettify_json env ln =
     (let s = trim_space (strip_ansi ln)
      in if length s < 2 then None
         else if (hd s = CHR ''{'' \<and> last s = CHR ''}'') \<or> (hd s = CHR ''['' \<and> last s = CHR '']'')
         then re_json env s else None)"

definition flatten_json_lines :: "render_env \<Rightarrow> string list \<Rightarrow> string list" where
  "flatten_json_lines env lines =
     concat (map (\<lambda>ln. case prettify_json env ln of Some parts \<Rightarrow> parts | None \<Rightarrow> [ln]) lines)"

definition rebuild_display_lines :: "render_env \<Rightarrow> log_panel \<Rightarrow> log_panel" where
  "rebuild_display_lines env lp =
     (let s1 = (if lp_sql lp then flatten_sql_lines (lp_original lp) else lp_original lp)
      in lp\<lparr>lp_raw := (if lp_json lp then flatten_json_lines env s1 else s1)\<rparr>)"

definition has_selection :: "log_panel \<Rightarrow> bool" where
  "has_selection lp \<longleftrightarrow> se_mode (lp_sel lp) \<noteq> SelNone"

definition set_lines :: "render_env \<Rightarrow> string list \<Rightarrow> log_panel \<Rightarrow> log_panel option" where
  "set_lines env lines lp =
     (let prev = gutter_width lp;
          lp1 = rebuild_display_lines env (lp\<lparr>lp_original := lines\<rparr>);
          lp2 = (if gutter_width lp1 \<noteq> prev then fit_width lp1 else lp1)
      in map_option (\<lambda>lp3. if lp_sticky lp3 \<and> \<not> lp_paused lp3 \<and> \<not> has_selection lp3 then set_win goto_bottom lp3 else lp3)
           (render_content env lp2))"

definition panel_set_filter :: "render_env \<Rightarrow> filter_rx option \<Rightarrow> log_panel \<Rightarrow> log_panel option" where
  "panel_set_filter env rx lp = render_content env (lp\<lparr>lp_filter := rx\<rparr>)"

definition set_wrap :: "render_env \<Rightarrow> bool \<Rightarrow> log_panel \<Rightarrow> log_panel option" where
  "set_wrap env on lp = (if lp_wrap lp = on then Some lp else paint_matches env (lp\<lparr>lp_wrap := on\<rparr>))"

definition set_severity :: "render_env \<Rightarrow> bool \<Rightarrow> log_panel \<Rightarrow> log_panel option" where
  "set_severity env on lp = (if lp_severity lp = on then Some lp else paint_matches env (lp\<lparr>lp_severity := on\<rparr>))"

definition set_json_pretty :: "render_env \<Rightarrow> bool \<Rightarrow> log_panel \<Rightarrow> log_panel option" where
  "set_json_pretty env on lp =
     (if lp_json lp = on then Some lp else render_content env (rebuild_display_lines env (lp\<lparr>lp_json := on\<rparr>)))"

definition set_sql_pretty :: "render_env \<Rightarrow> bool \<Rightarrow> log_panel \<Rightarrow> log_panel option" where
  "set_sql_pretty env on lp =
     (if lp_sql lp = on then Some lp else render_content env (rebuild_display_lines env (lp\<lparr>lp_sql := on\<rparr>)))"

definition set_size :: "int \<Rightarrow> int \<Rightarrow> log_panel \<Rightarrow> log_panel" where
  "set_size width height lp =
     set_win (\<lambda>w. w\<lparr>wi_height := max 1 (height - 2)\<rparr>) (fit_width (lp\<lparr>lp_width := width, lp_height := height\<rparr>))"

definition set_origin :: "int \<Rightarrow> int \<Rightarrow> log_panel \<Rightarrow> log_panel" where
  "set_origin x y lp = lp\<lparr>lp_xo := x, lp_yo := y\<rparr>"

definition set_gutter :: "render_env \<Rightarrow> bool \<Rightarrow> log_panel \<Rightarrow> log_panel option" where
  "set_gutter env on lp =
     (if lp_gutter lp = on then Some lp else render_content env (fit_width (lp\<lparr>lp_gutter := on\<rparr>)))"

definition toggle_paused :: "log_panel \<Rightarrow> log_panel" where
  "toggle_paused lp = lp\<lparr>lp_paused := \<not> lp_paused lp\<rparr>"

definition clear_transient :: "log_panel \<Rightarrow> log_panel" where
  "clear_transient lp = lp\<lparr>lp_pending := PendNone, lp_op_yank := False, lp_count := 0, lp_pending_find := no_find\<rparr>"

definition clamp_col :: "log_panel \<Rightarrow> log_panel" where
  "clamp_col lp =
     (let n = line_len (lp_raw lp) (cu_line (lp_cur lp)); c = cu_col (lp_cur lp);
          c1 = (if c > n then n else c); c2 = (if c1 < 0 then 0 else c1)
      in lp\<lparr>lp_cur := Cursor (cu_line (lp_cur lp)) c2\<rparr>)"

definition set_copy_mode :: "render_env \<Rightarrow> bool \<Rightarrow> log_panel \<Rightarrow> log_panel option" where
  "set_copy_mode env on lp =
     (if lp_in_copy lp = on then Some lp
      else
        (let lp1 = lp\<lparr>lp_in_copy := on\<rparr>;
             y = wi_yoff (lp_win lp);
             top = (if y \<ge> 0 \<and> y < int (length (lp_row_raw lp)) then int (lp_row_raw lp ! nat y) else y);
             lp2 = (if on
                    then clamp_col (lp1\<lparr>lp_sticky := False, lp_cur := Cursor (min top (max 0 (int (length (lp_raw lp)) - 1))) 0\<rparr>)
                    else (clear_transient lp1)\<lparr>lp_last_find := no_find, lp_sel := no_selection\<rparr>)
         in render_content env (fit_width lp2)))"

section \<open>Jumping between matches\<close>

definition match_cursor :: "log_panel \<Rightarrow> int" where
  "match_cursor lp = (if lp_match_cur lp < 0 \<or> lp_matches lp = [] then 0 else lp_match_cur lp + 1)"

definition scroll_to_match :: "render_env \<Rightarrow> log_panel \<Rightarrow> log_panel option" where
  "scroll_to_match env lp =
     (if lp_match_cur lp < 0 \<or> lp_match_cur lp \<ge> int (length (lp_matches lp)) then Some lp
      else map_option (\<lambda>lp1.
        (let target = int (lp_matches lp1 ! nat (lp_match_cur lp1));
             off0 = target - wi_height (lp_win lp1) div 3; off = (if off0 < 0 then 0 else off0)
         in (set_win (set_yoff off) lp1)\<lparr>lp_sticky := False\<rparr>)) (paint_matches env lp))"

text \<open>The panel, whether there was a match, and whether the jump wrapped around.\<close>

definition jump_next :: "render_env \<Rightarrow> log_panel \<Rightarrow> (log_panel \<times> bool \<times> bool) option" where
  "jump_next env lp =
     (if lp_matches lp = [] then Some (lp, False, False)
      else
        (let nxt = lp_match_cur lp + 1; over = nxt \<ge> int (length (lp_matches lp));
             c = (if over then 0 else nxt)
         in map_option (\<lambda>lp1. (lp1, True, over \<and> lp_match_cur lp \<ge> 0)) (scroll_to_match env (lp\<lparr>lp_match_cur := c\<rparr>))))"

definition jump_prev :: "render_env \<Rightarrow> log_panel \<Rightarrow> (log_panel \<times> bool \<times> bool) option" where
  "jump_prev env lp =
     (if lp_matches lp = [] then Some (lp, False, False)
      else
        (let prev = lp_match_cur lp - 1;
             (c, wrapped) = (if prev < 0 then (if lp_match_cur lp < 0 then (0, False)
                                               else (int (length (lp_matches lp)) - 1, True)) else (prev, False))
         in map_option (\<lambda>lp1. (lp1, True, wrapped)) (scroll_to_match env (lp\<lparr>lp_match_cur := c\<rparr>))))"

text \<open>The rows of the cursor's line, and scrolling them into the window.\<close>

definition cursor_rows :: "log_panel \<Rightarrow> int \<times> int" where
  "cursor_rows lp =
     (let ks = filter (\<lambda>k. int (lp_row_raw lp ! k) = cu_line (lp_cur lp)) [0..<length (lp_row_raw lp)]
      in if ks = [] then (cu_line (lp_cur lp), cu_line (lp_cur lp)) else (int (hd ks), int (last ks)))"

definition ensure_cursor_visible :: "log_panel \<Rightarrow> log_panel" where
  "ensure_cursor_visible lp =
     (let (first, last) = cursor_rows lp; w = lp_win lp
      in if first < wi_yoff w then set_win (set_yoff first) lp
         else if last \<ge> wi_yoff w + wi_height w then
           set_win (set_yoff (if last - wi_height w + 1 > first then first else last - wi_height w + 1)) lp
         else lp)"

definition jump_cursor :: "render_env \<Rightarrow> (log_panel \<times> bool \<times> bool) option \<Rightarrow> (log_panel \<times> bool \<times> bool) option" where
  "jump_cursor env r =
     (case r of
        None \<Rightarrow> None
      | Some (lp, ok, wrapped) \<Rightarrow>
          if ok \<and> lp_in_copy lp \<and> lp_match_cur lp \<ge> 0 \<and> lp_match_cur lp < int (length (lp_matches lp)) then
            map_option (\<lambda>lp1. (ensure_cursor_visible lp1, ok, wrapped))
              (paint_matches env (lp\<lparr>lp_cur := Cursor (int (lp_matches lp ! nat (lp_match_cur lp))) 0\<rparr>))
          else Some (lp, ok, wrapped))"

section \<open>Copy-mode keys\<close>

definition effective_count :: "log_panel \<Rightarrow> int" where
  "effective_count lp = (if lp_count lp < 1 then 1 else lp_count lp)"

text \<open>
  The handlers return the panel and the text a yank sends to the clipboard. \<open>apply_range\<close> yanks the range
  when the operator is pending, and otherwise moves the cursor to its end.
\<close>

type_synonym key_result = "(log_panel \<times> string option) option"

definition apply_range :: "render_env \<Rightarrow> motion_range \<Rightarrow> log_panel \<Rightarrow> key_result" where
  "apply_range env r lp =
     (if lp_op_yank lp then
        (let t = extract_range (lp_raw lp) r
         in Some (clear_transient lp, if t = [] then None else Some t))
      else map_option (\<lambda>lp1. (clear_transient (ensure_cursor_visible lp1), None))
             (paint_matches env (clamp_col (lp\<lparr>lp_cur := mr_end r\<rparr>))))"

definition start_find :: "bool \<Rightarrow> bool \<Rightarrow> log_panel \<Rightarrow> log_panel" where
  "start_find fwd till lp =
     lp\<lparr>lp_pending := PendFind,
        lp_pending_find := \<lparr>fs_ch = CHR 0x00, fs_forward = fwd, fs_till = till, fs_active = False\<rparr>\<rparr>"

text \<open>What the search finds is applied; nothing found clears the command.\<close>

definition apply_find :: "render_env \<Rightarrow> find_state \<Rightarrow> int \<Rightarrow> log_panel \<Rightarrow> key_result" where
  "apply_find env f n lp =
     (case range_find (lp_raw lp) (lp_cur lp) f n of
        None \<Rightarrow> None
      | Some None \<Rightarrow> Some (clear_transient lp, None)
      | Some (Some r) \<Rightarrow> apply_range env r lp)"

definition repeat_find :: "render_env \<Rightarrow> bool \<Rightarrow> int \<Rightarrow> log_panel \<Rightarrow> key_result" where
  "repeat_find env flip n lp =
     (let f = lp_last_find lp
      in if fs_active f
         then apply_find env (if flip then f\<lparr>fs_forward := \<not> fs_forward f\<rparr> else f) n lp
         else Some (clear_transient lp, None))"

definition dispatch_key :: "render_env \<Rightarrow> string \<Rightarrow> log_panel \<Rightarrow> key_result" where
  "dispatch_key env key lp =
     (let n = effective_count lp
      in if key = ''y'' then
           (if lp_op_yank lp
            then apply_range env (line_range (cu_line (lp_cur lp)) n (int (length (lp_raw lp)))) lp
            else Some (lp\<lparr>lp_op_yank := True\<rparr>, None))
         else if key = ''i'' \<and> lp_op_yank lp then Some (lp\<lparr>lp_pending := PendYankI\<rparr>, None)
         else if key = ''a'' \<and> lp_op_yank lp then Some (lp\<lparr>lp_pending := PendYankA\<rparr>, None)
         else if key = ''f'' then Some (start_find True False lp, None)
         else if key = ''F'' then Some (start_find False False lp, None)
         else if key = ''t'' then Some (start_find True True lp, None)
         else if key = ''T'' then Some (start_find False True lp, None)
         else if key = '';'' then repeat_find env False n lp
         else if key = '','' then repeat_find env True n lp
         else if key = ''g'' then Some (lp\<lparr>lp_pending := PendG\<rparr>, None)
         else
           (case resolve_motion (lp_raw lp) (wi_height (lp_win lp)) (wi_yoff (lp_win lp)) (lp_cur lp) key n of
              Some r \<Rightarrow> apply_range env r lp
            | None \<Rightarrow> Some (if lp_pending lp \<noteq> PendNone then lp else clear_transient lp, None)))"

definition handle_pend_g :: "render_env \<Rightarrow> string \<Rightarrow> log_panel \<Rightarrow> key_result" where
  "handle_pend_g env key lp =
     (let lp1 = lp\<lparr>lp_pending := PendNone\<rparr>; n = effective_count lp1
      in if key = ''g'' then apply_range env (char_range (lp_cur lp1) (Cursor 0 0)) lp1
         else if key = ''e'' then
           apply_range env (inclusive_range (lp_cur lp1) (word_end_backward_n (lp_raw lp1) is_vim_word n (lp_cur lp1))) lp1
         else if key = ''E'' then
           apply_range env (inclusive_range (lp_cur lp1) (word_end_backward_n (lp_raw lp1) is_WORD n (lp_cur lp1))) lp1
         else Some (clear_transient lp1, None))"

definition handle_pend_find :: "render_env \<Rightarrow> string \<Rightarrow> log_panel \<Rightarrow> key_result" where
  "handle_pend_find env key lp =
     (let lp1 = lp\<lparr>lp_pending := PendNone\<rparr>
      in if length key \<noteq> 1 \<or> of_char (key ! 0) > (127 :: nat) then Some (clear_transient lp1, None)
         else
           (let f = (lp_pending_find lp1)\<lparr>fs_ch := key ! 0, fs_active := True\<rparr>
            in apply_find env f (effective_count lp1) (lp1\<lparr>lp_pending_find := f, lp_last_find := f\<rparr>)))"

definition handle_pend_text_object :: "render_env \<Rightarrow> string \<Rightarrow> bool \<Rightarrow> log_panel \<Rightarrow> key_result" where
  "handle_pend_text_object env key around lp =
     (let lp1 = lp\<lparr>lp_pending := PendNone\<rparr>
      in if length key \<noteq> 1 then Some (clear_transient lp1, None)
         else
           (case range_text_object (lp_raw lp1) (lp_cur lp1) (key ! 0) around of
              None \<Rightarrow> Some (clear_transient lp1, None)
            | Some r \<Rightarrow> apply_range env r lp1))"

section \<open>The visual selection\<close>

text \<open>Go's index and slice expressions on the lines, \<open>None\<close> when out of range.\<close>

definition raw_text :: "string list \<Rightarrow> int \<Rightarrow> string option" where
  "raw_text raw i = (if 0 \<le> i \<and> i < int (length raw) then Some (strip_ansi (raw ! nat i)) else None)"

definition go_slice :: "string \<Rightarrow> int \<Rightarrow> int \<Rightarrow> string option" where
  "go_slice s a b = (if 0 \<le> a \<and> a \<le> b \<and> b \<le> int (length s) then Some (byte_slice s a b) else None)"

definition raw_texts :: "string list \<Rightarrow> int \<Rightarrow> int \<Rightarrow> string list option" where
  "raw_texts raw a b = those (map (raw_text raw) [a..b])"

definition yank_text :: "log_panel \<Rightarrow> string option" where
  "yank_text lp =
     (let raw = lp_raw lp; (p, q) = normalised_selection lp
      in if raw = [] then Some []
         else case se_mode (lp_sel lp) of
           SelNone \<Rightarrow> raw_text raw (cu_line (lp_cur lp))
         | SelLine \<Rightarrow> map_option (join_with [nl]) (raw_texts raw (cu_line p) (cu_line q))
         | SelChar \<Rightarrow>
             if cu_line p = cu_line q then
               Option.bind (raw_text raw (cu_line p)) (\<lambda>s.
                 let b = min (cu_col q + 1) (int (length s)); a = min (min (cu_col p) (int (length s))) b
                 in go_slice s a b)
             else
               Option.bind (raw_text raw (cu_line p)) (\<lambda>first.
               Option.bind (raw_text raw (cu_line q)) (\<lambda>last.
               Option.bind (go_slice first (min (cu_col p) (int (length first))) (int (length first))) (\<lambda>u.
               Option.bind (raw_texts raw (cu_line p + 1) (cu_line q - 1)) (\<lambda>mid.
               Option.bind (go_slice last 0 (min (cu_col q + 1) (int (length last)))) (\<lambda>v.
                 Some (join_with [nl] (u # mid @ [v]))))))))"

definition clear_selection :: "render_env \<Rightarrow> log_panel \<Rightarrow> log_panel option" where
  "clear_selection env lp =
     (if se_mode (lp_sel lp) = SelNone then Some lp else paint_matches env (lp\<lparr>lp_sel := no_selection\<rparr>))"

definition toggle_visual :: "render_env \<Rightarrow> sel_mode \<Rightarrow> log_panel \<Rightarrow> log_panel option" where
  "toggle_visual env m lp =
     paint_matches env (lp\<lparr>lp_sel := (if se_mode (lp_sel lp) = m then no_selection
                                        else \<lparr>se_mode = m, se_anchor = lp_cur lp\<rparr>)\<rparr>)"

text \<open>The visual keys; the outer \<open>None\<close> is a panic, the inner one a key they do not consume.\<close>

definition handle_visual :: "render_env \<Rightarrow> string \<Rightarrow> log_panel \<Rightarrow> (log_panel \<times> string option) option option" where
  "handle_visual env key lp =
     (if key = ''v'' then map_option (\<lambda>lp1. Some (lp1, None)) (toggle_visual env SelChar lp)
      else if key = ''V'' then map_option (\<lambda>lp1. Some (lp1, None)) (toggle_visual env SelLine lp)
      else if key = ''y'' then
        (if se_mode (lp_sel lp) = SelNone then Some None
         else map_option (\<lambda>t. Some (lp\<lparr>lp_sel := no_selection\<rparr>, Some t)) (yank_text lp))
      else if key = ''Y'' then
        (let n = effective_count lp; lp1 = clear_transient lp;
             t = extract_range (lp_raw lp1) (line_range (cu_line (lp_cur lp1)) n (int (length (lp_raw lp1))))
         in Some (Some (lp1, if t = [] then None else Some t)))
      else Some None)"

text \<open>The dispatcher: visual keys, then a pending command, then a digit of the count, then the rest.\<close>

definition handle_copy_key :: "render_env \<Rightarrow> string \<Rightarrow> log_panel \<Rightarrow> key_result" where
  "handle_copy_key env key lp =
     (if \<not> lp_in_copy lp \<or> lp_raw lp = [] then Some (lp, None)
      else
        (case handle_visual env key lp of
           None \<Rightarrow> None
         | Some (Some r) \<Rightarrow> Some r
         | Some None \<Rightarrow>
             (case lp_pending lp of
                PendG \<Rightarrow> handle_pend_g env key lp
              | PendFind \<Rightarrow> handle_pend_find env key lp
              | PendYankI \<Rightarrow> handle_pend_text_object env key False lp
              | PendYankA \<Rightarrow> handle_pend_text_object env key True lp
              | PendNone \<Rightarrow>
                  (if length key = 1 \<and> in_range (key ! 0) 0x31 0x39 then
                     Some (lp\<lparr>lp_count := wrap64 (wrap64 (lp_count lp * 10) + int (of_char (key ! 0) - 48))\<rparr>, None)
                   else if key = ''0'' \<and> lp_count lp > 0 then Some (lp\<lparr>lp_count := wrap64 (lp_count lp * 10)\<rparr>, None)
                   else dispatch_key env key lp))))"

definition clear_pending :: "log_panel \<Rightarrow> log_panel \<times> bool" where
  "clear_pending lp =
     (if lp_pending lp = PendNone \<and> \<not> lp_op_yank lp \<and> lp_count lp = 0 then (lp, False) else (clear_transient lp, True))"

definition pending_summary :: "log_panel \<Rightarrow> string" where
  "pending_summary lp =
     (if lp_count lp = 0 \<and> \<not> lp_op_yank lp \<and> lp_pending lp = PendNone then []
      else (if lp_count lp > 0 then show_nat (nat (lp_count lp)) else [])
         @ (if lp_op_yank lp then ''y'' else [])
         @ (case lp_pending lp of
              PendG \<Rightarrow> ''g'' | PendYankI \<Rightarrow> ''i'' | PendYankA \<Rightarrow> ''a'' | PendNone \<Rightarrow> []
            | PendFind \<Rightarrow>
                (let f = lp_pending_find lp
                 in if fs_till f \<and> fs_forward f then ''t'' else if fs_till f then ''T''
                    else if fs_forward f then ''f'' else ''F'')))"

section \<open>Scroll keys\<close>

text \<open>The keys of normal mode, by the names of their bindings.\<close>

definition scroll_key :: "string \<Rightarrow> log_panel \<Rightarrow> log_panel" where
  "scroll_key key lp =
     (if key \<in> {''pgup'', ''ctrl+b''} then (set_win page_up lp)\<lparr>lp_sticky := False\<rparr>
      else if key \<in> {''pgdown'', ''ctrl+f''} then
        (let lp1 = set_win page_down lp in if at_bottom (lp_win lp1) then lp1\<lparr>lp_sticky := True\<rparr> else lp1)
      else if key = ''g'' then (set_win goto_top lp)\<lparr>lp_sticky := False\<rparr>
      else if key = ''G'' then (set_win goto_bottom lp)\<lparr>lp_sticky := True\<rparr>
      else if key \<in> {''K'', ''up''} then (set_win (scroll_up 5) lp)\<lparr>lp_sticky := False\<rparr>
      else if key \<in> {''J'', ''down''} then
        (let lp1 = set_win (scroll_down 5) lp in if at_bottom (lp_win lp1) then lp1\<lparr>lp_sticky := True\<rparr> else lp1)
      else lp)"

section \<open>The mouse\<close>

datatype mouse_button = MouseLeft | MouseWheel wheel | MouseOther
datatype mouse_action = MousePress | MouseMotion | MouseRelease

definition abs_to_content :: "int \<Rightarrow> int \<Rightarrow> log_panel \<Rightarrow> (int \<times> int) option" where
  "abs_to_content x y lp =
     (let rx = x - lp_xo lp; ry = y - lp_yo lp; gw = gutter_width lp; ix = rx - 1
      in if rx < 0 \<or> ry < 0 then None
         else if rx \<ge> lp_width lp \<or> ry \<ge> lp_height lp then None
         else if rx = 0 \<or> rx = lp_width lp - 1 then None
         else if ry = 0 \<or> ry = lp_height lp - 1 then None
         else if ix \<ge> wi_width (lp_win lp) + gw then None
         else if ix < gw then Some (0, ry - 1)
         else Some (ix - gw, ry - 1))"

text \<open>The rows before row \<open>k\<close>, counted back, that show the same line.\<close>

fun pieces_before :: "nat list \<Rightarrow> nat \<Rightarrow> nat \<Rightarrow> int" where
  "pieces_before rows raw 0 = 0"
| "pieces_before rows raw (Suc k) = (if rows ! k = raw then 1 + pieces_before rows raw k else 0)"

definition col_for_rendered_row :: "int \<Rightarrow> int \<Rightarrow> log_panel \<Rightarrow> int" where
  "col_for_rendered_row row cx lp =
     (if row < 0 \<or> row \<ge> int (length (lp_row_raw lp)) then 0
      else
        (let raw = lp_row_raw lp ! nat row
         in if raw \<ge> length (lp_raw lp) then 0
            else
              (let n = int (length (strip_ansi (lp_raw lp ! raw)));
                   piece = (if lp_wrap lp then pieces_before (lp_row_raw lp) raw (nat row) else 0);
                   w0 = wi_width (lp_win lp) - gutter_width lp; w = (if w0 < 1 then 1 else w0);
                   c = piece * w + cx; c1 = (if c < 0 then 0 else c)
               in if n = 0 then 0 else if c1 \<ge> n then n - 1 else c1)))"

definition mouse_to_cursor :: "int \<Rightarrow> int \<Rightarrow> log_panel \<Rightarrow> cursor option" where
  "mouse_to_cursor x y lp =
     (case abs_to_content x y lp of
        None \<Rightarrow> None
      | Some (cx, cy) \<Rightarrow>
          (let row = wi_yoff (lp_win lp) + cy
           in if cy \<ge> wi_height (lp_win lp) then None
              else if row \<ge> int (length (lp_row_raw lp)) then
                (if lp_raw lp = [] then None else Some (Cursor (int (length (lp_raw lp)) - 1) 0))
              else if lp_row_raw lp ! nat row \<ge> length (lp_raw lp) then None
              else Some (Cursor (int (lp_row_raw lp ! nat row)) (col_for_rendered_row row cx lp))))"

text \<open>The last column of a line.\<close>

definition last_col :: "log_panel \<Rightarrow> nat \<Rightarrow> int" where
  "last_col lp raw = max 0 (int (length (strip_ansi (lp_raw lp ! raw))) - 1)"

definition clamp_to_pane :: "int \<Rightarrow> int \<Rightarrow> log_panel \<Rightarrow> cursor" where
  "clamp_to_pane x y lp =
     (let ry = y - lp_yo lp; rows = lp_row_raw lp; n = int (length rows);
          at_row = (\<lambda>row eol. if lp_row_raw lp ! nat row \<ge> length (lp_raw lp) then lp_drag_anchor lp
                              else Cursor (int (rows ! nat row)) (if eol then last_col lp (rows ! nat row) else 0))
      in if ry < 1 then
           (if rows = [] \<or> lp_raw lp = [] then lp_drag_anchor lp
            else
              (let t = wi_yoff (lp_win lp); top = (if t \<ge> n then n - 1 else t)
               in Cursor (int (rows ! nat top)) 0))
         else if ry \<ge> lp_height lp - 1 then
           (if lp_raw lp = [] then lp_drag_anchor lp
            else
              (let b = wi_yoff (lp_win lp) + wi_height (lp_win lp) - 1; bot = (if b \<ge> n then n - 1 else b)
               in if bot < 0 then lp_drag_anchor lp else at_row bot True))
         else
           (let row = wi_yoff (lp_win lp) + (ry - 1)
            in if row \<ge> n \<or> row < 0 then lp_drag_anchor lp
               else at_row row (x - lp_xo lp \<ge> lp_width lp - 1)))"

definition scroll_mouse :: "bool \<Rightarrow> wheel \<Rightarrow> log_panel \<Rightarrow> log_panel" where
  "scroll_mouse press b lp =
     (let lp1 = set_win (window_wheel press b) lp
      in if \<not> at_bottom (lp_win lp1) then lp1\<lparr>lp_sticky := False\<rparr> else lp1)"

definition handle_mouse :: "render_env \<Rightarrow> mouse_action \<Rightarrow> mouse_button \<Rightarrow> int \<Rightarrow> int \<Rightarrow> log_panel \<Rightarrow> key_result" where
  "handle_mouse env act b x y lp =
     (case b of
        MouseWheel w \<Rightarrow> Some (scroll_mouse (act = MousePress) w lp, None)
      | _ \<Rightarrow>
          (if b \<noteq> MouseLeft \<and> act \<noteq> MouseRelease then Some (lp, None)
           else case act of
             MousePress \<Rightarrow>
               (case mouse_to_cursor x y lp of
                  None \<Rightarrow> Some (lp, None)
                | Some c \<Rightarrow> map_option (\<lambda>lp1. (lp1, None)) (paint_matches env
                    (lp\<lparr>lp_cur := c, lp_sel := \<lparr>se_mode = SelChar, se_anchor = c\<rparr>, lp_pressed := True,
                       lp_drag_anchor := c, lp_sticky := False\<rparr>)))
           | MouseMotion \<Rightarrow>
               (if \<not> lp_pressed lp then Some (lp, None)
                else map_option (\<lambda>lp1. (lp1, None)) (paint_matches env (lp\<lparr>lp_cur :=
                  (case mouse_to_cursor x y lp of Some c \<Rightarrow> c | None \<Rightarrow> clamp_to_pane x y lp)\<rparr>)))
           | MouseRelease \<Rightarrow>
               (let lp1 = lp\<lparr>lp_pressed := False\<rparr>; lp2 = lp1\<lparr>lp_sel := no_selection\<rparr>
                in if \<not> lp_pressed lp then Some (lp, None)
                   else if lp_cur lp1 = lp_drag_anchor lp1 then map_option (\<lambda>lp3. (lp3, None)) (paint_matches env lp2)
                   else case yank_text lp1 of
                     None \<Rightarrow> None
                   | Some t \<Rightarrow> map_option (\<lambda>lp3. (lp3, if t = [] then None else Some t)) (paint_matches env lp2))))"

end
