(* ===== verification/Panel_Safety.thy ===== *)
theory Panel_Safety
  imports Log_Panel
begin

text \<open>
  The log pane never indexes out of range: an invariant of its state, kept by every operation, under
  which none of the index expressions of \<open>internal/tui/panes\<close> panics; and the events outside its
  conditions that make the code panic.
\<close>

section \<open>The invariant\<close>

text \<open>The positions the panel keeps, for the lines \<open>raw\<close>.\<close>

definition cursors_fit :: "string list \<Rightarrow> log_panel \<Rightarrow> bool" where
  "cursors_fit raw lp \<longleftrightarrow>
     (lp_in_copy lp \<longrightarrow> raw = [] \<and> lp_cur lp = Cursor 0 0 \<or> valid_cursor raw (lp_cur lp))
     \<and> (has_selection lp \<longrightarrow> valid_cursor raw (lp_cur lp) \<and> valid_cursor raw (se_anchor (lp_sel lp)))
     \<and> (lp_pressed lp \<longrightarrow> valid_cursor raw (lp_cur lp) \<and> valid_cursor raw (lp_drag_anchor lp))"

definition panel_frame :: "log_panel \<Rightarrow> bool" where
  "panel_frame lp \<longleftrightarrow> 1 \<le> wi_height (lp_win lp) \<and> 0 \<le> wi_yoff (lp_win lp)
     \<and> (lp_pending lp \<in> {PendYankI, PendYankA} \<longrightarrow> lp_op_yank lp)"

definition panel_ok :: "log_panel \<Rightarrow> bool" where
  "panel_ok lp \<longleftrightarrow> panel_frame lp \<and> cursors_fit (lp_raw lp) lp
     \<and> list_all (\<lambda>i. i < length (lp_raw lp)) (lp_matches lp)
     \<and> (lp_raw lp \<noteq> [] \<longrightarrow> list_all (\<lambda>i. i < length (lp_raw lp)) (lp_row_raw lp))"

section \<open>Painting\<close>

lemma length_painted [simp]: "length (painted_lines lp) = length (lp_raw lp)"
  by (simp add: painted_lines_def overlay_selection_def Let_def split: prod.split)

lemma visual_rows_lines: "(s, i, b) \<in> set (visual_rows lp out) \<Longrightarrow> i < length out"
  by (auto simp: visual_rows_def Let_def split: if_splits)

definition painted :: "log_panel \<Rightarrow> log_panel \<Rightarrow> bool" where
  "painted lp lp' \<longleftrightarrow> (\<exists>rows rr rf. lp' = lp\<lparr>lp_win := set_rows rows (lp_win lp), lp_row_raw := rr, lp_row_first := rf\<rparr>
     \<and> (lp_raw lp \<noteq> [] \<longrightarrow> list_all (\<lambda>i. i < length (lp_raw lp)) rr))"

lemma paint_painted:
  assumes "lp_in_copy lp \<Longrightarrow> lp_raw lp \<noteq> [] \<Longrightarrow> valid_cursor (lp_raw lp) (lp_cur lp)"
  shows "\<exists>lp'. paint_matches env lp = Some lp' \<and> painted lp lp'"
proof (cases "lp_raw lp = []")
  case True
  then have "painted lp (set_win (set_rows []) lp)"
    unfolding painted_def
    by (intro exI [of _ "[]"] exI [of _ "lp_row_raw lp"] exI [of _ "lp_row_first lp"]) (cases lp, simp)
  then show ?thesis using True by (simp add: paint_matches_def)
next
  case False
  let ?l = "cu_line (lp_cur lp)"
  have safe: "\<not> (lp_in_copy lp \<and> (?l < 0 \<or> ?l \<ge> int (length (painted_lines lp))))"
    using assms False by (auto simp: valid_cursor_def)
  define out where "out = (if lp_in_copy lp then (painted_lines lp)[nat ?l := overlay_cursor (painted_lines lp ! nat ?l) (cu_col (lp_cur lp))]
    else painted_lines lp)"
  define rr where "rr = map (\<lambda>(s, i, first). i) (visual_rows lp out)"
  define rf where "rf = map (\<lambda>(s, i, first). first) (visual_rows lp out)"
  define flat where "flat = map (\<lambda>(s, i, first).
    if gutter_width lp > 0 then re_gutter env (gutter_label (gutter_width lp - 3) (if first then Some (i + 1) else None)) @ s
    else s) (visual_rows lp out)"
  have "paint_matches env lp = Some (lp\<lparr>lp_win := set_rows flat (lp_win lp), lp_row_raw := rr, lp_row_first := rf\<rparr>)"
    using False safe by (simp add: paint_matches_def Let_def out_def rr_def rf_def flat_def)
  moreover have "list_all (\<lambda>i. i < length (lp_raw lp)) rr"
    using visual_rows_lines [of _ _ _ lp out] by (fastforce simp: list_all_iff rr_def out_def)
  ultimately show ?thesis unfolding painted_def by blast
qed

lemma frame_painted: "painted lp lp' \<Longrightarrow> panel_frame lp \<Longrightarrow> panel_frame lp'"
  using set_rows_ok [of "lp_win lp"] by (auto simp: painted_def panel_frame_def window_ok_def set_rows_def Let_def)

text \<open>The other fields do not matter to the positions.\<close>

lemma cursors_upd [simp]:
  "cursors_fit raw (lp\<lparr>lp_win := x0\<rparr>) = cursors_fit raw lp"
  "cursors_fit raw (lp\<lparr>lp_filter := x1\<rparr>) = cursors_fit raw lp"
  "cursors_fit raw (lp\<lparr>lp_raw := x2\<rparr>) = cursors_fit raw lp"
  "cursors_fit raw (lp\<lparr>lp_sticky := x3\<rparr>) = cursors_fit raw lp"
  "cursors_fit raw (lp\<lparr>lp_width := x4\<rparr>) = cursors_fit raw lp"
  "cursors_fit raw (lp\<lparr>lp_height := x5\<rparr>) = cursors_fit raw lp"
  "cursors_fit raw (lp\<lparr>lp_matches := x6\<rparr>) = cursors_fit raw lp"
  "cursors_fit raw (lp\<lparr>lp_match_cur := x7\<rparr>) = cursors_fit raw lp"
  "cursors_fit raw (lp\<lparr>lp_gutter := x8\<rparr>) = cursors_fit raw lp"
  "cursors_fit raw (lp\<lparr>lp_pending := x9\<rparr>) = cursors_fit raw lp"
  "cursors_fit raw (lp\<lparr>lp_op_yank := x10\<rparr>) = cursors_fit raw lp"
  "cursors_fit raw (lp\<lparr>lp_count := x11\<rparr>) = cursors_fit raw lp"
  "cursors_fit raw (lp\<lparr>lp_pending_find := x12\<rparr>) = cursors_fit raw lp"
  "cursors_fit raw (lp\<lparr>lp_last_find := x13\<rparr>) = cursors_fit raw lp"
  "cursors_fit raw (lp\<lparr>lp_paused := x14\<rparr>) = cursors_fit raw lp"
  "cursors_fit raw (lp\<lparr>lp_severity := x15\<rparr>) = cursors_fit raw lp"
  "cursors_fit raw (lp\<lparr>lp_json := x16\<rparr>) = cursors_fit raw lp"
  "cursors_fit raw (lp\<lparr>lp_sql := x17\<rparr>) = cursors_fit raw lp"
  "cursors_fit raw (lp\<lparr>lp_wrap := x18\<rparr>) = cursors_fit raw lp"
  "cursors_fit raw (lp\<lparr>lp_original := x19\<rparr>) = cursors_fit raw lp"
  "cursors_fit raw (lp\<lparr>lp_xo := x20\<rparr>) = cursors_fit raw lp"
  "cursors_fit raw (lp\<lparr>lp_yo := x21\<rparr>) = cursors_fit raw lp"
  "cursors_fit raw (lp\<lparr>lp_row_raw := x22\<rparr>) = cursors_fit raw lp"
  "cursors_fit raw (lp\<lparr>lp_row_first := x23\<rparr>) = cursors_fit raw lp"
  by (simp_all add: cursors_fit_def has_selection_def)

lemma paint_ok:
  assumes "panel_frame lp" "cursors_fit (lp_raw lp) lp" "list_all (\<lambda>i. i < length (lp_raw lp)) (lp_matches lp)"
  shows "\<exists>lp'. paint_matches env lp = Some lp' \<and> painted lp lp' \<and> panel_ok lp'"
proof -
  obtain lp' where lp': "paint_matches env lp = Some lp'" "painted lp lp'"
    using paint_painted [of lp env] assms(2) by (auto simp: cursors_fit_def)
  have "cursors_fit (lp_raw lp') lp' = cursors_fit (lp_raw lp) lp"
    using lp'(2) by (auto simp: painted_def)
  then have "panel_ok lp'"
    using assms frame_painted [OF lp'(2)] lp'(2) by (auto simp: panel_ok_def painted_def)
  then show ?thesis using lp' by blast
qed

lemma render_ok:
  assumes "panel_frame lp" "cursors_fit (lp_raw lp) lp"
  shows "\<exists>lp'. render_content env lp = Some lp' \<and> panel_ok lp'"
proof (cases "lp_raw lp = []")
  case True
  then show ?thesis
    using assms set_rows_ok [of "lp_win lp" "[]"]
    by (auto simp: render_content_def panel_ok_def panel_frame_def window_ok_def set_rows_def cursors_fit_def
        has_selection_def Let_def)
next
  case False
  define ms where "ms = (case lp_filter lp of None \<Rightarrow> []
     | Some f \<Rightarrow> filter (\<lambda>i. f (strip_ansi (lp_raw lp ! i)) \<noteq> []) [0..<length (lp_raw lp)])"
  have "list_all (\<lambda>i. i < length (lp_raw lp)) ms" by (auto simp: ms_def list_all_iff split: option.split)
  then show ?thesis
    using paint_ok [of "lp\<lparr>lp_matches := ms, lp_match_cur := - 1\<rparr>" env] assms False
    unfolding render_content_def ms_def [symmetric] Let_def by (auto simp: panel_frame_def)
qed


section \<open>The operations keep it\<close>

definition safe :: "key_result \<Rightarrow> bool" where
  "safe r \<longleftrightarrow> (\<exists>lp t. r = Some (lp, t) \<and> panel_ok lp)"

lemma safe_Some [simp]: "safe (Some (lp, t)) \<longleftrightarrow> panel_ok lp"
  by (simp add: safe_def)

lemma safe_if: "(b \<Longrightarrow> safe x) \<Longrightarrow> (\<not> b \<Longrightarrow> safe y) \<Longrightarrow> safe (if b then x else y)"
  by simp

lemma safe_paint:
  assumes "panel_frame lp" "cursors_fit (lp_raw lp) lp" "list_all (\<lambda>i. i < length (lp_raw lp)) (lp_matches lp)"
    and "\<And>lp1. painted lp lp1 \<Longrightarrow> panel_ok lp1 \<Longrightarrow> panel_ok (f lp1)"
  shows "safe (map_option (\<lambda>lp1. (f lp1, t lp1)) (paint_matches env lp))"
  using paint_ok [OF assms(1-3), of env] assms(4) by auto

lemma panel_okD:
  assumes "panel_ok lp"
  shows "panel_frame lp" "cursors_fit (lp_raw lp) lp" "list_all (\<lambda>i. i < length (lp_raw lp)) (lp_matches lp)"
  using assms by (simp_all add: panel_ok_def)

lemma panel_ok_clear: "panel_ok lp \<Longrightarrow> panel_ok (clear_transient lp)"
  by (simp add: panel_ok_def panel_frame_def clear_transient_def)

lemma panel_ok_win: "panel_ok lp \<Longrightarrow> 1 \<le> wi_height w \<Longrightarrow> 0 \<le> wi_yoff w \<Longrightarrow> panel_ok (lp\<lparr>lp_win := w\<rparr>)"
  by (simp add: panel_ok_def panel_frame_def)

lemma panel_ok_yoff: "panel_ok lp \<Longrightarrow> panel_ok (set_win (set_yoff n) lp)"
  by (intro panel_ok_win) (auto simp: panel_ok_def panel_frame_def set_yoff_def max_yoff_def Let_def)

lemma panel_ok_visible: "panel_ok lp \<Longrightarrow> panel_ok (ensure_cursor_visible lp)"
  using panel_ok_yoff by (auto simp: ensure_cursor_visible_def Let_def split: prod.split)

lemma valid_clamp:
  assumes "0 \<le> cu_line p" "cu_line p < int (length (lp_raw lp))"
  shows "valid_cursor (lp_raw lp) (lp_cur (clamp_col (lp\<lparr>lp_cur := p\<rparr>)))"
  using assms by (auto simp: clamp_col_def valid_cursor_def Let_def)

lemma clamp_frame [simp]:
  "lp_raw (clamp_col lp) = lp_raw lp" "lp_matches (clamp_col lp) = lp_matches lp"
  "panel_frame (clamp_col lp) = panel_frame lp" "panel_frame (lp\<lparr>lp_cur := p\<rparr>) = panel_frame lp"
  by (simp_all add: clamp_col_def panel_frame_def Let_def)

lemma cursors_move:
  assumes "cursors_fit raw lp" "valid_cursor raw (lp_cur (clamp_col (lp\<lparr>lp_cur := p\<rparr>)))"
  shows "cursors_fit raw (clamp_col (lp\<lparr>lp_cur := p\<rparr>))"
  using assms by (auto simp: cursors_fit_def clamp_col_def has_selection_def Let_def)

lemma apply_range_safe:
  assumes ok: "panel_ok lp"
    and r: "lp_op_yank lp \<or> 0 \<le> cu_line (mr_end r) \<and> cu_line (mr_end r) < int (length (lp_raw lp))"
  shows "safe (apply_range env r lp)"
proof (cases "lp_op_yank lp")
  case True
  then show ?thesis using panel_ok_clear [OF ok] by (simp add: apply_range_def Let_def)
next
  case False
  then have v: "valid_cursor (lp_raw lp) (lp_cur (clamp_col (lp\<lparr>lp_cur := mr_end r\<rparr>)))" using r valid_clamp by blast
  have "safe (map_option (\<lambda>lp1. (clear_transient (ensure_cursor_visible lp1), None))
      (paint_matches env (clamp_col (lp\<lparr>lp_cur := mr_end r\<rparr>))))"
    using panel_okD [OF ok] cursors_move [OF _ v] panel_ok_clear panel_ok_visible by (intro safe_paint) simp_all
  then show ?thesis using False by (simp add: apply_range_def)
qed

lemma apply_find_safe:
  assumes ok: "panel_ok lp" and v: "valid_cursor (lp_raw lp) (lp_cur lp)"
  shows "safe (apply_find env f n lp)"
proof -
  obtain r where r: "range_find (lp_raw lp) (lp_cur lp) f n = Some r"
    "\<forall>m. r = Some m \<longrightarrow> cu_line (mr_end m) = cu_line (lp_cur lp)"
    using range_find_total [OF v] by blast
  show ?thesis
    using r apply_range_safe [OF ok] v panel_ok_clear [OF ok]
    by (auto simp: apply_find_def valid_cursor_def split: option.split)
qed

lemma repeat_find_safe:
  "panel_ok lp \<Longrightarrow> valid_cursor (lp_raw lp) (lp_cur lp) \<Longrightarrow> safe (repeat_find env flip n lp)"
  using apply_find_safe panel_ok_clear by (simp add: repeat_find_def Let_def)

lemma panel_ok_pending:
  "panel_ok lp \<Longrightarrow> (p \<in> {PendYankI, PendYankA} \<Longrightarrow> lp_op_yank lp) \<Longrightarrow> panel_ok (lp\<lparr>lp_pending := p\<rparr>)"
  by (auto simp: panel_ok_def panel_frame_def)

text \<open>The conditions of a copy-mode key: sizes and a typed count below \<open>2^31\<close>, and \<open>H\<close> only where the window
  starts before the last line.\<close>

definition key_fits :: "string \<Rightarrow> log_panel \<Rightarrow> bool" where
  "key_fits key lp \<longleftrightarrow> small (lp_count lp) \<and> small (wi_height (lp_win lp)) \<and> small (int (length (lp_raw lp)))
     \<and> (key = ''H'' \<longrightarrow> wi_yoff (lp_win lp) < int (length (lp_raw lp)))"

lemma dispatch_safe:
  assumes ok: "panel_ok lp" and v: "valid_cursor (lp_raw lp) (lp_cur lp)" and fits: "key_fits key lp"
  shows "safe (dispatch_key env key lp)"
proof -
  have n: "small (effective_count lp)" using fits by (auto simp: key_fits_def effective_count_def small_def)
  have frame: "1 \<le> wi_height (lp_win lp)" "0 \<le> wi_yoff (lp_win lp)"
    using ok by (simp_all add: panel_ok_def panel_frame_def)
  have motion: "safe (case resolve_motion (lp_raw lp) (wi_height (lp_win lp)) (wi_yoff (lp_win lp)) (lp_cur lp) key (effective_count lp) of
      Some r \<Rightarrow> apply_range env r lp
    | None \<Rightarrow> Some (if lp_pending lp \<noteq> PendNone then lp else clear_transient lp, None))"
    using motion_end_line [OF v frame(2) _ frame(1) _ n] fits apply_range_safe [OF ok] ok panel_ok_clear [OF ok]
    by (auto simp: key_fits_def split: option.split)
  have ops: "panel_ok (lp\<lparr>lp_op_yank := True\<rparr>)" "panel_ok (start_find a b lp)" "panel_ok (lp\<lparr>lp_pending := PendG\<rparr>)" for a b
    using ok by (simp_all add: panel_ok_def panel_frame_def start_find_def)
  show ?thesis
    unfolding dispatch_key_def Let_def
    by (intro safe_if motion repeat_find_safe [OF ok v])
      (insert ok ops apply_range_safe [OF ok] panel_ok_pending [OF ok], auto)
qed

section \<open>The two yanks agree\<close>

lemma those_map: "(\<And>x. x \<in> set xs \<Longrightarrow> f x = Some (g x)) \<Longrightarrow> those (map f xs) = Some (map g xs)"
  by (induction xs) auto

lemma raw_text_line: "0 \<le> i \<Longrightarrow> i < int (length raw) \<Longrightarrow> raw_text raw i = Some (stripped_line raw i)"
  by (simp add: raw_text_def stripped_line_def)

lemma raw_texts_lines: "0 \<le> a \<Longrightarrow> b < int (length raw) \<Longrightarrow> raw_texts raw a b = Some (lines_between raw a b)"
  unfolding raw_texts_def lines_between_def by (rule those_map) (simp add: raw_text_line)

lemma go_slice_ok: "0 \<le> a \<Longrightarrow> a \<le> b \<Longrightarrow> b \<le> int (length s) \<Longrightarrow> go_slice s a b = Some (byte_slice s a b)"
  by (simp add: go_slice_def)

definition visual_range :: "log_panel \<Rightarrow> motion_range" where
  "visual_range lp =
     (if se_mode (lp_sel lp) = SelLine then linewise_range (se_anchor (lp_sel lp)) (lp_cur lp)
      else inclusive_range (se_anchor (lp_sel lp)) (lp_cur lp))"

lemma yank_text_range:
  assumes sel: "has_selection lp" and a: "valid_cursor (lp_raw lp) (se_anchor (lp_sel lp))"
    and c: "valid_cursor (lp_raw lp) (lp_cur lp)"
  shows "yank_text lp = Some (extract_range (lp_raw lp) (visual_range lp))"
proof -
  define raw where "raw = lp_raw lp"
  obtain p q where pq: "normalise_char_range (se_anchor (lp_sel lp)) (lp_cur lp) = (p, q)" by force
  have v: "valid_cursor raw p" "valid_cursor raw q" "cu_line p \<le> cu_line q"
    using a c pq by (auto simp: normalise_char_range_def raw_def split: if_splits)
  have b: "0 \<le> cu_line p" "cu_line p < int (length raw)" "0 \<le> cu_line q" "cu_line q < int (length raw)"
    "0 \<le> cu_col p" "0 \<le> cu_col q" using v by (auto simp: valid_cursor_def)
  have ne: "raw \<noteq> []" using b by auto
  show ?thesis
  proof (cases "se_mode (lp_sel lp) = SelLine")
    case True
    have "(if cu_line (se_anchor (lp_sel lp)) > cu_line (lp_cur lp) then (cu_line (lp_cur lp), cu_line (se_anchor (lp_sel lp)))
        else (cu_line (se_anchor (lp_sel lp)), cu_line (lp_cur lp))) = (cu_line p, cu_line q)"
      using pq by (auto simp: normalise_char_range_def split: if_splits)
    then show ?thesis
      using True b ne
      by (simp add: yank_text_def normalised_selection_def pq visual_range_def extract_range_def linewise_range_def
          raw_texts_lines raw_def [symmetric] Let_def)
  next
    case False
    then have m: "se_mode (lp_sel lp) = SelChar" using sel by (cases "se_mode (lp_sel lp)") (auto simp: has_selection_def)
    have r: "extract_range raw (visual_range lp) = slice_char raw (cu_line p) (cu_col p) (cu_line q) (cu_col q + 1)"
      using False by (simp add: visual_range_def extract_range_def inclusive_range_def pq)
    show ?thesis
    proof (cases "cu_line p = cu_line q")
      case True
      then show ?thesis
        using b ne raw_text_line [OF b(1,2)]
        by (simp add: yank_text_def normalised_selection_def pq m raw_def [symmetric] r slice_char_def go_slice_def
            Let_def min_def max_def)
    next
      case False
      then have between: "raw_texts raw (cu_line p + 1) (cu_line q - 1) = Some (lines_between raw (cu_line p + 1) (cu_line q - 1))"
        using b by (intro raw_texts_lines) auto
      show ?thesis
        using False b ne raw_text_line [OF b(1,2)] raw_text_line [OF b(3,4)] between
        by (simp add: yank_text_def normalised_selection_def pq m raw_def [symmetric] r slice_char_def go_slice_def
            Let_def min_def max_def)
    qed
  qed
qed

section \<open>Every key and every mouse event\<close>

lemma visual_safe:
  assumes ok: "panel_ok lp" and v: "valid_cursor (lp_raw lp) (lp_cur lp)"
  shows "\<exists>r. handle_visual env key lp = Some r \<and> (\<forall>lp' t. r = Some (lp', t) \<longrightarrow> panel_ok lp')"
proof -
  have toggles: "\<exists>lp'. toggle_visual env m lp = Some lp' \<and> panel_ok lp'" for m
    unfolding toggle_visual_def
    using paint_ok [of "lp\<lparr>lp_sel := if se_mode (lp_sel lp) = m then no_selection else \<lparr>se_mode = m, se_anchor = lp_cur lp\<rparr>\<rparr>" env]
      panel_okD [OF ok] v
    by (auto simp: panel_frame_def cursors_fit_def has_selection_def no_selection_def split: if_splits)
  have "panel_ok (lp\<lparr>lp_sel := no_selection\<rparr>)"
    using ok by (auto simp: panel_ok_def panel_frame_def cursors_fit_def has_selection_def no_selection_def)
  moreover have "\<exists>t. yank_text lp = Some t" if "se_mode (lp_sel lp) \<noteq> SelNone"
    using yank_text_range [of lp] that ok v by (auto simp: panel_ok_def cursors_fit_def has_selection_def)
  ultimately show ?thesis
    using toggles [of SelChar] toggles [of SelLine] panel_ok_clear [OF ok]
    by (auto simp: handle_visual_def Let_def)
qed

lemma copy_key_safe:
  assumes ok: "panel_ok lp" and fits: "key_fits key lp"
  shows "safe (handle_copy_key env key lp)"
proof (cases "lp_in_copy lp \<and> lp_raw lp \<noteq> []")
  case True
  then have v: "valid_cursor (lp_raw lp) (lp_cur lp)" using ok by (auto simp: panel_ok_def cursors_fit_def)
  obtain r where r: "handle_visual env key lp = Some r" "\<forall>lp' t. r = Some (lp', t) \<longrightarrow> panel_ok lp'"
    using visual_safe [OF ok v] by blast
  have none: "panel_ok (lp\<lparr>lp_pending := PendNone\<rparr>)" using panel_ok_pending [OF ok, of PendNone] by simp
  have origin: "0 < int (length (lp_raw lp))" using True by simp
  have g: "safe (handle_pend_g env key lp)"
    using apply_range_safe [OF none] valid_words_n(4) [OF v] origin panel_ok_clear [OF none]
    unfolding handle_pend_g_def Let_def
    by (intro safe_if) (auto simp: char_range_def inclusive_range_def valid_cursor_def)
  have f: "safe (handle_pend_find env key lp)"
  proof -
    have "panel_ok (lp\<lparr>lp_pending := PendNone, lp_pending_find := f, lp_last_find := f\<rparr>)" for f
      using none by (simp add: panel_ok_def panel_frame_def)
    then show ?thesis
      using apply_find_safe v panel_ok_clear [OF none] unfolding handle_pend_find_def Let_def by (intro safe_if) auto
  qed
  have o: "safe (handle_pend_text_object env key around lp)" if "lp_op_yank lp" for around
    using apply_range_safe [OF none] panel_ok_clear [OF none] that
    unfolding handle_pend_text_object_def Let_def by (auto split: option.split)
  have c: "panel_ok (lp\<lparr>lp_count := n\<rparr>)" for n using ok by (simp add: panel_ok_def panel_frame_def)
  show ?thesis
  proof (cases r)
    case None
    have op: "lp_op_yank lp" if "lp_pending lp \<in> {PendYankI, PendYankA}"
      using ok that by (auto simp: panel_ok_def panel_frame_def)
    have d: "safe (if length key = 1 \<and> in_range (key ! 0) 0x31 0x39 then
           Some (lp\<lparr>lp_count := wrap64 (wrap64 (lp_count lp * 10) + int (of_char (key ! 0) - 48))\<rparr>, None)
         else if key = ''0'' \<and> lp_count lp > 0 then Some (lp\<lparr>lp_count := wrap64 (lp_count lp * 10)\<rparr>, None)
         else dispatch_key env key lp)"
      by (intro safe_if) (simp_all only: safe_Some c dispatch_safe [OF ok v fits])
    have "handle_copy_key env key lp = (case lp_pending lp of
        PendG \<Rightarrow> handle_pend_g env key lp
      | PendFind \<Rightarrow> handle_pend_find env key lp
      | PendYankI \<Rightarrow> handle_pend_text_object env key False lp
      | PendYankA \<Rightarrow> handle_pend_text_object env key True lp
      | PendNone \<Rightarrow>
         (if length key = 1 \<and> in_range (key ! 0) 0x31 0x39 then
           Some (lp\<lparr>lp_count := wrap64 (wrap64 (lp_count lp * 10) + int (of_char (key ! 0) - 48))\<rparr>, None)
         else if key = ''0'' \<and> lp_count lp > 0 then Some (lp\<lparr>lp_count := wrap64 (lp_count lp * 10)\<rparr>, None)
         else dispatch_key env key lp))"
      using True r(1) None unfolding handle_copy_key_def by (cases "lp_pending lp") (simp_all only: simp_thms if_False option.case pending.case)
    then show ?thesis using d g f o op by (cases "lp_pending lp") (auto simp only: pending.case insert_iff)
  next
    case (Some x)
    then show ?thesis using True r by (cases x) (simp add: handle_copy_key_def)
  qed
next
  case False
  then show ?thesis using ok by (auto simp: handle_copy_key_def)
qed

lemma scroll_key_ok: "panel_ok lp \<Longrightarrow> panel_ok (scroll_key key lp)"
  using panel_ok_yoff [of lp] panel_ok_win [of lp]
  by (auto simp: scroll_key_def page_up_def page_down_def scroll_up_def scroll_down_def goto_top_def goto_bottom_def
      max_yoff_def panel_ok_def panel_frame_def Let_def)

lemma scroll_mouse_ok: "panel_ok lp \<Longrightarrow> panel_ok (scroll_mouse press w lp)"
  using panel_ok_yoff [of lp]
  by (auto simp: scroll_mouse_def window_wheel_def scroll_up_def scroll_down_def panel_ok_def panel_frame_def Let_def
      split: wheel.split)

lemma line_position:
  "i < length raw \<Longrightarrow> 0 \<le> c \<Longrightarrow> c \<le> int (length (strip_ansi (raw ! i))) \<Longrightarrow> valid_cursor raw (Cursor (int i) c)"
  by (simp add: valid_cursor_def line_len_def stripped_line_def)

lemma pieces_before_ge: "0 \<le> pieces_before rows raw k"
  by (induction k) auto

lemma col_for_row_bounds:
  assumes "0 \<le> cx" "0 \<le> row" "row < int (length (lp_row_raw lp))" "lp_row_raw lp ! nat row < length (lp_raw lp)"
  shows "0 \<le> col_for_rendered_row row cx lp
    \<and> col_for_rendered_row row cx lp \<le> int (length (strip_ansi (lp_raw lp ! (lp_row_raw lp ! nat row))))"
  using assms by (auto simp: col_for_rendered_row_def Let_def)

lemma mouse_cursor_valid:
  assumes ok: "panel_frame lp" and c: "mouse_to_cursor x y lp = Some c"
  shows "valid_cursor (lp_raw lp) c"
proof -
  obtain cx cy where xy: "abs_to_content x y lp = Some (cx, cy)"
    using c by (auto simp: mouse_to_cursor_def split: option.splits)
  then have "0 \<le> cx" "0 \<le> cy" by (auto simp: abs_to_content_def Let_def split: if_splits)
  moreover have "valid_cursor (lp_raw lp) (Cursor (int (length (lp_raw lp)) - 1) 0)" if "lp_raw lp \<noteq> []"
    using line_position [of "length (lp_raw lp) - 1" "lp_raw lp" 0] that by (cases "lp_raw lp") auto
  ultimately show ?thesis
    using c xy ok col_for_row_bounds [of cx "wi_yoff (lp_win lp) + cy" lp]
    by (auto simp: mouse_to_cursor_def panel_frame_def Let_def not_le intro!: line_position split: if_splits)
qed

lemma clamp_to_pane_valid:
  assumes ok: "panel_ok lp" and a: "valid_cursor (lp_raw lp) (lp_drag_anchor lp)"
  shows "valid_cursor (lp_raw lp) (clamp_to_pane x y lp)"
proof -
  have rows: "k < length (lp_row_raw lp) \<Longrightarrow> lp_row_raw lp ! k < length (lp_raw lp)" for k
    using ok valid_nonempty [OF a] by (auto simp: panel_ok_def list_all_iff)
  have at_row: "valid_cursor (lp_raw lp) (if lp_row_raw lp ! nat k \<ge> length (lp_raw lp) then lp_drag_anchor lp
      else Cursor (int (lp_row_raw lp ! nat k)) (if b then last_col lp (lp_row_raw lp ! nat k) else 0))"
    if "0 \<le> k" "k < int (length (lp_row_raw lp))" for k b
    using rows [of "nat k"] that a nat_less_iff [OF that(1), of "length (lp_row_raw lp)"]
    by (auto simp: last_col_def intro!: line_position)
  have top: "valid_cursor (lp_raw lp) (Cursor (int (lp_row_raw lp ! nat k)) 0)"
    if "0 \<le> k" "k < int (length (lp_row_raw lp))" for k
    using at_row [OF that, of False] rows [of "nat k"] nat_less_iff [OF that(1), of "length (lp_row_raw lp)"] that by simp
  have bounds: "0 \<le> wi_yoff (lp_win lp)" "1 \<le> wi_height (lp_win lp)" using ok by (simp_all add: panel_ok_def panel_frame_def)
  have valid_if: "valid_cursor (lp_raw lp) (if b then p else q)"
    if "b \<Longrightarrow> valid_cursor (lp_raw lp) p" "\<not> b \<Longrightarrow> valid_cursor (lp_raw lp) q" for b p q
    using that by simp
  have nonempty: "0 < int (length (lp_row_raw lp))" if "\<not> (lp_row_raw lp = [] \<or> lp_raw lp = [])" using that by simp
  show ?thesis
    unfolding clamp_to_pane_def Let_def
    by (rule valid_if, rule valid_if, rule a, rule top, insert bounds nonempty, simp, simp,
        rule valid_if, rule valid_if, rule a, rule valid_if, rule a, rule at_row, simp, simp,
        rule valid_if, rule a, rule at_row, simp, simp)
qed

lemma mouse_safe:
  assumes ok: "panel_ok lp"
  shows "safe (handle_mouse env act b x y lp)"
proof -
  note frame = panel_okD [OF ok]
  have move: "safe (map_option (\<lambda>lp1. (lp1, None)) (paint_matches env (lp\<lparr>lp_cur := c\<rparr>)))"
    if "lp_pressed lp" "valid_cursor (lp_raw lp) c" for c
    using frame that by (intro safe_paint) (auto simp: cursors_fit_def has_selection_def)
  have press: "safe (map_option (\<lambda>lp1. (lp1, None)) (paint_matches env
      (lp\<lparr>lp_cur := c, lp_sel := \<lparr>se_mode = SelChar, se_anchor = c\<rparr>, lp_pressed := True, lp_drag_anchor := c, lp_sticky := False\<rparr>)))"
    if "valid_cursor (lp_raw lp) c" for c
    using frame that by (intro safe_paint) (auto simp: panel_frame_def cursors_fit_def has_selection_def)
  have released: "safe (map_option (\<lambda>lp3. (lp3, t)) (paint_matches env (lp\<lparr>lp_pressed := False, lp_sel := no_selection\<rparr>)))"
    for t
    using frame by (intro safe_paint) (auto simp: panel_frame_def cursors_fit_def has_selection_def no_selection_def)
  have yanked: "\<exists>t. yank_text (lp\<lparr>lp_pressed := False\<rparr>) = Some t" if "lp_pressed lp"
  proof (cases "has_selection lp")
    case True
    then show ?thesis
      using yank_text_range [of "lp\<lparr>lp_pressed := False\<rparr>"] frame(2) by (simp add: cursors_fit_def has_selection_def)
  next
    case False
    then show ?thesis
      using frame(2) that
      by (auto simp: yank_text_def has_selection_def cursors_fit_def valid_cursor_def raw_text_def Let_def split: prod.split)
  qed
  have left: "safe (case act of
             MousePress \<Rightarrow>
               (case mouse_to_cursor x y lp of
                  None \<Rightarrow> Some (lp, None)
                | Some c \<Rightarrow> map_option (\<lambda>lp1. (lp1, None)) (paint_matches env
                    (lp\<lparr>lp_cur := c, lp_sel := \<lparr>se_mode = SelChar, se_anchor = c\<rparr>, lp_pressed := True,
                       lp_drag_anchor := c, lp_sticky := False\<rparr>)))
           | MouseMotion \<Rightarrow>
               (if \<not> lp_pressed lp then Some (lp, None)
                else map_option (\<lambda>lp1. (lp1, None)) (paint_matches env (lp\<lparr>lp_cur :=
                  (case mouse_to_cursor x y lp of Some c \<Rightarrow> c | None \<Rightarrow> clamp_to_pane x y lp)\<rparr>)))
           | MouseRelease \<Rightarrow>
               (let lp1 = lp\<lparr>lp_pressed := False\<rparr>; lp2 = lp1\<lparr>lp_sel := no_selection\<rparr>
                in if \<not> lp_pressed lp then Some (lp, None)
                   else if lp_cur lp1 = lp_drag_anchor lp1 then map_option (\<lambda>lp3. (lp3, None)) (paint_matches env lp2)
                   else case yank_text lp1 of
                     None \<Rightarrow> None
                   | Some t \<Rightarrow> map_option (\<lambda>lp3. (lp3, if t = [] then None else Some t)) (paint_matches env lp2)))"
    (is "safe ?h")
  proof (cases act)
    case MousePress
    then show ?thesis
      using ok press mouse_cursor_valid [OF frame(1)] by (cases "mouse_to_cursor x y lp") auto
  next
    case MouseMotion
    have "lp_pressed lp \<Longrightarrow> valid_cursor (lp_raw lp) (clamp_to_pane x y lp)"
      using clamp_to_pane_valid [OF ok] frame(2) by (simp add: cursors_fit_def)
    then show ?thesis
      using MouseMotion ok move mouse_cursor_valid [OF frame(1)] by (cases "mouse_to_cursor x y lp") auto
  next
    case MouseRelease
    show ?thesis
    proof (cases "lp_pressed lp")
      case True
      then obtain t where "yank_text (lp\<lparr>lp_pressed := False\<rparr>) = Some t" using yanked by blast
      then show ?thesis using True MouseRelease released by (simp add: Let_def)
    next
      case False
      then show ?thesis using MouseRelease ok by (simp add: Let_def)
    qed
  qed
  show ?thesis
  proof (cases b)
    case (MouseWheel w)
    then show ?thesis using scroll_mouse_ok [OF ok] by (simp add: handle_mouse_def)
  next
    case MouseLeft
    then show ?thesis using left by (simp add: handle_mouse_def)
  next
    case MouseOther
    then show ?thesis using left ok by (cases act) (simp_all add: handle_mouse_def)
  qed
qed

lemma set_lines_ok:
  assumes ok: "panel_ok lp" and fits: "cursors_fit (lp_raw (rebuild_display_lines env (lp\<lparr>lp_original := ls\<rparr>))) lp"
  shows "\<exists>lp'. set_lines env ls lp = Some lp' \<and> panel_ok lp'"
proof -
  define lp1 where "lp1 = rebuild_display_lines env (lp\<lparr>lp_original := ls\<rparr>)"
  define lp2 where "lp2 = (if gutter_width lp1 \<noteq> gutter_width lp then fit_width lp1 else lp1)"
  have "panel_frame lp2" "cursors_fit (lp_raw lp2) lp2"
    using ok fits by (auto simp: lp2_def lp1_def rebuild_display_lines_def fit_width_def panel_ok_def panel_frame_def Let_def)
  then obtain lp3 where lp3: "render_content env lp2 = Some lp3" "panel_ok lp3" using render_ok by blast
  moreover have "panel_ok (set_win goto_bottom lp3)"
    using lp3(2) panel_ok_win [of lp3] by (auto simp: panel_ok_def panel_frame_def goto_bottom_def max_yoff_def)
  ultimately show ?thesis by (auto simp: set_lines_def Let_def lp1_def [symmetric] lp2_def [symmetric])
qed

lemma toggle_pretty_ok:
  assumes ok: "panel_ok lp"
  shows "cursors_fit (lp_raw (rebuild_display_lines env (lp\<lparr>lp_json := on\<rparr>))) lp
      \<Longrightarrow> \<exists>lp'. set_json_pretty env on lp = Some lp' \<and> panel_ok lp'"
    and "cursors_fit (lp_raw (rebuild_display_lines env (lp\<lparr>lp_sql := on\<rparr>))) lp
      \<Longrightarrow> \<exists>lp'. set_sql_pretty env on lp = Some lp' \<and> panel_ok lp'"
  using ok render_ok [of "rebuild_display_lines env (lp\<lparr>lp_json := on\<rparr>)" env]
    render_ok [of "rebuild_display_lines env (lp\<lparr>lp_sql := on\<rparr>)" env]
  by (auto simp: set_json_pretty_def set_sql_pretty_def rebuild_display_lines_def panel_ok_def panel_frame_def Let_def)

lemma fit_width_frame [simp]: "lp_raw (fit_width lp) = lp_raw lp" "panel_frame (fit_width lp) = panel_frame lp"
  "cursors_fit raw (fit_width lp) = cursors_fit raw lp"
  by (simp_all add: fit_width_def panel_frame_def)

lemma redraw_ok:
  assumes ok: "panel_ok lp"
  shows "\<exists>lp'. panel_set_filter env rx lp = Some lp' \<and> panel_ok lp'"
    and "\<exists>lp'. set_wrap env on lp = Some lp' \<and> panel_ok lp'"
    and "\<exists>lp'. set_severity env on lp = Some lp' \<and> panel_ok lp'"
    and "\<exists>lp'. set_gutter env on lp = Some lp' \<and> panel_ok lp'"
    and "\<exists>lp'. clear_selection env lp = Some lp' \<and> panel_ok lp'"
proof -
  note frame = panel_okD [OF ok]
  have sel: "cursors_fit (lp_raw lp) (lp\<lparr>lp_sel := no_selection\<rparr>)"
    using frame(2) by (auto simp: cursors_fit_def has_selection_def no_selection_def)
  show "\<exists>lp'. panel_set_filter env rx lp = Some lp' \<and> panel_ok lp'"
    using render_ok [of "lp\<lparr>lp_filter := rx\<rparr>" env] frame by (simp add: panel_set_filter_def panel_frame_def)
  show "\<exists>lp'. set_wrap env on lp = Some lp' \<and> panel_ok lp'"
    using paint_ok [of "lp\<lparr>lp_wrap := on\<rparr>" env] frame ok by (auto simp: set_wrap_def panel_frame_def)
  show "\<exists>lp'. set_severity env on lp = Some lp' \<and> panel_ok lp'"
    using paint_ok [of "lp\<lparr>lp_severity := on\<rparr>" env] frame ok by (auto simp: set_severity_def panel_frame_def)
  have "panel_frame (lp\<lparr>lp_gutter := on\<rparr>)" using frame by (simp add: panel_frame_def)
  then show "\<exists>lp'. set_gutter env on lp = Some lp' \<and> panel_ok lp'"
    using render_ok [of "fit_width (lp\<lparr>lp_gutter := on\<rparr>)" env] frame ok by (auto simp: set_gutter_def)
  show "\<exists>lp'. clear_selection env lp = Some lp' \<and> panel_ok lp'"
    using paint_ok [of "lp\<lparr>lp_sel := no_selection\<rparr>" env] frame sel ok by (auto simp: clear_selection_def panel_frame_def)
qed

lemma set_copy_mode_ok:
  assumes ok: "panel_ok lp"
  shows "\<exists>lp'. set_copy_mode env on lp = Some lp' \<and> panel_ok lp'"
proof (cases "lp_in_copy lp = on")
  case True
  then show ?thesis using ok by (simp add: set_copy_mode_def)
next
  case False
  define y where "y = wi_yoff (lp_win lp)"
  define top where "top = (if y \<ge> 0 \<and> y < int (length (lp_row_raw lp)) then int (lp_row_raw lp ! nat y) else y)"
  define p where "p = Cursor (min top (max 0 (int (length (lp_raw lp)) - 1))) 0"
  define lp2 where "lp2 = (if on then clamp_col (lp\<lparr>lp_in_copy := on, lp_sticky := False, lp_cur := p\<rparr>)
    else (clear_transient (lp\<lparr>lp_in_copy := on\<rparr>))\<lparr>lp_last_find := no_find, lp_sel := no_selection\<rparr>)"
  have top: "0 \<le> top" using ok by (auto simp: top_def y_def panel_ok_def panel_frame_def)
  have "panel_frame lp2"
    using ok by (auto simp: lp2_def panel_ok_def panel_frame_def clear_transient_def clamp_col_def Let_def)
  moreover have "cursors_fit (lp_raw lp2) lp2"
  proof (cases on)
    case True
    let ?l = "lp\<lparr>lp_in_copy := on, lp_sticky := False\<rparr>"
    have fits: "cursors_fit (lp_raw lp) lp" using ok by (simp add: panel_ok_def)
    show ?thesis
    proof (cases "lp_raw lp = []")
      case True
      then have "lp_cur lp2 = Cursor 0 0" "\<not> has_selection lp2" "\<not> lp_pressed lp2" "lp_raw lp2 = []"
        using \<open>on\<close> top fits
        by (auto simp: lp2_def clamp_col_def p_def line_len_def stripped_line_def has_selection_def cursors_fit_def
            valid_cursor_def Let_def)
      then show ?thesis by (simp add: cursors_fit_def)
    next
      case False
      then have v: "valid_cursor (lp_raw lp) (lp_cur lp2)"
        using valid_clamp [of p ?l] top \<open>on\<close> by (simp add: lp2_def p_def min_def max_def Suc_leI)
      then show ?thesis
        using fits \<open>on\<close> by (auto simp: lp2_def cursors_fit_def clamp_col_def has_selection_def Let_def)
    qed
  next
    case False
    then show ?thesis
      using ok by (auto simp: lp2_def panel_ok_def cursors_fit_def clear_transient_def has_selection_def no_selection_def)
  qed
  moreover have "set_copy_mode env on lp = render_content env (fit_width lp2)"
    using False by (simp only: set_copy_mode_def Let_def lp2_def p_def top_def y_def if_False log_panel.simps)
  ultimately show ?thesis using render_ok [of "fit_width lp2" env] by simp
qed

text \<open>The jumps: the panel, and for the variants of copy mode the cursor on the match.\<close>

definition safe_jump :: "(log_panel \<times> bool \<times> bool) option \<Rightarrow> bool" where
  "safe_jump r \<longleftrightarrow> (case r of None \<Rightarrow> False | Some (lp, x) \<Rightarrow> panel_ok lp)"

lemma scroll_to_match_ok:
  assumes ok: "panel_ok lp"
  shows "\<exists>lp'. scroll_to_match env lp = Some lp' \<and> panel_ok lp'"
proof -
  obtain lp1 where lp1: "paint_matches env lp = Some lp1" "panel_ok lp1" using paint_ok [OF panel_okD [OF ok]] by blast
  have "panel_ok ((set_win (set_yoff n) lp1)\<lparr>lp_sticky := False\<rparr>)" for n
    using panel_ok_yoff [OF lp1(2)] by (simp add: panel_ok_def panel_frame_def)
  then show ?thesis using lp1(1) ok by (simp add: scroll_to_match_def Let_def)
qed

lemma jump_ok: "panel_ok lp \<Longrightarrow> safe_jump (jump_next env lp)" "panel_ok lp \<Longrightarrow> safe_jump (jump_prev env lp)"
proof -
  assume ok: "panel_ok lp"
  have "\<exists>lp'. scroll_to_match env (lp\<lparr>lp_match_cur := c\<rparr>) = Some lp' \<and> panel_ok lp'" for c
    using ok by (intro scroll_to_match_ok) (simp add: panel_ok_def panel_frame_def)
  then have "safe_jump (map_option (\<lambda>lp1. (lp1, x)) (scroll_to_match env (lp\<lparr>lp_match_cur := c\<rparr>)))" for c x
    unfolding safe_jump_def by (metis (mono_tags, lifting) case_prod_conv option.simps(5,9))
  then show "safe_jump (jump_next env lp)" "safe_jump (jump_prev env lp)"
    using ok by (simp_all add: jump_next_def jump_prev_def Let_def safe_jump_def [of "Some _"])
qed

lemma jump_cursor_ok:
  assumes "safe_jump r"
  shows "safe_jump (jump_cursor env r)"
proof -
  obtain lp ok wrapped where r: "r = Some (lp, ok, wrapped)" "panel_ok lp" using assms by (auto simp: safe_jump_def split: option.splits)
  show ?thesis
  proof (cases "ok \<and> lp_in_copy lp \<and> lp_match_cur lp \<ge> 0 \<and> lp_match_cur lp < int (length (lp_matches lp))")
    case True
    define p where "p = Cursor (int (lp_matches lp ! nat (lp_match_cur lp))) 0"
    have "nat (lp_match_cur lp) < length (lp_matches lp)" using True by (simp add: nat_less_iff)
    then have "lp_matches lp ! nat (lp_match_cur lp) < length (lp_raw lp)"
      using r(2) unfolding panel_ok_def list_all_iff by (metis nth_mem)
    then have v: "valid_cursor (lp_raw lp) p" by (simp add: p_def line_position)
    have "cursors_fit (lp_raw lp) (lp\<lparr>lp_cur := p\<rparr>)"
      using v panel_okD(2) [OF r(2)] by (auto simp: cursors_fit_def has_selection_def)
    then obtain lp1 where "paint_matches env (lp\<lparr>lp_cur := p\<rparr>) = Some lp1" "panel_ok lp1"
      using paint_ok [of "lp\<lparr>lp_cur := p\<rparr>" env] panel_okD [OF r(2)] by auto
    then show ?thesis using True panel_ok_visible by (simp add: jump_cursor_def r(1) p_def safe_jump_def)
  next
    case False
    then show ?thesis using r by (auto simp: jump_cursor_def safe_jump_def)
  qed
qed

section \<open>Events\<close>

text \<open>
  The calls of the terminal client, one per exported method that changes the panel; \<open>Match\<close> is \<open>n\<close> or
  \<open>N\<close>, which moves the cursor too in copy mode.
\<close>

datatype panel_event =
    CopyKey string | ScrollKey string | Mouse mouse_action mouse_button int int
  | Lines "string list" | FilterRx "filter_rx option" | WrapTo bool | SeverityTo bool | JsonTo bool | SqlTo bool
  | Resize int int | Origin int int | GutterTo bool | CopyMode bool | Match bool | PauseKey | EscapeKey | Unselect

definition quietly :: "log_panel option \<Rightarrow> key_result" where
  "quietly r = map_option (\<lambda>lp. (lp, None)) r"

definition panel_step :: "render_env \<Rightarrow> panel_event \<Rightarrow> log_panel \<Rightarrow> key_result" where
  "panel_step env ev lp =
     (case ev of
        CopyKey key \<Rightarrow> handle_copy_key env key lp
      | ScrollKey key \<Rightarrow> Some (scroll_key key lp, None)
      | Mouse act b x y \<Rightarrow> handle_mouse env act b x y lp
      | Lines ls \<Rightarrow> quietly (set_lines env ls lp)
      | FilterRx rx \<Rightarrow> quietly (panel_set_filter env rx lp)
      | WrapTo on \<Rightarrow> quietly (set_wrap env on lp)
      | SeverityTo on \<Rightarrow> quietly (set_severity env on lp)
      | JsonTo on \<Rightarrow> quietly (set_json_pretty env on lp)
      | SqlTo on \<Rightarrow> quietly (set_sql_pretty env on lp)
      | Resize w h \<Rightarrow> Some (set_size w h lp, None)
      | Origin x y \<Rightarrow> Some (set_origin x y lp, None)
      | GutterTo on \<Rightarrow> quietly (set_gutter env on lp)
      | CopyMode on \<Rightarrow> quietly (set_copy_mode env on lp)
      | Match fwd \<Rightarrow>
          (let r = (if fwd then jump_next env lp else jump_prev env lp)
           in quietly (map_option fst (if lp_in_copy lp then jump_cursor env r else r)))
      | PauseKey \<Rightarrow> Some (toggle_paused lp, None)
      | EscapeKey \<Rightarrow> Some (fst (clear_pending lp), None)
      | Unselect \<Rightarrow> quietly (clear_selection env lp))"

text \<open>New lines must leave the positions of copy mode, of a selection and of a drag inside the buffer.\<close>

definition event_fits :: "render_env \<Rightarrow> panel_event \<Rightarrow> log_panel \<Rightarrow> bool" where
  "event_fits env ev lp \<longleftrightarrow>
     (case ev of
        CopyKey key \<Rightarrow> key_fits key lp
      | Lines ls \<Rightarrow> cursors_fit (lp_raw (rebuild_display_lines env (lp\<lparr>lp_original := ls\<rparr>))) lp
      | JsonTo on \<Rightarrow> cursors_fit (lp_raw (rebuild_display_lines env (lp\<lparr>lp_json := on\<rparr>))) lp
      | SqlTo on \<Rightarrow> cursors_fit (lp_raw (rebuild_display_lines env (lp\<lparr>lp_sql := on\<rparr>))) lp
      | _ \<Rightarrow> True)"

fun panel_run :: "render_env \<Rightarrow> panel_event list \<Rightarrow> log_panel \<Rightarrow> (log_panel \<times> string list) option" where
  "panel_run env [] lp = Some (lp, [])"
| "panel_run env (ev # evs) lp =
     (case panel_step env ev lp of
        None \<Rightarrow> None
      | Some (lp1, t) \<Rightarrow> map_option (apsnd ((@) (case t of None \<Rightarrow> [] | Some s \<Rightarrow> [s]))) (panel_run env evs lp1))"

fun run_fits :: "render_env \<Rightarrow> panel_event list \<Rightarrow> log_panel \<Rightarrow> bool" where
  "run_fits env [] lp = True"
| "run_fits env (ev # evs) lp =
     (event_fits env ev lp \<and> (case panel_step env ev lp of None \<Rightarrow> True | Some (lp1, t) \<Rightarrow> run_fits env evs lp1))"

lemma quietly_ok: "\<exists>lp'. r = Some lp' \<and> panel_ok lp' \<Longrightarrow> safe (quietly r)"
  by (auto simp: quietly_def)

lemma set_size_ok: "panel_ok lp \<Longrightarrow> panel_ok (set_size w h lp)"
  by (simp add: set_size_def fit_width_def panel_ok_def panel_frame_def)

lemma step_safe:
  assumes ok: "panel_ok lp" and fits: "event_fits env ev lp"
  shows "safe (panel_step env ev lp)"
proof (cases ev)
  case (CopyKey key)
  then show ?thesis using copy_key_safe [OF ok] fits by (simp add: panel_step_def event_fits_def)
next
  case (Match fwd)
  have "safe_jump (if lp_in_copy lp then jump_cursor env (if fwd then jump_next env lp else jump_prev env lp)
      else if fwd then jump_next env lp else jump_prev env lp)"
    using jump_ok [OF ok] jump_cursor_ok by simp
  then show ?thesis by (auto simp: panel_step_def Match Let_def safe_jump_def intro!: quietly_ok split: option.splits)
next
  case (EscapeKey)
  then show ?thesis using ok panel_ok_clear by (simp add: panel_step_def clear_pending_def)
next
  case (PauseKey)
  then show ?thesis using ok by (simp add: panel_step_def toggle_paused_def panel_ok_def panel_frame_def)
next
  case (Origin x y)
  then show ?thesis using ok by (simp add: panel_step_def set_origin_def panel_ok_def panel_frame_def)
qed (insert ok fits, auto simp: panel_step_def event_fits_def intro: quietly_ok mouse_safe scroll_key_ok set_lines_ok
    redraw_ok toggle_pretty_ok set_copy_mode_ok set_size_ok)

lemma run_safe:
  "panel_ok lp \<Longrightarrow> run_fits env evs lp \<Longrightarrow> \<exists>lp' ts. panel_run env evs lp = Some (lp', ts) \<and> panel_ok lp'"
proof (induction env evs lp rule: panel_run.induct)
  case (2 env ev evs lp)
  obtain lp1 t where "panel_step env ev lp = Some (lp1, t)" "panel_ok lp1"
    using step_safe [OF 2(2), of env ev] 2(3) by (auto simp: safe_def)
  then show ?case using 2(1) [of "(lp1, t)" lp1 t] 2(3) by auto
qed auto

section \<open>Properties\<close>

text \<open>
  C11: the log pane never panics: from a state with the invariant (a new panel has it), any sequence of
  its events, keys, mouse events, new lines, toggles and resizes in any order, runs to the end without
  an index out of range, provided new lines leave the cursor, the selection and a drag inside the buffer,
  typed counts stay below \<open>2^31\<close>, and \<open>H\<close> is pressed only where the window starts above the last line.
\<close>
theorem panel_never_panics:
  assumes "panel_ok lp" "run_fits env evs lp"
  shows "\<exists>lp' yanks. panel_run env evs lp = Some (lp', yanks) \<and> panel_ok lp'"
  by (rule run_safe [OF assms])

definition plain_env :: render_env where
  "plain_env = \<lparr>re_gutter = (\<lambda>s. s), re_json = (\<lambda>_. None)\<rparr>"

lemma new_panel_ok: "panel_ok (new_log_panel w h)"
  by (simp add: panel_ok_def panel_frame_def cursors_fit_def has_selection_def new_log_panel_def new_window_def
      no_selection_def)

definition demo_events :: "panel_event list" where
  "demo_events = [Lines [''ab'', ''c''], CopyMode True, CopyKey ''v'', CopyKey ''j'', CopyKey ''y'', CopyKey ''2'']"

theorem panel_never_panics_witness:
  "\<exists>lp'. panel_run plain_env demo_events (new_log_panel 20 10) = Some (lp', [''ab'' @ [nl] @ ''c'']) \<and> panel_ok lp'"
proof -
  have "run_fits plain_env demo_events (new_log_panel 20 10)" by code_simp
  moreover have "map_option snd (panel_run plain_env demo_events (new_log_panel 20 10)) = Some [''ab'' @ [nl] @ ''c'']"
    by code_simp
  ultimately show ?thesis using panel_never_panics [OF new_panel_ok] by fastforce
qed

text \<open>
  C29: the two ways to yank agree: a visual selection (\<open>v\<close> or \<open>V\<close>, then \<open>y\<close>) copies exactly what the operator
  copies for the range from its anchor to the cursor, taken inclusively or line by line, whichever end comes
  first.
\<close>
theorem visual_yank_agrees:
  assumes "has_selection lp" "valid_cursor (lp_raw lp) (se_anchor (lp_sel lp))" "valid_cursor (lp_raw lp) (lp_cur lp)"
  shows "yank_text lp = Some (extract_range (lp_raw lp)
    (if se_mode (lp_sel lp) = SelLine then linewise_range (se_anchor (lp_sel lp)) (lp_cur lp)
     else inclusive_range (se_anchor (lp_sel lp)) (lp_cur lp)))"
  using yank_text_range [OF assms] by (simp add: visual_range_def)

theorem visual_yank_agrees_witness:
  "yank_text ((new_log_panel 20 10)\<lparr>lp_raw := [''ab'', ''cd''], lp_sel := \<lparr>se_mode = SelChar, se_anchor = Cursor 1 0\<rparr>,
     lp_cur := Cursor 0 1\<rparr>) = Some (''b'' @ [nl] @ ''c'')"
proof -
  let ?lp = "(new_log_panel 20 10)\<lparr>lp_raw := [''ab'', ''cd''], lp_sel := \<lparr>se_mode = SelChar, se_anchor = Cursor 1 0\<rparr>,
     lp_cur := Cursor 0 1\<rparr>"
  have "has_selection ?lp" "valid_cursor (lp_raw ?lp) (se_anchor (lp_sel ?lp))" "valid_cursor (lp_raw ?lp) (lp_cur ?lp)"
    by (simp_all add: has_selection_def valid_cursor_def line_len_def stripped_line_def strip_ansi_def)
  moreover have "extract_range [''ab'', ''cd''] (inclusive_range (Cursor 1 0) (Cursor 0 1)) = ''b'' @ [nl] @ ''c''"
    by code_simp
  ultimately show ?thesis using visual_yank_agrees [of ?lp] by simp
qed

section \<open>Where the conditions fail\<close>

text \<open>
  \<open>H\<close> takes the first row of the window for a line: on one wrapped line, scrolled to the bottom, the
  cursor is put on line 5 of a buffer of one line, and painting it panics.
\<close>

lemma h_panics_when_wrapped:
  "panel_run plain_env [Lines [''abcdefgh''], CopyMode True, CopyKey ''H''] (new_log_panel 5 5) = None"
  by code_simp

text \<open>New lines are not checked against the cursor of copy mode: a shorter buffer makes painting panic.\<close>

lemma fewer_lines_panic:
  "panel_run plain_env [Lines [''a'', ''b''], CopyMode True, CopyKey ''j'', Lines [''a'']] (new_log_panel 20 10) = None"
  by code_simp

text \<open>
  With as many lines, but a shorter one under the cursor (the ring at its capacity moves every line up),
  searching backwards with \<open>F\<close> indexes the new line at the old column.
\<close>

lemma find_back_panics:
  "panel_run plain_env [Lines [''abcdef''], CopyMode True, CopyKey ''$'', Lines [''ab''], CopyKey ''F'', CopyKey ''a'']
     (new_log_panel 20 10) = None"
  by code_simp

text \<open>A count is not bounded: \<open>9223372036854775807+\<close> on the second line wraps to a negative line and panics.\<close>

lemma count_overflow_panics:
  "handle_copy_key plain_env ''+''
     ((new_log_panel 20 10)\<lparr>lp_raw := [''a'', ''b''], lp_in_copy := True, lp_cur := Cursor 1 0, lp_count := 2 ^ 63 - 1\<rparr>) = None"
  by code_simp

text \<open>The character after \<open>f\<close> is looked at by the visual mode first: \<open>f v\<close> starts a selection and keeps waiting.\<close>

lemma find_v_selects:
  "map_option (\<lambda>(lp, ts). (se_mode (lp_sel lp), lp_pending lp, lp_cur lp))
     (panel_run plain_env [Lines [''a v''], CopyMode True, CopyKey ''f'', CopyKey ''v''] (new_log_panel 20 10))
   = Some (SelChar, PendFind, Cursor 0 0)"
  by code_simp

end
