(* ===== verification/Launch.thy ===== *)
theory Launch
  imports Daemon
begin

text \<open>
  Starting and stopping the daemon, \<open>cmd/procs\<close>: the processes that \<open>procs\<close>, \<open>procs daemon\<close> and \<open>procs kill\<close>
  run against each other, with the files they share for one configuration: the pidfile with its
  advisory lock, the socket, and the list of children. A process is its place in the source between two
  system calls; any process may take the next step or crash at any moment.
\<close>

section \<open>The shared files\<close>

datatype daemon_pc =
    DInit | DOpen | DLock nat | DClear nat | DListen nat | DServe nat
  | DStop nat | DRmChildren nat | DRmSock nat | DRmPid nat | DClose nat | DExit

datatype launch_pc =
    LDial | LOpen | LTry nat | LUnlock nat | LWarn | LRemove | LSpawn | LWait | LUp | LFail

datatype kill_pc = KDial bool | KDrain nat bool | KOrphans | KDone

datatype program = DaemonAt daemon_pc | LauncherAt launch_pc | KillerAt kill_pc | Gone

text \<open>
  The pidfile's name leads to an inode, or to none; a lock belongs to an inode, not to the name. The
  socket's name leads to the listener of the process that bound it. \<open>sy_unlinks\<close> counts how often the
  pidfile was removed.
\<close>

record sys =
  sy_pidfile :: "nat option"
  sy_inodes :: nat
  sy_locks :: "nat \<Rightarrow> nat option"
  sy_sock :: "nat option"
  sy_children :: "child_rec list option"
  sy_procs :: "program list"
  sy_warned :: "child_rec list"
  sy_killed :: "int list"
  sy_unlinks :: nat

definition no_sys :: sys where
  "no_sys = \<lparr>sy_pidfile = None, sy_inodes = 0, sy_locks = (\<lambda>_. None), sy_sock = None, sy_children = None,
     sy_procs = [], sy_warned = [], sy_killed = [], sy_unlinks = 0\<rparr>"

text \<open>\<open>open\<close> with \<open>O_CREATE\<close>, and \<open>flock\<close> without waiting.\<close>

definition open_pidfile :: "sys \<Rightarrow> nat \<times> sys" where
  "open_pidfile s =
     (case sy_pidfile s of
        Some i \<Rightarrow> (i, s)
      | None \<Rightarrow> (sy_inodes s, s\<lparr>sy_pidfile := Some (sy_inodes s), sy_inodes := sy_inodes s + 1\<rparr>))"

definition flock :: "nat \<Rightarrow> nat \<Rightarrow> sys \<Rightarrow> bool \<times> sys" where
  "flock p i s =
     (if sy_locks s i = None then (True, s\<lparr>sy_locks := (sy_locks s)(i := Some p)\<rparr>) else (False, s))"

definition funlock :: "nat \<Rightarrow> nat \<Rightarrow> sys \<Rightarrow> sys" where
  "funlock p i s =
     (if sy_locks s i = Some p then s\<lparr>sy_locks := (sy_locks s)(i := None)\<rparr> else s)"

definition serves :: "sys \<Rightarrow> nat \<Rightarrow> bool" where
  "serves s d \<longleftrightarrow> d < length (sy_procs s) \<and> (case sy_procs s ! d of DaemonAt (DServe i) \<Rightarrow> True | _ \<Rightarrow> False)"

text \<open>\<open>DialIfAlive\<close>: the daemon that accepts on the socket's name.\<close>

definition dial_if_alive :: "sys \<Rightarrow> nat option" where
  "dial_if_alive s = (case sy_sock s of Some d \<Rightarrow> if serves s d then Some d else None | None \<Rightarrow> None)"

section \<open>The daemon\<close>

text \<open>
  \<open>runDaemon\<close> and \<open>acquireDaemonLock\<close>. \<open>ok\<close> is the answer of the call at this place: the configuration and the
  cache directory, the file operations, and in \<open>DServe\<close> whether shutdown was requested. A daemon that
  gives up with the lock taken runs the deferred calls registered so far; at the end they run in reverse
  order: children file, socket, pidfile, lock.
\<close>

fun daemon_step :: "bool \<Rightarrow> nat \<Rightarrow> daemon_pc \<Rightarrow> sys \<Rightarrow> daemon_pc \<times> sys" where
  "daemon_step ok p DInit s = (if ok then DOpen else DExit, s)"
| "daemon_step ok p DOpen s = (if ok then (let (i, s1) = open_pidfile s in (DLock i, s1)) else (DExit, s))"
| "daemon_step ok p (DLock i) s = (let (got, s1) = flock p i s in (if got then DClear i else DExit, s1))"
| "daemon_step ok p (DClear i) s = (if ok then (DListen i, s\<lparr>sy_sock := None\<rparr>) else (DRmPid i, s))"
| "daemon_step ok p (DListen i) s =
     (if ok \<and> sy_sock s = None then (DServe i, s\<lparr>sy_sock := Some p\<rparr>) else (DRmChildren i, s))"
| "daemon_step ok p (DServe i) s = (if ok then (DStop i, s\<lparr>sy_sock := None\<rparr>) else (DServe i, s))"
| "daemon_step ok p (DStop i) s = (DRmChildren i, s)"
| "daemon_step ok p (DRmChildren i) s = (DRmSock i, s\<lparr>sy_children := None\<rparr>)"
| "daemon_step ok p (DRmSock i) s = (DRmPid i, s\<lparr>sy_sock := None\<rparr>)"
| "daemon_step ok p (DRmPid i) s = (DClose i, s\<lparr>sy_pidfile := None, sy_unlinks := sy_unlinks s + 1\<rparr>)"
| "daemon_step ok p (DClose i) s = (DExit, funlock p i s)"
| "daemon_step ok p DExit s = (DExit, s)"

section \<open>The launcher\<close>

text \<open>
  \<open>ensureDaemon\<close> with \<open>daemonLockFree\<close>, \<open>warnOrphans\<close>, \<open>spawnDaemon\<close> and \<open>waitForSocket\<close>; \<open>alive\<close> says which
  processes exist, and \<open>ok = False\<close> in \<open>LWait\<close> is the timeout.
\<close>

definition spawn :: "program \<Rightarrow> sys \<Rightarrow> sys" where
  "spawn prog s = s\<lparr>sy_procs := sy_procs s @ [prog]\<rparr>"

definition warn_orphans :: "(int \<Rightarrow> bool) \<Rightarrow> sys \<Rightarrow> sys" where
  "warn_orphans alive s =
     s\<lparr>sy_warned := sy_warned s @ (case sy_children s of None \<Rightarrow> [] | Some rs \<Rightarrow> alive_children alive rs)\<rparr>"

fun launch_step :: "bool \<Rightarrow> (int \<Rightarrow> bool) \<Rightarrow> nat \<Rightarrow> launch_pc \<Rightarrow> sys \<Rightarrow> launch_pc \<times> sys" where
  "launch_step ok alive p LDial s = (if dial_if_alive s \<noteq> None then LUp else LOpen, s)"
| "launch_step ok alive p LOpen s = (if ok then (let (i, s1) = open_pidfile s in (LTry i, s1)) else (LWait, s))"
| "launch_step ok alive p (LTry i) s = (let (got, s1) = flock p i s in (if got then LUnlock i else LWait, s1))"
| "launch_step ok alive p (LUnlock i) s = (LWarn, funlock p i s)"
| "launch_step ok alive p LWarn s = (LRemove, warn_orphans alive s)"
| "launch_step ok alive p LRemove s = (if ok then (LSpawn, s\<lparr>sy_sock := None\<rparr>) else (LFail, s))"
| "launch_step ok alive p LSpawn s = (if ok then (LWait, spawn (DaemonAt DInit) s) else (LFail, s))"
| "launch_step ok alive p LWait s =
     (if dial_if_alive s \<noteq> None then LUp else if ok then LWait else LFail, s)"
| "launch_step ok alive p LUp s = (LUp, s)"
| "launch_step ok alive p LFail s = (LFail, s)"

section \<open>Stopping\<close>

text \<open>
  \<open>requestDaemonShutdown\<close>, \<open>runKill\<close> and \<open>killOrphans\<close>: the connection is read until the daemon closes it,
  which it does once its children have stopped, or until the deadline (\<open>ok = False\<close>).
\<close>

definition closed_clients :: "sys \<Rightarrow> nat \<Rightarrow> bool" where
  "closed_clients s d \<longleftrightarrow>
     \<not> (d < length (sy_procs s) \<and> (case sy_procs s ! d of DaemonAt (DServe i) \<Rightarrow> True | DaemonAt (DStop i) \<Rightarrow> True | _ \<Rightarrow> False))"

definition kill_orphans :: "(int \<Rightarrow> bool) \<Rightarrow> sys \<Rightarrow> sys" where
  "kill_orphans alive s =
     (let rs = (case sy_children s of None \<Rightarrow> [] | Some rs \<Rightarrow> alive_children alive rs)
      in if rs = [] then s else s\<lparr>sy_killed := sy_killed s @ map cr_pid rs, sy_children := None\<rparr>)"

fun kill_step :: "bool \<Rightarrow> (int \<Rightarrow> bool) \<Rightarrow> kill_pc \<Rightarrow> sys \<Rightarrow> kill_pc \<times> sys" where
  "kill_step ok alive (KDial orphans) s =
     (case dial_if_alive s of
        Some d \<Rightarrow> (KDrain d orphans, s)
      | None \<Rightarrow> (if orphans then KOrphans else KDone, s))"
| "kill_step ok alive (KDrain d orphans) s =
     (if closed_clients s d \<or> \<not> ok then (if orphans then KOrphans else KDone, s) else (KDrain d orphans, s))"
| "kill_step ok alive KOrphans s = (KDone, kill_orphans alive s)"
| "kill_step ok alive KDone s = (KDone, s)"

section \<open>Runs\<close>

definition proc_step :: "bool \<Rightarrow> (int \<Rightarrow> bool) \<Rightarrow> nat \<Rightarrow> sys \<Rightarrow> sys" where
  "proc_step ok alive p s =
     (if p < length (sy_procs s) then
        (case sy_procs s ! p of
           DaemonAt pc \<Rightarrow> (let (pc1, s1) = daemon_step ok p pc s in s1\<lparr>sy_procs := (sy_procs s1)[p := DaemonAt pc1]\<rparr>)
         | LauncherAt pc \<Rightarrow> (let (pc1, s1) = launch_step ok alive p pc s in s1\<lparr>sy_procs := (sy_procs s1)[p := LauncherAt pc1]\<rparr>)
         | KillerAt pc \<Rightarrow> (let (pc1, s1) = kill_step ok alive pc s in s1\<lparr>sy_procs := (sy_procs s1)[p := KillerAt pc1]\<rparr>)
         | Gone \<Rightarrow> s)
      else s)"

text \<open>A crash closes the files of the process, which releases its locks.\<close>

definition crash :: "nat \<Rightarrow> sys \<Rightarrow> sys" where
  "crash p s = s\<lparr>sy_procs := (sy_procs s)[p := Gone],
     sy_locks := (\<lambda>i. if sy_locks s i = Some p then None else sy_locks s i)\<rparr>"

text \<open>A daemon that runs writes the file of its children (\<open>persistChildren\<close>).\<close>

definition persist :: "nat \<Rightarrow> child_rec list \<Rightarrow> sys \<Rightarrow> sys" where
  "persist d recs s = (if closed_clients s d then s else s\<lparr>sy_children := Some recs\<rparr>)"

definition commands :: "program set" where
  "commands = {DaemonAt DInit, LauncherAt LDial, KillerAt (KDial False), KillerAt (KDial True)}"

inductive launch_reach :: "sys \<Rightarrow> bool" where
  launch_init: "launch_reach no_sys"
| launch_cmd: "launch_reach s \<Longrightarrow> prog \<in> commands \<Longrightarrow> launch_reach (spawn prog s)"
| launch_proc: "launch_reach s \<Longrightarrow> launch_reach (proc_step ok alive p s)"
| launch_crash: "launch_reach s \<Longrightarrow> p < length (sy_procs s) \<Longrightarrow> launch_reach (crash p s)"
| launch_persist: "launch_reach s \<Longrightarrow> launch_reach (persist d recs s)"

inductive_cases launch_reachE: "launch_reach s"

section \<open>The lock\<close>

text \<open>
  What the source relies on in the pidfile's lock: it is granted when it is free, refused while it is held,
  given up by its holder alone, and the locks of other files are not concerned.
\<close>

locale advisory_lock =
  fixes try_lock :: "nat \<Rightarrow> nat \<Rightarrow> 's \<Rightarrow> bool \<times> 's"
    and unlock :: "nat \<Rightarrow> nat \<Rightarrow> 's \<Rightarrow> 's"
    and holder :: "'s \<Rightarrow> nat \<Rightarrow> nat option"
  assumes try_granted: "fst (try_lock p i s) \<longleftrightarrow> holder s i = None"
    and try_holder: "holder (snd (try_lock p i s)) j = (if j = i \<and> holder s i = None then Some p else holder s j)"
    and unlock_holder: "holder (unlock p i s) j = (if j = i \<and> holder s i = Some p then None else holder s j)"
begin

lemma exclusive: "fst (try_lock p i s) \<Longrightarrow> \<not> fst (try_lock q i (snd (try_lock p i s)))"
  by (simp add: try_granted try_holder)

lemma other_cannot_unlock: "holder s i = Some p \<Longrightarrow> q \<noteq> p \<Longrightarrow> holder (unlock q j s) i = Some p"
  by (auto simp: unlock_holder)

lemma probe_restores:
  assumes "fst (try_lock p i s)"
  shows "holder (unlock p i (snd (try_lock p i s))) = holder s"
proof
  fix j
  show "holder (unlock p i (snd (try_lock p i s))) j = holder s j"
    using assms by (cases "j = i") (simp_all add: unlock_holder try_holder try_granted)
qed

lemma refused_keeps: "\<not> fst (try_lock p i s) \<Longrightarrow> holder (snd (try_lock p i s)) j = holder s j"
  by (auto simp: try_holder try_granted)

end

interpretation pidlock: advisory_lock flock funlock sy_locks
  by unfold_locales (auto simp: flock_def funlock_def)

text \<open>The inode whose lock a process holds, and the inode it has open.\<close>

fun held :: "program \<Rightarrow> nat option" where
  "held (DaemonAt (DClear i)) = Some i"
| "held (DaemonAt (DListen i)) = Some i"
| "held (DaemonAt (DServe i)) = Some i"
| "held (DaemonAt (DStop i)) = Some i"
| "held (DaemonAt (DRmChildren i)) = Some i"
| "held (DaemonAt (DRmSock i)) = Some i"
| "held (DaemonAt (DRmPid i)) = Some i"
| "held (DaemonAt (DClose i)) = Some i"
| "held (LauncherAt (LUnlock i)) = Some i"
| "held _ = None"

fun opened :: "program \<Rightarrow> nat option" where
  "opened (DaemonAt (DLock i)) = Some i"
| "opened (LauncherAt (LTry i)) = Some i"
| "opened prog = held prog"

definition lock_ok :: "sys \<Rightarrow> bool" where
  "lock_ok s \<longleftrightarrow> (\<forall>i p. sy_locks s i = Some p \<longleftrightarrow> p < length (sy_procs s) \<and> held (sy_procs s ! p) = Some i)"

definition name_ok :: "sys \<Rightarrow> bool" where
  "name_ok s \<longleftrightarrow>
     (\<forall>i. sy_pidfile s = Some i \<longrightarrow> i < sy_inodes s)
     \<and> (\<forall>p i. p < length (sy_procs s) \<longrightarrow> opened (sy_procs s ! p) = Some i \<longrightarrow>
          i < sy_inodes s \<and> (sy_unlinks s = 0 \<longrightarrow> sy_pidfile s = Some i))"

text \<open>A step of a process, as far as the lock is concerned.\<close>

definition lock_effect :: "nat \<Rightarrow> sys \<Rightarrow> program \<Rightarrow> program \<Rightarrow> sys \<Rightarrow> bool" where
  "lock_effect p s a b s1 \<longleftrightarrow>
     sy_locks s1 = (\<lambda>i. if held b = Some i then Some p else if held a = Some i then None else sy_locks s i)
     \<and> (\<forall>i. held b = Some i \<longrightarrow> held a = Some i \<or> sy_locks s i = None)"

lemma lock_okD:
  assumes "lock_ok s" "p < length (sy_procs s)"
  shows "held (sy_procs s ! p) = Some i \<longleftrightarrow> sy_locks s i = Some p"
  using assms by (simp add: lock_ok_def)

lemma lock_ok_update:
  assumes ok: "lock_ok s" and p: "p < length (sy_procs s)"
    and eff: "lock_effect p s (sy_procs s ! p) b s1"
    and procs: "sy_procs s1 = sy_procs s @ new" "\<forall>prog \<in> set new. held prog = None"
  shows "lock_ok (s1\<lparr>sy_procs := (sy_procs s1)[p := b]\<rparr>)"
proof -
  have new: "held ((sy_procs s @ new) ! q) = None" if "\<not> q < length (sy_procs s)" "q < length (sy_procs s @ new)" for q
    using that procs(2) by (simp add: nth_append)
  have old: "held (sy_procs s ! q) = Some i \<longleftrightarrow> sy_locks s i = Some q" if "q < length (sy_procs s)" for q i
    using lock_okD [OF ok that] .
  have dom: "q < length (sy_procs s)" if "sy_locks s i = Some q" for q i
    using ok that by (auto simp: lock_ok_def)
  show ?thesis
    unfolding lock_ok_def
  proof (intro allI)
    fix i q
    show "(sy_locks (s1\<lparr>sy_procs := (sy_procs s1)[p := b]\<rparr>) i = Some q)
        = (q < length (sy_procs (s1\<lparr>sy_procs := (sy_procs s1)[p := b]\<rparr>))
           \<and> held (sy_procs (s1\<lparr>sy_procs := (sy_procs s1)[p := b]\<rparr>) ! q) = Some i)"
    proof (cases "q = p")
      case True
      then show ?thesis
        using eff p procs old [OF p] by (auto simp: lock_effect_def)
    next
      case False
      show ?thesis
      proof (cases "q < length (sy_procs s)")
        case True
        then show ?thesis
          using False eff p procs old [OF True, of i] old [OF p, of i] by (auto simp: lock_effect_def nth_append)
      next
        case beyond: False
        then show ?thesis
          using False eff p procs new [OF beyond] dom [of i q] by (auto simp: lock_effect_def)
      qed
    qed
  qed
qed

lemma lock_effect_same:
  assumes "sy_locks s1 = sy_locks s" "held b = held a" "lock_ok s" "p < length (sy_procs s)" "sy_procs s ! p = a"
  shows "lock_effect p s a b s1"
  using assms lock_okD [OF assms(3,4)] by (auto simp: lock_effect_def fun_eq_iff)

lemma lock_effect_take:
  assumes "held a = None" "held b = Some i" "sy_locks s i = None" "sy_locks s1 = (sy_locks s)(i := Some p)"
  shows "lock_effect p s a b s1"
  using assms by (simp add: lock_effect_def fun_eq_iff)

lemma lock_effect_give:
  assumes "held a = Some i" "held b = None" "sy_locks s1 = (sy_locks s)(i := None)"
  shows "lock_effect p s a b s1"
  using assms by (simp add: lock_effect_def fun_eq_iff)

lemma daemon_step_procs: "daemon_step ok p pc s = (pc1, s1) \<Longrightarrow> sy_procs s1 = sy_procs s"
  by (cases pc) (auto simp: open_pidfile_def flock_def funlock_def Let_def split: option.splits if_splits prod.splits)

lemma daemon_step_lock:
  assumes st: "daemon_step ok p pc s = (pc1, s1)" and ok: "lock_ok s"
    and p: "p < length (sy_procs s)" and at: "sy_procs s ! p = DaemonAt pc"
  shows "lock_effect p s (DaemonAt pc) (DaemonAt pc1) s1"
proof (cases "held (DaemonAt pc1) = held (DaemonAt pc)")
  case True
  then have "sy_locks s1 = sy_locks s"
    using st by (cases pc) (auto simp: open_pidfile_def flock_def Let_def split: option.splits if_splits prod.splits)
  then show ?thesis using lock_effect_same True ok p at by simp
next
  case False
  then consider (take) i where "pc = DLock i" "pc1 = DClear i" | (give) i where "pc = DClose i" "pc1 = DExit"
    using st by (cases pc) (auto simp: open_pidfile_def flock_def Let_def split: option.splits if_splits prod.splits)
  then show ?thesis
  proof cases
    case take
    then show ?thesis using st by (intro lock_effect_take [of _ _ i]) (auto simp: flock_def Let_def split: if_splits)
  next
    case give
    then have "sy_locks s i = Some p" using lock_okD [OF ok p, of i] at by simp
    then show ?thesis using give st by (intro lock_effect_give [of _ i]) (auto simp: funlock_def)
  qed
qed

lemma launch_step_procs:
  "launch_step ok alive p pc s = (pc1, s1) \<Longrightarrow> \<exists>new. sy_procs s1 = sy_procs s @ new \<and> (\<forall>prog \<in> set new. held prog = None \<and> opened prog = None)"
  by (cases pc)
     (auto simp: open_pidfile_def flock_def funlock_def warn_orphans_def spawn_def Let_def
           split: option.splits if_splits prod.splits)

lemma launch_step_lock:
  assumes st: "launch_step ok alive p pc s = (pc1, s1)" and ok: "lock_ok s"
    and p: "p < length (sy_procs s)" and at: "sy_procs s ! p = LauncherAt pc"
  shows "lock_effect p s (LauncherAt pc) (LauncherAt pc1) s1"
proof (cases "held (LauncherAt pc1) = held (LauncherAt pc)")
  case True
  then have "sy_locks s1 = sy_locks s"
    using st by (cases pc) (auto simp: open_pidfile_def flock_def warn_orphans_def spawn_def Let_def
        split: option.splits if_splits prod.splits)
  then show ?thesis using lock_effect_same True ok p at by simp
next
  case False
  then consider (take) i where "pc = LTry i" "pc1 = LUnlock i" | (give) i where "pc = LUnlock i" "pc1 = LWarn"
    using st by (cases pc) (auto simp: open_pidfile_def flock_def Let_def split: option.splits if_splits prod.splits)
  then show ?thesis
  proof cases
    case take
    then show ?thesis using st by (intro lock_effect_take [of _ _ i]) (auto simp: flock_def Let_def split: if_splits)
  next
    case give
    then have "sy_locks s i = Some p" using lock_okD [OF ok p, of i] at by simp
    then show ?thesis using give st by (intro lock_effect_give [of _ i]) (auto simp: funlock_def)
  qed
qed

lemma kill_step_frame:
  "kill_step ok alive pc s = (pc1, s1) \<Longrightarrow>
     sy_procs s1 = sy_procs s \<and> sy_locks s1 = sy_locks s \<and> sy_unlinks s1 = sy_unlinks s \<and> sy_pidfile s1 = sy_pidfile s
     \<and> sy_inodes s1 = sy_inodes s"
  by (cases pc) (auto simp: kill_orphans_def Let_def split: option.splits if_splits)

lemma proc_step_lock_ok:
  assumes "lock_ok s"
  shows "lock_ok (proc_step ok alive p s)"
proof (cases "p < length (sy_procs s)")
  case p: True
  show ?thesis
  proof (cases "sy_procs s ! p")
    case (DaemonAt pc)
    obtain pc1 s1 where st: "daemon_step ok p pc s = (pc1, s1)" by force
    have "lock_ok (s1\<lparr>sy_procs := (sy_procs s1)[p := DaemonAt pc1]\<rparr>)"
      using lock_ok_update [OF assms p, of _ _ "[]"] daemon_step_lock [OF st assms p DaemonAt] daemon_step_procs [OF st]
        DaemonAt by simp
    then show ?thesis using p DaemonAt st by (simp add: proc_step_def)
  next
    case (LauncherAt pc)
    obtain pc1 s1 where st: "launch_step ok alive p pc s = (pc1, s1)" by force
    obtain new where new: "sy_procs s1 = sy_procs s @ new" "\<forall>prog \<in> set new. held prog = None"
      using launch_step_procs [OF st] by auto
    have "lock_ok (s1\<lparr>sy_procs := (sy_procs s1)[p := LauncherAt pc1]\<rparr>)"
      using lock_ok_update [OF assms p _ new] launch_step_lock [OF st assms p LauncherAt] LauncherAt by simp
    then show ?thesis using p LauncherAt st by (simp add: proc_step_def)
  next
    case (KillerAt pc)
    obtain pc1 s1 where st: "kill_step ok alive pc s = (pc1, s1)" by force
    have "lock_effect p s (sy_procs s ! p) (KillerAt pc1) s1"
      using KillerAt kill_step_frame [OF st] assms p by (intro lock_effect_same) auto
    then have "lock_ok (s1\<lparr>sy_procs := (sy_procs s1)[p := KillerAt pc1]\<rparr>)"
      using lock_ok_update [OF assms p, of _ _ "[]"] kill_step_frame [OF st] by simp
    then show ?thesis using p KillerAt st by (simp add: proc_step_def)
  next
    case Gone
    then show ?thesis using assms by (simp add: proc_step_def)
  qed
next
  case False
  then show ?thesis using assms by (simp add: proc_step_def)
qed

lemma crash_lock_ok:
  assumes ok: "lock_ok s" and p: "p < length (sy_procs s)"
  shows "lock_ok (crash p s)"
proof -
  have iff: "sy_locks s i = Some q \<longleftrightarrow> q < length (sy_procs s) \<and> held (sy_procs s ! q) = Some i" for i q
    using ok by (simp add: lock_ok_def)
  show ?thesis
    unfolding lock_ok_def
  proof (intro allI)
    fix i q
    show "(sy_locks (crash p s) i = Some q)
        = (q < length (sy_procs (crash p s)) \<and> held (sy_procs (crash p s) ! q) = Some i)"
      using p iff [of i q] iff [of i p] by (cases "q = p") (auto simp: crash_def)
  qed
qed

lemma spawn_lock_ok:
  assumes ok: "lock_ok s" and free: "held prog = None"
  shows "lock_ok (spawn prog s)"
proof -
  have iff: "sy_locks s i = Some q \<longleftrightarrow> q < length (sy_procs s) \<and> held (sy_procs s ! q) = Some i" for i q
    using ok by (simp add: lock_ok_def)
  show ?thesis
    unfolding lock_ok_def
  proof (intro allI)
    fix i q
    show "(sy_locks (spawn prog s) i = Some q)
        = (q < length (sy_procs (spawn prog s)) \<and> held (sy_procs (spawn prog s) ! q) = Some i)"
      using free iff [of i q] by (cases "q = length (sy_procs s)") (simp_all add: spawn_def nth_append)
  qed
qed

lemma commands_idle: "prog \<in> commands \<Longrightarrow> held prog = None \<and> opened prog = None"
  by (auto simp: commands_def)

lemma reach_lock_ok: "launch_reach s \<Longrightarrow> lock_ok s"
proof (induction rule: launch_reach.induct)
  case launch_init
  show ?case by (simp add: lock_ok_def no_sys_def)
next
  case (launch_cmd s prog)
  then show ?case using spawn_lock_ok commands_idle by blast
next
  case (launch_proc s ok alive p)
  then show ?case by (simp add: proc_step_lock_ok)
next
  case (launch_crash s p)
  then show ?case by (simp add: crash_lock_ok)
next
  case (launch_persist s d recs)
  then show ?case by (simp add: lock_ok_def persist_def)
qed

section \<open>The name of the pidfile\<close>

text \<open>
  An open file is an old one, and as long as no daemon has removed the pidfile, all processes have the same
  inode open.
\<close>

definition name_step :: "sys \<Rightarrow> program \<Rightarrow> program \<Rightarrow> sys \<Rightarrow> bool" where
  "name_step s a b s1 \<longleftrightarrow>
     sy_inodes s \<le> sy_inodes s1
     \<and> (\<forall>i. sy_pidfile s1 = Some i \<longrightarrow> sy_pidfile s = Some i \<or> i < sy_inodes s1)
     \<and> (\<forall>i. opened b = Some i \<longrightarrow> opened a = Some i \<or> sy_pidfile s1 = Some i)
     \<and> (sy_unlinks s1 = 0 \<longrightarrow> sy_unlinks s = 0 \<and> (\<forall>i. sy_pidfile s = Some i \<longrightarrow> sy_pidfile s1 = Some i))"

lemma name_okD:
  "name_ok s \<Longrightarrow> p < length (sy_procs s) \<Longrightarrow> opened (sy_procs s ! p) = Some i \<Longrightarrow>
     i < sy_inodes s \<and> (sy_unlinks s = 0 \<longrightarrow> sy_pidfile s = Some i)"
  by (simp add: name_ok_def)

lemma name_ok_pidfile: "name_ok s \<Longrightarrow> sy_pidfile s = Some i \<Longrightarrow> i < sy_inodes s"
  by (simp add: name_ok_def)

lemma name_ok_update:
  assumes ok: "name_ok s" and p: "p < length (sy_procs s)" and st: "name_step s (sy_procs s ! p) b s1"
    and procs: "sy_procs s1 = sy_procs s @ new" "\<forall>prog \<in> set new. opened prog = None"
  shows "name_ok (s1\<lparr>sy_procs := (sy_procs s1)[p := b]\<rparr>)"
proof -
  have ino: "sy_inodes s \<le> sy_inodes s1"
    and name: "\<And>i. sy_pidfile s1 = Some i \<Longrightarrow> sy_pidfile s = Some i \<or> i < sy_inodes s1"
    and opn: "\<And>i. opened b = Some i \<Longrightarrow> opened (sy_procs s ! p) = Some i \<or> sy_pidfile s1 = Some i"
    and keep: "\<And>i. sy_unlinks s1 = 0 \<Longrightarrow> sy_unlinks s = 0 \<and> (sy_pidfile s = Some i \<longrightarrow> sy_pidfile s1 = Some i)"
    using st by (simp_all add: name_step_def)
  have pid: "i < sy_inodes s1" if "sy_pidfile s1 = Some i" for i
    using name [OF that] name_ok_pidfile [OF ok, of i] ino by linarith
  have old: "i < sy_inodes s1 \<and> (sy_unlinks s1 = 0 \<longrightarrow> sy_pidfile s1 = Some i)"
    if "q < length (sy_procs s)" "opened (sy_procs s ! q) = Some i" for q i
    using name_okD [OF ok that] ino keep [of i] by linarith
  have new: "i < sy_inodes s1 \<and> (sy_unlinks s1 = 0 \<longrightarrow> sy_pidfile s1 = Some i)" if "opened b = Some i" for i
  proof (cases "opened (sy_procs s ! p) = Some i")
    case True
    then show ?thesis using old p by blast
  next
    case False
    then have "sy_pidfile s1 = Some i" using opn [OF that] by blast
    then show ?thesis using pid by blast
  qed
  have any: "i < sy_inodes s1 \<and> (sy_unlinks s1 = 0 \<longrightarrow> sy_pidfile s1 = Some i)"
    if "q < length (sy_procs s1)" "opened ((sy_procs s1)[p := b] ! q) = Some i" for q i
  proof (cases "q = p")
    case True
    then show ?thesis using that p procs(1) new by simp
  next
    case False
    have "q < length (sy_procs s)"
    proof (rule ccontr)
      assume "\<not> q < length (sy_procs s)"
      then have "opened (sy_procs s1 ! q) = None"
        using that procs by (simp add: nth_append)
      then show False using that False by simp
    qed
    then show ?thesis using that False procs(1) old by (simp add: nth_append)
  qed
  show ?thesis using pid any by (simp add: name_ok_def)
qed

lemma daemon_step_name: "daemon_step ok p pc s = (pc1, s1) \<Longrightarrow> name_step s (DaemonAt pc) (DaemonAt pc1) s1"
  by (cases pc) (auto simp: name_step_def open_pidfile_def flock_def funlock_def Let_def
      split: option.splits if_splits prod.splits)

lemma launch_step_name: "launch_step ok alive p pc s = (pc1, s1) \<Longrightarrow> name_step s (LauncherAt pc) (LauncherAt pc1) s1"
  by (cases pc) (auto simp: name_step_def open_pidfile_def flock_def funlock_def warn_orphans_def spawn_def Let_def
      split: option.splits if_splits prod.splits)

lemma kill_step_name: "kill_step ok alive pc s = (pc1, s1) \<Longrightarrow> name_step s (KillerAt pc) (KillerAt pc1) s1"
  using kill_step_frame [of ok alive pc s pc1 s1] by (auto simp: name_step_def)

lemma proc_step_name_ok:
  assumes "name_ok s"
  shows "name_ok (proc_step ok alive p s)"
proof (cases "p < length (sy_procs s)")
  case p: True
  show ?thesis
  proof (cases "sy_procs s ! p")
    case (DaemonAt pc)
    obtain pc1 s1 where st: "daemon_step ok p pc s = (pc1, s1)" by force
    have "name_ok (s1\<lparr>sy_procs := (sy_procs s1)[p := DaemonAt pc1]\<rparr>)"
      using name_ok_update [OF assms p, of _ _ "[]"] daemon_step_name [OF st] daemon_step_procs [OF st] DaemonAt by simp
    then show ?thesis using p DaemonAt st by (simp add: proc_step_def)
  next
    case (LauncherAt pc)
    obtain pc1 s1 where st: "launch_step ok alive p pc s = (pc1, s1)" by force
    obtain new where new: "sy_procs s1 = sy_procs s @ new" "\<forall>prog \<in> set new. opened prog = None"
      using launch_step_procs [OF st] by auto
    have "name_ok (s1\<lparr>sy_procs := (sy_procs s1)[p := LauncherAt pc1]\<rparr>)"
      using name_ok_update [OF assms p _ new] launch_step_name [OF st] LauncherAt by simp
    then show ?thesis using p LauncherAt st by (simp add: proc_step_def)
  next
    case (KillerAt pc)
    obtain pc1 s1 where st: "kill_step ok alive pc s = (pc1, s1)" by force
    have "name_ok (s1\<lparr>sy_procs := (sy_procs s1)[p := KillerAt pc1]\<rparr>)"
      using name_ok_update [OF assms p, of _ _ "[]"] kill_step_name [OF st] kill_step_frame [OF st] KillerAt by simp
    then show ?thesis using p KillerAt st by (simp add: proc_step_def)
  next
    case Gone
    then show ?thesis using assms by (simp add: proc_step_def)
  qed
next
  case False
  then show ?thesis using assms by (simp add: proc_step_def)
qed

lemma reach_name_ok: "launch_reach s \<Longrightarrow> name_ok s"
proof (induction rule: launch_reach.induct)
  case launch_init
  show ?case by (simp add: name_ok_def no_sys_def)
next
  case (launch_cmd s prog)
  then show ?case using commands_idle [of prog] by (auto simp: name_ok_def spawn_def nth_append)
next
  case (launch_proc s ok alive p)
  then show ?case by (simp add: proc_step_name_ok)
next
  case (launch_crash s p)
  then show ?case by (auto simp: name_ok_def crash_def nth_list_update)
next
  case (launch_persist s d recs)
  then show ?case by (simp add: name_ok_def persist_def)
qed

lemma held_opened: "held prog = Some i \<Longrightarrow> opened prog = Some i"
  by (cases prog rule: opened.cases) auto

text \<open>C7: Of two daemons of one configuration that are both past the lock, with the pidfile never removed or
  with the same pidfile open, there is only one: two processes never hold the lock together, whatever the order
  of their steps and whichever processes crash. A lock that is taken has a living holder between its acquisition
  and its release, so a crashed daemon never keeps the next one from starting.\<close>

theorem single_daemon:
  assumes "launch_reach s" "p < length (sy_procs s)" "q < length (sy_procs s)"
    "held (sy_procs s ! p) = Some i" "held (sy_procs s ! q) = Some j" "i = j \<or> sy_unlinks s = 0"
  shows "p = q \<and> sy_locks s i = Some p"
proof -
  have "i = j"
  proof (cases "sy_unlinks s = 0")
    case True
    then have "sy_pidfile s = Some i" "sy_pidfile s = Some j"
      using assms(2-5) name_okD [OF reach_name_ok [OF assms(1)]] held_opened by metis+
    then show ?thesis by simp
  next
    case False
    then show ?thesis using assms(6) by simp
  qed
  moreover have "sy_locks s i = Some p" "sy_locks s j = Some q"
    using assms lock_okD [OF reach_lock_ok [OF assms(1)]] by blast+
  ultimately show ?thesis by simp
qed

lemma lock_has_live_holder:
  assumes "launch_reach s" "sy_locks s i = Some p"
  shows "p < length (sy_procs s) \<and> held (sy_procs s ! p) = Some i"
  using reach_lock_ok [OF assms(1)] assms(2) by (simp add: lock_ok_def)

text \<open>After a daemon has crashed, at any place, another one that opens the pidfile next gets the lock.\<close>

theorem crash_frees_lock:
  assumes "launch_reach s" "p < length (sy_procs s)" "held (sy_procs s ! p) = Some i"
  shows "fst (flock q i (crash p s))"
  using assms lock_okD [OF reach_lock_ok [OF assms(1)], of p i] by (simp add: flock_def crash_def)

lemma fresh_inode_free:
  assumes "launch_reach s"
  shows "sy_locks s (sy_inodes s) = None"
proof (rule ccontr)
  assume "sy_locks s (sy_inodes s) \<noteq> None"
  then obtain p where p: "p < length (sy_procs s)" "held (sy_procs s ! p) = Some (sy_inodes s)"
    using lock_has_live_holder [OF assms] by blast
  show False using name_okD [OF reach_name_ok [OF assms] p(1) held_opened [OF p(2)]] by simp
qed

section \<open>Schedules\<close>

definition sched :: "(bool \<times> nat) list \<Rightarrow> sys \<Rightarrow> sys" where
  "sched moves s = fold (\<lambda>(ok, p). proc_step ok (\<lambda>_. True) p) moves s"

lemma reach_sched: "launch_reach s \<Longrightarrow> launch_reach (sched moves s)"
  by (induction moves arbitrary: s) (auto simp: sched_def intro: launch_proc)

lemmas launch_exec = sched_def proc_step_def spawn_def no_sys_def open_pidfile_def flock_def funlock_def
  dial_if_alive_def serves_def warn_orphans_def closed_clients_def kill_orphans_def Let_def

abbreviation go :: "nat \<Rightarrow> nat \<Rightarrow> (bool \<times> nat) list" where
  "go n p \<equiv> replicate n (True, p)"

lemma one_daemon_serves:
  "sy_procs (sched (go 5 0) (spawn (DaemonAt DInit) no_sys)) = [DaemonAt (DServe 0)]"
  by (simp add: launch_exec eval_nat_numeral)

theorem single_daemon_witness:
  "sy_locks (sched (go 5 0) (spawn (DaemonAt DInit) no_sys)) 0 = Some 0"
proof -
  have r: "launch_reach (sched (go 5 0) (spawn (DaemonAt DInit) no_sys))"
    by (intro reach_sched launch_cmd launch_init) (simp add: commands_def)
  show ?thesis
    using single_daemon [OF r, of 0 0 0 0] by (simp add: one_daemon_serves)
qed

lemma sched_go: "sched (go (Suc n) p) s = sched (go n p) (proc_step True (\<lambda>_. True) p s)"
  by (simp add: sched_def)

section \<open>A daemon gets going\<close>

text \<open>
  What the others do between two steps of the daemon \<open>d\<close>: they start and end commands, take steps, crash and write
  the file of children, as long as they leave the socket, the pidfile and the lock of the pidfile as they are.
\<close>

definition leaves_alone :: "sys \<Rightarrow> sys \<Rightarrow> bool" where
  "leaves_alone s t \<longleftrightarrow> sy_sock t = sy_sock s \<and> sy_pidfile t = sy_pidfile s
     \<and> (\<forall>i. sy_pidfile s = Some i \<longrightarrow> sy_locks t i = sy_locks s i)"

inductive others :: "nat \<Rightarrow> sys \<Rightarrow> sys \<Rightarrow> bool" for d where
  other_cmd: "prog \<in> commands \<Longrightarrow> others d s (spawn prog s)"
| other_proc: "q \<noteq> d \<Longrightarrow> leaves_alone s (proc_step ok alive q s) \<Longrightarrow> others d s (proc_step ok alive q s)"
| other_crash: "q \<noteq> d \<Longrightarrow> q < length (sy_procs s) \<Longrightarrow> leaves_alone s (crash q s) \<Longrightarrow> others d s (crash q s)"
| other_persist: "others d s (persist e recs s)"

inductive starting :: "nat \<Rightarrow> nat \<Rightarrow> sys \<Rightarrow> sys \<Rightarrow> bool" for d where
  starting_refl: "starting d 0 s s"
| starting_others: "starting d k s t \<Longrightarrow> others d t u \<Longrightarrow> starting d k s u"
| starting_own: "starting d k s t \<Longrightarrow> starting d (Suc k) s (proc_step True alive d t)"

text \<open>Where the daemon is after \<open>k\<close> of its own steps.\<close>

definition on_the_way :: "nat \<Rightarrow> nat \<Rightarrow> sys \<Rightarrow> bool" where
  "on_the_way d k s \<longleftrightarrow> launch_reach s \<and> d < length (sy_procs s) \<and>
     (if k \<le> 1 then sy_procs s ! d = DaemonAt (if k = 0 then DInit else DOpen)
        \<and> (\<forall>i. sy_pidfile s = Some i \<longrightarrow> sy_locks s i = None)
      else if k = 2 then (\<exists>i. sy_procs s ! d = DaemonAt (DLock i) \<and> sy_pidfile s = Some i \<and> sy_locks s i = None)
      else if k = 3 then (\<exists>i. sy_procs s ! d = DaemonAt (DClear i))
      else if k = 4 then (\<exists>i. sy_procs s ! d = DaemonAt (DListen i)) \<and> sy_sock s = None
      else (\<exists>i. sy_procs s ! d = DaemonAt (DServe i)) \<and> sy_sock s = Some d)"

lemma kill_step_procs: "sy_procs (snd (kill_step ok alive pc s)) = sy_procs s"
  by (cases pc) (auto simp: kill_orphans_def Let_def split: option.splits)

lemma proc_step_other:
  assumes "d < length (sy_procs s)" "q \<noteq> d"
  shows "d < length (sy_procs (proc_step ok alive q s)) \<and> sy_procs (proc_step ok alive q s) ! d = sy_procs s ! d"
proof (cases "q < length (sy_procs s)")
  case True
  show ?thesis
  proof (cases "sy_procs s ! q")
    case (DaemonAt pc)
    then show ?thesis using assms True daemon_step_procs [of ok q pc s]
      by (auto simp: proc_step_def split: prod.split)
  next
    case (LauncherAt pc)
    obtain pc1 s1 where st: "launch_step ok alive q pc s = (pc1, s1)" by (meson surj_pair)
    then obtain new where "sy_procs s1 = sy_procs s @ new" using launch_step_procs by blast
    then show ?thesis using assms True LauncherAt st
      by (simp add: proc_step_def nth_append)
  next
    case (KillerAt pc)
    then show ?thesis using assms True kill_step_procs [of ok alive pc s]
      by (simp add: proc_step_def case_prod_beta)
  qed (use assms True in \<open>simp add: proc_step_def\<close>)
qed (use assms in \<open>simp add: proc_step_def\<close>)

lemma others_frame:
  assumes "others d s t" "d < length (sy_procs s)" "launch_reach s"
  shows "launch_reach t \<and> d < length (sy_procs t) \<and> sy_procs t ! d = sy_procs s ! d \<and> leaves_alone s t"
proof -
  have "launch_reach t" using assms(1,3) by cases (auto intro: launch_reach.intros)
  moreover have "d < length (sy_procs t) \<and> sy_procs t ! d = sy_procs s ! d \<and> leaves_alone s t"
    using assms(1,2)
    by cases (auto simp: proc_step_other nth_append leaves_alone_def persist_def spawn_def crash_def)
  ultimately show ?thesis by blast
qed

lemma on_the_way_others:
  assumes "on_the_way d k s" "others d s t"
  shows "on_the_way d k t"
  using others_frame [OF assms(2)] assms(1) unfolding on_the_way_def leaves_alone_def
  by (auto split: if_splits)

lemma on_the_way_own:
  assumes "on_the_way d k s" "k < 5"
  shows "on_the_way d (Suc k) (proc_step True alive d s)"
proof -
  note way = assms(1) [unfolded on_the_way_def]
  have r: "launch_reach (proc_step True alive d s)" using way launch_proc by blast
  have fresh: "sy_locks s (sy_inodes s) = None" using fresh_inode_free way by blast
  consider "k = 0" | "k = 1" | "k = 2" | "k = 3" | "k = 4" using assms(2) by linarith
  then show ?thesis
  proof cases
    case 2
    then show ?thesis using way r fresh
      by (cases "sy_pidfile s") (auto simp: on_the_way_def proc_step_def open_pidfile_def)
  qed (use way r in \<open>auto simp: on_the_way_def proc_step_def flock_def\<close>)
qed

lemma starting_on_the_way:
  assumes "starting d k s t" "k \<le> 5" "on_the_way d 0 s"
  shows "on_the_way d k t"
  using assms by (induction) (auto intro: on_the_way_others on_the_way_own)


lemma starting_go: "starting d k s t \<Longrightarrow> starting d (k + n) s (sched (go n d) t)"
proof (induction n arbitrary: k t)
  case (Suc n)
  from Suc.IH [OF starting_own [OF Suc.prems, of "\<lambda>_. True"]] show ?case by (simp add: sched_def)
qed (simp add: sched_def)

text \<open>After a crash, and with a launcher that starts and looks at the stale socket in between.\<close>

definition restarted :: sys where
  "restarted = sched (go 3 1 @ go 1 2 @ go 2 1)
     (spawn (LauncherAt LDial) (spawn (DaemonAt DInit) (crash 0 (sched (go 5 0) (spawn (DaemonAt DInit) no_sys)))))"


text \<open>
  The daemon removes the pidfile before it gives up the lock. A process that has opened the old file by then
  gets the lock of a file without a name, and the next one creates a new file: two daemons serve one
  configuration, and the later one has removed the socket of the earlier.
\<close>

definition two_daemons :: sys where
  "two_daemons = sched
     (go 5 0 @ go 4 0 @ go 2 1 @ go 2 0 @ go 3 1 @ go 5 2)
     (spawn (DaemonAt DInit) (spawn (DaemonAt DInit) (spawn (DaemonAt DInit) no_sys)))"

lemma find_two_daemons:
  "launch_reach two_daemons \<and> serves two_daemons 1 \<and> serves two_daemons 2 \<and> dial_if_alive two_daemons = Some 2"
proof -
  have "launch_reach two_daemons"
    unfolding two_daemons_def by (intro reach_sched launch_cmd launch_init) (simp_all add: commands_def)
  moreover have "serves two_daemons 1 \<and> serves two_daemons 2 \<and> dial_if_alive two_daemons = Some 2"
    by (simp add: two_daemons_def launch_exec eval_nat_numeral)
  ultimately show ?thesis by blast
qed

text \<open>
  A launcher that found the lock free removes the socket later, when another launcher's daemon may have bound
  it: that daemon keeps the lock and cannot be reached, and both launchers and every later one give up.
\<close>

definition bricked :: sys where
  "bricked = sched
     (go 5 0 @ go 7 1 @ go 5 2 @ go 2 0 @ go 3 3 @ [(False, 0), (False, 1)])
     (spawn (LauncherAt LDial) (spawn (LauncherAt LDial) no_sys))"

lemma find_bricked:
  "launch_reach bricked \<and> serves bricked 2 \<and> dial_if_alive bricked = None \<and> sy_locks bricked 0 = Some 2
   \<and> sy_procs bricked ! 0 = LauncherAt LFail \<and> sy_unlinks bricked = 0"
proof -
  have "launch_reach bricked"
    unfolding bricked_def by (intro reach_sched launch_cmd launch_init) (simp_all add: commands_def)
  moreover have "serves bricked 2 \<and> dial_if_alive bricked = None \<and> sy_locks bricked 0 = Some 2
     \<and> sy_procs bricked ! 0 = LauncherAt LFail \<and> sy_unlinks bricked = 0"
    by (simp add: bricked_def launch_exec eval_nat_numeral)
  ultimately show ?thesis by blast
qed

text \<open>
  The launcher warns of the children of a crashed daemon and tells the user to run \<open>procs kill --orphans\<close>. By
  then its new daemon runs, and that command first stops it, which removes the list: nothing is killed.
\<close>

definition orphans_lost :: "child_rec list \<Rightarrow> sys" where
  "orphans_lost recs = sched (go 1 3 @ go 5 2 @ go 2 3)
     (spawn (KillerAt (KDial True))
       (sched (go 7 1 @ go 5 2)
         (spawn (LauncherAt LDial) (crash 0 (persist 0 recs (sched (go 5 0) (spawn (DaemonAt DInit) no_sys)))))))"

lemma find_orphans_lost:
  "launch_reach (orphans_lost recs) \<and> sy_warned (orphans_lost recs) = alive_children (\<lambda>_. True) recs \<and> sy_killed (orphans_lost recs) = []
   \<and> sy_children (orphans_lost recs) = None \<and> sy_procs (orphans_lost recs) ! 3 = KillerAt KDone"
proof -
  have "launch_reach (orphans_lost recs)"
    unfolding orphans_lost_def
    by (intro reach_sched launch_cmd launch_crash launch_persist launch_init)
       (simp_all add: commands_def one_daemon_serves persist_def)
  moreover have "sy_warned (orphans_lost recs) = alive_children (\<lambda>_. True) recs \<and> sy_killed (orphans_lost recs) = []
     \<and> sy_children (orphans_lost recs) = None \<and> sy_procs (orphans_lost recs) ! 3 = KillerAt KDone"
    by (simp add: orphans_lost_def launch_exec persist_def crash_def eval_nat_numeral)
  ultimately show ?thesis by blast
qed

end
