(* ===== verification/Attach_Keys.thy ===== *)
theory Attach_Keys
  imports Prelude
begin

text \<open>
  The keyboard of the attach mode, \<open>internal/tui/attach\<close>: the messages of the terminal library, their
  translation for the emulator (\<open>keymap.go\<close>), the byte-wise escape detector of the full-screen bridge
  (\<open>escape.go\<close>), and the key-wise detector of the embedded one (\<open>KeyDetach\<close> in \<open>session.go\<close>), which
  must neither lose nor reorder what the user types.
\<close>

section \<open>Key messages\<close>

text \<open>
  A \<open>tea.KeyMsg\<close>: the kind of key, the runes typed, the Alt and Paste flags, and the name that its \<open>String\<close>
  method gives, which the bindings are compared with. \<open>KeyCtrl\<close> has the letter or sign of a control key
  and \<open>KeyF\<close> the number of a function key; \<open>OtherKey\<close> is any kind that the sources do not mention.
\<close>

datatype nav = NavUp | NavDown | NavLeft | NavRight | NavHome | NavEnd | NavPgUp | NavPgDown

datatype key_type =
    KeyRunes | KeySpace | KeyEnter | KeyTab | KeyShiftTab | KeyBackspace | KeyDelete | KeyEsc | KeyInsert
  | KeyNav nav | KeyShiftNav nav | KeyCtrlNav nav | KeyCtrlShiftNav nav | KeyF nat | KeyCtrl char | OtherKey

type_synonym rune = nat

record key_msg =
  km_type :: key_type
  km_runes :: "rune list"
  km_alt :: bool
  km_paste :: bool
  km_name :: string

definition typed :: "rune \<Rightarrow> key_msg" where
  "typed r = \<lparr>km_type = KeyRunes, km_runes = [r], km_alt = False, km_paste = False, km_name = [char_of r]\<rparr>"

definition esc_key :: key_msg where
  "esc_key = \<lparr>km_type = KeyEsc, km_runes = [], km_alt = False, km_paste = False, km_name = ''esc''\<rparr>"

section \<open>Runes\<close>

text \<open>\<open>string([]rune)\<close>: UTF-8, with U+FFFD for a value that is no code point.\<close>

definition valid_rune :: "rune \<Rightarrow> bool" where
  "valid_rune r \<longleftrightarrow> r < 0xD800 \<or> (0xE000 \<le> r \<and> r \<le> 0x10FFFF)"

definition utf8 :: "rune \<Rightarrow> bytes" where
  "utf8 r0 =
     (let r = (if valid_rune r0 then r0 else 0xFFFD)
      in if r < 0x80 then [char_of r]
         else if r < 0x800 then [char_of (0xC0 + r div 64), char_of (0x80 + r mod 64)]
         else if r < 0x10000 then
           [char_of (0xE0 + r div 4096), char_of (0x80 + r div 64 mod 64), char_of (0x80 + r mod 64)]
         else
           [char_of (0xF0 + r div 262144), char_of (0x80 + r div 4096 mod 64),
            char_of (0x80 + r div 64 mod 64), char_of (0x80 + r mod 64)])"

definition runes_text :: "rune list \<Rightarrow> bytes" where
  "runes_text rs = concat (map utf8 rs)"

text \<open>
  \<open>[]rune(string)\<close>: one rune and the bytes it takes; a byte that starts no valid encoding is U+FFFD and
  takes one byte.
\<close>

definition tail_byte :: "char \<Rightarrow> bool" where
  "tail_byte c \<longleftrightarrow> 0x80 \<le> (of_char c :: nat) \<and> (of_char c :: nat) \<le> 0xBF"

abbreviation low6 :: "char \<Rightarrow> nat" where
  "low6 c \<equiv> of_char c - 0x80"

fun decode_rune :: "bytes \<Rightarrow> rune \<times> nat" where
  "decode_rune [] = (0xFFFD, 0)"
| "decode_rune (a # s) =
     (let n = (of_char a :: nat)
      in if n < 0x80 then (n, 1)
         else if 0xC2 \<le> n \<and> n \<le> 0xDF then
           (case s of
              b # _ \<Rightarrow> if tail_byte b then ((n - 0xC0) * 64 + low6 b, 2) else (0xFFFD, 1)
            | _ \<Rightarrow> (0xFFFD, 1))
         else if 0xE0 \<le> n \<and> n \<le> 0xEF then
           (case s of
              b # c # _ \<Rightarrow>
                (let r = (n - 0xE0) * 4096 + low6 b * 64 + low6 c
                 in if tail_byte b \<and> tail_byte c \<and> 0x800 \<le> r \<and> valid_rune r then (r, 3) else (0xFFFD, 1))
            | _ \<Rightarrow> (0xFFFD, 1))
         else if 0xF0 \<le> n \<and> n \<le> 0xF4 then
           (case s of
              b # c # d # _ \<Rightarrow>
                (let r = (n - 0xF0) * 262144 + low6 b * 4096 + low6 c * 64 + low6 d
                 in if tail_byte b \<and> tail_byte c \<and> tail_byte d \<and> 0x10000 \<le> r \<and> valid_rune r then (r, 4) else (0xFFFD, 1))
            | _ \<Rightarrow> (0xFFFD, 1))
         else (0xFFFD, 1))"

lemma decode_rune_size: "s \<noteq> [] \<Longrightarrow> 0 < snd (decode_rune s)"
  by (cases s) (auto simp: Let_def split: list.splits if_splits)

function text_runes :: "bytes \<Rightarrow> rune list" where
  "text_runes s = (if s = [] then [] else fst (decode_rune s) # text_runes (drop (snd (decode_rune s)) s))"
  by pat_completeness auto
termination
proof (relation "measure length")
  fix s :: bytes
  assume "s \<noteq> []"
  then show "(drop (snd (decode_rune s)) s, s) \<in> measure length"
    using decode_rune_size [of s] by (simp del: decode_rune.simps)
qed simp

declare text_runes.simps [simp del]

lemma text_runes_Nil [simp]: "text_runes [] = []"
  by (simp add: text_runes.simps)

lemma of_char_char_of: "n < 256 \<Longrightarrow> (of_char (char_of n :: char) :: nat) = n"
  by simp

lemma split_64: "r = (r div 64) * 64 + r mod 64" for r :: nat
  by simp

lemma split_4096: "r = r div 4096 * 4096 + r div 64 mod 64 * 64 + r mod 64" for r :: nat
proof -
  have "r div 64 = r div 4096 * 64 + r div 64 mod 64"
    using split_64 [of "r div 64"] div_mult2_eq [of r 64 64] by simp
  then show ?thesis using split_64 [of r] by linarith
qed

lemma split_262144: "r = r div 262144 * 262144 + r div 4096 mod 64 * 4096 + r div 64 mod 64 * 64 + r mod 64" for r :: nat
proof -
  have "r div 4096 = r div 262144 * 64 + r div 4096 mod 64"
    using split_64 [of "r div 4096"] div_mult2_eq [of r 4096 64] by simp
  then show ?thesis using split_4096 [of r] by linarith
qed

lemma decode_utf8:
  assumes "valid_rune r"
  shows "decode_rune (utf8 r @ s) = (r, length (utf8 r))"
proof -
  consider (1) "r < 0x80" | (2) "0x80 \<le> r" "r < 0x800" | (3) "0x800 \<le> r" "r < 0x10000" | (4) "0x10000 \<le> r" "r \<le> 0x10FFFF"
    using assms by (fastforce simp: valid_rune_def)
  then show ?thesis
  proof cases
    case 1
    then show ?thesis using assms by (simp add: utf8_def)
  next
    case 2
    define a b where "a = r div 64" and "b = r mod 64"
    have "r = a * 64 + b" "b < 64" "2 \<le> a" "a < 32"
      using 2 by (auto simp: a_def b_def)
    then show ?thesis using assms 2
      by (simp add: utf8_def tail_byte_def a_def [symmetric] b_def [symmetric] of_char_char_of Let_def)
  next
    case 3
    define a b c where "a = r div 4096" and "b = r div 64 mod 64" and "c = r mod 64"
    have "a * 4096 + b * 64 + c = r" "b < 64" "c < 64" "a < 16"
      using 3 split_4096 [of r] by (auto simp: a_def b_def c_def)
    then show ?thesis using assms 3
      by (simp add: utf8_def tail_byte_def a_def [symmetric] b_def [symmetric] c_def [symmetric] of_char_char_of Let_def)
  next
    case 4
    define a b c d where "a = r div 262144" and "b = r div 4096 mod 64" and "c = r div 64 mod 64" and "d = r mod 64"
    have "a * 262144 + b * 4096 + c * 64 + d = r" "b < 64" "c < 64" "d < 64" "a < 5"
      using 4 split_262144 [of r] by (auto simp: a_def b_def c_def d_def)
    then show ?thesis using assms 4
      by (simp add: utf8_def tail_byte_def a_def [symmetric] b_def [symmetric] c_def [symmetric] d_def [symmetric]
          of_char_char_of Let_def)
  qed
qed

lemma utf8_not_Nil [simp]: "utf8 r \<noteq> []"
  by (simp add: utf8_def Let_def)

text \<open>Converting runes to a string and back gives them again.\<close>

theorem runes_roundtrip: "list_all valid_rune rs \<Longrightarrow> text_runes (runes_text rs) = rs"
proof (induction rs)
  case Nil
  then show ?case by (simp add: runes_text_def)
next
  case (Cons r rs)
  then show ?case
    by (subst text_runes.simps) (simp add: runes_text_def decode_utf8)
qed

section \<open>Translation for the emulator\<close>

datatype uv_code =
    UvRune rune | UvSpace | UvEnter | UvTab | UvBackspace | UvDelete | UvEscape | UvInsert | UvNav nav | UvF nat

record key_mod =
  mod_shift :: bool
  mod_alt :: bool
  mod_ctrl :: bool

record uv_key =
  uv_code :: uv_code
  uv_text :: bytes
  uv_mod :: key_mod

definition tea_mod :: "bool \<Rightarrow> key_mod" where
  "tea_mod alt = \<lparr>mod_shift = False, mod_alt = alt, mod_ctrl = False\<rparr>"

abbreviation uv :: "uv_code \<Rightarrow> key_mod \<Rightarrow> uv_key" where
  "uv c m \<equiv> \<lparr>uv_code = c, uv_text = [], uv_mod = m\<rparr>"

definition ctrl_letters :: "char list" where
  "ctrl_letters = ''@abcdefghjklnopqrstuvwxyz'' @ [CHR 0x5C] @ '']^_''"

definition msg_to_key :: "key_msg \<Rightarrow> uv_key option" where
  "msg_to_key k =
     (let m = tea_mod (km_alt k)
      in case km_type k of
           KeyRunes \<Rightarrow>
             (case km_runes k of
                [] \<Rightarrow> None
              | r # _ \<Rightarrow> Some \<lparr>uv_code = UvRune r, uv_text = runes_text (km_runes k), uv_mod = m\<rparr>)
         | KeySpace \<Rightarrow> Some \<lparr>uv_code = UvSpace, uv_text = '' '', uv_mod = m\<rparr>
         | KeyEnter \<Rightarrow> Some (uv UvEnter m)
         | KeyTab \<Rightarrow> Some (uv UvTab m)
         | KeyShiftTab \<Rightarrow> Some (uv UvTab (m\<lparr>mod_shift := True\<rparr>))
         | KeyBackspace \<Rightarrow> Some (uv UvBackspace m)
         | KeyDelete \<Rightarrow> Some (uv UvDelete m)
         | KeyEsc \<Rightarrow> Some (uv UvEscape m)
         | KeyInsert \<Rightarrow> Some (uv UvInsert m)
         | KeyNav n \<Rightarrow> Some (uv (UvNav n) m)
         | KeyShiftNav n \<Rightarrow>
             (if n \<in> {NavPgUp, NavPgDown} then None else Some (uv (UvNav n) (m\<lparr>mod_shift := True\<rparr>)))
         | KeyCtrlNav n \<Rightarrow> Some (uv (UvNav n) (m\<lparr>mod_ctrl := True\<rparr>))
         | KeyCtrlShiftNav n \<Rightarrow>
             (if n \<in> {NavPgUp, NavPgDown} then None
              else Some (uv (UvNav n) (m\<lparr>mod_ctrl := True, mod_shift := True\<rparr>)))
         | KeyF n \<Rightarrow> (if 1 \<le> n \<and> n \<le> 12 then Some (uv (UvF n) m) else None)
         | KeyCtrl c \<Rightarrow>
             (if c \<in> set ctrl_letters then Some (uv (UvRune (of_char c)) (m\<lparr>mod_ctrl := True\<rparr>)) else None)
         | OtherKey \<Rightarrow> None)"

text \<open>What the translation keeps of a key, and how it is read back.\<close>

definition key_content :: "key_msg \<Rightarrow> key_type \<times> rune list \<times> bool" where
  "key_content k = (km_type k, if km_type k = KeyRunes then km_runes k else [], km_alt k)"

definition read_key :: "uv_key \<Rightarrow> key_type \<times> rune list \<times> bool" where
  "read_key e =
     (let m = uv_mod e; sh = mod_shift m; ct = mod_ctrl m
      in (case uv_code e of
            UvRune r \<Rightarrow> if ct then KeyCtrl (char_of r) else KeyRunes
          | UvSpace \<Rightarrow> KeySpace | UvEnter \<Rightarrow> KeyEnter
          | UvTab \<Rightarrow> if sh then KeyShiftTab else KeyTab
          | UvBackspace \<Rightarrow> KeyBackspace | UvDelete \<Rightarrow> KeyDelete | UvEscape \<Rightarrow> KeyEsc | UvInsert \<Rightarrow> KeyInsert
          | UvNav n \<Rightarrow> if ct \<and> sh then KeyCtrlShiftNav n else if ct then KeyCtrlNav n
                        else if sh then KeyShiftNav n else KeyNav n
          | UvF n \<Rightarrow> KeyF n,
          case uv_code e of UvRune r \<Rightarrow> if ct then [] else text_runes (uv_text e) | _ \<Rightarrow> [],
          mod_alt m))"

text \<open>
  The translation keeps the key: what a key event says about its kind, its text and the Alt modifier can be read back
  from the event for the emulator, so two different keys never reach the child as the same event.
\<close>

theorem keymap_roundtrip:
  assumes "msg_to_key k = Some e" "list_all valid_rune (km_runes k)"
  shows "read_key e = key_content k"
  using assms
  by (cases "km_type k")
     (auto simp: msg_to_key_def read_key_def key_content_def tea_mod_def Let_def runes_roundtrip
           split: list.splits if_splits)

section \<open>The byte-wise detector\<close>

record escape_detector =
  ed_escape :: char
  ed_timeout :: duration
  ed_last :: time

definition default_escape :: char where "default_escape = CHR 0x1B"
definition default_timeout :: duration where "default_timeout = 400 * millisecond"

definition new_escape_detector :: "char \<Rightarrow> duration \<Rightarrow> escape_detector" where
  "new_escape_detector b timeout =
     \<lparr>ed_escape = (if b = CHR 0x00 then default_escape else b),
      ed_timeout = (if timeout = 0 then default_timeout else timeout), ed_last = zero_time\<rparr>"

definition ed_feed :: "char \<Rightarrow> time \<Rightarrow> escape_detector \<Rightarrow> (bytes \<times> bool) \<times> escape_detector" where
  "ed_feed b now d =
     (if b = ed_escape d then
        (if \<not> is_zero_time (ed_last d) \<and> now - ed_last d < ed_timeout d
         then (([], True), d\<lparr>ed_last := zero_time\<rparr>)
         else (([], False), d\<lparr>ed_last := now\<rparr>))
      else (([b], False), d\<lparr>ed_last := zero_time\<rparr>))"

fun ed_feed_chunk :: "bytes \<Rightarrow> time \<Rightarrow> escape_detector \<Rightarrow> (bytes \<times> bool) \<times> escape_detector" where
  "ed_feed_chunk [] now d = (([], False), d)"
| "ed_feed_chunk (b # bs) now d =
     (let ((pass, det), d1) = ed_feed b now d
      in if det then (([], True), d1)
         else (let ((out, det2), d2) = ed_feed_chunk bs now d1 in ((pass @ out, det2), d2)))"

text \<open>What the bridge reads from the terminal, chunk after chunk, until the user detaches.\<close>

fun bridge_input :: "(time \<times> bytes) list \<Rightarrow> escape_detector \<Rightarrow> bytes \<times> bool" where
  "bridge_input [] d = ([], False)"
| "bridge_input ((now, chunk) # rest) d =
     (let ((out, det), d1) = ed_feed_chunk chunk now d
      in if det then (out, True) else (let (out2, det2) = bridge_input rest d1 in (out @ out2, det2)))"

text \<open>Two presses in a row with an accepted distance.\<close>

fun double_tap :: "(duration \<Rightarrow> bool) \<Rightarrow> (time \<times> bool) list \<Rightarrow> bool" where
  "double_tap w ((t, a) # (u, b) # r) = (a \<and> b \<and> w (u - t) \<or> double_tap w ((u, b) # r))"
| "double_tap w _ = False"

definition stamped :: "char \<Rightarrow> (time \<times> bytes) list \<Rightarrow> (time \<times> bool) list" where
  "stamped e input = concat (map (\<lambda>(now, chunk). map (\<lambda>b. (now, b = e)) chunk) input)"

lemma double_tap_plain: "double_tap w ((t, False) # xs) = double_tap w xs"
  by (cases "(w, xs)" rule: double_tap.cases) auto

lemma chunk_result:
  assumes "\<not> is_zero_time now" "ed_feed_chunk bs now d = ((out, det), d')"
  shows "(det \<longrightarrow> (\<forall>r. double_tap (\<lambda>x. x < ed_timeout d)
            ((ed_last d, \<not> is_zero_time (ed_last d)) # map (\<lambda>b. (now, b = ed_escape d)) bs @ r)))
     \<and> (\<not> det \<longrightarrow> out = filter (\<lambda>b. b \<noteq> ed_escape d) bs \<and> ed_escape d' = ed_escape d \<and> ed_timeout d' = ed_timeout d
          \<and> (\<forall>r. double_tap (\<lambda>x. x < ed_timeout d)
                 ((ed_last d, \<not> is_zero_time (ed_last d)) # map (\<lambda>b. (now, b = ed_escape d)) bs @ r)
               = double_tap (\<lambda>x. x < ed_timeout d) ((ed_last d', \<not> is_zero_time (ed_last d')) # r)))"
  using assms(2)
proof (induction bs arbitrary: d out det d')
  case Nil
  then show ?case by simp
next
  case (Cons b bs)
  obtain pass det1 d1 where st: "ed_feed b now d = ((pass, det1), d1)" by (metis surj_pair)
  show ?case
  proof (cases det1)
    case True
    then show ?thesis using Cons.prems st by (auto simp: ed_feed_def split: if_splits)
  next
    case False
    obtain out2 det2 d2 where rest: "ed_feed_chunk bs now d1 = ((out2, det2), d2)" by (metis surj_pair)
    have eq: "out = pass @ out2" "det = det2" "d' = d2" using Cons.prems st rest False by auto
    have same: "ed_escape d1 = ed_escape d" "ed_timeout d1 = ed_timeout d"
      using st by (auto simp: ed_feed_def split: if_splits)
    have skip: "double_tap (\<lambda>x. x < ed_timeout d) ((ed_last d, \<not> is_zero_time (ed_last d)) # (now, b = ed_escape d) # r)
        = double_tap (\<lambda>x. x < ed_timeout d) ((ed_last d1, \<not> is_zero_time (ed_last d1)) # r)" for r
      using st False assms(1) by (auto simp: ed_feed_def double_tap_plain is_zero_time_def split: if_splits)
    have pass: "pass = filter (\<lambda>b. b \<noteq> ed_escape d) [b]"
      using st False by (auto simp: ed_feed_def split: if_splits)
    show ?thesis using Cons.IH [OF rest] by (simp add: eq same skip pass del: double_tap.simps)
  qed
qed

lemma bridge_result:
  assumes "list_all (\<lambda>(now, chunk). \<not> is_zero_time now) input"
  shows "snd (bridge_input input d) =
      double_tap (\<lambda>x. x < ed_timeout d) ((ed_last d, \<not> is_zero_time (ed_last d)) # stamped (ed_escape d) input)
     \<and> (\<not> snd (bridge_input input d) \<longrightarrow>
          fst (bridge_input input d) = filter (\<lambda>b. b \<noteq> ed_escape d) (concat (map snd input)))"
  using assms
proof (induction input arbitrary: d)
  case Nil
  then show ?case by (simp add: stamped_def)
next
  case (Cons p input)
  obtain now chunk where p: "p = (now, chunk)" by force
  obtain out det d1 where st: "ed_feed_chunk chunk now d = ((out, det), d1)" by (metis surj_pair)
  obtain out2 det2 where rest: "bridge_input input d1 = (out2, det2)" by force
  have nz: "\<not> is_zero_time now" using Cons.prems p by simp
  show ?case
    using chunk_result [OF nz st] Cons.IH [of d1] Cons.prems st rest p
    by (cases det) (auto simp: stamped_def)
qed

text \<open>C30: The full-screen bridge detaches exactly when two escape bytes follow each other, with nothing in between and
  less than the timeout apart, wherever the reads cut the input; and until then it passes on every other byte, in
  order, and nothing else. (It drops the single escape bytes, as its comment says.)\<close>

theorem bridge_detects_double_escape:
  assumes "list_all (\<lambda>(now, chunk). \<not> is_zero_time now) input"
  shows "snd (bridge_input input (new_escape_detector b timeout)) =
      double_tap (\<lambda>x. x < ed_timeout (new_escape_detector b timeout))
        (stamped (ed_escape (new_escape_detector b timeout)) input)
     \<and> (\<not> snd (bridge_input input (new_escape_detector b timeout)) \<longrightarrow>
          fst (bridge_input input (new_escape_detector b timeout))
          = filter (\<lambda>c. c \<noteq> ed_escape (new_escape_detector b timeout)) (concat (map snd input)))"
  using bridge_result [OF assms, of "new_escape_detector b timeout"]
  by (simp add: new_escape_detector_def double_tap_plain is_zero_time_def)

theorem bridge_detects_double_escape_witness:
  "snd (bridge_input [(5, ''ls''), (7, [CHR 0x1B]), (9, [CHR 0x1B])] (new_escape_detector (CHR 0x00) 0))
   \<and> fst (bridge_input [(5, [CHR 0x1B] @ ''[A''), (8, ''x'')] (new_escape_detector (CHR 0x00) 0)) = ''[Ax''"
proof -
  have "list_all (\<lambda>(now, chunk). \<not> is_zero_time now) [(5, ''ls''), (7, [CHR 0x1B]), (9, [CHR 0x1B])]"
    "list_all (\<lambda>(now, chunk). \<not> is_zero_time now) [(5, [CHR 0x1B] @ ''[A''), (8, ''x'')]"
    by (simp_all add: is_zero_time_def zero_time_def)
  from this [THEN bridge_detects_double_escape, of "CHR 0x00" 0] show ?thesis
    by (simp add: stamped_def new_escape_detector_def default_escape_def default_timeout_def millisecond_def)
qed

end
