(* ===== verification/Attach.thy ===== *)
theory Attach
  imports Attach_Keys
begin

unbundle bit_operations_syntax

text \<open>
  The embedded attach mode, \<open>internal/tui/attach\<close>: the wrapper of the terminal emulator (\<open>vtterm.go\<close>), the
  session with its detach detector and its path to the child's terminal (\<open>session.go\<close>), the mouse and its
  selection (\<open>mouse.go\<close>), and drawing the emulator's grid (\<open>render.go\<close>). The emulator itself is a library and a
  parameter: a record of the functions that the source calls on it.
\<close>

section \<open>The emulator\<close>

datatype ansi_mode =
    X10MouseMode | NormalMouseMode | HighlightMouseMode | ButtonEventMouseMode | AnyEventMouseMode | OtherMode nat

datatype tea_button =
    TeaNone | TeaLeft | TeaMiddle | TeaRight | TeaWheelUp | TeaWheelDown | TeaWheelLeft | TeaWheelRight
  | TeaBackward | TeaForward | TeaOther

datatype tea_action = TeaPress | TeaRelease | TeaMotion | TeaNoAction

record tea_mouse =
  tm_x :: int
  tm_y :: int
  tm_button :: tea_button
  tm_action :: tea_action
  tm_shift :: bool
  tm_alt :: bool
  tm_ctrl :: bool

datatype uv_button =
    UvNoButton | UvLeft | UvMiddle | UvRight | UvWheelUp | UvWheelDown | UvWheelLeft | UvWheelRight
  | UvBackward | UvForward

record uv_mouse =
  um_x :: int
  um_y :: int
  um_button :: uv_button
  um_mod :: key_mod

datatype uv_mouse_event =
    MouseWheelEvent uv_mouse | MouseClickEvent uv_mouse | MouseReleaseEvent uv_mouse | MouseMotionEvent uv_mouse

record 'st cell =
  ce_content :: bytes
  ce_width :: int
  ce_style :: 'st

text \<open>
  What the source calls on the emulator: a write gives the modes it enabled (\<open>True\<close>) and disabled, in order, through the
  callbacks, and the reply it generates; keys, mouse events and pasted text give the bytes they are encoded to.
\<close>

record ('em, 'st) vt_lib =
  vl_new :: "int \<Rightarrow> int \<Rightarrow> 'em"
  vl_write :: "bytes \<Rightarrow> 'em \<Rightarrow> 'em \<times> (bool \<times> ansi_mode) list \<times> bytes"
  vl_key :: "uv_key \<Rightarrow> 'em \<Rightarrow> 'em \<times> bytes"
  vl_mouse :: "uv_mouse_event \<Rightarrow> 'em \<Rightarrow> 'em \<times> bytes"
  vl_paste :: "bytes \<Rightarrow> 'em \<Rightarrow> 'em \<times> bytes"
  vl_resize :: "int \<Rightarrow> int \<Rightarrow> 'em \<Rightarrow> 'em"
  vl_cell :: "'em \<Rightarrow> int \<Rightarrow> int \<Rightarrow> 'st cell option"
  vl_width :: "'em \<Rightarrow> int"
  vl_height :: "'em \<Rightarrow> int"
  vl_cursor :: "'em \<Rightarrow> int \<times> int"

section \<open>The wrapper\<close>

record 'em vt_term =
  vt_em :: 'em
  vt_mask :: "32 word"
  vt_notify :: bool
  vt_closed :: bool

fun mouse_mode_bit :: "ansi_mode \<Rightarrow> 32 word" where
  "mouse_mode_bit X10MouseMode = push_bit 0 1"
| "mouse_mode_bit NormalMouseMode = push_bit 1 1"
| "mouse_mode_bit HighlightMouseMode = push_bit 2 1"
| "mouse_mode_bit ButtonEventMouseMode = push_bit 3 1"
| "mouse_mode_bit AnyEventMouseMode = push_bit 4 1"
| "mouse_mode_bit (OtherMode n) = 0"

definition mode_callback :: "bool \<times> ansi_mode \<Rightarrow> 32 word \<Rightarrow> 32 word" where
  "mode_callback ev w =
     (let (enable, mode) = ev; b = mouse_mode_bit mode
      in if b = 0 then w else if enable then w OR b else w AND NOT b)"

definition new_vt_term :: "('em, 'st) vt_lib \<Rightarrow> int \<Rightarrow> int \<Rightarrow> 'em vt_term" where
  "new_vt_term lib cols rows =
     \<lparr>vt_em = vl_new lib (if cols \<le> 0 then 80 else cols) (if rows \<le> 0 then 24 else rows),
      vt_mask = 0, vt_notify = False, vt_closed = False\<rparr>"

definition mouse_tracking :: "'em vt_term \<Rightarrow> bool" where
  "mouse_tracking t \<longleftrightarrow> vt_mask t \<noteq> 0"

text \<open>The channel of pings has room for one.\<close>

definition ping :: "'em vt_term \<Rightarrow> 'em vt_term" where
  "ping t = t\<lparr>vt_notify := True\<rparr>"

text \<open>Output of the child; \<open>None\<close> is the error of a closed terminal. The reply goes to the drain.\<close>

definition vt_write :: "('em, 'st) vt_lib \<Rightarrow> bytes \<Rightarrow> 'em vt_term \<Rightarrow> (bytes \<times> 'em vt_term) option" where
  "vt_write lib p t =
     (if vt_closed t then None
      else (let (em, evs, reply) = vl_write lib p (vt_em t)
            in Some (reply, ping (t\<lparr>vt_em := em, vt_mask := fold mode_callback evs (vt_mask t)\<rparr>))))"

definition vt_input :: "('em \<Rightarrow> 'em \<times> bytes) \<Rightarrow> 'em vt_term \<Rightarrow> bytes \<times> 'em vt_term" where
  "vt_input f t = (if vt_closed t then ([], t) else (let (em, bs) = f (vt_em t) in (bs, t\<lparr>vt_em := em\<rparr>)))"

definition vt_send_key :: "('em, 'st) vt_lib \<Rightarrow> uv_key \<Rightarrow> 'em vt_term \<Rightarrow> bytes \<times> 'em vt_term" where
  "vt_send_key lib k t = vt_input (vl_key lib k) t"

definition vt_send_mouse :: "('em, 'st) vt_lib \<Rightarrow> uv_mouse_event \<Rightarrow> 'em vt_term \<Rightarrow> bytes \<times> 'em vt_term" where
  "vt_send_mouse lib ev t = vt_input (vl_mouse lib ev) t"

definition vt_paste :: "('em, 'st) vt_lib \<Rightarrow> bytes \<Rightarrow> 'em vt_term \<Rightarrow> bytes \<times> 'em vt_term" where
  "vt_paste lib s t = vt_input (vl_paste lib s) t"

definition vt_resize :: "('em, 'st) vt_lib \<Rightarrow> int \<Rightarrow> int \<Rightarrow> 'em vt_term \<Rightarrow> 'em vt_term" where
  "vt_resize lib cols rows t = (if vt_closed t then t else ping (t\<lparr>vt_em := vl_resize lib cols rows (vt_em t)\<rparr>))"

definition vt_close :: "'em vt_term \<Rightarrow> 'em vt_term" where
  "vt_close t = t\<lparr>vt_closed := True\<rparr>"

section \<open>The mouse modes\<close>

text \<open>The modes that are on after a list of callbacks.\<close>

definition mouse_modes :: "ansi_mode list" where
  "mouse_modes = [X10MouseMode, NormalMouseMode, HighlightMouseMode, ButtonEventMouseMode, AnyEventMouseMode]"

definition switch :: "bool \<times> ansi_mode \<Rightarrow> ansi_mode set \<Rightarrow> ansi_mode set" where
  "switch ev ms = (case ev of (True, m) \<Rightarrow> insert m ms | (False, m) \<Rightarrow> ms - {m})"

definition mode_index :: "ansi_mode \<Rightarrow> nat option" where
  "mode_index m = (case m of X10MouseMode \<Rightarrow> Some 0 | NormalMouseMode \<Rightarrow> Some 1 | HighlightMouseMode \<Rightarrow> Some 2
     | ButtonEventMouseMode \<Rightarrow> Some 3 | AnyEventMouseMode \<Rightarrow> Some 4 | OtherMode n \<Rightarrow> None)"

definition mask_ok :: "ansi_mode set \<Rightarrow> 32 word \<Rightarrow> bool" where
  "mask_ok ms w \<longleftrightarrow> (\<forall>n. bit w n \<longleftrightarrow> (\<exists>m \<in> ms. mode_index m = Some n))"

lemma mode_index_small: "mode_index m = Some n \<Longrightarrow> n < 32"
  by (cases m) (auto simp: mode_index_def)

lemma mode_bit_index: "mouse_mode_bit m = (case mode_index m of None \<Rightarrow> 0 | Some k \<Rightarrow> push_bit k 1)"
  by (cases m) (simp_all add: mode_index_def)

lemma bit_mouse_mode_bit: "bit (mouse_mode_bit m) n \<longleftrightarrow> mode_index m = Some n"
  using mode_index_small [of m n] by (auto simp: mode_bit_index bit_simps split: option.splits)

lemma mode_index_inj: "mode_index m = Some n \<Longrightarrow> mode_index m' = Some n \<Longrightarrow> m = m'"
  by (cases m; cases m') (auto simp: mode_index_def)

lemma mouse_mode_bit_zero: "mouse_mode_bit m = 0 \<longleftrightarrow> mode_index m = None"
  by (cases m) (auto simp: mode_index_def)

lemma mask_ok_step:
  assumes "mask_ok ms w"
  shows "mask_ok (switch ev ms) (mode_callback ev w)"
proof -
  obtain on m where ev: "ev = (on, m)" by force
  show ?thesis
  proof (cases "mode_index m")
    case None
    then show ?thesis using assms
      by (cases on) (auto simp: ev mode_callback_def switch_def mouse_mode_bit_zero mask_ok_def)
  next
    case (Some k)
    have small: "n < 32" if "bit w n" for n
      using assms that mode_index_small by (auto simp: mask_ok_def)
    show ?thesis
      unfolding mask_ok_def
    proof
      fix n
      have "bit w n \<longleftrightarrow> (\<exists>m \<in> ms. mode_index m = Some n)" using assms by (simp add: mask_ok_def)
      then show "bit (mode_callback ev w) n = (\<exists>m \<in> switch ev ms. mode_index m = Some n)"
        using Some small [of n] mode_index_inj [of m n]
        by (cases on) (auto simp: ev mode_callback_def switch_def mouse_mode_bit_zero bit_or_iff bit_and_iff bit_not_iff
            bit_mouse_mode_bit)
    qed
  qed
qed

lemma mask_ok_fold: "mask_ok ms w \<Longrightarrow> mask_ok (fold switch evs ms) (fold mode_callback evs w)"
  by (induction evs arbitrary: ms w) (auto intro: mask_ok_step)

lemma mask_ok_nonzero:
  assumes "mask_ok ms w"
  shows "w \<noteq> 0 \<longleftrightarrow> (\<exists>m \<in> ms. m \<in> set mouse_modes)"
proof -
  have "w \<noteq> 0 \<longleftrightarrow> (\<exists>n. bit w n)"
    by (metis bit_eq_iff bit_0_eq bot_apply bot_bool_def)
  also have "\<dots> \<longleftrightarrow> (\<exists>m \<in> ms. mode_index m \<noteq> None)"
    using assms by (auto simp: mask_ok_def)
  also have "\<dots> \<longleftrightarrow> (\<exists>m \<in> ms. m \<in> set mouse_modes)"
  proof -
    have "mode_index m \<noteq> None \<longleftrightarrow> m \<in> set mouse_modes" for m
      by (cases m) (auto simp: mouse_modes_def mode_index_def)
    then show ?thesis by simp
  qed
  finally show ?thesis .
qed

fun vt_writes :: "('em, 'st) vt_lib \<Rightarrow> bytes list \<Rightarrow> 'em vt_term \<Rightarrow> (bool \<times> ansi_mode) list \<times> 'em vt_term" where
  "vt_writes lib [] t = ([], t)"
| "vt_writes lib (p # ps) t =
     (case vt_write lib p t of
        None \<Rightarrow> ([], t)
      | Some (reply, t1) \<Rightarrow>
          (let evs = fst (snd (vl_write lib p (vt_em t))); (evs2, t2) = vt_writes lib ps t1 in (evs @ evs2, t2)))"

lemma vt_writes_mask:
  "mask_ok ms (vt_mask t) \<Longrightarrow> \<not> vt_closed t \<Longrightarrow>
     mask_ok (fold switch (fst (vt_writes lib ps t)) ms) (vt_mask (snd (vt_writes lib ps t)))"
proof (induction ps arbitrary: t ms)
  case Nil
  then show ?case by simp
next
  case (Cons p ps)
  obtain em evs reply where w: "vl_write lib p (vt_em t) = (em, evs, reply)" by (metis surj_pair)
  let ?t = "ping (t\<lparr>vt_em := em, vt_mask := fold mode_callback evs (vt_mask t)\<rparr>)"
  have "mask_ok (fold switch evs ms) (vt_mask ?t)" "\<not> vt_closed ?t"
    using Cons.prems mask_ok_fold by (auto simp: ping_def)
  note ih = Cons.IH [OF this]
  obtain evs2 t2 where rest: "vt_writes lib ps ?t = (evs2, t2)" by force
  show ?case using ih Cons.prems w rest by (simp add: vt_write_def)
qed

text \<open>C33: The bit mask says exactly whether the child wants the mouse: after any output of the child, cut into any
  writes, the mouse counts as tracked just when some mouse mode was enabled and not disabled since. A mode enabled twice
  needs one disable only, and other modes do not matter.\<close>

theorem mouse_mask_tracks_modes:
  "mouse_tracking (snd (vt_writes lib ps (new_vt_term lib cols rows)))
     = (\<exists>m. m \<in> set mouse_modes \<and> m \<in> fold switch (fst (vt_writes lib ps (new_vt_term lib cols rows))) {})"
proof -
  have "mask_ok {} (vt_mask (new_vt_term lib cols rows))" "\<not> vt_closed (new_vt_term lib cols rows)"
    by (simp_all add: mask_ok_def new_vt_term_def)
  from vt_writes_mask [OF this, of lib ps] show ?thesis
    using mask_ok_nonzero by (auto simp: mouse_tracking_def)
qed

section \<open>The key-wise detector\<close>

definition detach_timeout :: duration where "detach_timeout = 400 * millisecond"
definition raw_esc :: char where "raw_esc = CHR 0x1B"

record key_detach =
  kd_timeout :: duration
  kd_armed :: bool
  kd_armed_at :: time
  kd_flush :: bytes

definition kd_clear :: "key_detach \<Rightarrow> key_detach" where
  "kd_clear d = d\<lparr>kd_armed := False, kd_flush := [], kd_armed_at := zero_time\<rparr>"

definition kd_arm :: "time \<Rightarrow> key_detach \<Rightarrow> key_detach" where
  "kd_arm now d = d\<lparr>kd_armed := True, kd_armed_at := now, kd_flush := [raw_esc]\<rparr>"

text \<open>\<open>Feed\<close>: whether the key is consumed, whether the user detaches, and what to send first.\<close>

definition kd_feed :: "time \<Rightarrow> key_msg \<Rightarrow> key_detach \<Rightarrow> (bool \<times> bool \<times> bytes) \<times> key_detach" where
  "kd_feed now k d =
     (let is_esc = (km_type k = KeyEsc)
      in if kd_armed d \<and> \<not> is_zero_time (kd_armed_at d) \<and> now - kd_armed_at d > kd_timeout d then
           (if is_esc then ((True, False, kd_flush d), kd_arm now d) else ((False, False, kd_flush d), kd_clear d))
         else if kd_armed d then
           (if is_esc then ((True, True, []), kd_clear d) else ((False, False, kd_flush d), kd_clear d))
         else if is_esc then ((True, False, []), kd_arm now d)
         else ((False, False, []), d))"

definition kd_flush_if_expired :: "time \<Rightarrow> key_detach \<Rightarrow> bytes \<times> key_detach" where
  "kd_flush_if_expired now d =
     (if \<not> kd_armed d \<or> is_zero_time (kd_armed_at d) \<or> now - kd_armed_at d \<le> kd_timeout d then ([], d)
      else (kd_flush d, kd_clear d))"

section \<open>The session\<close>

text \<open>
  \<open>ss_ptmx\<close> is what has been written to the child's terminal, \<open>ss_err\<close> the error channel with its room for one. What the
  emulator generates goes into its pipe, \<open>ss_pipe\<close>; the drain goroutine reads it and writes it to the terminal at its own
  pace, while \<open>SendBytes\<close> writes to the terminal directly. What the drain has read and not yet written still counts as
  in the pipe. A parameter \<open>wr\<close> is the error of the write to the terminal, if it fails.
\<close>

record 'em session =
  ss_project :: string
  ss_term :: "'em vt_term"
  ss_pipe :: bytes
  ss_ptmx :: bytes
  ss_subscribed :: bool
  ss_detector :: key_detach
  ss_err :: "string option"
  ss_cancelled :: bool

datatype attach_error = NilPtmx | NilSubscribe | SubscribeFailed string

definition new_session ::
  "('em, 'st) vt_lib \<Rightarrow> string \<Rightarrow> bytes option \<Rightarrow> int \<Rightarrow> int \<Rightarrow> (string \<Rightarrow> string option) option \<Rightarrow> attach_error + 'em session" where
  "new_session lib i ptmx cols rows subscribe =
     (case ptmx of
        None \<Rightarrow> Inl NilPtmx
      | Some out \<Rightarrow>
          (case subscribe of
             None \<Rightarrow> Inl NilSubscribe
           | Some sub \<Rightarrow>
               (case sub i of
                  Some e \<Rightarrow> Inl (SubscribeFailed e)
                | None \<Rightarrow>
                    Inr \<lparr>ss_project = i, ss_term = new_vt_term lib cols rows, ss_pipe = [], ss_ptmx = out, ss_subscribed = True,
                         ss_detector = \<lparr>kd_timeout = detach_timeout, kd_armed = False, kd_armed_at = zero_time, kd_flush = []\<rparr>,
                         ss_err = None, ss_cancelled = False\<rparr>)))"

definition tee_write :: "string option \<Rightarrow> bytes \<Rightarrow> 'em session \<Rightarrow> 'em session" where
  "tee_write wr bs s =
     (if bs = [] then s
      else (case wr of
              None \<Rightarrow> s\<lparr>ss_ptmx := ss_ptmx s @ bs\<rparr>
            | Some e \<Rightarrow> s\<lparr>ss_err := (case ss_err s of None \<Rightarrow> Some e | Some old \<Rightarrow> Some old)\<rparr>))"

definition through_term :: "('em vt_term \<Rightarrow> bytes \<times> 'em vt_term) \<Rightarrow> 'em session \<Rightarrow> 'em session" where
  "through_term f s = (let (bs, t) = f (ss_term s) in s\<lparr>ss_term := t, ss_pipe := ss_pipe s @ bs\<rparr>)"

text \<open>A round of \<open>drain\<close>: up to \<open>n\<close> bytes of the pipe are written to the terminal; an error is only noted.\<close>

definition drain_round :: "string option \<Rightarrow> nat \<Rightarrow> 'em session \<Rightarrow> 'em session" where
  "drain_round wr n s = tee_write wr (take n (ss_pipe s)) (s\<lparr>ss_pipe := drop n (ss_pipe s)\<rparr>)"

definition send_key :: "('em, 'st) vt_lib \<Rightarrow> uv_key \<Rightarrow> 'em session \<Rightarrow> 'em session" where
  "send_key lib k s = through_term (vt_send_key lib k) s"

definition send_mouse :: "('em, 'st) vt_lib \<Rightarrow> uv_mouse_event \<Rightarrow> 'em session \<Rightarrow> 'em session" where
  "send_mouse lib ev s = through_term (vt_send_mouse lib ev) s"

fun crlf_to_cr :: "bytes \<Rightarrow> bytes" where
  "crlf_to_cr (a # b # s) = (if a = CHR 0x0D \<and> b = CHR 0x0A then a # crlf_to_cr s else a # crlf_to_cr (b # s))"
| "crlf_to_cr s = s"

definition paste_text :: "bytes \<Rightarrow> bytes" where
  "paste_text s = map (\<lambda>c. if c = CHR 0x0A then CHR 0x0D else c) (crlf_to_cr s)"

definition send_paste :: "('em, 'st) vt_lib \<Rightarrow> bytes \<Rightarrow> 'em session \<Rightarrow> 'em session" where
  "send_paste lib s ss = (if s = [] then ss else through_term (vt_paste lib (paste_text s)) ss)"

definition send_bytes :: "string option \<Rightarrow> bytes \<Rightarrow> 'em session \<Rightarrow> string option \<times> 'em session" where
  "send_bytes wr p s = (if p = [] then (None, s) else (wr, tee_write wr p s))"

definition session_resize :: "('em, 'st) vt_lib \<Rightarrow> int \<Rightarrow> int \<Rightarrow> 'em session \<Rightarrow> 'em session" where
  "session_resize lib cols rows s = s\<lparr>ss_term := vt_resize lib cols rows (ss_term s)\<rparr>"

text \<open>Output of the child goes to the emulator, whose replies go back to the child.\<close>

definition child_output :: "('em, 'st) vt_lib \<Rightarrow> bytes \<Rightarrow> 'em session \<Rightarrow> 'em session" where
  "child_output lib p s =
     (case vt_write lib p (ss_term s) of
        None \<Rightarrow> s
      | Some (reply, t) \<Rightarrow> s\<lparr>ss_term := t, ss_pipe := ss_pipe s @ reply\<rparr>)"

definition session_close :: "'em session \<Rightarrow> 'em session" where
  "session_close s = s\<lparr>ss_cancelled := True, ss_subscribed := False, ss_term := vt_close (ss_term s)\<rparr>"

datatype attach_cmd = NoCmd | FlushTick | EndSession string

definition refresh_ready :: "'em session \<Rightarrow> bool" where
  "refresh_ready s \<longleftrightarrow> vt_notify (ss_term s) \<or> ss_cancelled s"

definition watch_err :: "'em session \<Rightarrow> attach_cmd \<times> 'em session" where
  "watch_err s =
     (case ss_err s of
        Some e \<Rightarrow> (EndSession (''child write failed: '' @ e), s\<lparr>ss_err := None\<rparr>)
      | None \<Rightarrow> (NoCmd, s))"

definition write_failed :: "string \<Rightarrow> 'em session \<Rightarrow> string" where
  "write_failed e s = ''child write failed: '' @ e @ '' ('' @ ss_project s @ '')''"

text \<open>A key, \<open>routeEmbeddedAttach\<close>, and the timer that lets a lone Esc through, \<open>handleDetachFlush\<close>.\<close>

definition attach_key ::
  "('em, 'st) vt_lib \<Rightarrow> string option \<Rightarrow> time \<Rightarrow> key_msg \<Rightarrow> 'em session \<Rightarrow> attach_cmd \<times> 'em session" where
  "attach_key lib wr now k s =
     (if km_paste k then (NoCmd, send_paste lib (runes_text (km_runes k)) s)
      else
        (let ((consumed, detached, fl), d) = kd_feed now k (ss_detector s);
             s1 = s\<lparr>ss_detector := d\<rparr>;
             (e, s2) = send_bytes wr fl s1
         in case e of
              Some err \<Rightarrow> (EndSession (write_failed err s), s2)
            | None \<Rightarrow>
                (if detached then (EndSession (''detached from '' @ ss_project s), s2)
                 else if consumed then (FlushTick, s2)
                 else (case msg_to_key k of None \<Rightarrow> (NoCmd, s2) | Some ev \<Rightarrow> (NoCmd, send_key lib ev s2)))))"

definition detach_flush :: "string option \<Rightarrow> time \<Rightarrow> 'em session \<Rightarrow> attach_cmd \<times> 'em session" where
  "detach_flush wr now s =
     (let (fl, d) = kd_flush_if_expired now (ss_detector s);
          (e, s1) = send_bytes wr fl (s\<lparr>ss_detector := d\<rparr>)
      in case e of Some err \<Rightarrow> (EndSession (write_failed err s), s1) | None \<Rightarrow> (NoCmd, s1))"

section \<open>Nothing typed is lost\<close>

text \<open>
  What happens to a session: a key, the timer, a round of the drain, output of the child, a mouse event for the child. The
  drain may run at any time and move any number of bytes.
\<close>

datatype attach_input = Press time key_msg | Tick time | Drain nat | Output bytes | MouseSent uv_mouse_event

fun attach_event :: "('em, 'st) vt_lib \<Rightarrow> attach_input \<Rightarrow> 'em session \<Rightarrow> attach_cmd \<times> 'em session" where
  "attach_event lib (Press t k) s = attach_key lib None t k s"
| "attach_event lib (Tick t) s = detach_flush None t s"
| "attach_event lib (Drain n) s = (NoCmd, drain_round None n s)"
| "attach_event lib (Output p) s = (NoCmd, child_output lib p s)"
| "attach_event lib (MouseSent ev) s = (NoCmd, send_mouse lib ev s)"

fun attach_run :: "('em, 'st) vt_lib \<Rightarrow> attach_input list \<Rightarrow> 'em session \<Rightarrow> bool \<times> 'em session" where
  "attach_run lib [] s = (False, s)"
| "attach_run lib (i # is) s =
     (let (c, s1) = attach_event lib i s
      in case c of EndSession r \<Rightarrow> (True, s1) | _ \<Rightarrow> attach_run lib is s1)"

fun input_times :: "attach_input list \<Rightarrow> time list" where
  "input_times [] = []"
| "input_times (Press t k # is) = t # input_times is"
| "input_times (Tick t # is) = t # input_times is"
| "input_times (_ # is) = input_times is"

text \<open>The keys but for pastes, with whether each is Esc.\<close>

fun presses :: "attach_input list \<Rightarrow> (time \<times> bool) list" where
  "presses [] = []"
| "presses (Press t k # is) = (if km_paste k then presses is else (t, km_type k = KeyEsc) # presses is)"
| "presses (_ # is) = presses is"

text \<open>
  What an input puts on its way to the child, an Esc (\<open>True\<close>) or what the emulator in state \<open>em\<close> generates, and the
  emulator's next state.
\<close>

fun put :: "('em, 'st) vt_lib \<Rightarrow> attach_input \<Rightarrow> 'em \<Rightarrow> (bool \<times> bytes) \<times> 'em" where
  "put lib (Press t k) em =
     (if km_paste k then
        (if runes_text (km_runes k) = [] then ((False, []), em)
         else (let (em1, bs) = vl_paste lib (paste_text (runes_text (km_runes k))) em in ((False, bs), em1)))
      else if km_type k = KeyEsc then ((True, [raw_esc]), em)
      else (case msg_to_key k of None \<Rightarrow> ((False, []), em) | Some e \<Rightarrow> (let (em1, bs) = vl_key lib e em in ((False, bs), em1))))"
| "put lib (Output p) em = (let (em1, _, reply) = vl_write lib p em in ((False, reply), em1))"
| "put lib (MouseSent ev) em = (let (em1, bs) = vl_mouse lib ev em in ((False, bs), em1))"
| "put lib _ em = ((False, []), em)"

fun puts :: "('em, 'st) vt_lib \<Rightarrow> attach_input list \<Rightarrow> 'em \<Rightarrow> (bool \<times> bytes) list" where
  "puts lib [] em = []"
| "puts lib (i # is) em = fst (put lib i em) # puts lib is (snd (put lib i em))"

definition generated :: "(bool \<times> bytes) list \<Rightarrow> bytes" where
  "generated xs = concat (map snd (filter (\<lambda>x. \<not> fst x) xs))"

definition escs :: "(bool \<times> bytes) list \<Rightarrow> nat" where
  "escs xs = length (filter fst xs)"

definition in_order :: "(bool \<times> bytes) list \<Rightarrow> bytes" where
  "in_order xs = concat (map snd xs)"

text \<open>
  The drain has caught up whenever an Esc is held and a key or the timer comes, and while an Esc is held nothing is
  pasted and the emulator generates nothing by itself.
\<close>

fun undisturbed :: "('em, 'st) vt_lib \<Rightarrow> attach_input list \<Rightarrow> 'em session \<Rightarrow> bool" where
  "undisturbed lib [] s \<longleftrightarrow> True"
| "undisturbed lib (i # is) s \<longleftrightarrow>
     (kd_armed (ss_detector s) \<longrightarrow>
        (case i of
           Press t k \<Rightarrow> ss_pipe s = [] \<and> \<not> km_paste k
         | Tick t \<Rightarrow> ss_pipe s = []
         | Drain n \<Rightarrow> True
         | _ \<Rightarrow> snd (fst (put lib i (vt_em (ss_term s)))) = []))
     \<and> undisturbed lib is (snd (attach_event lib i s))"

definition kd_ok :: "key_detach \<Rightarrow> bool" where
  "kd_ok d \<longleftrightarrow> kd_flush d = (if kd_armed d then [raw_esc] else []) \<and> (kd_armed d \<longleftrightarrow> \<not> is_zero_time (kd_armed_at d))"

definition session_ready :: "'em session \<Rightarrow> bool" where
  "session_ready s \<longleftrightarrow> kd_ok (ss_detector s) \<and> \<not> vt_closed (ss_term s)"

lemma zero_is_zero [simp]: "is_zero_time zero_time"
  by (simp add: is_zero_time_def)

lemmas kd_defs = kd_feed_def kd_flush_if_expired_def kd_arm_def kd_clear_def kd_ok_def Let_def
lemmas session_defs = attach_key_def detach_flush_def send_bytes_def send_key_def send_mouse_def send_paste_def
  through_term_def tee_write_def drain_round_def child_output_def vt_write_def
  vt_send_key_def vt_send_mouse_def vt_paste_def vt_input_def

text \<open>An Esc that goes to the terminal directly, and a piece of the pipe that is drained.\<close>

lemma append_shuffles: "ys @ d \<in> shuffles d ys"
  by (induction ys) (auto intro: Cons_in_shuffles_rightI)

lemma shuffles_append_left: "z \<in> shuffles xs ys \<Longrightarrow> z @ d \<in> shuffles (xs @ d) ys"
proof (induction xs ys arbitrary: z rule: shuffles.induct)
  case (3 x xs y ys)
  then show ?case by (auto intro: Cons_in_shuffles_leftI Cons_in_shuffles_rightI)
qed (auto simp: append_shuffles)

lemma shuffles_snoc_right: "z \<in> shuffles xs ys \<Longrightarrow> z @ [y] \<in> shuffles xs (ys @ [y])"
  using shuffles_append_left [of z ys xs "[y]"] by (simp add: shuffles_commutes)

text \<open>
  What has become of the inputs so far: what was generated was drained or is in the pipe, in order; the terminal has
  what was drained and the Escs that were let through, interleaved; an Esc that was typed was let through or is held.
\<close>

definition delivered :: "bytes \<Rightarrow> (bool \<times> bytes) list \<Rightarrow> 'em session \<Rightarrow> bool" where
  "delivered old xs s \<longleftrightarrow> (\<exists>drained n. drained @ ss_pipe s = generated xs
     \<and> (\<exists>z \<in> shuffles drained (replicate n raw_esc). ss_ptmx s = old @ z)
     \<and> n + (if kd_armed (ss_detector s) then 1 else 0) = escs xs)"

lemma xs_snoc [simp]:
  "generated (xs @ [(False, bs)]) = generated xs @ bs" "generated (xs @ [(True, bs)]) = generated xs"
  "escs (xs @ [(False, bs)]) = escs xs" "escs (xs @ [(True, bs)]) = Suc (escs xs)"
  "in_order (xs @ [(b, bs)]) = in_order xs @ bs"
  by (simp_all add: generated_def escs_def in_order_def)

lemma delivered_generated:
  assumes "delivered old xs s" "ss_pipe s1 = ss_pipe s @ bs" "ss_ptmx s1 = ss_ptmx s"
    "kd_armed (ss_detector s1) = kd_armed (ss_detector s)"
  shows "delivered old (xs @ [(False, bs)]) s1"
proof -
  obtain drained n where *: "drained @ ss_pipe s = generated xs"
    "\<exists>z \<in> shuffles drained (replicate n raw_esc). ss_ptmx s = old @ z"
    "n + (if kd_armed (ss_detector s) then 1 else 0) = escs xs"
    using assms(1) by (auto simp: delivered_def)
  show ?thesis
    unfolding delivered_def using * assms(2-4) by (intro exI [of _ drained] exI [of _ n]) auto
qed

lemma delivered_let_through:
  assumes "delivered old xs s" "kd_armed (ss_detector s)" "ss_pipe s1 = ss_pipe s @ bs"
    "ss_ptmx s1 = ss_ptmx s @ [raw_esc]" "\<not> kd_armed (ss_detector s1)"
  shows "delivered old (xs @ [(False, bs)]) s1"
proof -
  obtain drained n z where *: "drained @ ss_pipe s = generated xs"
    "z \<in> shuffles drained (replicate n raw_esc)" "ss_ptmx s = old @ z" "Suc n = escs xs"
    using assms(1,2) by (auto simp: delivered_def)
  have "z @ [raw_esc] \<in> shuffles drained (replicate (Suc n) raw_esc)"
    using shuffles_snoc_right [OF *(2), of raw_esc] by (simp add: replicate_append_same)
  then show ?thesis
    unfolding delivered_def using * assms(3-5) by (intro exI [of _ drained] exI [of _ "Suc n"]) auto
qed

lemma delivered_esc:
  assumes "delivered old xs s" "ss_pipe s1 = ss_pipe s" "kd_armed (ss_detector s1)"
    "ss_ptmx s1 = ss_ptmx s @ (if kd_armed (ss_detector s) then [raw_esc] else [])"
  shows "delivered old (xs @ [(True, bs)]) s1"
proof -
  obtain drained n z where *: "drained @ ss_pipe s = generated xs"
    "z \<in> shuffles drained (replicate n raw_esc)" "ss_ptmx s = old @ z"
    "n + (if kd_armed (ss_detector s) then 1 else 0) = escs xs"
    using assms(1) by (auto simp: delivered_def)
  have "z @ [raw_esc] \<in> shuffles drained (replicate (Suc n) raw_esc)"
    using shuffles_snoc_right [OF *(2), of raw_esc] by (simp add: replicate_append_same)
  then have "\<exists>z \<in> shuffles drained (replicate (escs xs) raw_esc). ss_ptmx s1 = old @ z"
    using *(2,3) *(4) [symmetric] assms(4) \<open>z @ [raw_esc] \<in> _\<close> by (cases "kd_armed (ss_detector s)") auto
  then show ?thesis
    unfolding delivered_def using *(1) assms(2,3) by (intro exI [of _ drained] exI [of _ "escs xs"]) auto
qed

lemma delivered_drained:
  assumes "delivered old xs s"
  shows "delivered old (xs @ [(False, [])]) (drain_round None k s)"
proof -
  obtain drained n z where *: "drained @ ss_pipe s = generated xs"
    "z \<in> shuffles drained (replicate n raw_esc)" "ss_ptmx s = old @ z"
    "n + (if kd_armed (ss_detector s) then 1 else 0) = escs xs"
    using assms(1) by (auto simp: delivered_def)
  have "z @ take k (ss_pipe s) \<in> shuffles (drained @ take k (ss_pipe s)) (replicate n raw_esc)"
    by (rule shuffles_append_left [OF *(2)])
  then show ?thesis
    unfolding delivered_def using *
    by (intro exI [of _ "drained @ take k (ss_pipe s)"] exI [of _ n]) (auto simp: drain_round_def tee_write_def)
qed

text \<open>One input that does not end the session.\<close>

definition ends :: "attach_input \<Rightarrow> 'em session \<Rightarrow> bool" where
  "ends i s \<longleftrightarrow> (case i of
     Press t k \<Rightarrow> \<not> km_paste k \<and> km_type k = KeyEsc \<and> kd_armed (ss_detector s)
       \<and> t - kd_armed_at (ss_detector s) \<le> kd_timeout (ss_detector s)
   | _ \<Rightarrow> False)"

lemma attach_event_ends:
  assumes "session_ready s" "attach_event lib i s = (c, s1)" "\<forall>t \<in> set (input_times [i]). \<not> is_zero_time t"
  shows "(\<exists>r. c = EndSession r) \<longleftrightarrow> ends i s"
  using assms
  by (cases i) (auto simp: session_defs kd_defs session_ready_def ends_def split: option.splits if_splits)

lemma attach_event_ready:
  assumes "session_ready s" "attach_event lib i s = (c, s1)" "\<forall>t \<in> set (input_times [i]). \<not> is_zero_time t"
  shows "session_ready s1 \<and> kd_timeout (ss_detector s1) = kd_timeout (ss_detector s)"
  using assms
  by (cases i) (auto simp: session_defs kd_defs session_ready_def ping_def split: option.splits if_splits prod.splits)

lemma attach_event_em:
  assumes "session_ready s" "attach_event lib i s = (c, s1)" "\<not> ends i s"
  shows "vt_em (ss_term s1) = snd (put lib i (vt_em (ss_term s)))"
  using assms
  by (cases i) (auto simp: session_defs kd_defs session_ready_def ping_def ends_def split: option.splits if_splits prod.splits)

lemma press_key:
  assumes "session_ready s" "attach_key lib None t k s = (c, s1)" "\<not> ends (Press t k) s" "\<not> is_zero_time t"
  shows "ss_pipe s1 = ss_pipe s @ (if km_type k = KeyEsc \<and> \<not> km_paste k then [] else snd (fst (put lib (Press t k) (vt_em (ss_term s)))))"
    and "ss_ptmx s1 = ss_ptmx s @ (if km_paste k then [] else kd_flush (ss_detector s))"
    and "ss_detector s1 = (if km_paste k then ss_detector s
           else if km_type k = KeyEsc then kd_arm t (ss_detector s) else if kd_armed (ss_detector s) then kd_clear (ss_detector s) else ss_detector s)"
  using assms
  by (auto simp: session_defs kd_defs session_ready_def ends_def split: option.splits if_splits prod.splits)

lemma put_bool: "fst (fst (put lib i em)) \<longleftrightarrow> (case i of Press t k \<Rightarrow> \<not> km_paste k \<and> km_type k = KeyEsc | _ \<Rightarrow> False)"
  by (cases i) (auto split: option.splits prod.splits)

lemma put_esc: "fst (fst (put lib i em)) \<Longrightarrow> put lib i em = ((True, [raw_esc]), em)"
  by (cases i) (auto split: option.splits prod.splits if_splits)

lemma other_event:
  assumes "session_ready s" "attach_event lib i s = (c, s1)" "\<not> (\<exists>t k. i = Press t k)" "\<not> (\<exists>t. i = Tick t)" "\<not> (\<exists>n. i = Drain n)"
  shows "ss_pipe s1 = ss_pipe s @ snd (fst (put lib i (vt_em (ss_term s))))" "ss_ptmx s1 = ss_ptmx s" "ss_detector s1 = ss_detector s"
  using assms by (cases i; auto simp: session_defs session_ready_def ping_def split: option.splits prod.splits)+

lemma tick_event:
  assumes "session_ready s" "detach_flush None t s = (c, s1)"
  shows "ss_pipe s1 = ss_pipe s"
    "ss_ptmx s1 = ss_ptmx s \<and> ss_detector s1 = ss_detector s
     \<or> kd_armed (ss_detector s) \<and> ss_ptmx s1 = ss_ptmx s @ [raw_esc] \<and> ss_detector s1 = kd_clear (ss_detector s)
       \<and> t - kd_armed_at (ss_detector s) > kd_timeout (ss_detector s)"
  using assms by (auto simp: session_defs kd_defs session_ready_def split: if_splits)

lemma delivered_event:
  assumes "session_ready s" "attach_event lib i s = (c, s1)" "\<not> ends i s" "\<forall>t \<in> set (input_times [i]). \<not> is_zero_time t"
    and "delivered old xs s"
  shows "delivered old (xs @ [fst (put lib i (vt_em (ss_term s)))]) s1"
proof (cases i)
  case (Press t k)
  have st: "attach_key lib None t k s = (c, s1)" "\<not> ends (Press t k) s" "\<not> is_zero_time t" using assms(2-4) Press by auto
  note k = press_key [OF assms(1) st]
  have kd: "kd_flush (ss_detector s) = (if kd_armed (ss_detector s) then [raw_esc] else [])"
    using assms(1) by (simp add: session_ready_def kd_ok_def)
  consider "km_paste k" | "\<not> km_paste k" "km_type k = KeyEsc" | "\<not> km_paste k" "km_type k \<noteq> KeyEsc" by blast
  then show ?thesis
  proof cases
    case 1
    then obtain bs where "fst (put lib i (vt_em (ss_term s))) = (False, bs)"
      using put_bool [of lib i "vt_em (ss_term s)"] Press by (cases "fst (put lib i (vt_em (ss_term s)))") auto
    then show ?thesis using delivered_generated [OF assms(5), of s1 bs] k 1 Press by simp
  next
    case 2
    then show ?thesis using delivered_esc [OF assms(5), of s1] k kd Press by (simp add: kd_arm_def)
  next
    case 3
    obtain bs where bs: "fst (put lib i (vt_em (ss_term s))) = (False, bs)"
      using put_bool [of lib i "vt_em (ss_term s)"] Press 3 by (cases "fst (put lib i (vt_em (ss_term s)))") auto
    show ?thesis
    proof (cases "kd_armed (ss_detector s)")
      case True
      then show ?thesis using delivered_let_through [OF assms(5) True, of s1 bs] k kd Press 3 bs by (simp add: kd_clear_def)
    next
      case False
      then show ?thesis using delivered_generated [OF assms(5), of s1 bs] k kd Press 3 bs by simp
    qed
  qed
next
  case (Tick t)
  then have st: "detach_flush None t s = (c, s1)" using assms(2) by simp
  show ?thesis
    using tick_event [OF assms(1) st] delivered_generated [OF assms(5), of s1 "[]"]
      delivered_let_through [OF assms(5), of s1 "[]"] Tick
    by (auto simp: kd_clear_def)
next
  case (Drain n)
  then show ?thesis using delivered_drained [OF assms(5)] assms(2) by auto
next
  case (Output p)
  then have "fst (put lib i (vt_em (ss_term s))) = (False, snd (fst (put lib i (vt_em (ss_term s)))))"
    by (simp split: prod.split)
  then show ?thesis
    using other_event [OF assms(1,2)] delivered_generated [OF assms(5)] Output by (metis attach_input.distinct)
next
  case (MouseSent ev)
  then have "fst (put lib i (vt_em (ss_term s))) = (False, snd (fst (put lib i (vt_em (ss_term s)))))"
    by (simp split: prod.split)
  then show ?thesis
    using other_event [OF assms(1,2)] delivered_generated [OF assms(5)] MouseSent by (metis attach_input.distinct)
qed

text \<open>When nothing disturbs a held Esc, what is delivered, in the pipe and held is in the order of the inputs.\<close>

lemma ordered_event:
  assumes "session_ready s" "attach_event lib i s = (c, s1)" "\<not> ends i s" "\<forall>t \<in> set (input_times [i]). \<not> is_zero_time t"
    and "ss_ptmx s @ ss_pipe s @ kd_flush (ss_detector s) = old" "undisturbed lib (i # is) s"
  shows "ss_ptmx s1 @ ss_pipe s1 @ kd_flush (ss_detector s1) = old @ snd (fst (put lib i (vt_em (ss_term s))))"
proof (cases i)
  case (Press t k)
  have st: "attach_key lib None t k s = (c, s1)" "\<not> ends (Press t k) s" "\<not> is_zero_time t" using assms(2-4) Press by auto
  have kd: "kd_flush (ss_detector s) = (if kd_armed (ss_detector s) then [raw_esc] else [])"
    using assms(1) by (simp add: session_ready_def kd_ok_def)
  show ?thesis
    using press_key [OF assms(1) st] kd assms(5,6) Press put_esc [of lib i "vt_em (ss_term s)"]
    by (auto simp: put_bool kd_arm_def kd_clear_def split: if_splits)
next
  case (Tick t)
  then have st: "detach_flush None t s = (c, s1)" using assms(2) by simp
  show ?thesis
    using tick_event [OF assms(1) st] assms(1,5,6) Tick
    by (auto simp: kd_clear_def session_ready_def kd_ok_def)
next
  case (Drain n)
  then show ?thesis using assms(2,5) by (auto simp: drain_round_def tee_write_def)
next
  case (Output p)
  then show ?thesis
    using other_event [OF assms(1,2)] assms(1,5,6) by (cases "kd_armed (ss_detector s)") (auto simp: session_ready_def kd_ok_def)
next
  case (MouseSent ev)
  then show ?thesis
    using other_event [OF assms(1,2)] assms(1,5,6) by (cases "kd_armed (ss_detector s)") (auto simp: session_ready_def kd_ok_def)
qed

text \<open>The detector looks for two Esc keys.\<close>

lemma late_tap:
  assumes "list_all (\<lambda>(u, b). t \<le> u) ps" "t - a > w"
  shows "double_tap (\<lambda>x. x \<le> w) ((a, b) # ps) = double_tap (\<lambda>x. x \<le> w) ps"
  using assms by (cases ps) auto

lemma presses_late: "\<forall>u \<in> set (input_times is). t \<le> u \<Longrightarrow> list_all (\<lambda>(u, b). t \<le> u) (presses is)"
  by (induction "is" rule: presses.induct) auto

lemma drain_detector [simp]: "ss_detector (drain_round wr n s) = ss_detector s"
  by (simp add: drain_round_def tee_write_def split: option.split)

lemma tap_event:
  assumes "session_ready s" "attach_event lib i s = (c, s1)" "sorted (input_times (i # is))"
    "\<forall>t \<in> set (input_times [i]). \<not> is_zero_time t"
  shows "double_tap (\<lambda>x. x \<le> kd_timeout (ss_detector s)) ((kd_armed_at (ss_detector s), kd_armed (ss_detector s)) # presses (i # is))
     = (ends i s \<or> double_tap (\<lambda>x. x \<le> kd_timeout (ss_detector s1)) ((kd_armed_at (ss_detector s1), kd_armed (ss_detector s1)) # presses is))"
proof (cases "ends i s")
  case True
  then show ?thesis by (cases i) (auto simp: ends_def)
next
  case False
  have same: "kd_timeout (ss_detector s1) = kd_timeout (ss_detector s)"
    using attach_event_ready [OF assms(1,2,4)] by simp
  show ?thesis
  proof (cases i)
    case (Press t k)
    then have st: "attach_key lib None t k s = (c, s1)" "\<not> ends (Press t k) s" "\<not> is_zero_time t" using assms(2,4) False by auto
    show ?thesis
      using press_key(3) [OF assms(1) st] same False Press
      by (auto simp: ends_def kd_arm_def kd_clear_def double_tap_plain)
  next
    case (Tick t)
    then have st: "detach_flush None t s = (c, s1)" using assms(2) by simp
    have late: "list_all (\<lambda>(u, b). t \<le> u) (presses is)" using assms(3) Tick by (intro presses_late) simp
    show ?thesis
      using tick_event(2) [OF assms(1) st] same False Tick late_tap [OF late]
      by (auto simp: ends_def kd_clear_def double_tap_plain)
  next
    case (Drain n)
    then show ?thesis using assms(2) False by auto
  next
    case (Output p)
    then show ?thesis using other_event(3) [OF assms(1,2)] False by simp
  next
    case (MouseSent ev)
    then show ?thesis using other_event(3) [OF assms(1,2)] False by simp
  qed
qed

lemma attach_run_result:
  assumes "session_ready s" "sorted (input_times is)" "\<forall>t \<in> set (input_times is). \<not> is_zero_time t"
  shows "fst (attach_run lib is s) = double_tap (\<lambda>x. x \<le> kd_timeout (ss_detector s))
           ((kd_armed_at (ss_detector s), kd_armed (ss_detector s)) # presses is)
     \<and> (\<not> fst (attach_run lib is s) \<longrightarrow> (let s' = snd (attach_run lib is s); ps = puts lib is (vt_em (ss_term s)) in
          (delivered old xs s \<longrightarrow> delivered old (xs @ ps) s')
        \<and> (undisturbed lib is s \<longrightarrow> ss_ptmx s' @ ss_pipe s' @ kd_flush (ss_detector s')
             = ss_ptmx s @ ss_pipe s @ kd_flush (ss_detector s) @ in_order ps)))"
  using assms
proof (induction "is" arbitrary: s xs)
  case Nil
  then show ?case by (simp add: in_order_def)
next
  case (Cons i "is")
  obtain c s1 where st: "attach_event lib i s = (c, s1)" by force
  have nz: "\<forall>t \<in> set (input_times [i]). \<not> is_zero_time t" using Cons.prems(3) by (cases i) auto
  have rest: "sorted (input_times is)" "\<forall>t \<in> set (input_times is). \<not> is_zero_time t"
    using Cons.prems(2,3) by (cases i; simp)+
  note ends = attach_event_ends [OF Cons.prems(1) st nz] and tap = tap_event [OF Cons.prems(1) st Cons.prems(2) nz]
  show ?case
  proof (cases "ends i s")
    case True
    then show ?thesis using st ends tap by auto
  next
    case False
    then have run: "attach_run lib (i # is) s = attach_run lib is s1" using ends st by (cases c) auto
    have ready: "session_ready s1" using attach_event_ready [OF Cons.prems(1) st nz] by simp
    have em: "vt_em (ss_term s1) = snd (put lib i (vt_em (ss_term s)))" by (rule attach_event_em [OF Cons.prems(1) st False])
    let ?p = "fst (put lib i (vt_em (ss_term s)))"
    have first: "delivered old xs s \<Longrightarrow> delivered old (xs @ [?p]) s1"
      "undisturbed lib (i # is) s \<Longrightarrow> ss_ptmx s1 @ ss_pipe s1 @ kd_flush (ss_detector s1)
         = ss_ptmx s @ ss_pipe s @ kd_flush (ss_detector s) @ snd ?p"
      using delivered_event [OF Cons.prems(1) st False nz] ordered_event [OF Cons.prems(1) st False nz refl]
      by (simp_all only: append_assoc)
    have und: "undisturbed lib (i # is) s \<Longrightarrow> undisturbed lib is s1" using st by simp
    have app: "in_order (?p # ps) = snd ?p @ in_order ps" for ps by (simp add: in_order_def)
    show ?thesis
      using Cons.IH [OF ready rest, of "xs @ [?p]"] first und tap False
      unfolding run by (auto simp: Let_def em app)
  qed
qed

lemma new_session_ready:
  assumes "new_session lib i ptmx cols rows sub = Inr s"
  shows "session_ready s" "kd_armed (ss_detector s) = False" "kd_timeout (ss_detector s) = detach_timeout"
    "kd_flush (ss_detector s) = []" "ss_pipe s = []" "delivered (ss_ptmx s) [] s"
  using assms
  by (auto simp: new_session_def session_ready_def kd_ok_def is_zero_time_def new_vt_term_def delivered_def generated_def escs_def
      split: option.splits)


definition plain_vt :: "(unit, unit) vt_lib" where
  "plain_vt = \<lparr>vl_new = (\<lambda>c r. ()), vl_write = (\<lambda>p em. ((), [], [])), vl_key = (\<lambda>k em. ((), uv_text k)),
     vl_mouse = (\<lambda>ev em. ((), [])), vl_paste = (\<lambda>s em. ((), s)), vl_resize = (\<lambda>c r em. ()),
     vl_cell = (\<lambda>em x y. None), vl_width = (\<lambda>em. 80), vl_height = (\<lambda>em. 24), vl_cursor = (\<lambda>em. (0, 0))\<rparr>"

definition demo_session :: "unit session" where
  "demo_session = \<lparr>ss_project = ''web'', ss_term = new_vt_term plain_vt 80 24, ss_pipe = [], ss_ptmx = [], ss_subscribed = True,
     ss_detector = \<lparr>kd_timeout = detach_timeout, kd_armed = False, kd_armed_at = zero_time, kd_flush = []\<rparr>,
     ss_err = None, ss_cancelled = False\<rparr>"

lemma demo_session_new: "new_session plain_vt ''web'' (Some []) 80 24 (Some (\<lambda>_. None)) = Inr demo_session"
  by (simp add: new_session_def demo_session_def)

definition ms :: "int \<Rightarrow> time" where "ms n = n * millisecond"

lemmas attach_exec = demo_session_def plain_vt_def new_vt_term_def session_defs kd_feed_def kd_flush_if_expired_def
  kd_arm_def kd_clear_def ms_def millisecond_def detach_timeout_def is_zero_time_def zero_time_def raw_esc_def typed_def
  esc_key_def msg_to_key_def tea_mod_def runes_text_def utf8_def valid_rune_def Let_def

lemma chars_exec: "char_of (58 :: nat) = CHR '':''" "char_of (113 :: nat) = CHR ''q''"
  by code_simp+


text \<open>
  The drain is late: of \<open>:\<close>, Esc and \<open>q\<close>, the child gets the Esc first, because \<open>SendBytes\<close> writes past the pipe.
\<close>

lemma find_esc_overtakes:
  "ss_ptmx (snd (attach_run plain_vt [Press (ms 1) (typed 58), Press (ms 50) esc_key, Press (ms 90) (typed 113), Drain 9] demo_session))
     = [raw_esc] @ '':q''"
  by (simp add: attach_exec chars_exec)

text \<open>The timer that is started with a first Esc fires late enough to let it through.\<close>

definition flush_tick_delay :: duration where "flush_tick_delay = detach_timeout + 10 * millisecond"

theorem lone_esc_arrives:
  assumes "session_ready s" "kd_timeout (ss_detector s) = detach_timeout" "\<not> is_zero_time t"
    "km_type k = KeyEsc" "\<not> km_paste k" "attach_key lib None t k s = (FlushTick, s1)" "t + flush_tick_delay \<le> u"
  shows "ss_ptmx (snd (detach_flush None u s1)) = ss_ptmx s1 @ [raw_esc]"
proof -
  have "kd_timeout (ss_detector s1) = detach_timeout \<and> ss_detector s1 = kd_arm t (ss_detector s)"
    using assms(1-6) by (auto simp: session_defs kd_defs session_ready_def split: option.splits if_splits)
  then have "kd_armed (ss_detector s1)" "kd_armed_at (ss_detector s1) = t" "kd_timeout (ss_detector s1) = detach_timeout"
    "kd_flush (ss_detector s1) = [raw_esc]"
    using assms(2) by (simp_all add: kd_arm_def)
  then show ?thesis
    using assms(3,7)
    by (simp add: detach_flush_def kd_flush_if_expired_def send_bytes_def tee_write_def flush_tick_delay_def millisecond_def)
qed

text \<open>
  Pasted text does not pass the detector: a paste within the window of a first Esc reaches the child before that Esc,
  which the user pressed earlier.
\<close>

definition pasted :: "rune list \<Rightarrow> key_msg" where
  "pasted rs = \<lparr>km_type = KeyRunes, km_runes = rs, km_alt = False, km_paste = True, km_name = []\<rparr>"

lemma find_paste_overtakes_esc:
  "ss_ptmx (snd (attach_run plain_vt [Press (ms 1) esc_key, Press (ms 100) (pasted [58, 113]), Drain 9, Tick (ms 411)] demo_session))
     = '':q'' @ [raw_esc]"
  by (simp add: attach_exec pasted_def paste_text_def chars_exec)

lemma crlf_no_lf: "CHR 0x0A \<notin> set (paste_text s)"
  by (auto simp: paste_text_def)

text \<open>Pasting turns every line end into one carriage return and keeps the text between them.\<close>

lemma paste_text_lines:
  "CHR 0x0D \<notin> set a \<Longrightarrow> CHR 0x0A \<notin> set a \<Longrightarrow>
     paste_text (a @ [CHR 0x0D, CHR 0x0A] @ s) = a @ [CHR 0x0D] @ paste_text s
   \<and> paste_text (a @ [CHR 0x0A] @ s) = a @ [CHR 0x0D] @ paste_text s"
proof (induction a)
  case Nil
  show ?case by (cases s) (auto simp: paste_text_def)
next
  case (Cons c a)
  then have "crlf_to_cr ((c # a) @ r) = c # crlf_to_cr (a @ r)" for r
    by (cases "a @ r") auto
  then show ?case using Cons by (auto simp: paste_text_def)
qed

section \<open>Closing\<close>

lemma session_close_idem: "session_close (session_close s) = session_close s"
  by (simp add: session_close_def vt_close_def)

lemma closed_is_silent:
  "send_key lib k (session_close s) = session_close s"
  "child_output lib p (session_close s) = session_close s"
  by (simp_all add: send_key_def through_term_def vt_send_key_def vt_input_def session_close_def vt_close_def
      tee_write_def child_output_def vt_write_def)

text \<open>The first write error is the one reported.\<close>

lemma first_error_wins:
  "bs \<noteq> [] \<Longrightarrow> ss_err s = None \<Longrightarrow> ss_err (tee_write wr2 cs (tee_write (Some e) bs s)) = Some e"
  by (simp add: tee_write_def split: option.split)

end
