(* ===== verification/Attach_Grid.thy ===== *)
theory Attach_Grid
  imports Attach
begin

text \<open>
  The grid of the embedded terminal: mouse events for the child and the selection with the mouse (\<open>mouse.go\<close>), and
  the drawing of the grid (\<open>render.go\<close>). What is highlighted is what is copied.
\<close>

section \<open>Selection\<close>

datatype gcell = GCell (gx: int) (gy: int)

record grid_sel =
  gs_anchor :: gcell
  gs_cursor :: gcell
  gs_active :: bool

definition no_grid_sel :: grid_sel where
  "no_grid_sel = \<lparr>gs_anchor = GCell 0 0, gs_cursor = GCell 0 0, gs_active = False\<rparr>"

definition sel_normalized :: "grid_sel \<Rightarrow> gcell \<times> gcell" where
  "sel_normalized s =
     (let a = gs_anchor s; c = gs_cursor s
      in if gy a < gy c \<or> (gy a = gy c \<and> gx a \<le> gx c) then (a, c) else (c, a))"

definition sel_contains :: "grid_sel \<Rightarrow> int \<Rightarrow> int \<Rightarrow> bool" where
  "sel_contains s x y =
     (if \<not> gs_active s then False
      else
        (let (lo, hi) = sel_normalized s
         in if y < gy lo \<or> y > gy hi then False
            else if y = gy lo \<and> x < gx lo then False
            else if y = gy hi \<and> x > gx hi then False
            else True))"

section \<open>Mouse events for the child\<close>

definition tea_button_uv :: "tea_button \<Rightarrow> uv_button option" where
  "tea_button_uv b =
     (case b of
        TeaNone \<Rightarrow> Some UvNoButton | TeaLeft \<Rightarrow> Some UvLeft | TeaMiddle \<Rightarrow> Some UvMiddle | TeaRight \<Rightarrow> Some UvRight
      | TeaWheelUp \<Rightarrow> Some UvWheelUp | TeaWheelDown \<Rightarrow> Some UvWheelDown
      | TeaWheelLeft \<Rightarrow> Some UvWheelLeft | TeaWheelRight \<Rightarrow> Some UvWheelRight
      | TeaBackward \<Rightarrow> Some UvBackward | TeaForward \<Rightarrow> Some UvForward | TeaOther \<Rightarrow> None)"

definition tea_mouse_mod :: "tea_mouse \<Rightarrow> key_mod" where
  "tea_mouse_mod m = \<lparr>mod_shift = tm_shift m, mod_alt = tm_alt m, mod_ctrl = tm_ctrl m\<rparr>"

definition msg_to_mouse :: "tea_mouse \<Rightarrow> int \<Rightarrow> int \<Rightarrow> uv_mouse_event option" where
  "msg_to_mouse m ox oy =
     (let x = tm_x m - ox; y = tm_y m - oy
      in if x < 0 \<or> y < 0 then None
         else
           (case tea_button_uv (tm_button m) of
              None \<Rightarrow> None
            | Some b \<Rightarrow>
                (let ev = \<lparr>um_x = x, um_y = y, um_button = b, um_mod = tea_mouse_mod m\<rparr>
                 in case tm_action m of
                      TeaPress \<Rightarrow>
                        Some (if tm_button m \<in> {TeaWheelUp, TeaWheelDown, TeaWheelLeft, TeaWheelRight}
                              then MouseWheelEvent ev else MouseClickEvent ev)
                    | TeaRelease \<Rightarrow> Some (MouseReleaseEvent ev)
                    | TeaMotion \<Rightarrow> Some (MouseMotionEvent ev)
                    | TeaNoAction \<Rightarrow> None)))"

section \<open>The text of the selection\<close>

definition trim_spaces_right :: "bytes \<Rightarrow> bytes" where
  "trim_spaces_right s = rev (dropWhile (\<lambda>c. c = CHR '' '') (rev s))"

definition cell_text :: "'st cell option \<Rightarrow> bytes" where
  "cell_text c = (case c of None \<Rightarrow> '' '' | Some ce \<Rightarrow> if ce_content ce = [] then '' '' else ce_content ce)"

definition cell_step :: "'st cell option \<Rightarrow> int" where
  "cell_step c = (case c of None \<Rightarrow> 1 | Some ce \<Rightarrow> if ce_width ce = 2 then 2 else 1)"

lemma cell_step_pos: "0 < cell_step c"
  by (simp add: cell_step_def split: option.split)

function row_cells :: "(int \<Rightarrow> 'st cell option) \<Rightarrow> int \<Rightarrow> int \<Rightarrow> bytes" where
  "row_cells row x end_x =
     (if x > end_x then [] else cell_text (row x) @ row_cells row (x + cell_step (row x)) end_x)"
  by pat_completeness auto
termination
proof (relation "measure (\<lambda>(row, x, end_x). nat (end_x + 1 - x))")
  fix row :: "int \<Rightarrow> 'st cell option" and x end_x :: int
  assume "\<not> x > end_x"
  then show "((row, x + cell_step (row x), end_x), (row, x, end_x)) \<in> measure (\<lambda>(row, x, end_x). nat (end_x + 1 - x))"
    using cell_step_pos [of "row x"] by simp
qed simp

declare row_cells.simps [simp del]

definition row_text :: "(int \<Rightarrow> 'st cell option) \<Rightarrow> int \<Rightarrow> int \<Rightarrow> bytes" where
  "row_text row start_x end_x = trim_spaces_right (row_cells row start_x end_x)"

definition selection_text :: "('em, 'st) vt_lib \<Rightarrow> 'em \<Rightarrow> grid_sel \<Rightarrow> bytes" where
  "selection_text lib em sel =
     (if \<not> gs_active sel then []
      else
        (let (lo, hi) = sel_normalized sel; w = vl_width lib em
         in join_with [CHR 0x0A]
              (map (\<lambda>y. row_text (\<lambda>x. vl_cell lib em x y)
                      (if y = gy lo then gx lo else 0) (if y = gy hi then gx hi else w - 1))
                 [gy lo..gy hi])))"

section \<open>Drawing\<close>

record 'st style_lib =
  sl_zero :: 'st
  sl_toggle :: "'st \<Rightarrow> 'st"
  sl_is_zero :: "'st \<Rightarrow> bool"
  sl_equal :: "'st \<Rightarrow> 'st \<Rightarrow> bool"
  sl_styled :: "'st \<Rightarrow> bytes \<Rightarrow> bytes"

definition paint :: "'st style_lib \<Rightarrow> 'st \<Rightarrow> bytes \<Rightarrow> bytes" where
  "paint sl st s = (if sl_is_zero sl st then s else sl_styled sl st s)"

definition flush_run :: "'st style_lib \<Rightarrow> ('st \<times> bytes) option \<Rightarrow> bytes" where
  "flush_run sl run = (case run of None \<Rightarrow> [] | Some (st, s) \<Rightarrow> paint sl st s)"

text \<open>One cell as it is drawn: content, style and width, without the right half of a wide glyph at the edge.\<close>

definition drawn_cell :: "'st style_lib \<Rightarrow> 'st cell option \<Rightarrow> bool \<Rightarrow> bool \<Rightarrow> bytes \<times> 'st \<times> int" where
  "drawn_cell sl c at_edge selected =
     (let st = (case c of None \<Rightarrow> sl_zero sl | Some ce \<Rightarrow> ce_style ce); cut = (cell_step c = 2 \<and> at_edge)
      in (if cut then '' '' else cell_text c, if selected then sl_toggle sl st else st, if cut then 1 else cell_step c))"

lemma drawn_cell_width: "drawn_cell sl c e s = (content, st, width) \<Longrightarrow> width = 1 \<or> (width = 2 \<and> \<not> e)"
  by (auto simp: drawn_cell_def cell_step_def Let_def split: option.splits if_splits)

function render_line ::
  "'st style_lib \<Rightarrow> (int \<Rightarrow> 'st cell option) \<Rightarrow> (int \<Rightarrow> bool) \<Rightarrow> int option \<Rightarrow> int \<Rightarrow> int \<Rightarrow> ('st \<times> bytes) option \<Rightarrow> bytes \<Rightarrow> int \<Rightarrow> bytes \<times> int" where
  "render_line sl row sel cur w x run sb cols =
     (if x \<ge> w then (sb @ flush_run sl run, cols)
      else
        (let (content, st, width) = drawn_cell sl (row x) (x + 1 \<ge> w) (sel x)
         in if cur = Some x then
              render_line sl row sel cur w (x + width) None
                (sb @ flush_run sl run @ paint sl (sl_toggle sl st) content) (cols + width)
            else
              (case run of
                 None \<Rightarrow> render_line sl row sel cur w (x + width) (Some (st, content)) sb (cols + width)
               | Some (rs, s) \<Rightarrow>
                   (if sl_equal sl st rs
                    then render_line sl row sel cur w (x + width) (Some (rs, s @ content)) sb (cols + width)
                    else render_line sl row sel cur w (x + width) (Some (st, content)) (sb @ flush_run sl run)
                           (cols + width)))))"
  by pat_completeness auto
termination
  by (relation "measure (\<lambda>(sl, row, sel, cur, w, x, run, sb, cols). nat (w - x))")
     (auto dest: drawn_cell_width [OF sym])

declare render_line.simps [simp del]

definition spaces :: "int \<Rightarrow> bytes" where
  "spaces n = replicate (nat n) (CHR '' '')"

definition render_rows :: "('em, 'st) vt_lib \<Rightarrow> 'st style_lib \<Rightarrow> 'em \<Rightarrow> int \<Rightarrow> int \<Rightarrow> grid_sel \<Rightarrow> (bytes \<times> int) list" where
  "render_rows lib sl em w h sel =
     (let cw = min w (vl_width lib em); ch = min h (vl_height lib em); (cx, cy) = vl_cursor lib em
      in map (\<lambda>y. if y < ch
                  then (let (s, n) = render_line sl (\<lambda>x. vl_cell lib em x y) (\<lambda>x. sel_contains sel x y)
                                       (if y = cy then Some cx else None) cw 0 None [] 0
                        in if n < w then (s @ spaces (w - n), w) else (s, n))
                  else (spaces w, w)) [0..h - 1])"

definition render_with_selection :: "('em, 'st) vt_lib \<Rightarrow> 'st style_lib \<Rightarrow> 'em \<Rightarrow> int \<Rightarrow> int \<Rightarrow> grid_sel \<Rightarrow> bytes" where
  "render_with_selection lib sl em w h sel =
     (if w \<le> 0 \<or> h \<le> 0 then [] else join_with [CHR 0x0A] (map fst (render_rows lib sl em w h sel)))"

section \<open>Every row fills the pane\<close>

lemma render_line_cols:
  "x \<le> w \<Longrightarrow> snd (render_line sl row sel cur w x run sb cols) = cols + (w - x)"
proof (induction sl row sel cur w x run sb cols rule: render_line.induct)
  case (1 sl row sel cur w x run sb cols)
  show ?case
  proof (cases "x \<ge> w")
    case True
    then show ?thesis using 1 by (simp add: render_line.simps)
  next
    case False
    obtain content st width where d: "drawn_cell sl (row x) (x + 1 \<ge> w) (sel x) = (content, st, width)"
      by (metis surj_pair)
    have fits: "x + width \<le> w" using drawn_cell_width [OF d] False by auto
    show ?thesis
      using 1 False d fits by (subst render_line.simps) (auto split: option.split)
  qed
qed

lemma render_fills_pane:
  assumes "0 < w" "0 < h" "0 \<le> vl_width lib em"
  shows "int (length (render_rows lib sl em w h sel)) = h" "list_all (\<lambda>(s, n). n = w) (render_rows lib sl em w h sel)"
proof -
  show "int (length (render_rows lib sl em w h sel)) = h"
    using assms by (simp add: render_rows_def Let_def split: prod.split)
  have cols: "snd (render_line sl row c cur (min w (vl_width lib em)) 0 None [] 0) = min w (vl_width lib em)" for row c cur
    using render_line_cols [of 0 "min w (vl_width lib em)" sl row c cur None "[]" 0] assms by simp
  show "list_all (\<lambda>(s, n). n = w) (render_rows lib sl em w h sel)"
    by (auto simp: render_rows_def list_all_iff Let_def split: prod.splits dest!: arg_cong [where f = snd])
       (metis cols min.cobounded1 order_antisym_conv linorder_not_less snd_conv)+
qed

section \<open>What a drawn line shows\<close>

text \<open>
  A line shows cells, each a style and a content, when it is a sequence of painted runs that have these contents in order, each
  in its own style or one the library takes for equal.
\<close>

definition run_cells :: "'st style_lib \<Rightarrow> 'st \<Rightarrow> ('st \<times> bytes) list \<Rightarrow> bool" where
  "run_cells sl st cells \<longleftrightarrow> (\<forall>c \<in> set cells. fst c = st \<or> sl_equal sl (fst c) st)"

definition shows_cells :: "'st style_lib \<Rightarrow> bytes \<Rightarrow> ('st \<times> bytes) list \<Rightarrow> bool" where
  "shows_cells sl out cells \<longleftrightarrow> (\<exists>runs. out = concat (map (\<lambda>(st, cs). paint sl st (concat (map snd cs))) runs)
     \<and> concat (map snd runs) = cells \<and> (\<forall>(st, cs) \<in> set runs. run_cells sl st cs))"

lemma shows_none: "shows_cells sl [] []"
  unfolding shows_cells_def by (intro exI [of _ "[]"]) simp

lemma shows_run: "run_cells sl st cells \<Longrightarrow> shows_cells sl (paint sl st (concat (map snd cells))) cells"
  unfolding shows_cells_def by (intro exI [of _ "[(st, cells)]"]) simp

lemma shows_append:
  assumes "shows_cells sl a cs" "shows_cells sl b ds"
  shows "shows_cells sl (a @ b) (cs @ ds)"
proof -
  obtain rs where "a = concat (map (\<lambda>(st, cs). paint sl st (concat (map snd cs))) rs)"
    "concat (map snd rs) = cs" "\<forall>(st, cs) \<in> set rs. run_cells sl st cs"
    using assms(1) by (auto simp: shows_cells_def)
  moreover obtain qs where "b = concat (map (\<lambda>(st, cs). paint sl st (concat (map snd cs))) qs)"
    "concat (map snd qs) = ds" "\<forall>(st, cs) \<in> set qs. run_cells sl st cs"
    using assms(2) by (auto simp: shows_cells_def)
  ultimately show ?thesis unfolding shows_cells_def by (intro exI [of _ "rs @ qs"]) auto
qed

text \<open>The cells of a row from column \<open>x\<close>: inverted when selected, and once more under the cursor.\<close>

definition cell_style :: "'st style_lib \<Rightarrow> 'st cell option \<Rightarrow> 'st" where
  "cell_style sl c = (case c of None \<Rightarrow> sl_zero sl | Some ce \<Rightarrow> ce_style ce)"

definition invert_if :: "bool \<Rightarrow> 'st style_lib \<Rightarrow> 'st \<Rightarrow> 'st" where
  "invert_if b sl st = (if b then sl_toggle sl st else st)"

function shown_cells :: "'st style_lib \<Rightarrow> (int \<Rightarrow> 'st cell option) \<Rightarrow> (int \<Rightarrow> bool) \<Rightarrow> int option \<Rightarrow> int \<Rightarrow> int \<Rightarrow> ('st \<times> bytes) list" where
  "shown_cells sl row sel cur w x =
     (if x \<ge> w then []
      else (let half = (cell_step (row x) = 2 \<and> x + 1 \<ge> w)
            in (invert_if (cur = Some x) sl (invert_if (sel x) sl (cell_style sl (row x))), if half then '' '' else cell_text (row x))
               # shown_cells sl row sel cur w (x + (if half then 1 else cell_step (row x)))))"
  by pat_completeness auto
termination
proof (relation "measure (\<lambda>(sl, row, sel, cur, w, x). nat (w - x))")
  fix row :: "int \<Rightarrow> 'st cell option" and x w :: int and half
  assume "\<not> x \<ge> w"
  then show "((sl :: 'st style_lib, row, sel, cur, w, x + (if half then 1 else cell_step (row x))), (sl, row, sel, cur, w, x))
      \<in> measure (\<lambda>(sl, row, sel, cur, w, x). nat (w - x))" for sl sel cur
    using cell_step_pos [of "row x"] by auto
qed simp

declare shown_cells.simps [simp del]

definition run_shows :: "'st style_lib \<Rightarrow> ('st \<times> bytes) option \<Rightarrow> ('st \<times> bytes) list \<Rightarrow> bool" where
  "run_shows sl run cells \<longleftrightarrow> (case run of
     None \<Rightarrow> cells = [] | Some (st, s) \<Rightarrow> s = concat (map snd cells) \<and> run_cells sl st cells)"

lemma flush_shows: "run_shows sl run cells \<Longrightarrow> shows_cells sl (flush_run sl run) cells"
  by (auto simp: run_shows_def flush_run_def shows_none shows_run split: option.splits)

lemma render_line_shows:
  "run_shows sl run cells \<Longrightarrow>
   \<exists>out. fst (render_line sl row sel cur w x run sb cols) = sb @ out
      \<and> shows_cells sl out (cells @ shown_cells sl row sel cur w x)"
proof (induction sl row sel cur w x run sb cols arbitrary: cells rule: render_line.induct)
  case (1 sl row sel cur w x run sb cols)
  show ?case
  proof (cases "x \<ge> w")
    case True
    then show ?thesis using flush_shows [OF 1(5)]
      by (simp add: render_line.simps [of sl row sel cur w x] shown_cells.simps [of sl row sel cur w x])
  next
    case False
    obtain content st width where d: "drawn_cell sl (row x) (x + 1 \<ge> w) (sel x) = (content, st, width)"
      by (metis surj_pair)
    have shape: "shown_cells sl row sel cur w x
        = (invert_if (cur = Some x) sl st, content) # shown_cells sl row sel cur w (x + width)"
      using False d by (subst shown_cells.simps) (auto simp: drawn_cell_def cell_style_def invert_if_def Let_def)
    consider (cursor) "cur = Some x" | (fresh) "cur \<noteq> Some x" "run = None"
      | (same) rs s where "cur \<noteq> Some x" "run = Some (rs, s)" "sl_equal sl st rs"
      | (other) rs s where "cur \<noteq> Some x" "run = Some (rs, s)" "\<not> sl_equal sl st rs"
      by (cases run) auto
    then show ?thesis
    proof cases
      case cursor
      have none: "run_shows sl None []" by (simp add: run_shows_def)
      from 1(1) [OF False d [symmetric] refl refl cursor none] obtain out where out:
        "fst (render_line sl row sel cur w (x + width) None (sb @ flush_run sl run @ paint sl (sl_toggle sl st) content) (cols + width))
          = (sb @ flush_run sl run @ paint sl (sl_toggle sl st) content) @ out"
        "shows_cells sl out (shown_cells sl row sel cur w (x + width))"
        by auto
      have "shows_cells sl (paint sl (sl_toggle sl st) content) [(sl_toggle sl st, content)]"
        using shows_run [of sl "sl_toggle sl st" "[(sl_toggle sl st, content)]"] by (simp add: run_cells_def)
      from shows_append [OF flush_shows [OF 1(5)] shows_append [OF this out(2)]]
      show ?thesis
        using False d cursor shape out(1) by (subst render_line.simps) (auto simp: invert_if_def)
    next
      case fresh
      have "run_shows sl (Some (st, content)) [(st, content)]" by (simp add: run_shows_def run_cells_def)
      from 1(2) [OF False d [symmetric] refl refl fresh this] show ?thesis
        using False d fresh shape 1(5) by (subst render_line.simps) (simp add: run_shows_def invert_if_def)
    next
      case same
      have "run_shows sl (Some (rs, s @ content)) (cells @ [(st, content)])"
        using 1(5) same by (auto simp: run_shows_def run_cells_def)
      from 1(3) [OF False d [symmetric] refl refl same(1,2) refl same(3) this] show ?thesis
        using False d same shape by (subst render_line.simps) (simp add: invert_if_def)
    next
      case other
      have "run_shows sl (Some (st, content)) [(st, content)]" by (simp add: run_shows_def run_cells_def)
      from 1(4) [OF False d [symmetric] refl refl other(1,2) refl other(3) this] obtain out where out:
        "fst (render_line sl row sel cur w (x + width) (Some (st, content)) (sb @ flush_run sl run) (cols + width))
          = (sb @ flush_run sl run) @ out"
        "shows_cells sl out ([(st, content)] @ shown_cells sl row sel cur w (x + width))"
        by blast
      from shows_append [OF flush_shows [OF 1(5)] out(2)] show ?thesis
        using False d other shape out(1) by (subst render_line.simps) (auto simp: invert_if_def)
    qed
  qed
qed

section \<open>What is highlighted is what is copied\<close>

definition narrow :: "('em, 'st) vt_lib \<Rightarrow> 'em \<Rightarrow> bool" where
  "narrow lib em \<longleftrightarrow> (\<forall>x y. cell_step (vl_cell lib em x y) = 1)"

lemma row_cells_narrow:
  assumes "\<forall>x. cell_step (row x) = 1"
  shows "row_cells row a b = concat (map (\<lambda>x. cell_text (row x)) [a..b])"
  using assms
proof (induction row a b rule: row_cells.induct)
  case (1 row x end_x)
  then have "cell_step (row x) = 1" by blast
  then show ?case
    using 1 by (subst row_cells.simps) (auto simp: upto_rec1)
qed

lemma shown_cells_narrow:
  assumes "\<forall>x. cell_step (row x) = 1"
  shows "shown_cells sl row sel cur w x = map (\<lambda>x. (invert_if (cur = Some x) sl (invert_if (sel x) sl (cell_style sl (row x))),
      cell_text (row x))) [x..w - 1]"
  using assms
proof (induction sl row sel cur w x rule: shown_cells.induct)
  case (1 sl row sel cur w x)
  show ?case
  proof (cases "x \<ge> w")
    case True
    then show ?thesis by (simp add: shown_cells.simps [of sl row sel cur w x])
  next
    case False
    have one: "cell_step (row x) = 1" using 1(2) by blast
    show ?thesis
      using 1(1) [OF False refl 1(2)] False one
      by (subst shown_cells.simps) (simp add: upto_rec1 Let_def)
  qed
qed

lemma filter_upto:
  fixes a b w :: int
  assumes "0 \<le> a" "b < w"
  shows "filter (\<lambda>x. a \<le> x \<and> x \<le> b) [0..w - 1] = [a..b]"
  using assms by (intro sorted_distinct_set_unique) (auto simp: sorted_wrt_filter)

lemma contains_span:
  assumes "gs_active sel" "sel_normalized sel = (lo, hi)" "gy lo \<le> y" "y \<le> gy hi" "0 \<le> x" "x < w"
  shows "sel_contains sel x y \<longleftrightarrow> (if y = gy lo then gx lo else 0) \<le> x \<and> x \<le> (if y = gy hi then gx hi else w - 1)"
  using assms by (auto simp: sel_contains_def)

text \<open>One row of the drawing, up to the width of the pane.\<close>

lemma drawn_row:
  assumes "narrow lib em" "0 \<le> y" "y < min h (vl_height lib em)" "0 < w" "0 \<le> vl_width lib em"
  shows "\<exists>out. map fst (render_rows lib sl em w h sel) ! nat y = out @ spaces (w - vl_width lib em)
    \<and> shows_cells sl out (map (\<lambda>x. (invert_if (vl_cursor lib em = (x, y)) sl
          (invert_if (sel_contains sel x y) sl (cell_style sl (vl_cell lib em x y))), cell_text (vl_cell lib em x y)))
        [0..min w (vl_width lib em) - 1])"
proof -
  obtain cx cy where c: "vl_cursor lib em = (cx, cy)" by fastforce
  let ?cw = "min w (vl_width lib em)" and ?cur = "if y = cy then Some cx else None"
  let ?line = "render_line sl (\<lambda>x. vl_cell lib em x y) (\<lambda>x. sel_contains sel x y) ?cur ?cw 0 None [] 0"
  have n: "snd ?line = ?cw" by (subst render_line_cols) (use assms(4,5) in simp_all)
  have "map fst (render_rows lib sl em w h sel) ! nat y = fst ?line @ spaces (w - vl_width lib em)"
  proof -
    have "map fst (render_rows lib sl em w h sel) ! nat y
        = fst (if snd ?line < w then (fst ?line @ spaces (w - snd ?line), w) else ?line)"
      using assms(2,3) c by (simp add: render_rows_def Let_def case_prod_unfold)
    then show ?thesis unfolding n by (auto simp: spaces_def)
  qed
  moreover obtain out where "fst ?line = [] @ out"
    "shows_cells sl out ([] @ shown_cells sl (\<lambda>x. vl_cell lib em x y) (\<lambda>x. sel_contains sel x y) ?cur ?cw 0)"
    using render_line_shows [of sl None "[]" "\<lambda>x. vl_cell lib em x y" "\<lambda>x. sel_contains sel x y" ?cur ?cw 0 "[]" 0]
    by (auto simp: run_shows_def)
  moreover have "(?cur = Some x) = (vl_cursor lib em = (x, y))" for x by (auto simp: c)
  ultimately show ?thesis
    using shown_cells_narrow [of "\<lambda>x. vl_cell lib em x y"] assms(1) by (auto simp: narrow_def)
qed


definition demo_grid :: "(bytes list, unit) vt_lib" where
  "demo_grid = \<lparr>vl_new = (\<lambda>c r. []), vl_write = (\<lambda>p em. (em, [], [])), vl_key = (\<lambda>k em. (em, [])),
     vl_mouse = (\<lambda>ev em. (em, [])), vl_paste = (\<lambda>s em. (em, [])), vl_resize = (\<lambda>c r em. em),
     vl_cell = (\<lambda>em x y. if 0 \<le> y \<and> y < int (length em) \<and> 0 \<le> x \<and> x < int (length (em ! nat y))
                     then Some \<lparr>ce_content = [em ! nat y ! nat x], ce_width = 1, ce_style = ()\<rparr> else None),
     vl_width = (\<lambda>em. 6), vl_height = (\<lambda>em. 2), vl_cursor = (\<lambda>em. (0, 0))\<rparr>"

definition demo_sel :: grid_sel where
  "demo_sel = \<lparr>gs_anchor = GCell 1 1, gs_cursor = GCell 2 0, gs_active = True\<rparr>"


text \<open>The direction of the drag does not matter, and no cell is selected without one.\<close>

lemma selection_direction:
  "sel_contains \<lparr>gs_anchor = a, gs_cursor = b, gs_active = True\<rparr> x y
     = sel_contains \<lparr>gs_anchor = b, gs_cursor = a, gs_active = True\<rparr> x y"
  by (cases a; cases b) (auto simp: sel_contains_def sel_normalized_def Let_def)

lemma selection_ends: "sel_contains \<lparr>gs_anchor = GCell x y, gs_cursor = c, gs_active = True\<rparr> x y"
  by (cases c) (auto simp: sel_contains_def sel_normalized_def Let_def)

text \<open>An event outside the pane is not sent to the child, one inside has coordinates relative to the pane.\<close>

lemma mouse_relative:
  "msg_to_mouse m ox oy = Some (MouseClickEvent u) \<Longrightarrow> um_x u = tm_x m - ox \<and> um_y u = tm_y m - oy \<and> 0 \<le> um_x u \<and> 0 \<le> um_y u"
  by (auto simp: msg_to_mouse_def Let_def split: option.splits tea_action.splits if_splits)

end
