(* ===== verification/Widgets.thy ===== *)
theory Widgets
  imports Attach_Keys Ui_Store Runtime_Store Config
begin

text \<open>
  The small parts of the terminal interface: the overlays of \<open>internal/tui/overlays\<close> (group and branch picker, filter
  and command bar, help, toasts), the sidebar and the numbers of the status bar (\<open>internal/tui/panes\<close>), the layout
  (\<open>sidebarWidth\<close> in \<open>internal/tui/app.go\<close>) and the composition of a popup with the frame (\<open>util.go\<close>). The
  text input of the bars and the measuring of styled text are libraries and parameters.
\<close>

definition matches :: "string list \<Rightarrow> key_msg \<Rightarrow> bool" where
  "matches keys k \<longleftrightarrow> km_name k \<in> set keys"

section \<open>Group picker\<close>

text \<open>
  \<open>sortStrings\<close>, in place: the elements before \<open>i\<close> are sorted, seen from the last one; those that are greater move up
  by one and the key goes below them.
\<close>

fun shift_greater :: "string \<Rightarrow> string list \<Rightarrow> string list" where
  "shift_greater key [] = [key]"
| "shift_greater key (x # sorted_before) =
     (if x > key then x # shift_greater key sorted_before else key # x # sorted_before)"

definition sort_strings :: "string list \<Rightarrow> string list" where
  "sort_strings s = rev (fold shift_greater s [])"

record group_picker =
  gp_groups :: "string list"
  gp_cursor :: int
  gp_visible :: bool

definition new_group_picker :: "'v gomap \<Rightarrow> group_picker" where
  "new_group_picker groups = \<lparr>gp_groups = sort_strings (keys_of groups), gp_cursor = 0, gp_visible = False\<rparr>"

definition gp_show :: "group_picker \<Rightarrow> group_picker" where
  "gp_show gp = gp\<lparr>gp_visible := True, gp_cursor := 0\<rparr>"

definition gp_hide :: "group_picker \<Rightarrow> group_picker" where
  "gp_hide gp = gp\<lparr>gp_visible := False\<rparr>"

text \<open>The messages that the overlays send.\<close>

datatype overlay_msg =
    StartGroup string | CheckoutBranch string | FilterCommit string | FilterCancel
  | CommandRun string | CommandCancel | ShowToast string int

text \<open>Out of range indexing is \<open>None\<close>, a panic.\<close>

definition gp_update :: "key_msg \<Rightarrow> group_picker \<Rightarrow> (group_picker \<times> overlay_msg option) option" where
  "gp_update k gp =
     (if matches [''k'', ''up''] k then
        Some (if gp_cursor gp > 0 then gp\<lparr>gp_cursor := gp_cursor gp - 1\<rparr> else gp, None)
      else if matches [''j'', ''down''] k then
        Some (if gp_cursor gp < int (length (gp_groups gp)) - 1 then gp\<lparr>gp_cursor := gp_cursor gp + 1\<rparr> else gp, None)
      else if matches [''enter''] k then
        (if gp_groups gp = [] then Some (gp, None)
         else if 0 \<le> gp_cursor gp \<and> gp_cursor gp < int (length (gp_groups gp)) then
           Some (gp\<lparr>gp_visible := False\<rparr>, Some (StartGroup (gp_groups gp ! nat (gp_cursor gp))))
         else None)
      else if matches [''esc'', ''q''] k then Some (gp\<lparr>gp_visible := False\<rparr>, None)
      else Some (gp, None))"

section \<open>Branch picker\<close>

record branch_picker =
  bp_branches :: "string list"
  bp_filtered :: "nat list"
  bp_filter :: string
  bp_cursor :: int
  bp_visible :: bool

text \<open>\<open>lower\<close> is \<open>strings.ToLower\<close>.\<close>

definition rebuild_filter :: "(bytes \<Rightarrow> bytes) \<Rightarrow> branch_picker \<Rightarrow> branch_picker" where
  "rebuild_filter lower bp =
     (let fs = (if bp_filter bp = [] then [0..<length (bp_branches bp)]
                else filter (\<lambda>i. sublist (lower (bp_filter bp)) (lower (bp_branches bp ! i))) [0..<length (bp_branches bp)])
      in bp\<lparr>bp_filtered := fs, bp_cursor := (if bp_cursor bp \<ge> int (length fs) then 0 else bp_cursor bp)\<rparr>)"

definition new_branch_picker :: "(bytes \<Rightarrow> bytes) \<Rightarrow> string list \<Rightarrow> branch_picker" where
  "new_branch_picker lower branches =
     rebuild_filter lower \<lparr>bp_branches = (if branches = [] then [''main'', ''dev''] else branches), bp_filtered = [],
       bp_filter = [], bp_cursor = 0, bp_visible = False\<rparr>"

definition bp_refilter :: "(bytes \<Rightarrow> bytes) \<Rightarrow> string \<Rightarrow> branch_picker \<Rightarrow> branch_picker" where
  "bp_refilter lower f bp = rebuild_filter lower (bp\<lparr>bp_filter := f, bp_cursor := 0\<rparr>)"

definition bp_show :: "(bytes \<Rightarrow> bytes) \<Rightarrow> branch_picker \<Rightarrow> branch_picker" where
  "bp_show lower bp = bp_refilter lower [] (bp\<lparr>bp_visible := True\<rparr>)"

definition bp_hide :: "branch_picker \<Rightarrow> branch_picker" where
  "bp_hide bp = bp\<lparr>bp_visible := False\<rparr>"

definition set_branches :: "(bytes \<Rightarrow> bytes) \<Rightarrow> string list \<Rightarrow> branch_picker \<Rightarrow> branch_picker" where
  "set_branches lower branches bp = bp_refilter lower [] (bp\<lparr>bp_branches := branches\<rparr>)"

definition drop_last_rune :: "bytes \<Rightarrow> bytes" where
  "drop_last_rune s = runes_text (butlast (text_runes s))"

definition bp_update :: "(bytes \<Rightarrow> bytes) \<Rightarrow> key_msg \<Rightarrow> branch_picker \<Rightarrow> (branch_picker \<times> overlay_msg option) option" where
  "bp_update lower k bp =
     (if matches [''up''] k then
        Some (if bp_cursor bp > 0 then bp\<lparr>bp_cursor := bp_cursor bp - 1\<rparr> else bp, None)
      else if matches [''down''] k then
        Some (if bp_cursor bp < int (length (bp_filtered bp)) - 1 then bp\<lparr>bp_cursor := bp_cursor bp + 1\<rparr> else bp, None)
      else if matches [''enter''] k then
        (if bp_filtered bp = [] then Some (bp, None)
         else if 0 \<le> bp_cursor bp \<and> bp_cursor bp < int (length (bp_filtered bp))
                 \<and> bp_filtered bp ! nat (bp_cursor bp) < length (bp_branches bp) then
           Some (bp\<lparr>bp_visible := False\<rparr>,
                 Some (CheckoutBranch (bp_branches bp ! (bp_filtered bp ! nat (bp_cursor bp)))))
         else None)
      else if matches [''esc''] k then
        Some (if bp_filter bp \<noteq> [] then bp_refilter lower [] bp else bp\<lparr>bp_visible := False\<rparr>, None)
      else if km_type k = KeyBackspace then
        Some (if bp_filter bp \<noteq> [] then bp_refilter lower (drop_last_rune (bp_filter bp)) bp else bp, None)
      else if km_type k = KeyRunes \<and> km_runes k \<noteq> [] then
        Some (bp_refilter lower (bp_filter bp @ runes_text (km_runes k)) bp, None)
      else if km_type k = KeySpace then Some (bp_refilter lower (bp_filter bp @ '' '') bp, None)
      else Some (bp, None))"

section \<open>Filter and command bar\<close>

record 'ti text_lib =
  ti_new :: "nat \<Rightarrow> 'ti"
  ti_value :: "'ti \<Rightarrow> bytes"
  ti_set_value :: "bytes \<Rightarrow> 'ti \<Rightarrow> 'ti"
  ti_focus :: "'ti \<Rightarrow> 'ti"
  ti_blur :: "'ti \<Rightarrow> 'ti"
  ti_update :: "key_msg \<Rightarrow> 'ti \<Rightarrow> 'ti"

record 'ti filter_input =
  fi_ti :: 'ti
  fi_visible :: bool
  fi_err :: string

definition new_filter_input :: "'ti text_lib \<Rightarrow> 'ti filter_input" where
  "new_filter_input til = \<lparr>fi_ti = ti_new til 200, fi_visible = False, fi_err = []\<rparr>"

definition fi_show :: "'ti text_lib \<Rightarrow> 'ti filter_input \<Rightarrow> 'ti filter_input" where
  "fi_show til fi = fi\<lparr>fi_visible := True, fi_err := [], fi_ti := ti_focus til (fi_ti fi)\<rparr>"

definition fi_hide :: "'ti text_lib \<Rightarrow> 'ti filter_input \<Rightarrow> 'ti filter_input" where
  "fi_hide til fi = fi\<lparr>fi_visible := False, fi_ti := ti_blur til (fi_ti fi)\<rparr>"

definition fi_set_value :: "'ti text_lib \<Rightarrow> bytes \<Rightarrow> 'ti filter_input \<Rightarrow> 'ti filter_input" where
  "fi_set_value til s fi = fi\<lparr>fi_ti := ti_set_value til s (fi_ti fi)\<rparr>"

text \<open>\<open>rx_error\<close> is the error of \<open>regexp.Compile\<close> on a pattern, if it does not compile.\<close>

definition fi_update ::
  "'ti text_lib \<Rightarrow> (bytes \<Rightarrow> string option) \<Rightarrow> key_msg \<Rightarrow> 'ti filter_input \<Rightarrow> 'ti filter_input \<times> overlay_msg option" where
  "fi_update til rx_error k fi =
     (if km_name k = ''esc'' then (fi_hide til fi, Some FilterCancel)
      else if km_name k = ''enter'' then
        (let t = ti_value til (fi_ti fi); fi1 = fi_hide til fi
         in if t = [] then (fi1, Some (FilterCommit []))
            else (case rx_error (''(?i)'' @ t) of
                    Some e \<Rightarrow>
                      (let msg = ''invalid regex: '' @ e
                       in (fi1\<lparr>fi_err := msg, fi_visible := True, fi_ti := ti_focus til (fi_ti fi1)\<rparr>, Some (ShowToast msg 1)))
                  | None \<Rightarrow> (fi1\<lparr>fi_err := []\<rparr>, Some (FilterCommit t))))
      else (fi\<lparr>fi_ti := ti_update til k (fi_ti fi)\<rparr>, None))"

record 'ti command_input =
  ci_ti :: 'ti
  ci_visible :: bool

definition new_command_input :: "'ti text_lib \<Rightarrow> 'ti command_input" where
  "new_command_input til = \<lparr>ci_ti = ti_new til 64, ci_visible = False\<rparr>"

definition ci_show :: "'ti text_lib \<Rightarrow> 'ti command_input \<Rightarrow> 'ti command_input" where
  "ci_show til ci = ci\<lparr>ci_visible := True, ci_ti := ti_focus til (ti_set_value til [] (ci_ti ci))\<rparr>"

definition ci_hide :: "'ti text_lib \<Rightarrow> 'ti command_input \<Rightarrow> 'ti command_input" where
  "ci_hide til ci = ci\<lparr>ci_visible := False, ci_ti := ti_blur til (ci_ti ci)\<rparr>"

definition ci_update :: "'ti text_lib \<Rightarrow> key_msg \<Rightarrow> 'ti command_input \<Rightarrow> 'ti command_input \<times> overlay_msg option" where
  "ci_update til k ci =
     (if km_name k = ''esc'' then (ci_hide til ci, Some CommandCancel)
      else if km_name k = ''enter'' then
        (let t = ti_value til (ci_ti ci)
         in (ci_hide til ci, Some (if t = [] then CommandCancel else CommandRun t)))
      else (ci\<lparr>ci_ti := ti_update til k (ci_ti ci)\<rparr>, None))"

section \<open>Toasts\<close>

definition toast_info :: int where "toast_info = 0"
definition toast_warn :: int where "toast_warn = 1"
definition toast_err :: int where "toast_err = 2"
definition max_toasts :: nat where "max_toasts = 5"
definition default_toast_ttl :: duration where "default_toast_ttl = 3 * second"

record toast_item =
  to_text :: string
  to_level :: int
  to_expires :: time

type_synonym toast_stack = "toast_item list"

definition toast_add_ttl :: "time \<Rightarrow> string \<Rightarrow> int \<Rightarrow> duration \<Rightarrow> toast_stack \<Rightarrow> toast_stack" where
  "toast_add_ttl now msg level ttl ts =
     (let items = ts @ [\<lparr>to_text = msg, to_level = level, to_expires = now + ttl\<rparr>]
      in if length items > max_toasts then drop (length items - max_toasts) items else items)"

definition toast_add :: "time \<Rightarrow> string \<Rightarrow> int \<Rightarrow> toast_stack \<Rightarrow> toast_stack" where
  "toast_add now msg level ts = toast_add_ttl now msg level default_toast_ttl ts"

definition toast_prune :: "time \<Rightarrow> toast_stack \<Rightarrow> toast_stack" where
  "toast_prune now ts = filter (\<lambda>t. to_expires t > now) ts"

definition toast_last :: "toast_stack \<Rightarrow> toast_item option" where
  "toast_last ts = (if ts = [] then None else Some (last ts))"

section \<open>The sidebar\<close>

record row =
  ro_id :: string
  ro_state :: string
  ro_attempts :: int

record sidebar =
  sb_rows :: "row list"
  sb_cursor :: int
  sb_width :: int
  sb_height :: int
  sb_focused :: bool

definition empty_sidebar :: sidebar where
  "empty_sidebar = \<lparr>sb_rows = [], sb_cursor = 0, sb_width = 0, sb_height = 0, sb_focused = False\<rparr>"

definition row_of :: "project_runtime \<Rightarrow> row" where
  "row_of r = \<lparr>ro_id = pr_id r, ro_state = pr_state r, ro_attempts = pr_restart_attempts r\<rparr>"

definition sb_set_rows :: "project_runtime list \<Rightarrow> sidebar \<Rightarrow> sidebar" where
  "sb_set_rows snap s =
     (let rows = map row_of snap; n = int (length rows)
      in s\<lparr>sb_rows := rows, sb_cursor := (if sb_cursor s \<ge> n \<and> n > 0 then n - 1 else sb_cursor s)\<rparr>)"

definition sb_set_cursor :: "int \<Rightarrow> sidebar \<Rightarrow> sidebar" where
  "sb_set_cursor i s =
     (if sb_rows s = [] then s else if i < 0 \<or> i \<ge> int (length (sb_rows s)) then s else s\<lparr>sb_cursor := i\<rparr>)"

definition sb_up :: "sidebar \<Rightarrow> sidebar" where
  "sb_up s = (if sb_cursor s > 0 then s\<lparr>sb_cursor := sb_cursor s - 1\<rparr> else s)"

definition sb_down :: "sidebar \<Rightarrow> sidebar" where
  "sb_down s = (if sb_cursor s < int (length (sb_rows s)) - 1 then s\<lparr>sb_cursor := sb_cursor s + 1\<rparr> else s)"

definition sb_index :: "sidebar \<Rightarrow> int" where
  "sb_index s = (if sb_rows s = [] then - 1 else sb_cursor s)"

definition sb_selected :: "sidebar \<Rightarrow> string" where
  "sb_selected s =
     (if sb_rows s = [] \<or> sb_cursor s \<ge> int (length (sb_rows s)) then [] else ro_id (sb_rows s ! nat (sb_cursor s)))"

definition sb_set_selected :: "string \<Rightarrow> sidebar \<Rightarrow> sidebar" where
  "sb_set_selected i s =
     (case find (\<lambda>(n, r). ro_id r = i) (enumerate 0 (sb_rows s)) of
        None \<Rightarrow> s
      | Some (n, r) \<Rightarrow> s\<lparr>sb_cursor := int n\<rparr>)"

definition sb_set_size :: "int \<Rightarrow> int \<Rightarrow> sidebar \<Rightarrow> sidebar" where
  "sb_set_size w h s = s\<lparr>sb_width := w, sb_height := h\<rparr>"

definition sb_set_focused :: "bool \<Rightarrow> sidebar \<Rightarrow> sidebar" where
  "sb_set_focused on s = s\<lparr>sb_focused := on\<rparr>"

datatype glyph = GlyphRunning | GlyphIdle | GlyphStarting | GlyphStopping | GlyphCrashed | GlyphRestarting | GlyphGivingUp

definition glyph_for_state :: "string \<Rightarrow> glyph" where
  "glyph_for_state st =
     (if st = ''running'' then GlyphRunning else if st = ''starting'' then GlyphStarting
      else if st = ''stopping'' then GlyphStopping else if st = ''crashed'' then GlyphCrashed
      else if st = ''restarting'' then GlyphRestarting else if st = ''giving-up'' then GlyphGivingUp else GlyphIdle)"

definition ellipsis_rune :: rune where "ellipsis_rune = 0x2026"

definition truncate_label :: "bytes \<Rightarrow> int \<Rightarrow> bytes" where
  "truncate_label s n =
     (let rs = text_runes s
      in if n \<le> 0 then [] else if int (length rs) \<le> n then s
         else if n \<le> 1 then utf8 ellipsis_rune
         else runes_text (take (nat (n - 1)) rs) @ utf8 ellipsis_rune)"

text \<open>The label of row \<open>i\<close> in a sidebar that is \<open>inner\<close> cells wide inside its border.\<close>

definition row_label :: "int \<Rightarrow> nat \<Rightarrow> row \<Rightarrow> bytes" where
  "row_label inner i r =
     (let suffix = (if ro_attempts r > 0 then '' ('' @ utf8 0xD7 @ show_nat (nat (ro_attempts r)) @ '')'' else []);
          reserved = (if i < 9 then 5 else 3)
      in truncate_label (ro_id r @ suffix) (inner - reserved))"

section \<open>Layout and status bar\<close>

definition sidebar_min_width :: int where "sidebar_min_width = 16"
definition sidebar_max_width :: int where "sidebar_max_width = 36"
definition status_bar_height :: int where "status_bar_height = 1"

definition sidebar_width :: "int \<Rightarrow> string list \<Rightarrow> int" where
  "sidebar_width total_width ids =
     (let longest = fold (\<lambda>i m. let n = int (length i) + 8 in if n > m then n else m) ids (int (length ''PROCESSES''));
          w0 = longest + 2;
          w1 = (if w0 < sidebar_min_width then sidebar_min_width else w0);
          w2 = (if w1 > sidebar_max_width then sidebar_max_width else w1);
          half = (if total_width < 0 then - (- total_width div 2) else total_width div 2)
      in if w2 > half then half else w2)"

definition bar_position :: "int \<Rightarrow> int \<Rightarrow> int" where
  "bar_position index n =
     (if n \<le> 0 then 0 else if index < 0 then 1 else if index + 1 > n then n else index + 1)"

text \<open>
  \<open>%.1f\<close> of a number of bytes over \<open>2 ^ 30\<close>: a division by a power of two, then the nearest tenth, to even in the
  middle; exact below \<open>2 ^ 53\<close> bytes.
\<close>

definition show_tenths :: "nat \<Rightarrow> string" where
  "show_tenths n =
     (let q = 10 * n div 2 ^ 30; r = 10 * n mod 2 ^ 30;
          t = (if 2 * r > 2 ^ 30 \<or> (2 * r = 2 ^ 30 \<and> odd q) then q + 1 else q)
      in show_nat (t div 10) @ ''.'' @ show_nat (t mod 10))"

definition format_rss :: "64 word \<Rightarrow> string" where
  "format_rss w =
     (let n = unat w
      in if n \<ge> 2 ^ 30 then show_tenths n @ ''G''
         else if n \<ge> 2 ^ 20 then show_nat (unat (drop_bit 20 w)) @ ''M''
         else if n \<ge> 2 ^ 10 then show_nat (unat (drop_bit 10 w)) @ ''K''
         else show_nat n @ ''B'')"

text \<open>The segments of the bar, in order, without their styles.\<close>

record status_bar =
  st_mode :: string
  st_selected :: string
  st_index :: int
  st_total :: int
  st_pid :: int
  st_port :: int
  st_git_branch :: string
  st_git_ahead :: int
  st_git_behind :: int
  st_git_dirty :: bool
  st_filter_text :: string
  st_filter_index :: int
  st_filter_total :: int
  st_copy_cursor :: string
  st_cmd_buffer :: string
  st_paused :: bool
  st_has_stats :: bool
  st_cpu :: string
  st_rss :: "64 word"
  st_width :: int

definition show_int :: "int \<Rightarrow> string" where
  "show_int n = (if n < 0 then ''-'' @ show_nat (nat (- n)) else show_nat (nat n))"

definition status_segments :: "status_bar \<Rightarrow> string list" where
  "status_segments s =
     (if st_total s > 0
      then [(if st_selected s = [] then utf8 0x2014 else st_selected s) @ ''  ''
              @ show_int (bar_position (st_index s) (st_total s)) @ ''/'' @ show_int (st_total s)] else [])
     @ (if st_pid s > 0 then [''pid:'' @ show_int (st_pid s)] else [])
     @ (if st_port s > 0 then ['':'' @ show_int (st_port s)] else [])
     @ (if st_has_stats s then [''cpu:'' @ st_cpu s @ ''% mem:'' @ format_rss (st_rss s)] else [])
     @ (if st_git_branch s \<noteq> []
        then [''git:'' @ st_git_branch s @ (if st_git_dirty s then ''*'' else [])
                @ (if st_git_ahead s > 0 then '' +'' @ show_int (st_git_ahead s) else [])
                @ (if st_git_behind s > 0 then '' -'' @ show_int (st_git_behind s) else [])] else [])
     @ (if st_filter_text s \<noteq> []
        then [''/'' @ st_filter_text s
                @ (if st_filter_total s = 0 then ''  [no match]''
                   else if st_filter_index s > 0
                     then ''  ['' @ show_int (st_filter_index s) @ ''/'' @ show_int (st_filter_total s) @ '']''
                   else ''  ['' @ show_int (st_filter_total s) @ '']'')] else [])
     @ (if st_copy_cursor s \<noteq> [] then [st_copy_cursor s] else [])
     @ (if st_cmd_buffer s \<noteq> [] then [st_cmd_buffer s] else [])
     @ (if st_paused s then [''[PAUSED]''] else [])"

section \<open>Popups on the frame\<close>

record width_lib =
  wl_width :: "bytes \<Rightarrow> int"
  wl_truncate :: "bytes \<Rightarrow> int \<Rightarrow> bytes"
  wl_cut :: "bytes \<Rightarrow> int \<Rightarrow> int \<Rightarrow> bytes"

definition blanks :: "int \<Rightarrow> bytes" where
  "blanks n = replicate (nat n) (CHR '' '')"

definition pad_or_truncate :: "width_lib \<Rightarrow> bytes \<Rightarrow> int \<Rightarrow> bytes" where
  "pad_or_truncate wl s w =
     (if w \<le> 0 then []
      else if wl_width wl s = w then s
      else if wl_width wl s > w then wl_truncate wl s w
      else s @ blanks (w - wl_width wl s))"

definition merge_at_column :: "width_lib \<Rightarrow> bytes \<Rightarrow> bytes \<Rightarrow> int \<Rightarrow> int \<Rightarrow> bytes" where
  "merge_at_column wl base overlay col width =
     (let ov = (if wl_width wl overlay > width - col then wl_truncate wl overlay (width - col) else overlay);
          left0 = wl_truncate wl base col;
          left = (if wl_width wl left0 < col then left0 @ blanks (col - wl_width wl left0) else left0);
          right_start = col + wl_width wl ov
      in left @ ov @ (if right_start < width then wl_cut wl base right_start width else []))"

text \<open>Replacing the lines from \<open>start\<close> on, as far as there are lines.\<close>

fun put_lines :: "(bytes \<Rightarrow> bytes \<Rightarrow> bytes) \<Rightarrow> nat \<Rightarrow> bytes list \<Rightarrow> bytes list \<Rightarrow> bytes list" where
  "put_lines f li [] base = base"
| "put_lines f li (ov # ovs) base =
     put_lines f (Suc li) ovs (if li < length base then base[li := f (base ! li) ov] else base)"

definition overlay_bottom_right :: "width_lib \<Rightarrow> bytes list \<Rightarrow> bytes list \<Rightarrow> int \<Rightarrow> int \<Rightarrow> bytes list" where
  "overlay_bottom_right wl base overlay width bottom_line =
     (if overlay = [[]] then base
      else let start = max 0 (bottom_line - int (length overlay) + 1)
      in put_lines (\<lambda>b ov. if wl_width wl ov \<ge> width then ov
                            else pad_or_truncate wl b (width - wl_width wl ov) @ ov) (nat start) overlay base)"

definition overlay_center :: "width_lib \<Rightarrow> bytes list \<Rightarrow> bytes list \<Rightarrow> int \<Rightarrow> int \<Rightarrow> bytes list" where
  "overlay_center wl base overlay width height =
     (if overlay = [[]] then base
      else let ow0 = fold (\<lambda>l m. if wl_width wl l > m then wl_width wl l else m) overlay 0;
          ow = (if ow0 > width then width else ow0);
          top = max 0 ((height - int (length overlay)) div 2);
          left = max 0 ((width - ow) div 2)
      in put_lines (\<lambda>b ov. merge_at_column wl b ov left width) (nat top) overlay base)"

section \<open>Properties\<close>

lemma mset_shift: "mset (shift_greater k s) = add_mset k (mset s)"
  by (induction s) auto

lemma sorted_shift:
  "sorted_wrt (\<ge>) s \<Longrightarrow> sorted_wrt (\<ge>) (shift_greater k s)"
proof (induction s)
  case Nil
  then show ?case by simp
next
  case (Cons x s)
  have "set (shift_greater k s) = insert k (set s)"
    by (metis mset_shift set_mset_add_mset_insert set_mset_mset)
  then show ?case using Cons by auto
qed

lemma fold_shift:
  "sorted_wrt (\<ge>) a \<Longrightarrow>
     sorted_wrt (\<ge>) (fold shift_greater s a) \<and> mset (fold shift_greater s a) = mset s + mset a"
  by (induction s arbitrary: a) (auto simp: sorted_shift mset_shift)

text \<open>The group picker lists every group of the configuration once, in alphabetical order, whatever order the map is
  iterated in.\<close>

theorem groups_sorted:
  "sorted (gp_groups (new_group_picker groups)) \<and> mset (gp_groups (new_group_picker groups)) = mset (keys_of groups)"
  using fold_shift [of "[]" "keys_of groups"]
  by (simp add: new_group_picker_def sort_strings_def sorted_wrt_rev)

text \<open>The cursors of the pickers stay in range.\<close>

definition gp_ok :: "group_picker \<Rightarrow> bool" where
  "gp_ok gp \<longleftrightarrow> 0 \<le> gp_cursor gp \<and> (gp_groups gp \<noteq> [] \<longrightarrow> gp_cursor gp < int (length (gp_groups gp)))"

definition bp_shows :: "(bytes \<Rightarrow> bytes) \<Rightarrow> string list \<Rightarrow> string \<Rightarrow> nat \<Rightarrow> bool" where
  "bp_shows lower branches f i \<longleftrightarrow> i < length branches \<and> (f = [] \<or> sublist (lower f) (lower (branches ! i)))"

definition bp_ok :: "(bytes \<Rightarrow> bytes) \<Rightarrow> branch_picker \<Rightarrow> bool" where
  "bp_ok lower bp \<longleftrightarrow> 0 \<le> bp_cursor bp \<and> (bp_filtered bp \<noteq> [] \<longrightarrow> bp_cursor bp < int (length (bp_filtered bp)))
     \<and> bp_filtered bp = filter (bp_shows lower (bp_branches bp) (bp_filter bp)) [0..<length (bp_branches bp)]"

lemma gp_ok_new: "gp_ok (new_group_picker groups)"
  by (auto simp: gp_ok_def new_group_picker_def)

lemma gp_ok_show: "gp_ok gp \<Longrightarrow> gp_ok (gp_show gp)"
  by (auto simp: gp_ok_def gp_show_def)

lemma gp_ok_hide: "gp_ok gp \<Longrightarrow> gp_ok (gp_hide gp)"
  by (auto simp: gp_ok_def gp_hide_def)

lemma gp_update_ok:
  assumes "gp_ok gp"
  shows "\<exists>gp' m. gp_update k gp = Some (gp', m) \<and> gp_ok gp' \<and> gp_groups gp' = gp_groups gp
     \<and> (\<forall>g. m = Some (StartGroup g) \<longrightarrow> g = gp_groups gp ! nat (gp_cursor gp) \<and> g \<in> set (gp_groups gp) \<and> \<not> gp_visible gp')"
  using assms by (auto simp: gp_update_def gp_ok_def nat_less_iff)

lemma rebuild_ok:
  assumes "0 \<le> bp_cursor bp"
  shows "bp_ok lower (rebuild_filter lower bp)"
proof -
  have "(if bp_filter bp = [] then [0..<length (bp_branches bp)]
         else filter (\<lambda>i. sublist (lower (bp_filter bp)) (lower (bp_branches bp ! i))) [0..<length (bp_branches bp)])
     = filter (bp_shows lower (bp_branches bp) (bp_filter bp)) [0..<length (bp_branches bp)]"
    by (cases "bp_filter bp = []") (auto simp: bp_shows_def intro: filter_cong)
  then show ?thesis using assms by (auto simp: rebuild_filter_def bp_ok_def Let_def)
qed

lemma bp_ok_refilter: "bp_ok lower (bp_refilter lower f bp)"
  by (simp add: bp_refilter_def rebuild_ok)

lemma bp_ok_new: "bp_ok lower (new_branch_picker lower bs)"
  by (simp add: new_branch_picker_def rebuild_ok)

lemma bp_ok_ops:
  "bp_ok lower (bp_show lower bp)" "bp_ok lower (set_branches lower bs bp)" "bp_ok lower bp \<Longrightarrow> bp_ok lower (bp_hide bp)"
  by (simp_all add: bp_show_def set_branches_def bp_ok_refilter) (auto simp: bp_hide_def bp_ok_def)

lemma bp_ok_entry:
  assumes "bp_ok lower bp" "bp_filtered bp \<noteq> []"
  shows "bp_shows lower (bp_branches bp) (bp_filter bp) (bp_filtered bp ! nat (bp_cursor bp))"
proof -
  have "nat (bp_cursor bp) < length (bp_filtered bp)" using assms by (auto simp: bp_ok_def)
  then have "bp_filtered bp ! nat (bp_cursor bp) \<in> set (bp_filtered bp)" by simp
  then show ?thesis using assms(1) by (auto simp: bp_ok_def)
qed

lemma bp_update_ok:
  assumes ok: "bp_ok lower bp"
  shows "\<exists>bp' m. bp_update lower k bp = Some (bp', m) \<and> bp_ok lower bp'
     \<and> (\<forall>b. m = Some (CheckoutBranch b) \<longrightarrow> b \<in> set (bp_branches bp) \<and> \<not> bp_visible bp'
          \<and> (bp_filter bp = [] \<or> sublist (lower (bp_filter bp)) (lower b)))"
proof -
  have move: "bp_ok lower (bp\<lparr>bp_cursor := c\<rparr>)" if "0 \<le> c" "bp_filtered bp \<noteq> [] \<longrightarrow> c < int (length (bp_filtered bp))" for c
    using ok that by (auto simp: bp_ok_def)
  have vis: "bp_ok lower (bp\<lparr>bp_visible := False\<rparr>)"
    using ok by (auto simp: bp_ok_def)
  consider (up) "matches [''up''] k" | (down) "\<not> matches [''up''] k" "matches [''down''] k"
    | (enter) "\<not> matches [''up''] k" "\<not> matches [''down''] k" "matches [''enter''] k"
    | (other) "\<not> matches [''up''] k" "\<not> matches [''down''] k" "\<not> matches [''enter''] k"
    by blast
  then show ?thesis
  proof cases
    case up
    then show ?thesis using ok move [of "bp_cursor bp - 1"] by (auto simp: bp_update_def bp_ok_def)
  next
    case down
    then show ?thesis using ok move [of "bp_cursor bp + 1"] by (auto simp: bp_update_def bp_ok_def)
  next
    case enter
    show ?thesis
    proof (cases "bp_filtered bp = []")
      case True
      then show ?thesis using enter ok by (simp add: bp_update_def)
    next
      case False
      have "0 \<le> bp_cursor bp \<and> bp_cursor bp < int (length (bp_filtered bp))" using ok False by (auto simp: bp_ok_def)
      then show ?thesis
        using enter False vis bp_ok_entry [OF ok False] by (auto simp: bp_update_def bp_shows_def)
    qed
  next
    case other
    then show ?thesis using ok vis by (auto simp: bp_update_def bp_ok_refilter)
  qed
qed

fun gp_run :: "key_msg list \<Rightarrow> group_picker \<Rightarrow> (group_picker \<times> overlay_msg list) option" where
  "gp_run [] gp = Some (gp, [])"
| "gp_run (k # ks) gp =
     Option.bind (gp_update k gp) (\<lambda>(gp1, m).
       map_option (apsnd ((@) (case m of None \<Rightarrow> [] | Some x \<Rightarrow> [x]))) (gp_run ks gp1))"

fun bp_run :: "(bytes \<Rightarrow> bytes) \<Rightarrow> key_msg list \<Rightarrow> branch_picker \<Rightarrow> (branch_picker \<times> overlay_msg list) option" where
  "bp_run lower [] bp = Some (bp, [])"
| "bp_run lower (k # ks) bp =
     Option.bind (bp_update lower k bp) (\<lambda>(bp1, m).
       map_option (apsnd ((@) (case m of None \<Rightarrow> [] | Some x \<Rightarrow> [x]))) (bp_run lower ks bp1))"

lemma bp_update_branches: "bp_update lower k bp = Some (bp', m) \<Longrightarrow> bp_branches bp' = bp_branches bp"
  by (auto simp: bp_update_def bp_refilter_def rebuild_filter_def Let_def split: if_splits)

lemma gp_run_ok:
  "gp_ok gp \<Longrightarrow> \<exists>gp' ms. gp_run ks gp = Some (gp', ms) \<and> (\<forall>g. StartGroup g \<in> set ms \<longrightarrow> g \<in> set (gp_groups gp))"
proof (induction ks arbitrary: gp)
  case Nil
  then show ?case by simp
next
  case (Cons k ks)
  obtain gp1 m where "gp_update k gp = Some (gp1, m)" "gp_ok gp1" "gp_groups gp1 = gp_groups gp"
    "\<forall>g. m = Some (StartGroup g) \<longrightarrow> g \<in> set (gp_groups gp)"
    using gp_update_ok [OF Cons.prems, of k] by blast
  moreover obtain gp2 ms where "gp_run ks gp1 = Some (gp2, ms)" "\<forall>g. StartGroup g \<in> set ms \<longrightarrow> g \<in> set (gp_groups gp1)"
    using Cons.IH [OF \<open>gp_ok gp1\<close>] by blast
  ultimately show ?case by (auto split: option.splits)
qed

lemma bp_run_ok:
  "bp_ok lower bp \<Longrightarrow> \<exists>bp' ms. bp_run lower ks bp = Some (bp', ms)
     \<and> (\<forall>b. CheckoutBranch b \<in> set ms \<longrightarrow> b \<in> set (bp_branches bp))"
proof (induction ks arbitrary: bp)
  case Nil
  then show ?case by simp
next
  case (Cons k ks)
  obtain bp1 m where "bp_update lower k bp = Some (bp1, m)" "bp_ok lower bp1"
    "\<forall>b. m = Some (CheckoutBranch b) \<longrightarrow> b \<in> set (bp_branches bp)"
    using bp_update_ok [OF Cons.prems, of k] by blast
  moreover obtain bp2 ms where "bp_run lower ks bp1 = Some (bp2, ms)"
    "\<forall>b. CheckoutBranch b \<in> set ms \<longrightarrow> b \<in> set (bp_branches bp1)"
    using Cons.IH [OF \<open>bp_ok lower bp1\<close>] by blast
  ultimately show ?case using bp_update_branches by (fastforce split: option.splits)
qed

text \<open>C22: The pickers are safe and confirm what they show: whatever keys are pressed after they open, no index is out of
  range, the groups that are started are groups of the configuration, and the branches that are checked out are branches
  of the list.\<close>

theorem pickers_safe:
  "(\<exists>gp ms. gp_run ks (gp_show (new_group_picker groups)) = Some (gp, ms)
      \<and> {g. StartGroup g \<in> set ms} \<subseteq> set (keys_of groups))
   \<and> (\<exists>bp ms. bp_run lower ks (bp_show lower (set_branches lower bs (new_branch_picker lower cs))) = Some (bp, ms)
      \<and> {b. CheckoutBranch b \<in> set ms} \<subseteq> set bs)"
proof
  have "set (gp_groups (new_group_picker groups)) = set (keys_of groups)"
    by (metis groups_sorted set_mset_mset)
  then show "\<exists>gp ms. gp_run ks (gp_show (new_group_picker groups)) = Some (gp, ms)
      \<and> {g. StartGroup g \<in> set ms} \<subseteq> set (keys_of groups)"
    using gp_run_ok [OF gp_ok_show [OF gp_ok_new], of ks groups] by (auto simp: gp_show_def)
  have "bp_branches (bp_show lower (set_branches lower bs (new_branch_picker lower cs))) = bs"
    by (simp add: bp_show_def set_branches_def bp_refilter_def rebuild_filter_def Let_def)
  then show "\<exists>bp ms. bp_run lower ks (bp_show lower (set_branches lower bs (new_branch_picker lower cs))) = Some (bp, ms)
      \<and> {b. CheckoutBranch b \<in> set ms} \<subseteq> set bs"
    using bp_run_ok [OF bp_ok_ops(1), of lower ks "set_branches lower bs (new_branch_picker lower cs)"] by auto
qed

subsection \<open>Bars\<close>

text \<open>A closed bar has sent its message, and an invalid pattern keeps the filter bar open.\<close>

lemma fi_update_closes:
  "fi_update til rx k fi = (fi', m) \<Longrightarrow> fi_visible fi \<Longrightarrow>
     (fi_visible fi' \<longleftrightarrow> \<not> (m = Some FilterCancel \<or> (\<exists>t. m = Some (FilterCommit t))))"
  by (auto simp: fi_update_def fi_hide_def Let_def split: option.splits if_splits)

lemma fi_commit_compiles:
  "fi_update til rx k fi = (fi', Some (FilterCommit t)) \<Longrightarrow> t = [] \<or> rx (''(?i)'' @ t) = None"
  by (auto simp: fi_update_def Let_def split: option.splits if_splits)

lemma ci_update_closes:
  "ci_update til k ci = (ci', m) \<Longrightarrow> ci_visible ci \<Longrightarrow> (ci_visible ci' \<longleftrightarrow> m = None)"
  by (auto simp: ci_update_def ci_hide_def Let_def split: if_splits)

subsection \<open>Toasts\<close>

lemma toasts_bounded: "length (toast_add_ttl now msg lv ttl ts) \<le> max_toasts"
  by (simp add: toast_add_ttl_def max_toasts_def Let_def)

lemma toast_shown: "toast_last (toast_add_ttl now msg lv ttl ts) = Some \<lparr>to_text = msg, to_level = lv, to_expires = now + ttl\<rparr>"
  by (simp add: toast_add_ttl_def toast_last_def max_toasts_def Let_def)

lemma toast_stack_recent:
  "toast_add_ttl now msg lv ttl ts = lastn max_toasts (ts @ [\<lparr>to_text = msg, to_level = lv, to_expires = now + ttl\<rparr>])"
  by (auto simp: toast_add_ttl_def lastn_def Let_def)

subsection \<open>Sidebar\<close>

definition sb_ok :: "sidebar \<Rightarrow> bool" where
  "sb_ok s \<longleftrightarrow> 0 \<le> sb_cursor s \<and> (sb_rows s \<noteq> [] \<longrightarrow> sb_cursor s < int (length (sb_rows s)))"

lemma find_enumerate:
  "find (\<lambda>(n, r). P r) (enumerate k xs) = Some (n, r) \<Longrightarrow> k \<le> n \<and> n < k + length xs \<and> xs ! (n - k) = r \<and> P r"
proof (induction xs arbitrary: k)
  case Nil
  then show ?case by simp
next
  case (Cons a xs)
  show ?case
  proof (cases "P a")
    case True
    then show ?thesis using Cons.prems by auto
  next
    case False
    then have "Suc k \<le> n \<and> n < Suc k + length xs \<and> xs ! (n - Suc k) = r \<and> P r"
      using Cons.IH [of "Suc k"] Cons.prems by simp
    then show ?thesis by (auto simp: nth_Cons' Suc_diff_Suc)
  qed
qed

lemma sb_ok_ops:
  assumes "sb_ok s"
  shows "sb_ok (sb_set_rows snap s)" "sb_ok (sb_set_cursor i s)" "sb_ok (sb_up s)" "sb_ok (sb_down s)"
    "sb_ok (sb_set_selected j s)" "sb_ok (sb_set_size w h s)" "sb_ok (sb_set_focused on s)"
  using assms
  by (auto simp: sb_ok_def sb_set_rows_def sb_set_cursor_def sb_up_def sb_down_def sb_set_selected_def sb_set_size_def
      sb_set_focused_def Let_def dest!: find_enumerate split: option.split)

lemma sb_ok_empty [simp]: "sb_ok empty_sidebar"
  by (simp add: sb_ok_def empty_sidebar_def)

lemma sb_selected_row: "sb_ok s \<Longrightarrow> sb_rows s \<noteq> [] \<Longrightarrow> sb_selected s = ro_id (sb_rows s ! nat (sb_cursor s)) \<and> nat (sb_cursor s) < length (sb_rows s)"
  by (auto simp: sb_ok_def sb_selected_def)

lemma sb_set_selected_id:
  assumes "i \<in> ro_id ` set (sb_rows s)"
  shows "sb_selected (sb_set_selected i s) = i"
proof -
  obtain n where n: "n < length (sb_rows s)" "ro_id (sb_rows s ! n) = i"
    using assms by (auto simp: in_set_conv_nth)
  then have "(n, sb_rows s ! n) \<in> set (enumerate 0 (sb_rows s))"
    by (simp add: in_set_enumerate_eq)
  then have "find (\<lambda>(n, r). ro_id r = i) (enumerate 0 (sb_rows s)) \<noteq> None"
    using n(2) by (auto simp: find_None_iff)
  then obtain k r where f: "find (\<lambda>(n, r). ro_id r = i) (enumerate 0 (sb_rows s)) = Some (k, r)" by auto
  from find_enumerate [OF f] show ?thesis using f by (auto simp: sb_set_selected_def sb_selected_def)
qed

subsection \<open>Layout\<close>

text \<open>The layout leaves room: on every terminal that the interface draws on, at least 60 columns, the sidebar is between
  16 and 36 columns and at most half the width, so the log pane has at least half of the columns.\<close>

theorem sidebar_fits:
  assumes "60 \<le> width"
  shows "16 \<le> sidebar_width width ids \<and> sidebar_width width ids \<le> 36 \<and> 2 * sidebar_width width ids \<le> width"
  using assms by (auto simp: sidebar_width_def sidebar_min_width_def sidebar_max_width_def Let_def)

theorem sidebar_fits_witness:
  "sidebar_width 80 [''api'', ''frontend-web''] = 22 \<and> 2 * sidebar_width 60 [''a-project-with-a-very-long-name''] \<le> 60"
proof -
  have "2 * sidebar_width 60 [''a-project-with-a-very-long-name''] \<le> 60"
    using sidebar_fits [of 60] by simp
  then show ?thesis
    by (simp add: sidebar_width_def sidebar_min_width_def sidebar_max_width_def)
qed

lemma position_in_range: "0 < n \<Longrightarrow> 1 \<le> bar_position i n \<and> bar_position i n \<le> n"
  by (auto simp: bar_position_def)

subsection \<open>Popups\<close>

lemma length_put_lines [simp]: "length (put_lines f li ovs base) = length base"
  by (induction ovs arbitrary: li base) auto

lemma put_lines_outside: "n < li \<or> li + length ovs \<le> n \<Longrightarrow> put_lines f li ovs base ! n = base ! n"
  by (induction ovs arbitrary: li base) auto

text \<open>A popup changes only the lines it covers, and the frame keeps its height.\<close>

theorem popup_keeps_frame:
  "length (overlay_center wl base ov w h) = length base"
  "length (overlay_bottom_right wl base ov w b) = length base"
  by (simp_all add: overlay_center_def overlay_bottom_right_def Let_def)

lemma toasts_spare_status_bar:
  assumes "int (length base) = h" "0 < h"
  shows "overlay_bottom_right wl base ov w (h - 2) ! nat (h - 1) = base ! nat (h - 1) \<or> h - 1 < int (length ov)"
  using assms by (auto simp: overlay_bottom_right_def Let_def intro!: put_lines_outside)

end
