(* ===== verification/Probes.thy ===== *)
theory Probes
  imports Prelude
begin

text \<open>
  What the status bar asks the system: git (\<open>internal/gitinfo\<close>), the listening port of a process
  (\<open>internal/netinfo\<close>) and its CPU share and memory (\<open>internal/procstats\<close>). The programs run, the files read and
  gopsutil are parameters; their output is parsed as the source does.
\<close>

section \<open>Words and numbers\<close>

text \<open>\<open>strings.Fields\<close>: the words of a text.\<close>

function words_from :: "bytes \<Rightarrow> bytes \<Rightarrow> bytes list" where
  "words_from cur [] = (if cur = [] then [] else [cur])"
| "words_from cur (c # s) =
     (if lead_space (c # s) = 0 then words_from (cur @ [c]) s
      else (if cur = [] then [] else [cur]) @ words_from [] (drop (lead_space (c # s)) (c # s)))"
  by pat_completeness auto
termination
proof (relation "measure (\<lambda>(cur, s). length s)")
  fix cur c s
  assume "lead_space (c # s) \<noteq> 0"
  then show "(([], drop (lead_space (c # s)) (c # s)), (cur, c # s)) \<in> measure (\<lambda>(cur, s). length s)"
    by (simp only: in_measure split_conv length_drop) (metis diff_less length_greater_0_conv list.distinct(1) neq0_conv)
qed simp_all

definition words_of :: "bytes \<Rightarrow> bytes list" where
  "words_of s = words_from [] s"

text \<open>\<open>strconv.ParseInt\<close>: a range error carries the nearest value; digits after an overflow are not looked at.\<close>

datatype num = NumOk int | NumRange int | NumSyntax

definition digit_value :: "nat \<Rightarrow> char \<Rightarrow> nat option" where
  "digit_value base c =
     (let n = of_char c;
          d = (if 48 \<le> n \<and> n \<le> 57 then n - 48 else if 97 \<le> n \<and> n \<le> 122 then n - 87
               else if 65 \<le> n \<and> n \<le> 90 then n - 55 else 99)
      in if d < base then Some d else None)"

fun parse_digits :: "nat \<Rightarrow> nat \<Rightarrow> nat \<Rightarrow> bytes \<Rightarrow> num" where
  "parse_digits base cap acc [] = NumOk (int acc)"
| "parse_digits base cap acc (c # s) =
     (case digit_value base c of
        None \<Rightarrow> NumSyntax
      | Some d \<Rightarrow> if acc * base + d > cap then NumRange (int cap) else parse_digits base cap (acc * base + d) s)"

definition parse_int :: "nat \<Rightarrow> nat \<Rightarrow> bytes \<Rightarrow> num" where
  "parse_int base bits s =
     (let neg = (s \<noteq> [] \<and> hd s = CHR ''-'');
          ds = (if s \<noteq> [] \<and> (hd s = CHR ''-'' \<or> hd s = CHR ''+'') then tl s else s)
      in if ds = [] then NumSyntax
         else
           (let half = 2 ^ (bits - 1) :: int;
                clamp = (\<lambda>n. if \<not> neg \<and> n \<ge> half then NumRange (half - 1)
                              else if neg \<and> n > half then NumRange (- half) else NumOk (if neg then - n else n))
            in case parse_digits base (2 ^ bits - 1) 0 ds of
                 NumSyntax \<Rightarrow> NumSyntax
               | NumOk n \<Rightarrow> clamp n
               | NumRange n \<Rightarrow> clamp n))"

definition atoi :: "bytes \<Rightarrow> num" where
  "atoi s = parse_int 10 64 s"

definition num_value :: "num \<Rightarrow> int" where
  "num_value r = (case r of NumOk n \<Rightarrow> n | NumRange n \<Rightarrow> n | NumSyntax \<Rightarrow> 0)"

section \<open>Git\<close>

text \<open>
  \<open>git args timeout\<close> is the outcome of running git with these arguments, killed after the timeout.
\<close>

datatype exec_result = ExecOk bytes | ExecNotFound | ExecExit int bytes | ExecFailed string

datatype git_error = GitNotFound | GitExit int bytes | GitFailed string | EmptyBranch

type_synonym git_lib = "string list \<Rightarrow> duration \<Rightarrow> exec_result"

record git_info =
  gi_branch :: string
  gi_ahead :: int
  gi_behind :: int
  gi_dirty :: bool

definition no_git_info :: git_info where
  "no_git_info = \<lparr>gi_branch = [], gi_ahead = 0, gi_behind = 0, gi_dirty = False\<rparr>"

definition git_timeout :: duration where "git_timeout = 300 * millisecond"
definition network_timeout :: duration where "network_timeout = 30 * second"

definition run_git_with_timeout :: "git_lib \<Rightarrow> string \<Rightarrow> duration \<Rightarrow> string list \<Rightarrow> git_error + bytes" where
  "run_git_with_timeout git dir timeout args =
     (case git ([''-C'', dir, ''--no-optional-locks''] @ args) timeout of
        ExecOk out \<Rightarrow> Inr out
      | ExecNotFound \<Rightarrow> Inl GitNotFound
      | ExecExit code stderr \<Rightarrow> Inl (GitExit code stderr)
      | ExecFailed e \<Rightarrow> Inl (GitFailed e))"

definition run_git :: "git_lib \<Rightarrow> string \<Rightarrow> string list \<Rightarrow> git_error + bytes" where
  "run_git git dir args = run_git_with_timeout git dir git_timeout args"

definition is_no_upstream :: "git_error \<Rightarrow> bool" where
  "is_no_upstream e = (case e of GitExit code stderr \<Rightarrow> code = 128 | _ \<Rightarrow> False)"

definition git_branch :: "git_lib \<Rightarrow> string \<Rightarrow> git_error + string" where
  "git_branch git dir =
     (case run_git git dir [''rev-parse'', ''--abbrev-ref'', ''HEAD''] of
        Inl e \<Rightarrow> Inl e
      | Inr out \<Rightarrow> if trim_space out = [] then Inl EmptyBranch else Inr (trim_space out))"

text \<open>Ahead first, although git prints the upstream's side, behind, first.\<close>

definition git_ahead_behind :: "git_lib \<Rightarrow> string \<Rightarrow> git_error + int \<times> int" where
  "git_ahead_behind git dir =
     (case run_git git dir [''rev-list'', ''--left-right'', ''--count'', ''@'' @ ''{u}...HEAD''] of
        Inl e \<Rightarrow> if is_no_upstream e then Inr (0, 0) else Inl e
      | Inr out \<Rightarrow>
          (case words_of (trim_space out) of
             beh # ahd # _ \<Rightarrow> Inr (num_value (atoi ahd), num_value (atoi beh))
           | _ \<Rightarrow> Inr (0, 0)))"

definition git_dirty :: "git_lib \<Rightarrow> string \<Rightarrow> git_error + bool" where
  "git_dirty git dir =
     (case run_git git dir [''status'', ''--porcelain=v1'', ''-uno''] of
        Inl e \<Rightarrow> Inl e | Inr out \<Rightarrow> Inr (trim_space out \<noteq> []))"

definition git_current :: "git_lib \<Rightarrow> string \<Rightarrow> git_info \<times> git_error option" where
  "git_current git dir =
     (case git_branch git dir of
        Inl e \<Rightarrow> (no_git_info, Some e)
      | Inr branch \<Rightarrow>
          (let i0 = no_git_info\<lparr>gi_branch := branch\<rparr>;
               i1 = (case git_ahead_behind git dir of Inr (a, b) \<Rightarrow> i0\<lparr>gi_ahead := a, gi_behind := b\<rparr> | Inl e \<Rightarrow> i0);
               i2 = (case git_dirty git dir of Inr d \<Rightarrow> i1\<lparr>gi_dirty := d\<rparr> | Inl e \<Rightarrow> i1)
           in (i2, None)))"

definition parse_branches :: "bytes \<Rightarrow> string list" where
  "parse_branches out = filter (\<lambda>b. b \<noteq> []) (map trim_space (split_on (CHR 0x0A) [] out))"

definition git_branches :: "git_lib \<Rightarrow> string \<Rightarrow> git_error + string list" where
  "git_branches git dir =
     (case run_git git dir [''branch'', ''--list'', ''--format=%(refname:short)''] of
        Inl e \<Rightarrow> Inl e | Inr out \<Rightarrow> Inr (parse_branches out))"

definition git_checkout :: "git_lib \<Rightarrow> string \<Rightarrow> string \<Rightarrow> git_error option" where
  "git_checkout git dir branch = (case run_git git dir [''checkout'', branch] of Inl e \<Rightarrow> Some e | Inr out \<Rightarrow> None)"

definition git_fetch :: "git_lib \<Rightarrow> string \<Rightarrow> git_error + bytes" where
  "git_fetch git dir = run_git_with_timeout git dir network_timeout [''fetch'', ''--prune'']"

definition git_pull :: "git_lib \<Rightarrow> string \<Rightarrow> git_error + bytes" where
  "git_pull git dir = run_git_with_timeout git dir network_timeout [''pull'', ''--ff-only'']"

section \<open>Listening ports\<close>

definition smaller_port :: "int option \<Rightarrow> int \<Rightarrow> int" where
  "smaller_port r smallest = (case r of None \<Rightarrow> smallest | Some p \<Rightarrow> if smallest = 0 \<or> p < smallest then p else smallest)"

definition valid_port :: "num \<Rightarrow> int option" where
  "valid_port r = (case r of NumOk p \<Rightarrow> if p \<le> 0 \<or> p > 65535 then None else Some p | _ \<Rightarrow> None)"

text \<open>Linux: the sockets among the targets of \<open>/proc/pid/fd\<close> (\<open>None\<close>: the link cannot be read).\<close>

definition socket_inode :: "string option \<Rightarrow> string option" where
  "socket_inode target =
     (case target of
        None \<Rightarrow> None
      | Some t \<Rightarrow> if prefix ''socket:['' t \<and> suffix '']'' t then Some (take (length t - 9) (drop 8 t)) else None)"

definition socket_inodes :: "string option list \<Rightarrow> string list" where
  "socket_inodes targets = map the (filter (\<lambda>i. i \<noteq> None) (map socket_inode targets))"

text \<open>A row of \<open>/proc/net/tcp\<close>: local address, state and inode are its words 1, 3 and 9.\<close>

definition listen_port :: "string list \<Rightarrow> bytes \<Rightarrow> int option" where
  "listen_port inodes row =
     (let fs = words_of row
      in if length fs < 10 \<or> fs ! 3 \<noteq> ''0A'' \<or> fs ! 9 \<notin> set inodes \<or> CHR '':'' \<notin> set (fs ! 1) then None
         else valid_port (parse_int 16 32 (tl (dropWhile (\<lambda>c. c \<noteq> CHR '':'') (fs ! 1)))))"

definition scan_net_tcp :: "string list \<Rightarrow> bytes \<Rightarrow> int" where
  "scan_net_tcp inodes text_of =
     fold (\<lambda>row. smaller_port (listen_port inodes row)) (tl (split_on (CHR 0x0A) [] text_of)) 0"

datatype port_error = NoPort | NoFds

text \<open>The descriptors (\<open>None\<close>: the directory cannot be read) and the two tables, if they can be read.\<close>

definition port_for_pid :: "string option list option \<Rightarrow> bytes option list \<Rightarrow> port_error + int" where
  "port_for_pid fds tables =
     (case fds of
        None \<Rightarrow> Inl NoFds
      | Some targets \<Rightarrow>
          (let inodes = socket_inodes targets;
               scan = (\<lambda>t smallest. case t of
                         None \<Rightarrow> smallest
                       | Some d \<Rightarrow> (let port = scan_net_tcp inodes d
                                    in if port > 0 then smaller_port (Some port) smallest else smallest));
               smallest = fold scan tables 0
           in if inodes = [] \<or> smallest = 0 then Inl NoPort else Inr smallest))"

text \<open>macOS: the output of \<open>lsof -F pn\<close>, a \<open>p\<close> line for each process and an \<open>n\<close> line for each of its sockets.\<close>

definition parse_last_port :: "bytes \<Rightarrow> int option" where
  "parse_last_port addr =
     (if CHR '':'' \<notin> set addr then None
      else valid_port (atoi (rev (takeWhile (\<lambda>c. c \<noteq> CHR '':'') (rev addr)))))"

definition lsof_line :: "string \<Rightarrow> bytes \<Rightarrow> bool \<times> int \<Rightarrow> bool \<times> int" where
  "lsof_line target l st =
     (let (in_target, smallest) = st
      in if prefix ''p'' l then (tl l = target, smallest)
         else if \<not> in_target \<or> \<not> prefix ''n'' l then st
         else (in_target, smaller_port (parse_last_port (tl l)) smallest))"

definition port_for_pid_darwin :: "string \<Rightarrow> bytes \<Rightarrow> port_error + int" where
  "port_for_pid_darwin target out =
     (let (_, smallest) = fold (lsof_line target) (split_on (CHR 0x0A) [] out) (False, 0)
      in if smallest = 0 then Inl NoPort else Inr smallest)"

section \<open>CPU and memory of a process tree\<close>

text \<open>
  gopsutil: opening a process, its CPU share since the last call on the same handle, its memory and its children; shares
  are added by \<open>pl_plus\<close>, which need not be associative.
\<close>

record ('h, 'c) proc_lib =
  pl_open :: "32 word \<Rightarrow> 'h option"
  pl_cpu :: "'h \<Rightarrow> 'h \<times> 'c option"
  pl_rss :: "'h \<Rightarrow> 64 word option"
  pl_children :: "32 word \<Rightarrow> 32 word list option"
  pl_plus :: "'c \<Rightarrow> 'c \<Rightarrow> 'c"
  pl_zero :: 'c

record ('h, 'c) walk =
  wk_handles :: "(32 word \<times> 'h) list"
  wk_cpu :: 'c
  wk_rss :: "64 word"
  wk_seen :: "32 word list"

definition handle_for :: "('h, 'c) proc_lib \<Rightarrow> 32 word \<Rightarrow> (32 word \<times> 'h) list \<Rightarrow> ('h \<times> (32 word \<times> 'h) list) option" where
  "handle_for lib p hs =
     (case map_of hs p of
        Some h \<Rightarrow> Some (h, hs)
      | None \<Rightarrow> (case pl_open lib p of None \<Rightarrow> None | Some h \<Rightarrow> Some (h, AList.update p h hs)))"

definition accumulate :: "('h, 'c) proc_lib \<Rightarrow> 32 word \<Rightarrow> 'h \<Rightarrow> ('h, 'c) walk \<Rightarrow> ('h, 'c) walk" where
  "accumulate lib p h w =
     (let (h1, cpu) = pl_cpu lib h
      in w\<lparr>wk_handles := AList.update p h1 (wk_handles w),
           wk_cpu := (case cpu of None \<Rightarrow> wk_cpu w | Some c \<Rightarrow> pl_plus lib (wk_cpu w) c),
           wk_rss := (case pl_rss lib h of None \<Rightarrow> wk_rss w | Some r \<Rightarrow> wk_rss w + r)\<rparr>)"

text \<open>The recursion ends only if the processes form a tree: fuel, and \<open>None\<close> when it is used up.\<close>

fun accumulate_tree :: "('h, 'c) proc_lib \<Rightarrow> nat \<Rightarrow> 32 word \<Rightarrow> ('h, 'c) walk \<Rightarrow> ('h, 'c) walk option"
and accumulate_all :: "('h, 'c) proc_lib \<Rightarrow> nat \<Rightarrow> 32 word list \<Rightarrow> ('h, 'c) walk \<Rightarrow> ('h, 'c) walk option" where
  "accumulate_tree lib 0 p w = None"
| "accumulate_tree lib (Suc n) p w =
     (case handle_for lib p (wk_handles w) of
        None \<Rightarrow> Some w
      | Some (h, hs) \<Rightarrow>
          (let w1 = accumulate lib p h (w\<lparr>wk_handles := hs, wk_seen := List.insert p (wk_seen w)\<rparr>)
           in case pl_children lib p of None \<Rightarrow> Some w1 | Some kids \<Rightarrow> accumulate_all lib n kids w1))"
| "accumulate_all lib n [] w = Some w"
| "accumulate_all lib n (k # ks) w = Option.bind (accumulate_tree lib n k w) (accumulate_all lib n ks)"

definition prune_except :: "32 word list \<Rightarrow> (32 word \<times> 'h) list \<Rightarrow> (32 word \<times> 'h) list" where
  "prune_except seen hs = filter (\<lambda>(p, h). p \<in> set seen) hs"

definition forget_pid :: "int \<Rightarrow> (32 word \<times> 'h) list \<Rightarrow> (32 word \<times> 'h) list" where
  "forget_pid pid hs = AList.delete (word_of_int pid) hs"

text \<open>\<open>Sample\<close>: the totals, if the root can be opened, and the handles that are kept.\<close>

definition sample ::
  "('h, 'c) proc_lib \<Rightarrow> nat \<Rightarrow> int \<Rightarrow> (32 word \<times> 'h) list \<Rightarrow> (('c \<times> 64 word) option \<times> (32 word \<times> 'h) list) option" where
  "sample lib n pid hs =
     (if pid \<le> 0 then Some (None, hs)
      else
        (let root = word_of_int pid
         in case handle_for lib root hs of
              None \<Rightarrow> Some (None, hs)
            | Some (h, hs1) \<Rightarrow>
                (let w = accumulate lib root h \<lparr>wk_handles = hs1, wk_cpu = pl_zero lib, wk_rss = 0, wk_seen = [root]\<rparr>
                 in map_option (\<lambda>w1. (Some (wk_cpu w1, wk_rss w1), prune_except (wk_seen w1) (wk_handles w1)))
                      (case pl_children lib root of None \<Rightarrow> Some w | Some kids \<Rightarrow> accumulate_all lib n kids w))))"

section \<open>The smallest port\<close>

definition least :: "int set \<Rightarrow> int" where
  "least P = (if P = {} then 0 else Min P)"

definition ports :: "int set \<Rightarrow> bool" where
  "ports P \<longleftrightarrow> finite P \<and> P \<subseteq> {1..}"

lemma least_pos: "ports P \<Longrightarrow> P \<noteq> {} \<Longrightarrow> 0 < least P"
  using Min_in [of P] by (auto simp: least_def ports_def)

lemma least_zero: "ports P \<Longrightarrow> least P = 0 \<longleftrightarrow> P = {}"
  using least_pos by (force simp: least_def)

lemma smaller_least:
  assumes "ports P"
  shows "smaller_port r (least P) = least (P \<union> {p. r = Some p})"
proof (cases r)
  case (Some p)
  show ?thesis
  proof (cases "P = {}")
    case False
    then have "smaller_port r (least P) = min p (Min P)" using least_pos [OF assms False] Some by (auto simp: smaller_port_def least_def)
    also have "\<dots> = Min (insert p P)" using assms False by (simp add: ports_def)
    finally show ?thesis using Some False by (simp add: least_def)
  qed (simp add: Some smaller_port_def least_def)
qed (simp add: smaller_port_def)

lemma ports_Un [simp]: "ports (P \<union> Q) \<longleftrightarrow> ports P \<and> ports Q"
  by (auto simp: ports_def)

lemma valid_port_ports [simp]: "ports {p. valid_port r = Some p}"
proof -
  have "{p. valid_port r = Some p} \<subseteq> set_option (valid_port r)" by auto
  then have "finite {p. valid_port r = Some p}" by (rule finite_subset) simp
  then show ?thesis by (auto simp: ports_def valid_port_def split: num.splits if_splits)
qed

lemma fold_smaller:
  assumes "\<And>x. ports {p. f x = Some p}" "ports P"
  shows "fold (\<lambda>x. smaller_port (f x)) xs (least P) = least (P \<union> {p. \<exists>x\<in>set xs. f x = Some p})
    \<and> ports {p. \<exists>x\<in>set xs. f x = Some p}"
  using assms(2)
proof (induction xs arbitrary: P)
  case (Cons x xs)
  have "P \<union> {p. f x = Some p} \<union> {p. \<exists>x\<in>set xs. f x = Some p} = P \<union> {p. \<exists>x\<in>set (x # xs). f x = Some p}" by auto
  moreover have "{p. \<exists>x\<in>set (x # xs). f x = Some p} = {p. f x = Some p} \<union> {p. \<exists>x\<in>set xs. f x = Some p}" by auto
  ultimately show ?case using Cons assms(1) [of x] by (simp add: smaller_least)
qed (simp add: ports_def)

definition table_ports :: "string list \<Rightarrow> bytes \<Rightarrow> int set" where
  "table_ports inodes d = {p. \<exists>row \<in> set (tl (split_on (CHR 0x0A) [] d)). listen_port inodes row = Some p}"

lemma listen_port_ports: "ports {p. listen_port inodes row = Some p}"
  by (auto simp: listen_port_def Let_def) (simp_all add: ports_def)

lemma scan_least: "scan_net_tcp inodes d = least (table_ports inodes d) \<and> ports (table_ports inodes d)"
  using fold_smaller [of "listen_port inodes" "{}" "tl (split_on (CHR 0x0A) [] d)"] listen_port_ports
  by (simp add: scan_net_tcp_def table_ports_def least_def ports_def)

lemma merge_least:
  assumes "ports P" "ports Q"
  shows "(if least Q > 0 then smaller_port (Some (least Q)) (least P) else least P) = least (P \<union> Q)"
proof (cases "Q = {}")
  case False
  have "smaller_port (Some (least Q)) (least P) = least (insert (least Q) P)" using smaller_least [OF assms(1), of "Some (least Q)"] by simp
  also have "\<dots> = least (P \<union> Q)"
    using assms False by (cases "P = {}") (auto simp: least_def ports_def Min_Un min.commute)
  finally show ?thesis using least_pos [OF assms(2) False] by simp
qed (simp add: least_def)

text \<open>
  What it means that a process listens on a port, in the terms of \<open>/proc\<close>: a row in state \<open>0A\<close> (LISTEN) with at least ten words,
  whose inode is the target of one of the descriptors, and whose local address has the port in hexadecimal after its first colon.
\<close>

definition listens_on :: "string option list \<Rightarrow> bytes \<Rightarrow> int \<Rightarrow> bool" where
  "listens_on targets row port \<longleftrightarrow>
     (\<exists>fs addr hex. words_of row = fs \<and> 10 \<le> length fs \<and> fs ! 3 = ''0A''
        \<and> Some (''socket:['' @ fs ! 9 @ '']'') \<in> set targets
        \<and> fs ! 1 = addr @ [CHR '':''] @ hex \<and> CHR '':'' \<notin> set addr
        \<and> parse_int 16 32 hex = NumOk port \<and> 1 \<le> port \<and> port \<le> 65535)"

lemma socket_inode_iff: "socket_inode (Some t) = Some i \<longleftrightarrow> t = ''socket:['' @ i @ '']''"
proof
  assume *: "socket_inode (Some t) = Some i"
  then have p: "prefix ''socket:['' t" "suffix '']'' t" and i: "i = take (length t - 9) (drop 8 t)"
    by (auto simp: socket_inode_def split: if_splits)
  then obtain u where u: "t = ''socket:['' @ u" by (auto simp: prefix_def)
  obtain v where v: "t = v @ '']''" using p(2) by (auto simp: suffix_def)
  have "u \<noteq> []" using u v by (cases v rule: rev_cases) auto
  then obtain w where "u = w @ '']''" using u v by (cases u rule: rev_cases) auto
  then show "t = ''socket:['' @ i @ '']''" using u i by simp
next
  assume "t = ''socket:['' @ i @ '']''"
  then show "socket_inode (Some t) = Some i"
    by (auto simp: socket_inode_def suffix_def intro: exI [of _ "''socket:['' @ i"])
qed

lemma socket_inodes_mem: "i \<in> set (socket_inodes targets) \<longleftrightarrow> Some (''socket:['' @ i @ '']'') \<in> set targets"
proof -
  have n: "socket_inode None = None" by (simp add: socket_inode_def)
  have "i \<in> set (socket_inodes targets) \<longleftrightarrow> Some i \<in> set (map socket_inode targets)"
    unfolding socket_inodes_def by (induction targets) auto
  also have "\<dots> \<longleftrightarrow> (\<exists>t. t \<in> set targets \<and> socket_inode t = Some i)" by (auto simp del: not_None_eq intro: sym)
  also have "\<dots> \<longleftrightarrow> (\<exists>t. Some t \<in> set targets \<and> socket_inode (Some t) = Some i)"
  proof
    assume "\<exists>t. t \<in> set targets \<and> socket_inode t = Some i"
    then obtain t where t: "t \<in> set targets" "socket_inode t = Some i" by blast
    then show "\<exists>t. Some t \<in> set targets \<and> socket_inode (Some t) = Some i" using n by (metis not_None_eq option.distinct(1))
  qed blast
  finally show ?thesis by (simp only: socket_inode_iff) blast
qed

lemma colon_split: "CHR '':'' \<notin> set addr \<Longrightarrow> tl (dropWhile (\<lambda>c. c \<noteq> CHR '':'') (addr @ [CHR '':''] @ hex)) = hex"
  by (induction addr) auto

lemma listen_port_iff: "listen_port (socket_inodes targets) row = Some port \<longleftrightarrow> listens_on targets row port"
proof
  assume *: "listen_port (socket_inodes targets) row = Some port"
  let ?fs = "words_of row"
  have c: "10 \<le> length ?fs" "?fs ! 3 = ''0A''" "?fs ! 9 \<in> set (socket_inodes targets)" "CHR '':'' \<in> set (?fs ! 1)"
    using * by (auto simp: listen_port_def Let_def split: if_splits)
  obtain addr hex where a: "?fs ! 1 = addr @ [CHR '':''] @ hex" "CHR '':'' \<notin> set addr"
    using split_list_first [OF c(4)] by auto
  have "valid_port (parse_int 16 32 hex) = Some port"
    using * c colon_split [OF a(2), of hex] unfolding a(1) [symmetric] by (simp add: listen_port_def Let_def)
  then have "parse_int 16 32 hex = NumOk port" "1 \<le> port" "port \<le> 65535"
    by (auto simp: valid_port_def split: num.splits if_splits)
  then show "listens_on targets row port"
    using c(1-3) a unfolding listens_on_def socket_inodes_mem by blast
next
  assume "listens_on targets row port"
  then obtain fs addr hex where *: "words_of row = fs" "10 \<le> length fs" "fs ! 3 = ''0A''"
    "fs ! 9 \<in> set (socket_inodes targets)" "fs ! 1 = addr @ [CHR '':''] @ hex" "CHR '':'' \<notin> set addr"
    "parse_int 16 32 hex = NumOk port" "1 \<le> port" "port \<le> 65535"
    unfolding listens_on_def socket_inodes_mem by blast
  then have "valid_port (parse_int 16 32 (tl (dropWhile (\<lambda>c. c \<noteq> CHR '':'') (fs ! 1)))) = Some port"
    using colon_split [OF *(6), of hex] by (simp add: valid_port_def)
  then show "listen_port (socket_inodes targets) row = Some port"
    using * by (simp add: listen_port_def Let_def)
qed

lemma port_for_pid_min:
  "port_for_pid (Some targets) tables =
     (let P = {p. \<exists>d row. Some d \<in> set tables \<and> row \<in> set (tl (split_on (CHR 0x0A) [] d))
                 \<and> listen_port (socket_inodes targets) row = Some p}
      in if P = {} then Inl NoPort else Inr (Min P))"
proof -
  let ?i = "socket_inodes targets"
  let ?P = "\<lambda>ts. \<Union>(table_ports ?i ` {d. Some d \<in> set ts})"
  let ?scan = "\<lambda>t smallest. case t of None \<Rightarrow> smallest
      | Some d \<Rightarrow> (let port = scan_net_tcp ?i d in if port > 0 then smaller_port (Some port) smallest else smallest)"
  have fold: "fold ?scan ts (least Q) = least (Q \<union> ?P ts) \<and> ports (?P ts)" if "ports Q" for ts Q
    using that
  proof (induction ts arbitrary: Q)
    case (Cons t ts)
    show ?case
    proof (cases t)
      case (Some d)
      have "?P (t # ts) = table_ports ?i d \<union> ?P ts" using Some by auto
      moreover have "?scan t (least Q) = least (Q \<union> table_ports ?i d)"
        using merge_least [OF Cons.prems] scan_least [of ?i d] Some by (simp add: Let_def)
      ultimately show ?thesis using Cons.IH [of "Q \<union> table_ports ?i d"] Cons.prems scan_least [of ?i d] by (simp add: Un_assoc)
    next
      case None
      then have "?P (t # ts) = ?P ts" by auto
      then show ?thesis using Cons None by simp
    qed
  qed (simp add: ports_def)
  have P: "?P tables = {p. \<exists>d row. Some d \<in> set tables \<and> row \<in> set (tl (split_on (CHR 0x0A) [] d))
      \<and> listen_port ?i row = Some p}"
    by (auto simp: table_ports_def)
  have "fold ?scan tables 0 = least (?P tables)" "ports (?P tables)"
    using fold [of "{}" tables] by (simp_all add: least_def ports_def)
  moreover have "?P tables = {}" if "?i = []" using that by (auto simp: table_ports_def listen_port_def Let_def split: if_splits)
  ultimately have "port_for_pid (Some targets) tables = (if ?P tables = {} then Inl NoPort else Inr (least (?P tables)))"
    using least_zero [of "?P tables"] by (simp add: port_for_pid_def Let_def)
  then have "port_for_pid (Some targets) tables = (if ?P tables = {} then Inl NoPort else Inr (Min (?P tables)))"
    by (cases "?P tables = {}") (simp_all only: least_def if_True if_False simp_thms)
  then show ?thesis by (simp only: Let_def P)
qed

text \<open>C36: The port shown for a process is the smallest one it listens on: over the rows, but the first, of the tables
  that can be read, those in state LISTEN whose inode is one of the process's sockets and whose local address ends in a
  port between 1 and 65535. The error is that there is no port exactly when there is no such row, and that the descriptors
  are missing exactly when their directory cannot be read.\<close>

theorem port_is_smallest:
  "port_for_pid fds tables =
     (case fds of
        None \<Rightarrow> Inl NoFds
      | Some targets \<Rightarrow>
          (let P = {p. \<exists>d row. Some d \<in> set tables \<and> row \<in> set (tl (split_on (CHR 0x0A) [] d)) \<and> listens_on targets row p}
           in if P = {} then Inl NoPort else Inr (Min P)))"
proof (cases fds)
  case None
  then show ?thesis by (simp add: port_for_pid_def)
next
  case (Some targets)
  then show ?thesis by (simp only: port_for_pid_min listen_port_iff option.case)
qed

text \<open>The ports in the output of \<open>lsof\<close>: an \<open>n\<close> line in the section of the process, with no other \<open>p\<close> line between.\<close>

definition no_process :: "bytes list \<Rightarrow> bool" where
  "no_process ls = list_all (\<lambda>l. \<not> prefix ''p'' l) ls"

definition in_section :: "string \<Rightarrow> bytes list \<Rightarrow> bool" where
  "in_section target ls \<longleftrightarrow> (\<exists>us vs. ls = us @ [CHR ''p'' # target] @ vs \<and> no_process vs)"

definition lsof_ports :: "string \<Rightarrow> bytes list \<Rightarrow> int set" where
  "lsof_ports target ls = {p. \<exists>us addr ws. ls = us @ [CHR ''n'' # addr] @ ws \<and> in_section target us \<and> parse_last_port addr = Some p}"

lemma no_process_snoc [simp]: "no_process (ls @ [l]) \<longleftrightarrow> no_process ls \<and> \<not> prefix ''p'' l"
  by (simp add: no_process_def)

lemma in_section_snoc:
  "in_section target (ls @ [l]) \<longleftrightarrow> (if prefix ''p'' l then tl l = target else in_section target ls)"
proof
  assume "in_section target (ls @ [l])"
  then obtain us vs where *: "ls @ [l] = us @ [CHR ''p'' # target] @ vs" "no_process vs" by (auto simp: in_section_def)
  show "if prefix ''p'' l then tl l = target else in_section target ls"
  proof (cases vs rule: rev_cases)
    case Nil
    then show ?thesis using *(1) by simp
  next
    case (snoc vs' v)
    then have "ls = us @ [CHR ''p'' # target] @ vs'" "no_process vs'" "\<not> prefix ''p'' l" using * by simp_all
    then show ?thesis unfolding in_section_def by auto
  qed
next
  assume *: "if prefix ''p'' l then tl l = target else in_section target ls"
  show "in_section target (ls @ [l])"
  proof (cases "prefix ''p'' l")
    case True
    then have "ls @ [l] = ls @ [CHR ''p'' # target] @ []" "no_process []" using * by (auto simp: prefix_def no_process_def)
    then show ?thesis unfolding in_section_def by blast
  next
    case False
    then obtain us vs where "ls = us @ [CHR ''p'' # target] @ vs" "no_process vs" using * by (auto simp: in_section_def)
    then have "ls @ [l] = us @ [CHR ''p'' # target] @ (vs @ [l])" "no_process (vs @ [l])" using False by simp_all
    then show ?thesis unfolding in_section_def by blast
  qed
qed

lemma lsof_ports_snoc:
  "lsof_ports target (ls @ [l]) = lsof_ports target ls
     \<union> (if prefix ''n'' l \<and> in_section target ls then {p. parse_last_port (tl l) = Some p} else {})"
proof (intro set_eqI iffI)
  fix p assume "p \<in> lsof_ports target (ls @ [l])"
  then obtain us addr ws where *: "ls @ [l] = us @ [CHR ''n'' # addr] @ ws" "in_section target us" "parse_last_port addr = Some p"
    by (auto simp: lsof_ports_def)
  then show "p \<in> lsof_ports target ls \<union> (if prefix ''n'' l \<and> in_section target ls then {p. parse_last_port (tl l) = Some p} else {})"
    by (cases ws rule: rev_cases) (auto simp: lsof_ports_def)
next
  fix p assume "p \<in> lsof_ports target ls \<union> (if prefix ''n'' l \<and> in_section target ls then {p. parse_last_port (tl l) = Some p} else {})"
  then consider us addr ws where "ls = us @ [CHR ''n'' # addr] @ ws" "in_section target us" "parse_last_port addr = Some p"
    | "prefix ''n'' l" "in_section target ls" "parse_last_port (tl l) = Some p"
    by (auto simp: lsof_ports_def split: if_splits)
  then show "p \<in> lsof_ports target (ls @ [l])"
  proof cases
    case 1
    then have "ls @ [l] = us @ [CHR ''n'' # addr] @ (ws @ [l])" by simp
    then show ?thesis using 1(2,3) unfolding lsof_ports_def by blast
  next
    case 2
    then obtain addr where "l = CHR ''n'' # addr" by (auto simp: prefix_def)
    then have "ls @ [l] = ls @ [CHR ''n'' # addr] @ []" "parse_last_port addr = Some p" using 2 by simp_all
    then show ?thesis using 2(2) unfolding lsof_ports_def by blast
  qed
qed

lemma lsof_scan:
  "fold (lsof_line target) ls (False, 0) = (in_section target ls, least (lsof_ports target ls)) \<and> ports (lsof_ports target ls)"
proof (induction ls rule: rev_induct)
  case Nil
  then show ?case by (simp add: in_section_def lsof_ports_def least_def ports_def)
next
  case (snoc l ls)
  have P: "ports {p. parse_last_port (tl l) = Some p}" by (cases "CHR '':'' \<in> set (tl l)") (simp_all add: parse_last_port_def, simp add: ports_def)
  have "prefix ''n'' l \<Longrightarrow> \<not> prefix ''p'' l" by (auto simp: prefix_def)
  then show ?case using snoc P smaller_least [of "lsof_ports target ls" "parse_last_port (tl l)"]
    by (simp add: lsof_line_def in_section_snoc lsof_ports_snoc) (simp add: ports_def)
qed

theorem lsof_port_is_smallest:
  "port_for_pid_darwin target out =
     (let P = lsof_ports target (split_on (CHR 0x0A) [] out) in if P = {} then Inl NoPort else Inr (Min P))"
  using lsof_scan [of target "split_on (CHR 0x0A) [] out"] least_zero
  by (auto simp: port_for_pid_darwin_def Let_def least_def split: if_splits)

section \<open>Git output\<close>

lemma split_on_append: "c \<notin> set b \<Longrightarrow> split_on c cur (b @ c # t) = (cur @ b) # split_on c [] t"
  by (induction b arbitrary: cur) auto

lemma split_on_lines:
  "\<forall>b \<in> set bs. c \<notin> set b \<Longrightarrow> split_on c [] (concat (map (\<lambda>b. b @ [c]) bs)) = bs @ [[]]"
  by (induction bs) (simp_all add: split_on_append)

theorem branches_read_back:
  assumes "\<forall>b \<in> set bs. CHR 0x0A \<notin> set b \<and> b \<noteq> [] \<and> trim_space b = b"
  shows "parse_branches (concat (map (\<lambda>b. b @ [CHR 0x0A]) bs)) = bs"
proof -
  have "trim_space [] = []" by code_simp
  moreover have "map trim_space bs = bs" "filter (\<lambda>b. b \<noteq> []) bs = bs" using assms by (simp_all add: map_idI)
  ultimately show ?thesis using assms by (simp add: parse_branches_def split_on_lines)
qed

text \<open>\<open>Current\<close> fails exactly when the branch cannot be read; whatever else fails leaves its field empty.\<close>

theorem git_current_open:
  "snd (git_current git dir) = (case git_branch git dir of Inl e \<Rightarrow> Some e | Inr b \<Rightarrow> None)"
  "git_branch git dir = Inr b \<Longrightarrow> gi_branch (fst (git_current git dir)) = b \<and> b \<noteq> []"
  by (auto simp: git_current_def no_git_info_def git_branch_def Let_def split: sum.splits if_splits)

text \<open>A checkout is run with the short timeout and killed after it, unlike a fetch or a pull.\<close>

lemma find_checkout_timeout:
  "git_checkout (\<lambda>args t. if t < second then ExecExit (- 1) [] else ExecOk []) dir branch = Some (GitExit (- 1) [])"
  "git_pull (\<lambda>args t. if t < second then ExecExit (- 1) [] else ExecOk []) dir = Inr []"
  by (simp_all add: git_checkout_def git_pull_def run_git_def run_git_with_timeout_def git_timeout_def network_timeout_def
      second_def millisecond_def)

section \<open>The process tree\<close>

definition child_of :: "('h, 'c) proc_lib \<Rightarrow> (32 word \<times> 32 word) set" where
  "child_of lib = {(p, k). \<exists>kids. pl_children lib p = Some kids \<and> k \<in> set kids}"

definition ranked :: "('h, 'c) proc_lib \<Rightarrow> (32 word \<Rightarrow> nat) \<Rightarrow> bool" where
  "ranked lib rank \<longleftrightarrow> (\<forall>p k. (p, k) \<in> child_of lib \<longrightarrow> rank k < rank p)"

lemma walk_ends:
  "ranked lib rank \<Longrightarrow> rank p < n \<Longrightarrow> accumulate_tree lib n p w \<noteq> None"
  "ranked lib rank \<Longrightarrow> \<forall>k \<in> set ks. rank k < n \<Longrightarrow> accumulate_all lib n ks w \<noteq> None"
proof (induction lib n p w and lib n ks w rule: accumulate_tree_accumulate_all.induct)
  case (2 lib n p w)
  have below: "rank k < n" if "pl_children lib p = Some kids" "k \<in> set kids" for kids k
    using 2(2,3) that by (force simp: ranked_def child_of_def)
  show ?case
  proof (cases "handle_for lib p (wk_handles w)")
    case (Some r)
    obtain h hs where r: "r = (h, hs)" by (cases r)
    show ?thesis using 2(1) [OF Some r [symmetric] refl] 2(2) below by (simp add: Some r Let_def split: option.splits)
  qed simp
next
  case (4 lib n k ks w)
  then obtain w1 where "accumulate_tree lib n k w = Some w1" by auto
  with 4 show ?case by (simp add: Option.bind_eq_None_conv)
qed simp_all

definition tree_of :: "('h, 'c) proc_lib \<Rightarrow> 32 word \<Rightarrow> 32 word set" where
  "tree_of lib root = {p. (root, p) \<in> (child_of lib)\<^sup>*}"

lemma tree_of_child: "(p, k) \<in> child_of lib \<Longrightarrow> tree_of lib k \<subseteq> tree_of lib p"
  by (auto simp: tree_of_def intro: converse_rtrancl_into_rtrancl)

lemma tree_of_self [simp]: "p \<in> tree_of lib p"
  by (simp add: tree_of_def)

lemma accumulate_seen [simp]: "wk_seen (accumulate lib p h w) = wk_seen w"
  by (simp add: accumulate_def split: prod.splits)

lemma walk_seen:
  "accumulate_tree lib n p w = Some w1 \<Longrightarrow> set (wk_seen w1) \<subseteq> set (wk_seen w) \<union> tree_of lib p"
  "accumulate_all lib n ks w = Some w1 \<Longrightarrow> set (wk_seen w1) \<subseteq> set (wk_seen w) \<union> \<Union>(tree_of lib ` set ks)"
proof (induction lib n p w and lib n ks w arbitrary: w1 and w1 rule: accumulate_tree_accumulate_all.induct)
  case (2 lib n p w)
  show ?case
  proof (cases "handle_for lib p (wk_handles w)")
    case (Some r)
    obtain h hs where r: "r = (h, hs)" by (cases r)
    show ?thesis
    proof (cases "pl_children lib p")
      case None
      then show ?thesis using 2(2) by (auto simp: Some r Let_def)
    next
      case kids: (Some kids)
      have "\<Union>(tree_of lib ` set kids) \<subseteq> tree_of lib p"
        using kids tree_of_child [of p _ lib] by (auto simp: child_of_def)
      then show ?thesis using 2(1) [OF Some r [symmetric] refl kids] 2(2) by (force simp: Some r kids Let_def)
    qed
  qed (use 2(2) in auto)
next
  case (4 lib n k ks w)
  then obtain w2 where "accumulate_tree lib n k w = Some w2" "accumulate_all lib n ks w2 = Some w1"
    by (auto simp: bind_eq_Some_conv)
  then show ?case using 4(1) 4(2) by (fastforce simp: bind_eq_Some_conv)
qed auto

text \<open>Sampling ends when no process is its own descendant, and afterwards the cache holds handles of the tree of
  the sampled process only: those of processes that have gone are dropped.\<close>

theorem sample_ends:
  assumes "ranked lib rank" "0 < pid" "rank (word_of_int pid) \<le> n"
  shows "\<exists>r hs'. sample lib n pid hs = Some (r, hs')
    \<and> (case r of None \<Rightarrow> hs' = hs \<and> pl_open lib (word_of_int pid) = None
       | Some t \<Rightarrow> fst ` set hs' \<subseteq> tree_of lib (word_of_int pid))"
proof -
  let ?root = "word_of_int pid :: 32 word"
  show ?thesis
  proof (cases "handle_for lib ?root hs")
    case None
    then show ?thesis using assms(2) by (auto simp: sample_def Let_def handle_for_def split: option.splits)
  next
    case (Some r)
    obtain h hs1 where r: "r = (h, hs1)" by (cases r)
    let ?w = "accumulate lib ?root h \<lparr>wk_handles = hs1, wk_cpu = pl_zero lib, wk_rss = 0, wk_seen = [?root]\<rparr>"
    have kept: "fst ` set (prune_except seen hs) \<subseteq> set seen" for seen and hs :: "(32 word \<times> 'a) list"
      by (auto simp: prune_except_def)
    show ?thesis
    proof (cases "pl_children lib ?root")
      case None
      have "set [?root] \<subseteq> tree_of lib ?root" by simp
      note subset_trans [OF kept this]
      then show ?thesis using assms(2) Some None by (simp add: sample_def r Let_def)
    next
      case kids: (Some kids)
      have "\<forall>k \<in> set kids. rank k < n" using kids assms by (force simp: ranked_def child_of_def)
      then obtain w1 where w1: "accumulate_all lib n kids ?w = Some w1" using walk_ends(2) [OF assms(1), of kids n ?w] by auto
      have "set (wk_seen w1) \<subseteq> tree_of lib ?root"
        using walk_seen(2) [OF w1] kids tree_of_child [of ?root _ lib] by (force simp: child_of_def)
      note subset_trans [OF kept this]
      then show ?thesis using assms(2) Some w1 kids by (simp add: sample_def r Let_def)
    qed
  qed
qed

text \<open>A shell with two children, one of which is gone in the next sample.\<close>

definition lib_ex :: "32 word list \<Rightarrow> (nat, nat) proc_lib" where
  "lib_ex kids = \<lparr>pl_open = (\<lambda>p. Some 0), pl_cpu = (\<lambda>h. (h + 1, Some h)), pl_rss = (\<lambda>h. Some 4),
     pl_children = (\<lambda>p. if p = 7 then Some kids else None), pl_plus = (+), pl_zero = 0\<rparr>"

theorem sample_ends_witness:
  "\<exists>r hs'. sample (lib_ex [8, 9]) 1 7 [(7, 3), (5, 2)] = Some (r, hs') \<and> fst ` set hs' \<subseteq> tree_of (lib_ex [8, 9]) 7
    \<and> r = Some (3, 12)"
proof -
  have "ranked (lib_ex [8, 9]) (\<lambda>p. if p = 7 then 1 else 0)"
    by (auto simp: ranked_def child_of_def lib_ex_def split: if_splits)
  moreover have "sample (lib_ex [8, 9]) 1 7 [(7, 3), (5, 2)] = Some (Some (3, 12), [(7, 4), (8, 1), (9, 1)])"
    by code_simp
  ultimately show ?thesis using sample_ends [of "lib_ex [8, 9]" "\<lambda>p. if p = 7 then 1 else 0" 7 1 "[(7, 3), (5, 2)]"] by simp
qed

lemma stale_handles_dropped:
  "map_option snd (sample (lib_ex [8]) 1 7 [(7, 4), (8, 1), (9, 1)]) = Some [(7, 5), (8, 2)]"
  by code_simp

end
