(* ===== verification/Tui.thy ===== *)
theory Tui
  imports Client Panel_Safety Attach_Grid Widgets Probes
begin

text \<open>
  The terminal interface, \<open>internal/tui\<close>: the root model (\<open>app.go\<close>), the routing of keys by mode (\<open>routing.go\<close>,
  \<open>attach_mouse.go\<close>) and the handlers of all messages (\<open>handlers.go\<close>, \<open>edit_config.go\<close>). A handler is a function of the
  model; the commands it returns are data, and what a command may answer later is a relation, so that the order in which
  answers arrive is arbitrary. \<open>None\<close> is a panic of the log pane or of a picker.
\<close>

section \<open>State\<close>

datatype mode =
    ModeNormal | ModeGroupPicker | ModeBranchPicker | ModeFilter | ModeAttach | ModeEmbeddedAttach
  | ModeHelp | ModeCommand | ModeLogFocus

definition mode_label :: "mode \<Rightarrow> string" where
  "mode_label md =
     (case md of
        ModeNormal \<Rightarrow> ''NORMAL'' | ModeGroupPicker \<Rightarrow> ''GROUP'' | ModeBranchPicker \<Rightarrow> ''BRANCH''
      | ModeFilter \<Rightarrow> ''FILTER'' | ModeAttach \<Rightarrow> ''ATTACH'' | ModeEmbeddedAttach \<Rightarrow> ''TERM''
      | ModeHelp \<Rightarrow> ''HELP'' | ModeCommand \<Rightarrow> ''COMMAND'' | ModeLogFocus \<Rightarrow> ''LOG'')"

datatype quit_reason = QuitNone | QuitDetach | QuitShutdown

definition dash :: bytes where "dash = utf8 0x2014"

definition quit_arm_window :: duration where "quit_arm_window = 2 * second"

text \<open>
  \<open>tu_resized\<close> and \<open>tu_forgot\<close> record the calls of \<open>Resize\<close> on the manager and of \<open>Forget\<close> on the sampler; the
  registry stands with the files of its logs. The CPU share is kept as it is printed.
\<close>

record ('em, 'ti) tui =
  tu_cfg :: config
  tu_cfg_path :: string
  tu_rt :: runtime_store
  tu_ui :: "filter_rx ui_store"
  tu_reg :: "registry \<times> files"
  tu_mode :: mode
  tu_width :: int
  tu_height :: int
  tu_detach_mode :: bool
  tu_quit_reason :: quit_reason
  tu_sidebar :: sidebar
  tu_panel :: log_panel
  tu_status :: status_bar
  tu_help :: bool
  tu_group :: group_picker
  tu_branch :: branch_picker
  tu_filter :: "'ti filter_input"
  tu_command :: "'ti command_input"
  tu_toasts :: toast_stack
  tu_snap :: "project_runtime list"
  tu_log_gen :: "64 word"
  tu_git :: "git_info gomap"
  tu_port :: "int gomap"
  tu_stats :: "(string \<times> 64 word) gomap"
  tu_pids :: "int gomap"
  tu_quit_armed :: time
  tu_esc_armed :: time
  tu_attach :: "'em session option"
  tu_att_sel :: grid_sel
  tu_resized :: "(string \<times> 16 word \<times> 16 word) list"
  tu_forgot :: "int list"

text \<open>The libraries, and what the calls of one step answer.\<close>

record ('em, 'st, 'ti) tui_env =
  te_vt :: "('em, 'st) vt_lib"
  te_ti :: "'ti text_lib"
  te_lower :: "bytes \<Rightarrow> bytes"
  te_rx_error :: "bytes \<Rightarrow> string option"
  te_compile :: "string \<Rightarrow> filter_rx option"
  te_render :: render_env
  te_faults :: faults

record answers =
  an_now :: time
  an_pty :: "string option"
  an_attach :: "string + bytes"
  an_subscribe :: "string \<Rightarrow> string option"
  an_reload :: reload_result
  an_load :: "string + config"
  an_expand :: "string \<Rightarrow> string + string"
  an_write_file :: "string option"
  an_editor :: "string list"

section \<open>Messages and commands\<close>

datatype tui_msg =
    WindowSize int int | KeyMsg key_msg | MouseMsg tea_mouse | RuntimeChanged "project_runtime list"
  | LogTick | ToastExpired | ShowToastMsg string int | StartGroupMsg string | FromOverlay overlay_msg
  | GitInfoMsg string git_info | PortInfoMsg string int | ProcStatsMsg string string "64 word" bool
  | StatusRefreshTick | AttachRequest string | AttachEnded | EmbeddedAttachRequest string
  | EmbeddedAttachStarted string | VTRefresh | EmbeddedAttachEnded string | DetachFlush
  | Copied nat nat | CopyFailed string | StateRefresh | BranchesLoaded "string list" | ConfigEdited "string option"
  | ConnLost | DaemonToast string int | ReloadResultMsg reload_result

datatype tui_cmd =
    CmdStart string | CmdRestart string | CmdStop string duration | CmdStopAll duration | CmdStartGroup string duration
  | CmdSend tui_msg | CmdOverlay overlay_msg
  | CmdCheckout string string | CmdBranches string | CmdFetch string | CmdPull string
  | CmdGitInfo string string | CmdPort string int | CmdStats string int
  | CmdWatchRuntime | CmdLogTick | CmdToastTick | CmdStatusTick | CmdFlushTick
  | CmdYank string | CmdRefreshVT | CmdWatchErr | CmdFullAttach string | CmdEditor "string list"
  | CmdQuit | CmdGracefulQuit duration

definition grace_of :: "('em, 'ti) tui \<Rightarrow> duration" where
  "grace_of m = duration_of_ms (shutdown_grace_ms (c_settings (tu_cfg m)))"

definition toast :: "answers \<Rightarrow> string \<Rightarrow> int \<Rightarrow> ('em, 'ti) tui \<Rightarrow> ('em, 'ti) tui" where
  "toast an msg level m = m\<lparr>tu_toasts := toast_add (an_now an) msg level (tu_toasts m)\<rparr>"

type_synonym ('em, 'ti) step = "(('em, 'ti) tui \<times> tui_cmd list) option"

abbreviation stay :: "('em, 'ti) tui \<Rightarrow> ('em, 'ti) step" where
  "stay m \<equiv> Some (m, [])"

definition on_panel :: "('em, 'st, 'ti) tui_env \<Rightarrow> panel_event \<Rightarrow> ('em, 'ti) tui \<Rightarrow> ('em, 'ti) step" where
  "on_panel env ev m =
     map_option (\<lambda>(lp, t). (m\<lparr>tu_panel := lp\<rparr>, case t of None \<Rightarrow> [] | Some s \<Rightarrow> [CmdYank s]))
       (panel_step (te_render env) ev (tu_panel m))"

section \<open>Selection and log pane\<close>

abbreviation selected :: "('em, 'ti) tui \<Rightarrow> string" where
  "selected m \<equiv> sb_selected (tu_sidebar m)"

definition sync_to_store :: "('em, 'ti) tui \<Rightarrow> ('em, 'ti) tui" where
  "sync_to_store m =
     (if selected m = [] then m
      else m\<lparr>tu_ui := set_selected_id (selected m) (tu_ui m), tu_status := (tu_status m)\<lparr>st_selected := selected m\<rparr>\<rparr>)"

definition sync_from_store :: "('em, 'ti) tui \<Rightarrow> ('em, 'ti) tui" where
  "sync_from_store m =
     (let i = us_selected_id (take_ui_snapshot (tu_ui m))
      in if i \<noteq> [] then m\<lparr>tu_sidebar := sb_set_selected i (tu_sidebar m)\<rparr>
         else if selected m \<noteq> [] then m\<lparr>tu_ui := set_selected_id (selected m) (tu_ui m)\<rparr>
         else m)"

definition rendered_line :: "line \<Rightarrow> bytes" where
  "rendered_line l = (if ln_rendered l = [] \<and> ln_bytes l \<noteq> [] then decode_for_render (ln_bytes l) else ln_rendered l)"

definition refresh_log_panel :: "('em, 'st, 'ti) tui_env \<Rightarrow> ('em, 'ti) tui \<Rightarrow> ('em, 'ti) step" where
  "refresh_log_panel env m =
     (if selected m = [] then stay m
      else
        (let (e, reg) = reg_get (te_faults env) (selected m) (tu_reg m);
             m1 = m\<lparr>tu_reg := reg\<rparr>; gen = ring_generation (en_ring e)
         in if gen = tu_log_gen m then stay m1
            else on_panel env (Lines (map rendered_line (ring_snapshot (en_ring e)))) (m1\<lparr>tu_log_gen := gen\<rparr>)))"

definition layout :: "('em, 'ti) tui \<Rightarrow> int \<times> int \<times> int" where
  "layout m =
     (let sw = sidebar_width (tu_width m) (keys_of (c_projects (tu_cfg m)))
      in (sw, tu_width m - sw, tu_height m - status_bar_height))"

definition handle_resize :: "('em, 'st, 'ti) tui_env \<Rightarrow> int \<Rightarrow> int \<Rightarrow> ('em, 'ti) tui \<Rightarrow> ('em, 'ti) step" where
  "handle_resize env w h m0 =
     (let m = m0\<lparr>tu_width := w, tu_height := h\<rparr>; (sw, lw, ch) = layout m
      in Option.bind (on_panel env (Resize lw ch) (m\<lparr>tu_sidebar := sb_set_size sw ch (tu_sidebar m)\<rparr>)) (\<lambda>(m1, _).
         Option.bind (on_panel env (Origin sw 0) m1) (\<lambda>(m2, _).
           let m3 = m2\<lparr>tu_status := (tu_status m2)\<lparr>st_width := w\<rparr>\<rparr>;
               m4 = (if selected m3 = [] then m3
                     else m3\<lparr>tu_resized := tu_resized m3 @ [(selected m3, word_of_int (max 40 (lw - 4)), word_of_int (max 10 (ch - 4)))]\<rparr>)
           in case (tu_mode m4, tu_attach m4) of
                (ModeEmbeddedAttach, Some s) \<Rightarrow>
                  (let cols = word_of_int (max 20 lw) :: 16 word; rows = word_of_int (max 5 ch) :: 16 word
                   in stay (m4\<lparr>tu_resized := tu_resized m4 @ [(ss_project s, cols, rows)],
                        tu_attach := Some (session_resize (te_vt env) (uint cols) (uint rows) s)\<rparr>))
              | _ \<Rightarrow> stay m4)))"

definition handle_runtime_changed :: "project_runtime list \<Rightarrow> ('em, 'ti) tui \<Rightarrow> ('em, 'ti) step" where
  "handle_runtime_changed snap m =
     Some (sync_from_store (m\<lparr>tu_snap := snap, tu_sidebar := sb_set_rows snap (tu_sidebar m),
             tu_rt := snd (rs_subscribe (tu_rt m))\<rparr>), [CmdWatchRuntime])"

section \<open>Quitting\<close>

definition handle_quit_request :: "quit_reason \<Rightarrow> ('em, 'ti) tui \<Rightarrow> ('em, 'ti) step" where
  "handle_quit_request why m =
     Some (m\<lparr>tu_quit_reason := why\<rparr>, [if tu_detach_mode m then CmdQuit else CmdGracefulQuit (grace_of m)])"

definition handle_ctrl_c :: "answers \<Rightarrow> ('em, 'ti) tui \<Rightarrow> ('em, 'ti) step" where
  "handle_ctrl_c an m =
     (if \<not> is_zero_time (tu_quit_armed m) \<and> an_now an - tu_quit_armed m \<le> quit_arm_window
      then handle_quit_request QuitDetach m
      else stay (m\<lparr>tu_quit_armed := an_now an,
             tu_toasts := toast_add_ttl (an_now an) ''Press Ctrl+C again to quit'' toast_warn quit_arm_window (tu_toasts m)\<rparr>))"

section \<open>Attaching\<close>

definition running :: "string \<Rightarrow> ('em, 'ti) tui \<Rightarrow> bool" where
  "running i m \<longleftrightarrow> list_ex (\<lambda>r. pr_id r = i \<and> pr_state r = ''running'') (rs_snapshot (tu_rt m))"

definition handle_attach_request :: "answers \<Rightarrow> string \<Rightarrow> ('em, 'ti) tui \<Rightarrow> ('em, 'ti) step" where
  "handle_attach_request an i m =
     (if \<not> running i m then stay (toast an ''attach: process not running'' toast_err m)
      else Some (m\<lparr>tu_mode := ModeAttach\<rparr>, [CmdFullAttach i]))"

definition attach_error_text :: "attach_error \<Rightarrow> string" where
  "attach_error_text e =
     (case e of NilPtmx \<Rightarrow> ''attach: nil ptmx'' | NilSubscribe \<Rightarrow> ''attach: nil subscribe'' | SubscribeFailed s \<Rightarrow> s)"

definition handle_embedded_attach_request ::
  "('em, 'st, 'ti) tui_env \<Rightarrow> answers \<Rightarrow> string \<Rightarrow> ('em, 'ti) tui \<Rightarrow> ('em, 'ti) step" where
  "handle_embedded_attach_request env an i m =
     (if \<not> running i m then stay (toast an ''attach: process not running'' toast_err m)
      else if tu_attach m \<noteq> None then stay (toast an (''attach: already attached '' @ dash @ '' detach first'') toast_warn m)
      else
        (case an_attach an of
           Inl e \<Rightarrow> stay (toast an (''attach: '' @ e) toast_err m)
         | Inr ptmx \<Rightarrow>
             (let (sw, lw, ch) = layout m; cols = max 20 lw; rows = max 5 ch;
                  m1 = m\<lparr>tu_resized := tu_resized m @ [(i, word_of_int cols, word_of_int rows)]\<rparr>
              in case new_session (te_vt env) i (Some ptmx) cols rows (Some (an_subscribe an)) of
                   Inl e \<Rightarrow> stay (toast an (''attach: '' @ attach_error_text e) toast_err m1)
                 | Inr s \<Rightarrow>
                     Some (m1\<lparr>tu_attach := Some s, tu_mode := ModeEmbeddedAttach\<rparr>, [CmdSend (EmbeddedAttachStarted i)]))))"

text \<open>The child no longer sees the session after \<open>Close\<close>; the session is dropped.\<close>

definition handle_embedded_attach_end ::
  "('em, 'st, 'ti) tui_env \<Rightarrow> answers \<Rightarrow> string \<Rightarrow> ('em, 'ti) tui \<Rightarrow> ('em, 'ti) step" where
  "handle_embedded_attach_end env an why m =
     (let r = trim_space why; why1 = (if r = [] then ''detached'' else r);
          level = (if sublist ''fail'' why1 \<or> sublist ''error'' why1 then toast_err else toast_info)
      in refresh_log_panel env (toast an why1 level (m\<lparr>tu_attach := None, tu_mode := ModeNormal\<rparr>)))"

definition attach_step ::
  "attach_cmd \<times> 'em session \<Rightarrow> ('em, 'ti) tui \<Rightarrow> ('em, 'ti) step" where
  "attach_step r m =
     (let (c, s) = r
      in Some (m\<lparr>tu_attach := Some s\<rparr>,
           case c of NoCmd \<Rightarrow> [] | FlushTick \<Rightarrow> [CmdFlushTick] | EndSession why \<Rightarrow> [CmdSend (EmbeddedAttachEnded why)]))"

definition handle_detach_flush :: "answers \<Rightarrow> ('em, 'ti) tui \<Rightarrow> ('em, 'ti) step" where
  "handle_detach_flush an m =
     (case tu_attach m of
        None \<Rightarrow> stay m
      | Some s \<Rightarrow> attach_step (detach_flush (an_pty an) (an_now an) s) m)"

definition route_embedded_attach ::
  "('em, 'st, 'ti) tui_env \<Rightarrow> answers \<Rightarrow> key_msg \<Rightarrow> ('em, 'ti) tui \<Rightarrow> ('em, 'ti) step" where
  "route_embedded_attach env an k m =
     (case tu_attach m of
        None \<Rightarrow> stay (m\<lparr>tu_mode := ModeNormal\<rparr>)
      | Some s \<Rightarrow> attach_step (attach_key (te_vt env) (an_pty an) (an_now an) k s) m)"

section \<open>The mouse in the attach pane\<close>

definition attach_cell_at :: "int \<Rightarrow> int \<Rightarrow> int \<Rightarrow> int \<Rightarrow> int \<Rightarrow> gcell option" where
  "attach_cell_at ax ay ox pw ph =
     (let x = ax - ox; y = ay in if x < 0 \<or> y < 0 \<or> x \<ge> pw \<or> y \<ge> ph then None else Some (GCell x y))"

definition clamp_int :: "int \<Rightarrow> int \<Rightarrow> int \<Rightarrow> int" where
  "clamp_int v lo hi = (if v < lo then lo else if v > hi then hi else v)"

definition attach_clamp_cell :: "int \<Rightarrow> int \<Rightarrow> int \<Rightarrow> int \<Rightarrow> int \<Rightarrow> gcell" where
  "attach_clamp_cell ax ay ox pw ph = GCell (clamp_int (ax - ox) 0 (pw - 1)) (clamp_int ay 0 (ph - 1))"

definition is_wheel :: "tea_button \<Rightarrow> bool" where
  "is_wheel b \<longleftrightarrow> b \<in> {TeaWheelUp, TeaWheelDown, TeaWheelLeft, TeaWheelRight}"

definition route_attach_mouse ::
  "('em, 'st, 'ti) tui_env \<Rightarrow> answers \<Rightarrow> tea_mouse \<Rightarrow> ('em, 'ti) tui \<Rightarrow> ('em, 'ti) step" where
  "route_attach_mouse env an mv m =
     (case tu_attach m of
        None \<Rightarrow> stay m
      | Some s \<Rightarrow>
          (let (ox, pw, ph) = layout m; cell = attach_cell_at (tm_x mv) (tm_y mv) ox pw ph; sel = tu_att_sel m
           in if mouse_tracking (ss_term s) then
                (let m1 = (if gs_active sel then m\<lparr>tu_att_sel := no_grid_sel\<rparr> else m)
                 in case (cell, msg_to_mouse mv ox 0) of
                      (Some c, Some ev) \<Rightarrow> stay (m1\<lparr>tu_attach := Some (send_mouse (te_vt env) ev s)\<rparr>)
                    | _ \<Rightarrow> stay m1)
              else if is_wheel (tm_button mv) then stay m
              else
                (case tm_action mv of
                   TeaPress \<Rightarrow>
                     (case cell of
                        Some c \<Rightarrow>
                          (if tm_button mv = TeaLeft
                           then stay (m\<lparr>tu_att_sel := \<lparr>gs_anchor = c, gs_cursor = c, gs_active = True\<rparr>\<rparr>) else stay m)
                      | None \<Rightarrow> stay m)
                 | TeaMotion \<Rightarrow>
                     (if gs_active sel
                      then stay (m\<lparr>tu_att_sel := sel\<lparr>gs_cursor := attach_clamp_cell (tm_x mv) (tm_y mv) ox pw ph\<rparr>\<rparr>)
                      else stay m)
                 | TeaRelease \<Rightarrow>
                     (if \<not> gs_active sel then stay m
                      else
                        (let m1 = m\<lparr>tu_att_sel := no_grid_sel\<rparr>; t = selection_text (te_vt env) (vt_em (ss_term s)) sel
                         in if gs_anchor sel = gs_cursor sel \<or> t = [] then stay m1 else Some (m1, [CmdYank t])))
                 | TeaNoAction \<Rightarrow> stay m)))"

definition panel_mouse :: "tea_mouse \<Rightarrow> panel_event option" where
  "panel_mouse mv =
     (let b = (case tm_button mv of
                 TeaLeft \<Rightarrow> MouseLeft | TeaWheelUp \<Rightarrow> MouseWheel WheelUp | TeaWheelDown \<Rightarrow> MouseWheel WheelDown
               | TeaWheelLeft \<Rightarrow> MouseWheel OtherButton | TeaWheelRight \<Rightarrow> MouseWheel OtherButton | _ \<Rightarrow> MouseOther)
      in case tm_action mv of
           TeaPress \<Rightarrow> Some (Mouse MousePress b (tm_x mv) (tm_y mv))
         | TeaMotion \<Rightarrow> Some (Mouse MouseMotion b (tm_x mv) (tm_y mv))
         | TeaRelease \<Rightarrow> Some (Mouse MouseRelease b (tm_x mv) (tm_y mv))
         | TeaNoAction \<Rightarrow> (if is_wheel (tm_button mv) then Some (Mouse MouseMotion b (tm_x mv) (tm_y mv)) else None))"

section \<open>Handlers of the selected project\<close>

definition handle_quick_jump :: "('em, 'st, 'ti) tui_env \<Rightarrow> int \<Rightarrow> ('em, 'ti) tui \<Rightarrow> ('em, 'ti) step" where
  "handle_quick_jump env n m =
     (if n < 1 \<or> n - 1 \<ge> int (length (sb_rows (tu_sidebar m))) then stay m
      else refresh_log_panel env (sync_to_store (m\<lparr>tu_sidebar := sb_set_cursor (n - 1) (tu_sidebar m)\<rparr>)))"

text \<open>The jump of the pane for this mode, with what it reports: found, and wrapped around.\<close>

definition match_jump :: "('em, 'st, 'ti) tui_env \<Rightarrow> bool \<Rightarrow> ('em, 'ti) tui \<Rightarrow> (log_panel \<times> bool \<times> bool) option" where
  "match_jump env fwd m =
     (let r = (if fwd then jump_next (te_render env) (tu_panel m) else jump_prev (te_render env) (tu_panel m))
      in if tu_mode m = ModeLogFocus then jump_cursor (te_render env) r else r)"

definition handle_jump_match ::
  "('em, 'st, 'ti) tui_env \<Rightarrow> answers \<Rightarrow> bool \<Rightarrow> ('em, 'ti) tui \<Rightarrow> ('em, 'ti) step" where
  "handle_jump_match env an fwd m =
     (if us_filter_regex (take_ui_snapshot (tu_ui m)) = None
      then stay (toast an (''no filter '' @ dash @ '' press / to search'') toast_info m)
      else
        map_option (\<lambda>(lp, found, wrapped).
            let m1 = m\<lparr>tu_panel := lp\<rparr>
            in (if \<not> found then toast an ''no matches'' toast_warn m1
                else if wrapped then toast an ''search wrapped'' toast_info m1 else m1, []))
          (match_jump env fwd m))"

definition project_dir :: "string \<Rightarrow> ('em, 'ti) tui \<Rightarrow> string option" where
  "project_dir i m = map_option p_path (map_of (c_projects (tu_cfg m)) i)"

definition quoted :: "string \<Rightarrow> string" where
  "quoted s = [CHR 0x22] @ s @ [CHR 0x22]"

definition with_project :: "answers \<Rightarrow> string \<Rightarrow> (string \<Rightarrow> tui_cmd) \<Rightarrow> ('em, 'ti) tui \<Rightarrow> ('em, 'ti) step" where
  "with_project an what f m =
     (if selected m = [] then stay (toast an (what @ '': no project selected'') toast_err m)
      else (case project_dir (selected m) m of
              None \<Rightarrow> stay (toast an (what @ '': unknown project '' @ quoted (selected m)) toast_err m)
            | Some dir \<Rightarrow> Some (m, [f dir])))"

definition handle_checkout_branch :: "answers \<Rightarrow> string \<Rightarrow> ('em, 'ti) tui \<Rightarrow> ('em, 'ti) step" where
  "handle_checkout_branch an b m = with_project an ''checkout'' (\<lambda>dir. CmdCheckout dir b) m"

definition handle_git_fetch :: "answers \<Rightarrow> ('em, 'ti) tui \<Rightarrow> ('em, 'ti) step" where
  "handle_git_fetch an m = with_project an ''fetch'' CmdFetch m"

definition handle_git_pull :: "answers \<Rightarrow> ('em, 'ti) tui \<Rightarrow> ('em, 'ti) step" where
  "handle_git_pull an m = with_project an ''pull'' CmdPull m"

definition handle_branch_picker_open :: "('em, 'ti) tui \<Rightarrow> ('em, 'ti) step" where
  "handle_branch_picker_open m =
     (if selected m = [] then stay m
      else (case project_dir (selected m) m of
              None \<Rightarrow> stay m
            | Some dir \<Rightarrow> Some (m\<lparr>tu_mode := ModeBranchPicker\<rparr>, [CmdBranches dir])))"

definition handle_status_refresh :: "('em, 'ti) tui \<Rightarrow> ('em, 'ti) step" where
  "handle_status_refresh m =
     (case (if selected m = [] then None else project_dir (selected m) m) of
        None \<Rightarrow> Some (m, [CmdStatusTick])
      | Some dir \<Rightarrow>
          (let i = selected m;
               pid = (case find (\<lambda>r. pr_id r = i) (tu_snap m) of None \<Rightarrow> 0 | Some r \<Rightarrow> pr_pid r);
               m1 = (if pid > 0 then
                       (let m0 = (case map_of (tu_pids m) i of
                                    Some prev \<Rightarrow> (if prev \<noteq> pid
                                       then m\<lparr>tu_forgot := tu_forgot m @ [prev], tu_stats := AList.delete i (tu_stats m)\<rparr> else m)
                                  | None \<Rightarrow> m)
                        in m0\<lparr>tu_pids := AList.update i pid (tu_pids m0)\<rparr>)
                     else if pid = 0 then m\<lparr>tu_stats := AList.delete i (tu_stats m)\<rparr> else m)
           in Some (m1, [CmdGitInfo i dir] @ (if pid > 0 then [CmdPort i pid, CmdStats i pid] else []) @ [CmdStatusTick])))"

definition handle_clear_buffer :: "('em, 'st, 'ti) tui_env \<Rightarrow> answers \<Rightarrow> ('em, 'ti) tui \<Rightarrow> ('em, 'ti) step" where
  "handle_clear_buffer env an m =
     (if selected m = [] then stay (toast an ''clear: no project selected'' toast_err m)
      else map_option (\<lambda>(m1, c). (toast an (''cleared log buffer: '' @ selected m) toast_info m1, c))
             (refresh_log_panel env (m\<lparr>tu_reg := (clear_buffer (selected m) (fst (tu_reg m)), snd (tu_reg m))\<rparr>)))"

section \<open>Commands\<close>

text \<open>\<open>strings.Cut\<close> at a blank.\<close>

definition cut_blank :: "bytes \<Rightarrow> (bytes \<times> bytes) option" where
  "cut_blank s =
     (if CHR '' '' \<in> set s then Some (takeWhile (\<lambda>c. c \<noteq> CHR '' '') s, tl (dropWhile (\<lambda>c. c \<noteq> CHR '' '') s)) else None)"

definition first_line :: "bytes \<Rightarrow> bytes" where
  "first_line s =
     (case find (\<lambda>l. trim_space l \<noteq> []) (split_on (CHR 0x0A) [] s) of None \<Rightarrow> [] | Some l \<Rightarrow> trim_space l)"

definition reload_summary :: "reload_result \<Rightarrow> string" where
  "reload_summary r =
     (if rr_added r = [] \<and> rr_removed r = [] \<and> rr_changed r = [] then ''config reloaded (no changes)''
      else ''reloaded: '' @ join_with '', ''
        ((if rr_added r \<noteq> [] then [''+'' @ show_nat (length (rr_added r)) @ '' added''] else [])
         @ (if rr_removed r \<noteq> [] then [''-'' @ show_nat (length (rr_removed r)) @ '' removed''] else [])
         @ (if rr_changed r \<noteq> [] then [''~'' @ show_nat (length (rr_changed r)) @ '' changed (restart to apply)''] else [])))"

definition reload_level :: "reload_result \<Rightarrow> int" where
  "reload_level r = (if rr_changed r \<noteq> [] then toast_warn else toast_info)"

definition apply_reload_result :: "answers \<Rightarrow> reload_result \<Rightarrow> ('em, 'ti) tui \<Rightarrow> ('em, 'ti) tui" where
  "apply_reload_result an r m =
     (let m1 = (if rr_added r \<noteq> [] then m\<lparr>tu_rt := rs_seed (rr_added r) (tu_rt m)\<rparr> else m);
          m2 = (if rr_removed r \<noteq> [] then m1\<lparr>tu_rt := rs_delete (rr_removed r) (tu_rt m1)\<rparr> else m1)
      in toast an (reload_summary r) (reload_level r) m2)"

definition handle_reload_result :: "answers \<Rightarrow> reload_result \<Rightarrow> ('em, 'ti) tui \<Rightarrow> ('em, 'ti) step" where
  "handle_reload_result an r m = stay (apply_reload_result an r m)"

definition reload_config :: "answers \<Rightarrow> ('em, 'ti) tui \<Rightarrow> ('em, 'ti) step" where
  "reload_config an m =
     (if tu_cfg_path m = [] then stay (toast an ''reload: no config path'' toast_err m)
      else
        (case an_load an of
           Inl e \<Rightarrow> stay (toast an (''config error: '' @ e) toast_err m)
         | Inr cfg \<Rightarrow>
             (let m1 = m\<lparr>tu_cfg := cfg\<rparr>
              in if tu_detach_mode m then stay m1 else stay (apply_reload_result an (an_reload an) m1))))"

definition handle_edit_config :: "answers \<Rightarrow> ('em, 'ti) tui \<Rightarrow> ('em, 'ti) step" where
  "handle_edit_config an m =
     (if tu_cfg_path m = [] then stay (toast an ''edit: no config path resolved'' toast_err m)
      else if an_editor an = [] then
        stay (toast an (''edit: set $VISUAL or $EDITOR (e.g. '' @ [CHR 0x27] @ ''export EDITOR=vim'' @ [CHR 0x27] @ '')'') toast_err m)
      else Some (m, [CmdEditor (an_editor an @ [tu_cfg_path m])]))"

text \<open>\<open>pickEditor\<close>: the editor's command line from the environment, or \<open>vi\<close> when it is installed.\<close>

definition pick_editor :: "(string \<Rightarrow> string option) \<Rightarrow> bool \<Rightarrow> string list" where
  "pick_editor env vi =
     (case find (\<lambda>v. trim_space (getenv env v) \<noteq> []) [''VISUAL'', ''EDITOR''] of
        Some v \<Rightarrow> words_of (trim_space (getenv env v))
      | None \<Rightarrow> if vi then [''vi''] else [])"

definition handle_config_edited :: "answers \<Rightarrow> string option \<Rightarrow> ('em, 'ti) tui \<Rightarrow> ('em, 'ti) step" where
  "handle_config_edited an err m =
     (case err of
        Some e \<Rightarrow> stay (toast an (''edit cancelled: '' @ e) toast_err m)
      | None \<Rightarrow> reload_config an m)"

definition dump_text :: "string list \<Rightarrow> bytes" where
  "dump_text lines = join_with [CHR 0x0A] (map strip_ansi lines) @ (if lines = [] then [] else [CHR 0x0A])"

definition handle_write_buffer :: "answers \<Rightarrow> string \<Rightarrow> ('em, 'ti) tui \<Rightarrow> ('em, 'ti) step" where
  "handle_write_buffer an raw m =
     (let p = trim_space raw
      in if p = [] then stay (toast an ''w: missing path'' toast_err m)
         else
           (case an_expand an p of
              Inl e \<Rightarrow> stay (toast an (''w: '' @ e) toast_err m)
            | Inr path \<Rightarrow>
                (case an_write_file an of
                   Some e \<Rightarrow> stay (toast an (''w: '' @ e) toast_err m)
                 | None \<Rightarrow> stay (toast an (''wrote '' @ show_nat (length (lp_raw (tu_panel m))) @ '' lines '' @ utf8 0x2192 @ '' '' @ path)
                             toast_info m))))"

definition dispatch_command :: "('em, 'st, 'ti) tui_env \<Rightarrow> answers \<Rightarrow> string \<Rightarrow> ('em, 'ti) tui \<Rightarrow> ('em, 'ti) step" where
  "dispatch_command env an txt m =
     (let name = join_with '' '' (words_of txt)
      in if name = [] then stay m
         else if name \<in> {''q'', ''quit''} then handle_quit_request QuitDetach m
         else if name = ''detach'' then
           (if \<not> tu_detach_mode m then stay (toast an ''detach: not running in daemon mode'' toast_warn m)
            else handle_quit_request QuitDetach m)
         else if name = ''shutdown'' then handle_quit_request QuitShutdown m
         else if name \<in> {''set nu'', ''set number''} then on_panel env (GutterTo True) m
         else if name \<in> {''set nonu'', ''set nonumber''} then on_panel env (GutterTo False) m
         else if name \<in> {''set severity'', ''set sev''} then on_panel env (SeverityTo True) m
         else if name \<in> {''set nosev'', ''set noseverity''} then on_panel env (SeverityTo False) m
         else if name = ''set json'' then on_panel env (JsonTo True) m
         else if name = ''set nojson'' then on_panel env (JsonTo False) m
         else if name = ''set wrap'' then on_panel env (WrapTo True) m
         else if name = ''set nowrap'' then on_panel env (WrapTo False) m
         else if name = ''set sql'' then on_panel env (SqlTo True) m
         else if name = ''set nosql'' then on_panel env (SqlTo False) m
         else if name \<in> {''clear'', ''c''} then handle_clear_buffer env an m
         else if name = ''fetch'' then handle_git_fetch an m
         else if name = ''pull'' then handle_git_pull an m
         else if name \<in> {''edit'', ''e''} then handle_edit_config an m
         else if name = ''reload'' then reload_config an m
         else
           (case cut_blank name of
              Some (head, rest) \<Rightarrow>
                (if head \<in> {''w'', ''write''} then handle_write_buffer an rest m
                 else stay (toast an (''unknown command: '' @ name) toast_err m))
            | None \<Rightarrow> stay (toast an (''unknown command: '' @ name) toast_err m)))"

section \<open>Key bindings\<close>

text \<open>
  \<open>DefaultKeyMap\<close>; the digits are nine bindings in the source, which \<open>KbQuickJump\<close> stands for, and the last five
  exist for the help only.
\<close>

datatype binding =
    KbUp | KbDown | KbStart | KbRestart | KbStop | KbAttach | KbGroupPicker
  | KbBranchPicker | KbGitFetch | KbGitPull | KbStopAll | KbFilter | KbNextMatch | KbPrevMatch
  | KbPageUp | KbPageDown | KbTop | KbBottom | KbClearLog | KbEditConfig | KbHelp
  | KbCommand | KbQuit | KbEsc | KbEnter | KbQuickJump | KbCopyEnter | KbCopyMotion
  | KbCopyVisual | KbCopyYank | KbMouseSelect | KbAttachPaste

fun default_keys :: "binding \<Rightarrow> string list" where
  "default_keys KbUp = [''k'']"
| "default_keys KbDown = [''j'']"
| "default_keys KbStart = [''s'']"
| "default_keys KbRestart = [''r'']"
| "default_keys KbStop = [''x'']"
| "default_keys KbAttach = [''a'']"
| "default_keys KbGroupPicker = [''S'']"
| "default_keys KbBranchPicker = [''c'', ''b'']"
| "default_keys KbGitFetch = [''f'']"
| "default_keys KbGitPull = [''p'']"
| "default_keys KbStopAll = [''X'']"
| "default_keys KbFilter = [''/'']"
| "default_keys KbNextMatch = [''n'']"
| "default_keys KbPrevMatch = [''N'']"
| "default_keys KbPageUp = [''pgup'', ''ctrl+b'']"
| "default_keys KbPageDown = [''pgdown'', ''ctrl+f'']"
| "default_keys KbTop = [''g'']"
| "default_keys KbBottom = [''G'']"
| "default_keys KbClearLog = [''ctrl+l'']"
| "default_keys KbEditConfig = [''ctrl+e'']"
| "default_keys KbHelp = [''?'']"
| "default_keys KbCommand = ['':'']"
| "default_keys KbQuit = [''ctrl+c'']"
| "default_keys KbEsc = [''esc'']"
| "default_keys KbEnter = [''enter'']"
| "default_keys KbQuickJump = [''1'', ''2'', ''3'', ''4'', ''5'', ''6'', ''7'', ''8'', ''9'']"
| "default_keys KbCopyEnter = [''tab'']"
| "default_keys KbCopyMotion = [''hjkl'']"
| "default_keys KbCopyVisual = [''v'']"
| "default_keys KbCopyYank = [''y'']"
| "default_keys KbMouseSelect = [''mouse'']"
| "default_keys KbAttachPaste = [''paste'']"

definition full_help :: "binding list list" where
  "full_help = [[KbUp, KbDown, KbQuickJump], [KbStart, KbRestart, KbStop, KbAttach],
     [KbGroupPicker, KbBranchPicker, KbGitFetch, KbGitPull, KbStopAll],
     [KbFilter, KbNextMatch, KbPrevMatch, KbPageUp, KbPageDown, KbTop, KbBottom, KbClearLog, KbEditConfig],
     [KbCopyEnter, KbCopyMotion, KbCopyVisual, KbCopyYank], [KbMouseSelect, KbAttachPaste],
     [KbHelp, KbCommand, KbQuit, KbEsc]]"

abbreviation pressed :: "binding \<Rightarrow> key_msg \<Rightarrow> bool" where
  "pressed b k \<equiv> matches (default_keys b) k"

section \<open>Keys\<close>

definition move_selection :: "('em, 'st, 'ti) tui_env \<Rightarrow> (sidebar \<Rightarrow> sidebar) \<Rightarrow> ('em, 'ti) tui \<Rightarrow> ('em, 'ti) step" where
  "move_selection env f m = refresh_log_panel env (sync_to_store (m\<lparr>tu_sidebar := f (tu_sidebar m)\<rparr>))"

definition on_selected :: "(string \<Rightarrow> tui_cmd) \<Rightarrow> ('em, 'ti) tui \<Rightarrow> ('em, 'ti) step" where
  "on_selected f m = (if selected m = [] then stay m else Some (m, [f (selected m)]))"

definition digit_key :: "key_msg \<Rightarrow> int option" where
  "digit_key k =
     (case km_name k of
        [c] \<Rightarrow> if [c] \<in> set (default_keys KbQuickJump) then Some (int (of_char c) - 48) else None
      | _ \<Rightarrow> None)"

definition route_normal :: "('em, 'st, 'ti) tui_env \<Rightarrow> answers \<Rightarrow> key_msg \<Rightarrow> ('em, 'ti) tui \<Rightarrow> ('em, 'ti) step" where
  "route_normal env an k m =
     (if pressed KbCommand k then
        stay (m\<lparr>tu_mode := ModeCommand, tu_command := ci_show (te_ti env) (tu_command m)\<rparr>)
      else if pressed KbHelp k then stay (m\<lparr>tu_mode := ModeHelp, tu_help := True\<rparr>)
      else if pressed KbFilter k then
        stay (m\<lparr>tu_mode := ModeFilter, tu_filter := fi_show (te_ti env)
               (fi_set_value (te_ti env) (us_filter_text (take_ui_snapshot (tu_ui m))) (tu_filter m))\<rparr>)
      else if pressed KbGroupPicker k then stay (m\<lparr>tu_mode := ModeGroupPicker, tu_group := gp_show (tu_group m)\<rparr>)
      else if pressed KbBranchPicker k then handle_branch_picker_open m
      else if pressed KbGitFetch k then handle_git_fetch an m
      else if pressed KbGitPull k then handle_git_pull an m
      else if pressed KbNextMatch k then handle_jump_match env an True m
      else if pressed KbPrevMatch k then handle_jump_match env an False m
      else if pressed KbUp k then move_selection env sb_up m
      else if pressed KbDown k then move_selection env sb_down m
      else if pressed KbStart k then on_selected CmdStart m
      else if pressed KbRestart k then on_selected CmdRestart m
      else if pressed KbStop k then on_selected (\<lambda>i. CmdStop i (grace_of m)) m
      else if pressed KbAttach k then on_selected (\<lambda>i. CmdSend (EmbeddedAttachRequest i)) m
      else if pressed KbClearLog k then handle_clear_buffer env an m
      else if pressed KbEditConfig k then handle_edit_config an m
      else if pressed KbStopAll k then Some (m, [CmdStopAll (grace_of m)])
      else if pressed KbPageUp k \<or> pressed KbPageDown k \<or> pressed KbTop k \<or> pressed KbBottom k
              \<or> km_name k = ''up'' \<or> km_name k = ''down'' then
        on_panel env (ScrollKey (km_name k)) m
      else if pressed KbCopyEnter k then
        on_panel env (CopyMode True) (m\<lparr>tu_mode := ModeLogFocus\<rparr>)
      else (case digit_key k of Some n \<Rightarrow> handle_quick_jump env n m | None \<Rightarrow> stay m))"

definition route_help :: "key_msg \<Rightarrow> ('em, 'ti) tui \<Rightarrow> ('em, 'ti) step" where
  "route_help k m =
     (if pressed KbHelp k \<or> pressed KbEsc k \<or> pressed KbQuit k then stay (m\<lparr>tu_mode := ModeNormal, tu_help := False\<rparr>) else stay m)"

definition overlay_cmd :: "overlay_msg option \<Rightarrow> tui_cmd list" where
  "overlay_cmd r = (case r of None \<Rightarrow> [] | Some msg \<Rightarrow> [CmdOverlay msg])"

definition leave_if :: "bool \<Rightarrow> ('em, 'ti) tui \<Rightarrow> ('em, 'ti) tui" where
  "leave_if closed m = (if closed then m\<lparr>tu_mode := ModeNormal\<rparr> else m)"

definition route_group_picker :: "key_msg \<Rightarrow> ('em, 'ti) tui \<Rightarrow> ('em, 'ti) step" where
  "route_group_picker k m =
     (if pressed KbEsc k then stay (m\<lparr>tu_mode := ModeNormal, tu_group := gp_hide (tu_group m)\<rparr>)
      else map_option (\<lambda>(gp, r). (leave_if (\<not> gp_visible gp) (m\<lparr>tu_group := gp\<rparr>), overlay_cmd r)) (gp_update k (tu_group m)))"

definition route_branch_picker :: "('em, 'st, 'ti) tui_env \<Rightarrow> key_msg \<Rightarrow> ('em, 'ti) tui \<Rightarrow> ('em, 'ti) step" where
  "route_branch_picker env k m =
     map_option (\<lambda>(bp, r). (leave_if (\<not> bp_visible bp) (m\<lparr>tu_branch := bp\<rparr>), overlay_cmd r))
       (bp_update (te_lower env) k (tu_branch m))"

definition route_filter :: "('em, 'st, 'ti) tui_env \<Rightarrow> key_msg \<Rightarrow> ('em, 'ti) tui \<Rightarrow> ('em, 'ti) step" where
  "route_filter env k m =
     (let (fi, r) = fi_update (te_ti env) (te_rx_error env) k (tu_filter m)
      in Some (leave_if (\<not> fi_visible fi) (m\<lparr>tu_filter := fi\<rparr>), overlay_cmd r))"

definition route_command :: "('em, 'st, 'ti) tui_env \<Rightarrow> key_msg \<Rightarrow> ('em, 'ti) tui \<Rightarrow> ('em, 'ti) step" where
  "route_command env k m =
     (let (ci, r) = ci_update (te_ti env) k (tu_command m)
      in Some (leave_if (\<not> ci_visible ci) (m\<lparr>tu_command := ci\<rparr>), overlay_cmd r))"

definition disarm_esc :: "('em, 'ti) tui \<Rightarrow> ('em, 'ti) tui" where
  "disarm_esc m = m\<lparr>tu_esc_armed := zero_time\<rparr>"

definition route_log_focus :: "('em, 'st, 'ti) tui_env \<Rightarrow> answers \<Rightarrow> key_msg \<Rightarrow> ('em, 'ti) tui \<Rightarrow> ('em, 'ti) step" where
  "route_log_focus env an k m =
     (if pressed KbEsc k then
        (if snd (clear_pending (tu_panel m)) then on_panel env EscapeKey (disarm_esc m)
         else if has_selection (tu_panel m) then on_panel env Unselect (disarm_esc m)
         else if \<not> is_zero_time (tu_esc_armed m) \<and> an_now an - tu_esc_armed m \<le> quit_arm_window then
           on_panel env (CopyMode False) (disarm_esc (m\<lparr>tu_mode := ModeNormal\<rparr>))
         else stay (m\<lparr>tu_esc_armed := an_now an, tu_toasts := toast_add_ttl (an_now an) ''Press Esc again to exit log focus''
                toast_warn quit_arm_window (tu_toasts m)\<rparr>))
      else if km_name k \<in> {'' '', ''space''} then on_panel env PauseKey (disarm_esc m)
      else if pressed KbNextMatch k then handle_jump_match env an True (disarm_esc m)
      else if pressed KbPrevMatch k then handle_jump_match env an False (disarm_esc m)
      else on_panel env (CopyKey (km_name k)) (disarm_esc m))"

definition route_key :: "('em, 'st, 'ti) tui_env \<Rightarrow> answers \<Rightarrow> key_msg \<Rightarrow> ('em, 'ti) tui \<Rightarrow> ('em, 'ti) step" where
  "route_key env an k m0 =
     (if km_name k = ''ctrl+c'' \<and> tu_mode m0 \<noteq> ModeEmbeddedAttach then handle_ctrl_c an m0
      else
        (let m = m0\<lparr>tu_quit_armed := zero_time\<rparr>
         in case tu_mode m of
              ModeNormal \<Rightarrow> route_normal env an k m
            | ModeHelp \<Rightarrow> route_help k m
            | ModeGroupPicker \<Rightarrow> route_group_picker k m
            | ModeBranchPicker \<Rightarrow> route_branch_picker env k m
            | ModeFilter \<Rightarrow> route_filter env k m
            | ModeCommand \<Rightarrow> route_command env k m
            | ModeAttach \<Rightarrow> stay (if pressed KbEsc k then m\<lparr>tu_mode := ModeNormal\<rparr> else m)
            | ModeEmbeddedAttach \<Rightarrow> route_embedded_attach env an k m
            | ModeLogFocus \<Rightarrow> route_log_focus env an k m))"

section \<open>Messages\<close>

definition handle_filter_commit ::
  "('em, 'st, 'ti) tui_env \<Rightarrow> answers \<Rightarrow> string \<Rightarrow> ('em, 'ti) tui \<Rightarrow> ('em, 'ti) step" where
  "handle_filter_commit env an txt m0 =
     (let m = m0\<lparr>tu_mode := ModeNormal, tu_ui := snd (set_filter (te_compile env) txt (tu_ui m0))\<rparr>;
          rx = us_filter_regex (take_ui_snapshot (tu_ui m))
      in Option.bind (on_panel env (FilterRx rx) m) (\<lambda>(m1, _).
           let m2 = m1\<lparr>tu_status := (tu_status m1)\<lparr>st_filter_text := txt\<rparr>\<rparr>
           in if rx = None then stay m2
              else map_option (\<lambda>(lp, found, wrapped).
                     let m3 = m2\<lparr>tu_panel := lp\<rparr> in (if \<not> found then toast an ''no matches'' toast_warn m3 else m3, []))
                     (jump_next (te_render env) (tu_panel m2))))"

definition handle_start_group :: "string \<Rightarrow> ('em, 'ti) tui \<Rightarrow> ('em, 'ti) step" where
  "handle_start_group name m =
     Some (m, [CmdStartGroup name (duration_of_ms (group_start_delay_ms (c_settings (tu_cfg m))))])"

definition handle_overlay ::
  "('em, 'st, 'ti) tui_env \<Rightarrow> answers \<Rightarrow> overlay_msg \<Rightarrow> ('em, 'ti) tui \<Rightarrow> ('em, 'ti) step" where
  "handle_overlay env an msg m =
     (case msg of
        ShowToast t level \<Rightarrow> stay (toast an t level m)
      | StartGroup name \<Rightarrow> handle_start_group name m
      | CheckoutBranch b \<Rightarrow> handle_checkout_branch an b m
      | FilterCommit t \<Rightarrow> handle_filter_commit env an t m
      | FilterCancel \<Rightarrow> stay (m\<lparr>tu_mode := ModeNormal\<rparr>)
      | CommandRun t \<Rightarrow> dispatch_command env an t (m\<lparr>tu_mode := ModeNormal\<rparr>)
      | CommandCancel \<Rightarrow> stay (m\<lparr>tu_mode := ModeNormal\<rparr>))"

definition handle_mouse_msg ::
  "('em, 'st, 'ti) tui_env \<Rightarrow> answers \<Rightarrow> tea_mouse \<Rightarrow> ('em, 'ti) tui \<Rightarrow> ('em, 'ti) step" where
  "handle_mouse_msg env an mv m =
     (if tu_mode m = ModeEmbeddedAttach then route_attach_mouse env an mv m
      else if tu_mode m = ModeAttach then stay m
      else (case panel_mouse mv of None \<Rightarrow> stay m | Some ev \<Rightarrow> on_panel env ev m))"

definition copied_text :: "nat \<Rightarrow> nat \<Rightarrow> string" where
  "copied_text lines chars =
     ''copied '' @ show_nat lines @ '' '' @ (if lines = 1 then ''line'' else ''lines'') @ '' ('' @ show_nat chars @ '' chars)''"

definition handle_msg ::
  "('em, 'st, 'ti) tui_env \<Rightarrow> answers \<Rightarrow> tui_msg \<Rightarrow> ('em, 'ti) tui \<Rightarrow> ('em, 'ti) step" where
  "handle_msg env an msg m =
     (case msg of
        WindowSize w h \<Rightarrow> handle_resize env w h m
      | KeyMsg k \<Rightarrow> route_key env an k m
      | MouseMsg mv \<Rightarrow> handle_mouse_msg env an mv m
      | RuntimeChanged snap \<Rightarrow> handle_runtime_changed snap m
      | LogTick \<Rightarrow> map_option (\<lambda>(m1, cs). (m1, cs @ [CmdLogTick])) (refresh_log_panel env m)
      | ToastExpired \<Rightarrow> Some (m\<lparr>tu_toasts := toast_prune (an_now an) (tu_toasts m)\<rparr>, [CmdToastTick])
      | ShowToastMsg t level \<Rightarrow> stay (toast an t level m)
      | StartGroupMsg name \<Rightarrow> handle_start_group name m
      | FromOverlay om \<Rightarrow> handle_overlay env an om m
      | GitInfoMsg i g \<Rightarrow> stay (m\<lparr>tu_git := AList.update i g (tu_git m)\<rparr>)
      | PortInfoMsg i p \<Rightarrow> stay (m\<lparr>tu_port := AList.update i p (tu_port m)\<rparr>)
      | ProcStatsMsg i cpu rss good \<Rightarrow>
          stay (m\<lparr>tu_stats := (if good then AList.update i (cpu, rss) (tu_stats m) else AList.delete i (tu_stats m))\<rparr>)
      | StatusRefreshTick \<Rightarrow> handle_status_refresh m
      | AttachRequest i \<Rightarrow> handle_attach_request an i m
      | AttachEnded \<Rightarrow> stay (m\<lparr>tu_mode := ModeNormal\<rparr>)
      | EmbeddedAttachRequest i \<Rightarrow> handle_embedded_attach_request env an i m
      | EmbeddedAttachStarted i \<Rightarrow> Some (m, if tu_attach m = None then [] else [CmdRefreshVT, CmdWatchErr])
      | VTRefresh \<Rightarrow> Some (m, if tu_attach m = None then [] else [CmdRefreshVT])
      | EmbeddedAttachEnded why \<Rightarrow> handle_embedded_attach_end env an why m
      | DetachFlush \<Rightarrow> handle_detach_flush an m
      | Copied lines chars \<Rightarrow>
          map_option (apfst (toast an (copied_text lines chars) toast_info)) (on_panel env Unselect m)
      | CopyFailed e \<Rightarrow> stay (toast an (''copy failed: '' @ e) toast_err m)
      | StateRefresh \<Rightarrow> stay (sync_from_store m)
      | BranchesLoaded bs \<Rightarrow>
          stay (m\<lparr>tu_branch := bp_show (te_lower env) (set_branches (te_lower env) bs (tu_branch m))\<rparr>)
      | ConfigEdited err \<Rightarrow> handle_config_edited an err m
      | ConnLost \<Rightarrow> stay (toast an (''daemon connection lost '' @ dash @ '' relaunch procs to reattach'') toast_err m)
      | DaemonToast t level \<Rightarrow> stay (toast an t level m)
      | ReloadResultMsg r \<Rightarrow> handle_reload_result an r m)"

text \<open>The notifications of the daemon, as messages (\<open>cmd/procs/launch.go\<close>).\<close>

definition toast_level :: "string \<Rightarrow> int" where
  "toast_level s = (if s = ''warn'' then 1 else if s = ''error'' then 2 else 0)"

definition notif_to_msg :: "notification \<Rightarrow> tui_msg option" where
  "notif_to_msg n =
     (case n of
        NotifConnLost \<Rightarrow> Some ConnLost
      | NotifToast t \<Rightarrow> Some (DaemonToast (wt_text t) (toast_level (wt_level t)))
      | NotifReload r \<Rightarrow> Some (ReloadResultMsg \<lparr>rr_added = wr_added r, rr_removed = wr_removed r,
           rr_changed = wr_changed r, rr_stopped = wr_stopped r\<rparr>))"

section \<open>Start\<close>

definition empty_status_bar :: status_bar where
  "empty_status_bar = \<lparr>st_mode = [], st_selected = [], st_index = 0, st_total = 0, st_pid = 0, st_port = 0,
     st_git_branch = [], st_git_ahead = 0, st_git_behind = 0, st_git_dirty = False, st_filter_text = [],
     st_filter_index = 0, st_filter_total = 0, st_copy_cursor = [], st_cmd_buffer = [], st_paused = False,
     st_has_stats = False, st_cpu = [], st_rss = 0, st_width = 0\<rparr>"

definition new_tui ::
  "('em, 'st, 'ti) tui_env \<Rightarrow> config \<Rightarrow> runtime_store \<Rightarrow> filter_rx ui_store \<Rightarrow> registry \<times> files \<Rightarrow> string \<Rightarrow> bool
    \<Rightarrow> ('em, 'ti) tui" where
  "new_tui env cfg rt ui reg path detach =
     \<lparr>tu_cfg = cfg, tu_cfg_path = path, tu_rt = rt, tu_ui = ui, tu_reg = reg, tu_mode = ModeNormal, tu_width = 0,
      tu_height = 0, tu_detach_mode = detach, tu_quit_reason = QuitNone, tu_sidebar = empty_sidebar,
      tu_panel = new_log_panel 80 24, tu_status = empty_status_bar, tu_help = False,
      tu_group = new_group_picker (c_groups cfg), tu_branch = new_branch_picker (te_lower env) [],
      tu_filter = new_filter_input (te_ti env), tu_command = new_command_input (te_ti env), tu_toasts = [],
      tu_snap = [], tu_log_gen = 0, tu_git = [], tu_port = [], tu_stats = [], tu_pids = [],
      tu_quit_armed = zero_time, tu_esc_armed = zero_time, tu_attach = None, tu_att_sel = no_grid_sel,
      tu_resized = [], tu_forgot = []\<rparr>"

definition init_tui :: "('em, 'ti) tui \<Rightarrow> ('em, 'ti) tui \<times> tui_cmd list" where
  "init_tui m =
     (m\<lparr>tu_rt := snd (rs_subscribe (tu_rt m))\<rparr>,
      [CmdSend (RuntimeChanged (rs_snapshot (tu_rt m))), CmdWatchRuntime, CmdLogTick, CmdToastTick, CmdStatusTick])"

definition log_flush_interval :: "config \<Rightarrow> duration" where
  "log_flush_interval cfg =
     (let d = duration_of_ms (log_flush_interval_ms (c_settings cfg)) in if d \<le> 0 then 150 * millisecond else d)"

section \<open>The status bar\<close>

definition display_mode :: "('em, 'ti) tui \<Rightarrow> string" where
  "display_mode m = (if tu_mode m = ModeLogFocus \<and> has_selection (tu_panel m) then ''COPY'' else mode_label (tu_mode m))"

text \<open>The fields that \<open>View\<close> puts into the status bar of the frame it draws.\<close>

definition view_status :: "('em, 'ti) tui \<Rightarrow> status_bar" where
  "view_status m =
     (let u = take_ui_snapshot (tu_ui m); sel = us_selected_id u; lp = tu_panel m; focus = tu_mode m = ModeLogFocus;
          s = (tu_status m)\<lparr>st_width := tu_width m, st_mode := display_mode m, st_selected := sel,
                 st_total := int (length (tu_snap m)), st_index := sb_index (tu_sidebar m),
                 st_filter_text := us_filter_text u, st_filter_total := int (length (lp_matches lp)),
                 st_filter_index := match_cursor lp,
                 st_copy_cursor := (if focus then ''L'' @ show_int (cu_line (lp_cur lp) + 1) @ '':'' @ show_int (cu_col (lp_cur lp) + 1)
                                    else []),
                 st_cmd_buffer := (if focus then pending_summary lp else []), st_paused := lp_paused lp\<rparr>
      in if sel = [] then s\<lparr>st_has_stats := False\<rparr>
         else
           (let s1 = (case map_of (tu_git m) sel of
                        Some g \<Rightarrow> s\<lparr>st_git_branch := gi_branch g, st_git_ahead := gi_ahead g, st_git_behind := gi_behind g,
                                    st_git_dirty := gi_dirty g\<rparr>
                      | None \<Rightarrow> s\<lparr>st_git_branch := [], st_git_ahead := 0, st_git_behind := 0, st_git_dirty := False\<rparr>);
                s2 = s1\<lparr>st_port := (case map_of (tu_port m) sel of None \<Rightarrow> 0 | Some p \<Rightarrow> p)\<rparr>;
                s3 = (case find (\<lambda>r. pr_id r = sel) (tu_snap m) of None \<Rightarrow> s2 | Some r \<Rightarrow> s2\<lparr>st_pid := pr_pid r\<rparr>)
            in case map_of (tu_stats m) sel of
                 Some (cpu, rss) \<Rightarrow> s3\<lparr>st_cpu := cpu, st_rss := rss, st_has_stats := True\<rparr>
               | None \<Rightarrow> s3\<lparr>st_has_stats := False\<rparr>))"

datatype popup = PopupHelp | PopupGroup | PopupBranch

definition shown_popup :: "('em, 'ti) tui \<Rightarrow> popup option" where
  "shown_popup m =
     (if tu_help m then Some PopupHelp else if gp_visible (tu_group m) then Some PopupGroup
      else if bp_visible (tu_branch m) then Some PopupBranch else None)"

section \<open>What a command may answer\<close>

definition says :: "(string \<Rightarrow> int \<Rightarrow> bool) \<Rightarrow> tui_msg \<Rightarrow> bool" where
  "says f x = (case x of ShowToastMsg t l \<Rightarrow> f t l | _ \<Rightarrow> False)"

definition cmd_may :: "tui_cmd \<Rightarrow> tui_msg \<Rightarrow> bool" where
  "cmd_may c x =
     (case c of
        CmdStart i \<Rightarrow> says (\<lambda>t l. l = toast_err) x
      | CmdRestart i \<Rightarrow> says (\<lambda>t l. l = toast_err) x
      | CmdStop i g \<Rightarrow> says (\<lambda>t l. l = toast_err) x
      | CmdStartGroup n d \<Rightarrow> says (\<lambda>t l. l = toast_err \<or> t = ''started group: '' @ n \<and> l = toast_info) x
      | CmdSend y \<Rightarrow> x = y
      | CmdOverlay om \<Rightarrow> x = FromOverlay om
      | CmdCheckout dir b \<Rightarrow> says (\<lambda>t l. l = toast_err \<or> t = ''checked out '' @ b \<and> l = toast_info) x
      | CmdFetch dir \<Rightarrow> says (\<lambda>t l. l \<in> {toast_err, toast_info}) x
      | CmdPull dir \<Rightarrow> says (\<lambda>t l. l \<in> {toast_err, toast_info}) x
      | CmdBranches dir \<Rightarrow> (case x of BranchesLoaded bs \<Rightarrow> True | _ \<Rightarrow> False)
      | CmdGitInfo i dir \<Rightarrow> (case x of GitInfoMsg j g \<Rightarrow> j = i | _ \<Rightarrow> False)
      | CmdPort i pid \<Rightarrow> (case x of PortInfoMsg j p \<Rightarrow> j = i | _ \<Rightarrow> False)
      | CmdStats i pid \<Rightarrow> (case x of ProcStatsMsg j cpu rss good \<Rightarrow> j = i | _ \<Rightarrow> False)
      | CmdWatchRuntime \<Rightarrow> (case x of RuntimeChanged snap \<Rightarrow> True | _ \<Rightarrow> False)
      | CmdLogTick \<Rightarrow> x = LogTick
      | CmdToastTick \<Rightarrow> x = ToastExpired
      | CmdStatusTick \<Rightarrow> x = StatusRefreshTick
      | CmdFlushTick \<Rightarrow> x = DetachFlush
      | CmdYank t \<Rightarrow>
          (case x of
             Copied lines chars \<Rightarrow> lines = length (filter ((=) (CHR 0x0A)) t) + 1 \<and> chars = length t
           | CopyFailed e \<Rightarrow> True
           | _ \<Rightarrow> False)
      | CmdRefreshVT \<Rightarrow> x = VTRefresh
      | CmdWatchErr \<Rightarrow> (case x of EmbeddedAttachEnded why \<Rightarrow> True | _ \<Rightarrow> False)
      | CmdFullAttach i \<Rightarrow> x = AttachEnded
      | CmdEditor parts \<Rightarrow> (case x of ConfigEdited err \<Rightarrow> True | _ \<Rightarrow> False)
      | _ \<Rightarrow> False)"

text \<open>The messages that come from outside: the terminal and the daemon.\<close>

definition from_outside :: "tui_msg \<Rightarrow> bool" where
  "from_outside x =
     (case x of
        WindowSize w h \<Rightarrow> True | KeyMsg k \<Rightarrow> True | MouseMsg mv \<Rightarrow> True
      | ConnLost \<Rightarrow> True | DaemonToast t level \<Rightarrow> True | ReloadResultMsg r \<Rightarrow> True
      | _ \<Rightarrow> False)"

end
