(* ===== verification/Tui_Safety.thy ===== *)
theory Tui_Safety
  imports Tui
begin

text \<open>
  What the terminal interface promises for every order of its messages: it stays well formed and never panics, it
  quits only when asked to, and each of its clocks ticks exactly once at a time; and the orders of messages that show
  where the code forgets about an answer that comes late.
\<close>

section \<open>Well-formedness\<close>

text \<open>The typing invariant of the root model: each part has its own, and the attach mode has a session.\<close>

definition tui_ok :: "('em, 'st, 'ti) tui_env \<Rightarrow> ('em, 'ti) tui \<Rightarrow> bool" where
  "tui_ok env m \<longleftrightarrow> panel_ok (tu_panel m) \<and> sb_ok (tu_sidebar m) \<and> gp_ok (tu_group m) \<and> bp_ok (te_lower env) (tu_branch m)
     \<and> length (tu_toasts m) \<le> max_toasts \<and> (tu_mode m = ModeEmbeddedAttach \<longrightarrow> tu_attach m \<noteq> None)"

text \<open>The conditions of the log pane (\<open>event_fits\<close>), for the lines that a refresh would show and for the keys and toggles.\<close>

definition lines_fit :: "('em, 'st, 'ti) tui_env \<Rightarrow> line list \<Rightarrow> ('em, 'ti) tui \<Rightarrow> bool" where
  "lines_fit env ls m = event_fits (te_render env) (Lines (map rendered_line ls)) (tu_panel m)"

definition refresh_fits :: "('em, 'st, 'ti) tui_env \<Rightarrow> ('em, 'ti) tui \<Rightarrow> bool" where
  "refresh_fits env m \<longleftrightarrow> lines_fit env [] m
     \<and> list_all (\<lambda>(i, e). lines_fit env (ring_snapshot (en_ring e)) m) (reg_m (fst (tu_reg m)))"

definition msg_fits :: "('em, 'st, 'ti) tui_env \<Rightarrow> tui_msg \<Rightarrow> ('em, 'ti) tui \<Rightarrow> bool" where
  "msg_fits env msg m \<longleftrightarrow> refresh_fits env m
     \<and> (case msg of
          KeyMsg k \<Rightarrow> tu_mode m = ModeLogFocus \<longrightarrow> key_fits (km_name k) (tu_panel m)
        | FromOverlay om \<Rightarrow>
            (case om of
               CommandRun t \<Rightarrow> list_all (\<lambda>ev. event_fits (te_render env) ev (tu_panel m))
                 [JsonTo True, JsonTo False, SqlTo True, SqlTo False]
             | _ \<Rightarrow> True)
        | _ \<Rightarrow> True)"

definition step_ok :: "('em, 'st, 'ti) tui_env \<Rightarrow> ('em, 'ti) step \<Rightarrow> bool" where
  "step_ok env r = (case r of None \<Rightarrow> False | Some (m, cs) \<Rightarrow> tui_ok env m)"

lemma step_ok_simps [simp]:
  "step_ok env (Some (m, cs)) = tui_ok env m" "\<not> step_ok env None"
  by (simp_all add: step_ok_def)

lemma step_ok_bind:
  "step_ok env r \<Longrightarrow> (\<And>m cs. r = Some (m, cs) \<Longrightarrow> tui_ok env m \<Longrightarrow> step_ok env (f (m, cs))) \<Longrightarrow> step_ok env (Option.bind r f)"
  by (auto simp: step_ok_def split: option.splits)

lemma step_ok_map:
  "step_ok env r \<Longrightarrow> (\<And>m cs. r = Some (m, cs) \<Longrightarrow> tui_ok env m \<Longrightarrow> tui_ok env (fst (f (m, cs)))) \<Longrightarrow> step_ok env (map_option f r)"
  by (cases r) (auto simp: step_ok_def split: prod.splits)

lemma toast_ok [simp]: "tui_ok env m \<Longrightarrow> tui_ok env (toast an t level m)"
  by (simp add: tui_ok_def toast_def toast_add_def toasts_bounded)

lemma toast_frame [simp]:
  "tu_panel (toast an t level m) = tu_panel m" "tu_reg (toast an t level m) = tu_reg m"
  "tu_mode (toast an t level m) = tu_mode m" "tu_attach (toast an t level m) = tu_attach m"
  "tu_quit_armed (toast an t level m) = tu_quit_armed m" "tu_sidebar (toast an t level m) = tu_sidebar m"
  by (simp_all add: toast_def)

lemma sync_frame [simp]:
  "tu_panel (sync_to_store m) = tu_panel m" "tu_reg (sync_to_store m) = tu_reg m"
  "tu_quit_armed (sync_to_store m) = tu_quit_armed m" "tu_quit_armed (sync_from_store m) = tu_quit_armed m"
  "tu_rt (sync_from_store m) = tu_rt m"
  by (simp_all add: sync_to_store_def sync_from_store_def Let_def)

lemma sync_ok [simp]:
  "tui_ok env m \<Longrightarrow> tui_ok env (sync_to_store m)" "tui_ok env m \<Longrightarrow> tui_ok env (sync_from_store m)"
  by (simp_all add: tui_ok_def sync_to_store_def sync_from_store_def Let_def sb_ok_ops)

lemma tui_ok_frame [simp]:
  "tui_ok env (m\<lparr>tu_reg := reg\<rparr>) = tui_ok env m" "tui_ok env (m\<lparr>tu_log_gen := gen\<rparr>) = tui_ok env m"
  "tui_ok env (m\<lparr>tu_width := w\<rparr>) = tui_ok env m" "tui_ok env (m\<lparr>tu_height := w\<rparr>) = tui_ok env m"
  "tui_ok env (m\<lparr>tu_status := st\<rparr>) = tui_ok env m" "tui_ok env (m\<lparr>tu_resized := rs\<rparr>) = tui_ok env m"
  "tui_ok env (m\<lparr>tu_ui := u\<rparr>) = tui_ok env m" "tui_ok env (m\<lparr>tu_rt := rt\<rparr>) = tui_ok env m"
  "tui_ok env (m\<lparr>tu_snap := snap\<rparr>) = tui_ok env m" "tui_ok env (m\<lparr>tu_quit_reason := why\<rparr>) = tui_ok env m"
  "tui_ok env (m\<lparr>tu_quit_armed := t\<rparr>) = tui_ok env m" "tui_ok env (m\<lparr>tu_esc_armed := t\<rparr>) = tui_ok env m"
  "tui_ok env (m\<lparr>tu_att_sel := sel\<rparr>) = tui_ok env m" "tui_ok env (m\<lparr>tu_git := g\<rparr>) = tui_ok env m"
  "tui_ok env (m\<lparr>tu_port := p\<rparr>) = tui_ok env m" "tui_ok env (m\<lparr>tu_stats := s\<rparr>) = tui_ok env m"
  "tui_ok env (m\<lparr>tu_pids := ps\<rparr>) = tui_ok env m" "tui_ok env (m\<lparr>tu_forgot := fs\<rparr>) = tui_ok env m"
  "tui_ok env (m\<lparr>tu_help := b\<rparr>) = tui_ok env m" "tui_ok env (m\<lparr>tu_filter := fi\<rparr>) = tui_ok env m"
  "tui_ok env (m\<lparr>tu_command := ci\<rparr>) = tui_ok env m" "tui_ok env (m\<lparr>tu_cfg := cfg\<rparr>) = tui_ok env m"
  by (simp_all add: tui_ok_def)

lemma tui_ok_parts:
  assumes "tui_ok env m"
  shows "md \<noteq> ModeEmbeddedAttach \<Longrightarrow> tui_ok env (m\<lparr>tu_mode := md\<rparr>)" "tui_ok env (m\<lparr>tu_attach := Some s\<rparr>)"
    "panel_ok lp \<Longrightarrow> tui_ok env (m\<lparr>tu_panel := lp\<rparr>)" "sb_ok sb \<Longrightarrow> tui_ok env (m\<lparr>tu_sidebar := sb\<rparr>)"
    "gp_ok gp \<Longrightarrow> tui_ok env (m\<lparr>tu_group := gp\<rparr>)" "bp_ok (te_lower env) bp \<Longrightarrow> tui_ok env (m\<lparr>tu_branch := bp\<rparr>)"
    "tui_ok env (m\<lparr>tu_toasts := toast_add_ttl now t level ttl ts\<rparr>)"
    "tui_ok env (m\<lparr>tu_attach := Some s, tu_mode := md\<rparr>)"
    "tui_ok env (m\<lparr>tu_toasts := toast_prune now (tu_toasts m)\<rparr>)"
  using assms by (simp_all add: tui_ok_def toasts_bounded toast_prune_def le_trans [OF length_filter_le])

lemma tui_okD:
  assumes "tui_ok env m"
  shows "panel_ok (tu_panel m)" "sb_ok (tu_sidebar m)" "gp_ok (tu_group m)" "bp_ok (te_lower env) (tu_branch m)"
    "tu_mode m = ModeEmbeddedAttach \<Longrightarrow> tu_attach m \<noteq> None"
  using assms by (simp_all add: tui_ok_def)

lemma on_panel_ok:
  assumes "tui_ok env m" "event_fits (te_render env) ev (tu_panel m)"
  shows "step_ok env (on_panel env ev m)"
proof -
  have "safe (panel_step (te_render env) ev (tu_panel m))" using assms by (intro step_safe) (simp add: tui_ok_def)
  then show ?thesis using assms(1) by (auto simp: on_panel_def safe_def tui_ok_def)
qed

lemma on_panel_frame:
  "on_panel env ev m = Some (m1, cs) \<Longrightarrow> \<exists>lp. m1 = m\<lparr>tu_panel := lp\<rparr>"
  by (auto simp: on_panel_def)

lemma lines_fit_frame [simp]: "lines_fit env ls (m\<lparr>tu_sidebar := sb\<rparr>) = lines_fit env ls m"
  by (simp add: lines_fit_def)

lemma fresh_entry: "ring_snapshot (en_ring (fst (make_entry orc cfg i fs))) = []"
  by (simp add: make_entry_def ring_snapshot_def new_ring_buffer_def Let_def split: option.splits prod.splits)

lemma reg_get_fits:
  assumes "refresh_fits env m"
  shows "lines_fit env (ring_snapshot (en_ring (fst (reg_get orc i (tu_reg m))))) m"
proof (cases "map_of (reg_m (fst (tu_reg m))) i")
  case (Some e)
  then have "(i, e) \<in> set (reg_m (fst (tu_reg m)))" by (rule map_of_SomeD)
  then show ?thesis using assms Some by (auto simp: refresh_fits_def list_all_iff reg_get_def split: prod.splits)
next
  case None
  then show ?thesis using assms fresh_entry
    by (auto simp: refresh_fits_def reg_get_def Let_def split: prod.splits) (metis fst_conv)
qed

lemma refresh_ok:
  assumes ok: "tui_ok env m"
    and fits: "lines_fit env (ring_snapshot (en_ring (fst (reg_get (te_faults env) (selected m) (tu_reg m))))) m"
  shows "step_ok env (refresh_log_panel env m)"
proof -
  have "step_ok env (on_panel env (Lines (map rendered_line (ring_snapshot (en_ring e)))) (m\<lparr>tu_reg := reg, tu_log_gen := gen\<rparr>))"
    if "reg_get (te_faults env) (selected m) (tu_reg m) = (e, reg)" for e reg gen
    using ok fits that by (intro on_panel_ok) (simp_all add: lines_fit_def)
  then show ?thesis using ok by (auto simp: refresh_log_panel_def Let_def split: prod.split)
qed

lemma clear_fits:
  assumes "refresh_fits env m"
  shows "lines_fit env (ring_snapshot (en_ring (fst (reg_get orc i (clear_buffer i (fst (tu_reg m)), fs))))) m"
proof (cases "map_of (reg_m (fst (tu_reg m))) i")
  case None
  then have "fst (reg_get orc i (clear_buffer i (fst (tu_reg m)), fs)) = fst (make_entry orc (reg_cfg (fst (tu_reg m))) i fs)"
    by (simp add: clear_buffer_def reg_get_def Let_def split: prod.split)
  then show ?thesis using assms by (simp add: fresh_entry refresh_fits_def)
next
  case (Some e)
  then show ?thesis using assms
    by (simp add: refresh_fits_def clear_buffer_def reg_get_def update_conv' ring_clear_def ring_snapshot_def)
qed

section \<open>The handlers keep it\<close>

lemma step_okE:
  assumes "step_ok env r"
  obtains m cs where "r = Some (m, cs)" "tui_ok env m"
  using assms by (auto simp: step_ok_def split: option.splits)

lemma handle_resize_ok:
  assumes "tui_ok env m"
  shows "step_ok env (handle_resize env w h m)"
proof -
  obtain sw lw ch where lay: "layout (m\<lparr>tu_width := w, tu_height := h\<rparr>) = (sw, lw, ch)" by (cases "layout (m\<lparr>tu_width := w, tu_height := h\<rparr>)")
  have "step_ok env (on_panel env (Resize lw ch) (m\<lparr>tu_width := w, tu_height := h, tu_sidebar := sb_set_size sw ch (tu_sidebar m)\<rparr>))"
    using assms by (intro on_panel_ok) (simp_all add: tui_ok_def sb_ok_ops event_fits_def)
  then obtain m1 c1 where m1: "on_panel env (Resize lw ch) (m\<lparr>tu_width := w, tu_height := h, tu_sidebar := sb_set_size sw ch (tu_sidebar m)\<rparr>) = Some (m1, c1)"
    "tui_ok env m1" by (rule step_okE)
  have "step_ok env (on_panel env (Origin sw 0) m1)" using m1 by (intro on_panel_ok) (simp_all add: event_fits_def)
  then obtain m2 c2 where m2: "on_panel env (Origin sw 0) m1 = Some (m2, c2)" "tui_ok env m2" by (rule step_okE)
  show ?thesis using m2(2)
    by (simp add: handle_resize_def lay m1(1) m2(1) Let_def tui_ok_parts split: mode.split option.split)
qed

lemma jump_match_ok:
  assumes "tui_ok env m"
  shows "step_ok env (handle_jump_match env an fwd m)"
proof -
  have "safe_jump (match_jump env fwd m)"
    using jump_ok [OF tui_okD(1) [OF assms]] jump_cursor_ok by (simp add: match_jump_def Let_def)
  then obtain lp found wrapped where r: "match_jump env fwd m = Some (lp, found, wrapped)" "panel_ok lp"
    by (auto simp: safe_jump_def split: option.splits)
  then show ?thesis using assms by (simp add: handle_jump_match_def Let_def tui_ok_parts)
qed

lemma with_project_ok [simp]: "tui_ok env m \<Longrightarrow> step_ok env (with_project an what f m)"
  by (simp add: with_project_def split: option.split)

lemma clear_buffer_ok:
  assumes "tui_ok env m" "refresh_fits env m"
  shows "step_ok env (handle_clear_buffer env an m)"
proof (cases "selected m = []")
  case False
  have "step_ok env (refresh_log_panel env (m\<lparr>tu_reg := (clear_buffer (selected m) (fst (tu_reg m)), snd (tu_reg m))\<rparr>))"
    using assms clear_fits [OF assms(2)] by (intro refresh_ok) (simp_all add: lines_fit_def)
  then show ?thesis using False by (auto simp: handle_clear_buffer_def intro: step_ok_map)
qed (simp add: handle_clear_buffer_def assms)

lemma select_ok:
  assumes "tui_ok env m" "refresh_fits env m" "sb_ok sb"
  shows "step_ok env (refresh_log_panel env (sync_to_store (m\<lparr>tu_sidebar := sb\<rparr>)))"
  using assms reg_get_fits [OF assms(2)] by (intro refresh_ok) (simp_all add: lines_fit_def tui_ok_parts)

lemma apply_reload_ok [simp]: "tui_ok env m \<Longrightarrow> tui_ok env (apply_reload_result an r m)"
  by (simp add: apply_reload_result_def Let_def)

lemma reload_ok [simp]: "tui_ok env m \<Longrightarrow> step_ok env (reload_config an m)"
  by (simp add: reload_config_def Let_def split: sum.split)

lemma edit_ok [simp]: "tui_ok env m \<Longrightarrow> step_ok env (handle_edit_config an m)"
  by (simp add: handle_edit_config_def)

lemma write_buffer_ok [simp]: "tui_ok env m \<Longrightarrow> step_ok env (handle_write_buffer an raw m)"
  by (simp add: handle_write_buffer_def Let_def split: sum.split option.split)

lemma quit_request_ok [simp]: "tui_ok env m \<Longrightarrow> step_ok env (handle_quit_request why m)"
  by (simp add: handle_quit_request_def)

lemma dispatch_ok:
  assumes "tui_ok env m" "refresh_fits env m"
    "list_all (\<lambda>ev. event_fits (te_render env) ev (tu_panel m)) [JsonTo True, JsonTo False, SqlTo True, SqlTo False]"
  shows "step_ok env (dispatch_command env an txt m)"
  using assms on_panel_ok [OF assms(1)] clear_buffer_ok [OF assms(1,2)]
  by (simp add: dispatch_command_def Let_def event_fits_def handle_git_fetch_def handle_git_pull_def split: option.split)

lemma route_normal_ok:
  assumes "tui_ok env m" "refresh_fits env m"
  shows "step_ok env (route_normal env an k m)"
proof -
  have move: "step_ok env (move_selection env f m)" if "sb_ok (f (tu_sidebar m))" for f
    using select_ok [OF assms that] by (simp add: move_selection_def)
  have jump: "step_ok env (handle_quick_jump env n m)" for n
    using assms(1) select_ok [OF assms] sb_ok_ops(2) [OF tui_okD(2) [OF assms(1)]] by (simp add: handle_quick_jump_def)
  have "step_ok env (on_panel env (ScrollKey (km_name k)) m)" "step_ok env (on_panel env (CopyMode True) (m\<lparr>tu_mode := ModeLogFocus\<rparr>))"
    using assms(1) by (auto intro!: on_panel_ok tui_ok_parts simp: event_fits_def)
  then show ?thesis
    using assms(1) move [of sb_up] move [of sb_down] sb_ok_ops(3,4) [OF tui_okD(2) [OF assms(1)]]
      jump jump_match_ok [OF assms(1)] clear_buffer_ok [OF assms]
    by (simp add: route_normal_def on_selected_def handle_branch_picker_open_def handle_git_fetch_def handle_git_pull_def
        tui_ok_parts gp_ok_show [OF tui_okD(3)] split: option.split)
qed

lemma pickers_keep:
  assumes "tui_ok env m"
  shows "step_ok env (route_group_picker k m)" "step_ok env (route_branch_picker env k m)"
proof -
  obtain gp r where "gp_update k (tu_group m) = Some (gp, r)" "gp_ok gp"
    using gp_update_ok [OF tui_okD(3) [OF assms]] by blast
  then show "step_ok env (route_group_picker k m)"
    using assms by (simp add: route_group_picker_def leave_if_def tui_ok_parts gp_ok_hide [OF tui_okD(3)])
  obtain bp r where "bp_update (te_lower env) k (tu_branch m) = Some (bp, r)" "bp_ok (te_lower env) bp"
    using bp_update_ok [OF tui_okD(4) [OF assms]] by blast
  then show "step_ok env (route_branch_picker env k m)"
    using assms by (simp add: route_branch_picker_def leave_if_def tui_ok_parts)
qed

lemma bars_keep:
  assumes "tui_ok env m"
  shows "step_ok env (route_filter env k m)" "step_ok env (route_command env k m)" "step_ok env (route_help k m)"
  using assms by (simp_all add: route_filter_def route_command_def route_help_def leave_if_def tui_ok_parts split: prod.split)

lemma attach_keep:
  assumes "tui_ok env m"
  shows "step_ok env (route_embedded_attach env an k m)" "step_ok env (handle_detach_flush an m)"
    "step_ok env (route_attach_mouse env an mv m)" "step_ok env (handle_attach_request an i m)"
    "step_ok env (handle_embedded_attach_request env an i m)"
  using assms
  by (simp_all add: route_embedded_attach_def handle_detach_flush_def attach_step_def route_attach_mouse_def
      handle_attach_request_def handle_embedded_attach_request_def Let_def tui_ok_parts
      split: option.split prod.split sum.split attach_cmd.split tea_action.split)

lemma route_log_focus_ok:
  assumes "tui_ok env m" "key_fits (km_name k) (tu_panel m)"
  shows "step_ok env (route_log_focus env an k m)"
proof -
  have d: "tui_ok env (disarm_esc m)" "tu_panel (disarm_esc m) = tu_panel m" using assms(1) by (simp_all add: disarm_esc_def)
  have "step_ok env (on_panel env ev (disarm_esc m))" if "ev \<in> {EscapeKey, Unselect, PauseKey, CopyKey (km_name k)}" for ev
    using that d assms(2) by (intro on_panel_ok) (auto simp: event_fits_def)
  moreover have "step_ok env (on_panel env (CopyMode False) (disarm_esc (m\<lparr>tu_mode := ModeNormal\<rparr>)))"
    using assms(1) by (intro on_panel_ok) (simp_all add: disarm_esc_def tui_ok_parts event_fits_def)
  ultimately show ?thesis using jump_match_ok [OF d(1)] assms(1) by (simp add: route_log_focus_def tui_ok_parts)
qed

lemma route_key_ok:
  assumes "tui_ok env m" "refresh_fits env m" "tu_mode m = ModeLogFocus \<longrightarrow> key_fits (km_name k) (tu_panel m)"
  shows "step_ok env (route_key env an k m)"
proof -
  let ?m = "m\<lparr>tu_quit_armed := zero_time\<rparr>"
  have "tui_ok env ?m" "refresh_fits env ?m" using assms by (simp_all add: refresh_fits_def lines_fit_def)
  then show ?thesis
    using assms route_log_focus_ok [of env ?m k an]
    by (simp add: route_key_def handle_ctrl_c_def Let_def tui_ok_parts route_normal_ok pickers_keep bars_keep attach_keep
        split: mode.split)
qed

lemma filter_commit_ok:
  assumes "tui_ok env m"
  shows "step_ok env (handle_filter_commit env an txt m)"
proof -
  define m0 where "m0 = m\<lparr>tu_mode := ModeNormal, tu_ui := snd (set_filter (te_compile env) txt (tu_ui m))\<rparr>"
  define rx where "rx = us_filter_regex (take_ui_snapshot (tu_ui m0))"
  have "step_ok env (on_panel env (FilterRx rx) m0)"
    using assms by (intro on_panel_ok) (simp_all add: m0_def event_fits_def tui_ok_parts)
  then obtain m1 c where m1: "on_panel env (FilterRx rx) m0 = Some (m1, c)" "tui_ok env m1" by (rule step_okE)
  obtain lp found wrapped where "jump_next (te_render env) (tu_panel m1) = Some (lp, found, wrapped)" "panel_ok lp"
    using jump_ok(1) [OF tui_okD(1) [OF m1(2)], of "te_render env"] by (auto simp: safe_jump_def split: option.splits)
  then show ?thesis using m1 by (simp add: handle_filter_commit_def Let_def m0_def rx_def tui_ok_parts)
qed

lemma mouse_msg_ok: "tui_ok env m \<Longrightarrow> step_ok env (handle_mouse_msg env an mv m)"
  by (auto simp: handle_mouse_msg_def attach_keep panel_mouse_def event_fits_def Let_def intro!: on_panel_ok
      split: option.split tea_action.splits if_splits)

lemma attach_end_ok:
  assumes "tui_ok env m" "refresh_fits env m"
  shows "step_ok env (handle_embedded_attach_end env an why m)"
proof -
  let ?m = "m\<lparr>tu_attach := None, tu_mode := ModeNormal\<rparr>"
  have "tui_ok env ?m" using assms(1) by (simp add: tui_ok_def)
  then have "step_ok env (refresh_log_panel env (toast an t level ?m))" for t level
    using reg_get_fits [OF assms(2)] by (intro refresh_ok) (simp_all add: lines_fit_def)
  then show ?thesis by (simp add: handle_embedded_attach_end_def Let_def)
qed

lemma overlay_ok:
  assumes "tui_ok env m" "msg_fits env (FromOverlay om) m"
  shows "step_ok env (handle_overlay env an om m)"
proof (cases om)
  case (CommandRun t)
  then show ?thesis using assms
    by (auto simp: handle_overlay_def msg_fits_def refresh_fits_def lines_fit_def tui_ok_parts intro!: dispatch_ok)
qed (insert assms(1), auto simp: handle_overlay_def handle_start_group_def handle_checkout_branch_def filter_commit_ok tui_ok_parts)

lemma branches_ok: "bp_ok lower (bp_show lower (set_branches lower bs bp))"
  by (simp add: bp_ok_ops)

lemma status_refresh_ok [simp]: "tui_ok env m \<Longrightarrow> step_ok env (handle_status_refresh m)"
  by (simp add: handle_status_refresh_def Let_def split: option.split)

lemma handle_msg_ok:
  assumes "tui_ok env m" "msg_fits env msg m"
  shows "step_ok env (handle_msg env an msg m)"
proof -
  have r: "refresh_fits env m" using assms(2) by (simp add: msg_fits_def)
  have tick: "step_ok env (refresh_log_panel env m)" using assms(1) reg_get_fits [OF r] by (rule refresh_ok)
  have unsel: "step_ok env (on_panel env Unselect m)" using assms(1) by (rule on_panel_ok) (simp add: event_fits_def)
  show ?thesis
  proof (cases msg)
    case (KeyMsg k)
    then show ?thesis using assms r route_key_ok by (simp add: handle_msg_def msg_fits_def)
  next
    case (FromOverlay om)
    then show ?thesis using assms overlay_ok by (simp add: handle_msg_def)
  next
    case LogTick
    then show ?thesis using tick by (auto simp: handle_msg_def intro: step_ok_map)
  next
    case (Copied l c)
    then show ?thesis using unsel by (auto simp: handle_msg_def intro: step_ok_map)
  qed (insert assms(1) r, simp_all add: handle_msg_def handle_resize_ok mouse_msg_ok handle_runtime_changed_def
      handle_start_group_def attach_keep attach_end_ok handle_config_edited_def handle_reload_result_def branches_ok
      tui_ok_parts sb_ok_ops [OF tui_okD(2)] split: option.split)
qed

section \<open>Runs\<close>

text \<open>The messages in the order in which they are handled, with the commands they return.\<close>

fun tui_run ::
  "('em, 'st, 'ti) tui_env \<Rightarrow> (answers \<times> tui_msg) list \<Rightarrow> ('em, 'ti) tui \<Rightarrow> ('em, 'ti) step" where
  "tui_run env [] m = Some (m, [])"
| "tui_run env ((an, msg) # xs) m =
     Option.bind (handle_msg env an msg m) (\<lambda>(m1, cs). map_option (apsnd ((@) cs)) (tui_run env xs m1))"

fun run_fits_msgs :: "('em, 'st, 'ti) tui_env \<Rightarrow> (answers \<times> tui_msg) list \<Rightarrow> ('em, 'ti) tui \<Rightarrow> bool" where
  "run_fits_msgs env [] m = True"
| "run_fits_msgs env ((an, msg) # xs) m =
     (msg_fits env msg m \<and> (case handle_msg env an msg m of None \<Rightarrow> True | Some (m1, cs) \<Rightarrow> run_fits_msgs env xs m1))"

lemma tui_run_ok: "tui_ok env m \<Longrightarrow> run_fits_msgs env xs m \<Longrightarrow> step_ok env (tui_run env xs m)"
proof (induction env xs m rule: tui_run.induct)
  case (2 env an msg xs m)
  obtain m1 cs where m1: "handle_msg env an msg m = Some (m1, cs)" "tui_ok env m1"
    using handle_msg_ok [OF 2(2), of msg an] 2(3) by (auto elim: step_okE)
  then have "step_ok env (tui_run env xs m1)" using 2 by auto
  then show ?case using m1 by (auto intro!: step_ok_map)
qed simp

lemma new_tui_ok: "tui_ok env (new_tui env cfg rt ui reg path detach)"
  by (simp add: tui_ok_def new_tui_def new_panel_ok gp_ok_new bp_ok_new)

lemma init_tui_ok [simp]: "tui_ok env (fst (init_tui m)) = tui_ok env m"
  by (simp add: init_tui_def)

text \<open>A program with no libraries to speak of, to run the model on.\<close>

definition demo_ti :: "bytes text_lib" where
  "demo_ti = \<lparr>ti_new = (\<lambda>_. []), ti_value = (\<lambda>t. t), ti_set_value = (\<lambda>s _. s), ti_focus = (\<lambda>t. t), ti_blur = (\<lambda>t. t),
     ti_update = (\<lambda>k t. t @ runes_text (km_runes k))\<rparr>"

definition demo_env :: "(unit, unit, bytes) tui_env" where
  "demo_env = \<lparr>te_vt = plain_vt, te_ti = demo_ti, te_lower = (\<lambda>s. s), te_rx_error = (\<lambda>_. None), te_compile = (\<lambda>_. None),
     te_render = plain_env, te_faults = no_fault\<rparr>"

definition demo_an :: "time \<Rightarrow> answers" where
  "demo_an t = \<lparr>an_now = t, an_pty = None, an_attach = Inr [], an_subscribe = (\<lambda>_. None),
     an_reload = \<lparr>rr_added = [], rr_removed = [], rr_changed = [], rr_stopped = []\<rparr>, an_load = Inl [],
     an_expand = (\<lambda>s. Inr s), an_write_file = None, an_editor = []\<rparr>"

section \<open>Quitting and the clocks\<close>

text \<open>The commands that end the program, the ticks, and the wait for the runtime store; the rest is ordinary.\<close>

definition is_quit :: "tui_cmd \<Rightarrow> bool" where
  "is_quit c = (case c of CmdQuit \<Rightarrow> True | CmdGracefulQuit g \<Rightarrow> True | _ \<Rightarrow> False)"

definition is_clock_msg :: "tui_msg \<Rightarrow> bool" where
  "is_clock_msg x =
     (case x of RuntimeChanged snap \<Rightarrow> True | LogTick \<Rightarrow> True | ToastExpired \<Rightarrow> True | StatusRefreshTick \<Rightarrow> True | _ \<Rightarrow> False)"

definition is_clock :: "tui_cmd \<Rightarrow> bool" where
  "is_clock c = (case c of CmdSend x \<Rightarrow> is_clock_msg x | _ \<Rightarrow> c \<in> {CmdWatchRuntime, CmdLogTick, CmdToastTick, CmdStatusTick})"

definition watched :: "tui_cmd list \<Rightarrow> tui_cmd list" where
  "watched cs = filter (\<lambda>c. is_quit c \<or> is_clock c) cs"

definition does :: "time \<Rightarrow> tui_cmd list \<Rightarrow> ('em, 'ti) step \<Rightarrow> bool" where
  "does q ws r = (case r of None \<Rightarrow> True | Some (m, cs) \<Rightarrow> tu_quit_armed m = q \<and> watched cs = ws)"

lemma does_simps [simp]: "does q ws None" "does q ws (Some (m, cs)) \<longleftrightarrow> tu_quit_armed m = q \<and> watched cs = ws"
  by (simp_all add: does_def)

lemma does_bind:
  assumes "does q [] r" "\<And>m cs. tu_quit_armed m = q \<Longrightarrow> watched cs = [] \<Longrightarrow> does q' ws (f (m, cs))"
  shows "does q' ws (Option.bind r f)"
proof (cases r)
  case (Some mc)
  then show ?thesis using assms(1) assms(2) [of "fst mc" "snd mc"] by (auto simp: does_def split: option.splits prod.splits)
qed simp

lemma does_map:
  assumes "does q vs r"
    and "\<And>m cs. tu_quit_armed m = q \<Longrightarrow> watched cs = vs \<Longrightarrow> tu_quit_armed (fst (f (m, cs))) = q' \<and> watched (snd (f (m, cs))) = ws"
  shows "does q' ws (map_option f r)"
proof (cases r)
  case (Some mc)
  then show ?thesis using assms(1) assms(2) [of "fst mc" "snd mc"] by (auto simp: does_def split: prod.splits)
qed simp

lemma watched_nil [simp]: "watched [] = []"
  by (simp add: watched_def)

lemmas watched_defs = watched_def is_quit_def is_clock_def is_clock_msg_def

lemma on_panel_does [simp]: "does q [] (on_panel env ev m) \<longleftrightarrow> on_panel env ev m = None \<or> tu_quit_armed m = q"
  by (auto simp: on_panel_def does_def watched_defs split: option.splits)

lemma refresh_does [simp]: "tu_quit_armed m = q \<Longrightarrow> does q [] (refresh_log_panel env m)"
  by (auto simp: refresh_log_panel_def Let_def watched_defs split: prod.split)

lemma with_project_does [simp]:
  "tu_quit_armed m = q \<Longrightarrow> (\<And>dir. watched [f dir] = []) \<Longrightarrow> does q [] (with_project an what f m)"
  by (simp add: with_project_def watched_defs split: option.split)

lemma jump_match_does [simp]: "tu_quit_armed m = q \<Longrightarrow> does q [] (handle_jump_match env an fwd m)"
  by (cases "match_jump env fwd m") (auto simp: handle_jump_match_def Let_def watched_defs split: prod.split)

lemma resize_does: "does (tu_quit_armed m) [] (handle_resize env w h m)"
  by (auto simp: handle_resize_def Let_def watched_defs intro!: does_bind split: prod.split mode.split option.split)

lemma clear_buffer_does [simp]: "tu_quit_armed m = q \<Longrightarrow> does q [] (handle_clear_buffer env an m)"
  by (auto simp: handle_clear_buffer_def watched_defs intro!: does_map [where q = q and vs = "[]"] split: prod.split)

lemma apply_reload_armed [simp]: "tu_quit_armed (apply_reload_result an r m) = tu_quit_armed m"
  by (simp add: apply_reload_result_def Let_def)

lemma reload_does [simp]: "tu_quit_armed m = q \<Longrightarrow> does q [] (reload_config an m)"
  by (simp add: reload_config_def watched_defs Let_def split: sum.split)

lemma edit_does [simp]: "tu_quit_armed m = q \<Longrightarrow> does q [] (handle_edit_config an m)"
  by (simp add: handle_edit_config_def watched_defs)

lemma write_buffer_does [simp]: "tu_quit_armed m = q \<Longrightarrow> does q [] (handle_write_buffer an raw m)"
  by (simp add: handle_write_buffer_def watched_defs Let_def split: sum.split option.split)

text \<open>The command that a quit sends, and the commands of the bar that quit.\<close>

definition quit_cmd :: "('em, 'ti) tui \<Rightarrow> tui_cmd" where
  "quit_cmd m = (if tu_detach_mode m then CmdQuit else CmdGracefulQuit (grace_of m))"

definition quits :: "string \<Rightarrow> ('em, 'ti) tui \<Rightarrow> bool" where
  "quits txt m \<longleftrightarrow> (let name = join_with '' '' (words_of txt)
     in name \<in> {''q'', ''quit'', ''shutdown''} \<or> name = ''detach'' \<and> tu_detach_mode m)"

lemma quit_request_does: "does (tu_quit_armed m) [quit_cmd m] (handle_quit_request why m)"
  by (simp add: handle_quit_request_def quit_cmd_def watched_defs)

lemma dispatch_does:
  "does (tu_quit_armed m) (if quits txt m then [quit_cmd m] else []) (dispatch_command env an txt m)"
  by (simp add: dispatch_command_def quits_def quit_request_does handle_git_fetch_def handle_git_pull_def watched_defs Let_def
      split: option.split)

lemma route_normal_does: "does (tu_quit_armed m) [] (route_normal env an k m)"
  by (simp add: route_normal_def on_selected_def handle_branch_picker_open_def handle_git_fetch_def handle_git_pull_def
      move_selection_def handle_quick_jump_def watched_defs split: option.split)

lemma overlay_cmd_watched [simp]: "watched (overlay_cmd r) = []"
  by (simp add: overlay_cmd_def watched_defs split: option.split)

lemma leave_if_armed [simp]: "tu_quit_armed (leave_if b m) = tu_quit_armed m"
  by (simp add: leave_if_def)

lemma disarm_armed [simp]: "tu_quit_armed (disarm_esc m) = tu_quit_armed m"
  by (simp add: disarm_esc_def)

lemma pickers_do:
  "does (tu_quit_armed m) [] (route_group_picker k m)" "does (tu_quit_armed m) [] (route_branch_picker env k m)"
proof -
  show "does (tu_quit_armed m) [] (route_group_picker k m)"
    by (cases "gp_update k (tu_group m)") (auto simp: route_group_picker_def split: prod.split)
  show "does (tu_quit_armed m) [] (route_branch_picker env k m)"
    by (cases "bp_update (te_lower env) k (tu_branch m)") (auto simp: route_branch_picker_def split: prod.split)
qed

lemma bars_do:
  "does (tu_quit_armed m) [] (route_filter env k m)" "does (tu_quit_armed m) [] (route_command env k m)"
  "does (tu_quit_armed m) [] (route_help k m)"
  by (simp_all add: route_filter_def route_command_def route_help_def split: prod.split)

lemma log_focus_does: "does (tu_quit_armed m) [] (route_log_focus env an k m)"
  by (simp add: route_log_focus_def)

lemma attach_does:
  "does (tu_quit_armed m) [] (route_embedded_attach env an k m)" "does (tu_quit_armed m) [] (handle_detach_flush an m)"
  "does (tu_quit_armed m) [] (route_attach_mouse env an mv m)" "does (tu_quit_armed m) [] (handle_attach_request an i m)"
  "does (tu_quit_armed m) [] (handle_embedded_attach_request env an i m)"
  "does (tu_quit_armed m) [] (handle_embedded_attach_end env an why m)"
  by (simp_all add: route_embedded_attach_def handle_detach_flush_def attach_step_def route_attach_mouse_def
      handle_attach_request_def handle_embedded_attach_request_def handle_embedded_attach_end_def Let_def watched_defs
      split: option.split prod.split sum.split attach_cmd.split tea_action.split)

text \<open>Whether the first Ctrl+C still counts, and what each message does to the quitting and to the clocks.\<close>

definition armed :: "answers \<Rightarrow> ('em, 'ti) tui \<Rightarrow> bool" where
  "armed an m \<longleftrightarrow> \<not> is_zero_time (tu_quit_armed m) \<and> an_now an - tu_quit_armed m \<le> quit_arm_window"

definition watched_of :: "answers \<Rightarrow> tui_msg \<Rightarrow> ('em, 'ti) tui \<Rightarrow> time \<times> tui_cmd list" where
  "watched_of an msg m =
     (case msg of
        KeyMsg k \<Rightarrow>
          (if km_name k = ''ctrl+c'' \<and> tu_mode m \<noteq> ModeEmbeddedAttach
           then (if armed an m then (tu_quit_armed m, [quit_cmd m]) else (an_now an, []))
           else (zero_time, []))
      | FromOverlay om \<Rightarrow>
          (tu_quit_armed m, case om of CommandRun t \<Rightarrow> if quits t m then [quit_cmd m] else [] | _ \<Rightarrow> [])
      | RuntimeChanged snap \<Rightarrow> (tu_quit_armed m, [CmdWatchRuntime])
      | LogTick \<Rightarrow> (tu_quit_armed m, [CmdLogTick])
      | ToastExpired \<Rightarrow> (tu_quit_armed m, [CmdToastTick])
      | StatusRefreshTick \<Rightarrow> (tu_quit_armed m, [CmdStatusTick])
      | _ \<Rightarrow> (tu_quit_armed m, []))"

lemma route_key_does: "does (fst (watched_of an (KeyMsg k) m)) (snd (watched_of an (KeyMsg k) m)) (route_key env an k m)"
proof (cases "km_name k = ''ctrl+c'' \<and> tu_mode m \<noteq> ModeEmbeddedAttach")
  case True
  then show ?thesis by (simp add: route_key_def watched_of_def handle_ctrl_c_def armed_def quit_request_does)
next
  case False
  let ?m = "m\<lparr>tu_quit_armed := zero_time\<rparr>"
  note qs = route_normal_does [of ?m] pickers_do [of ?m] bars_do [of ?m] log_focus_does [of ?m] attach_does(1) [of ?m]
  have "route_key env an k m = (case tu_mode m of
      ModeNormal \<Rightarrow> route_normal env an k ?m | ModeHelp \<Rightarrow> route_help k ?m | ModeGroupPicker \<Rightarrow> route_group_picker k ?m
    | ModeBranchPicker \<Rightarrow> route_branch_picker env k ?m | ModeFilter \<Rightarrow> route_filter env k ?m
    | ModeCommand \<Rightarrow> route_command env k ?m
    | ModeAttach \<Rightarrow> stay (if matches [''esc''] k then ?m\<lparr>tu_mode := ModeNormal\<rparr> else ?m)
    | ModeEmbeddedAttach \<Rightarrow> route_embedded_attach env an k ?m | ModeLogFocus \<Rightarrow> route_log_focus env an k ?m)"
    using False by (auto simp: route_key_def Let_def)
  moreover have "fst (watched_of an (KeyMsg k) m) = zero_time" "snd (watched_of an (KeyMsg k) m) = []"
    using False by (auto simp: watched_of_def)
  ultimately show ?thesis using qs [simplified] by (cases "tu_mode m") simp_all
qed

lemma quits_frame [simp]: "quits t (m\<lparr>tu_mode := md\<rparr>) = quits t m" "quit_cmd (m\<lparr>tu_mode := md\<rparr>) = quit_cmd m"
  by (simp_all add: quits_def quit_cmd_def grace_of_def)

lemma filter_commit_does: "does (tu_quit_armed m) [] (handle_filter_commit env an txt m)"
  by (auto simp: handle_filter_commit_def Let_def intro!: does_bind) (auto simp: does_def split: option.splits prod.splits)

lemma overlay_does:
  "does (tu_quit_armed m) (snd (watched_of an (FromOverlay om) m)) (handle_overlay env an om m)"
proof (cases om)
  case (CommandRun t)
  then show ?thesis using dispatch_does [of "m\<lparr>tu_mode := ModeNormal\<rparr>" t env an]
    by (cases "quits t m") (simp_all add: handle_overlay_def watched_of_def)
qed (simp_all add: handle_overlay_def watched_of_def filter_commit_does handle_start_group_def handle_checkout_branch_def
    watched_defs)

lemma watched_append: "watched (cs @ ds) = watched cs @ watched ds"
  by (simp add: watched_def)

lemma status_refresh_does: "does (tu_quit_armed m) [CmdStatusTick] (handle_status_refresh m)"
  by (auto simp: handle_status_refresh_def Let_def watched_defs split: option.split)

lemma mouse_msg_does: "does (tu_quit_armed m) [] (handle_mouse_msg env an mv m)"
  by (simp add: handle_mouse_msg_def attach_does split: option.split)

lemma handle_msg_does: "does (fst (watched_of an msg m)) (snd (watched_of an msg m)) (handle_msg env an msg m)"
proof (cases msg)
  case (KeyMsg k)
  then show ?thesis using route_key_does by (simp add: handle_msg_def)
next
  case (FromOverlay om)
  then show ?thesis using overlay_does by (simp add: handle_msg_def watched_of_def)
next
  case LogTick
  have "does (tu_quit_armed m) [] (refresh_log_panel env m)" by simp
  then have "does (tu_quit_armed m) [CmdLogTick] (map_option (\<lambda>(m1, cs). (m1, cs @ [CmdLogTick])) (refresh_log_panel env m))"
    by (rule does_map) (simp_all add: watched_append watched_defs)
  then show ?thesis by (simp add: LogTick handle_msg_def watched_of_def)
next
  case (Copied l c)
  have "does (tu_quit_armed m) [] (on_panel env Unselect m)" by simp
  then have "does (tu_quit_armed m) [] (map_option (apfst (toast an (copied_text l c) toast_info)) (on_panel env Unselect m))"
    by (rule does_map) simp_all
  then show ?thesis by (simp add: Copied handle_msg_def watched_of_def)
qed (simp_all add: handle_msg_def watched_of_def resize_does mouse_msg_does handle_runtime_changed_def handle_start_group_def
      status_refresh_does attach_does handle_config_edited_def handle_reload_result_def split: option.split, simp_all add: watched_defs)

fun last_key :: "(answers \<times> tui_msg) list \<Rightarrow> (answers \<times> key_msg) option" where
  "last_key [] = None"
| "last_key (x # xs) =
     (case last_key xs of
        Some r \<Rightarrow> Some r
      | None \<Rightarrow> (case snd x of KeyMsg k \<Rightarrow> Some (fst x, k) | _ \<Rightarrow> None))"

lemma no_quit_watched: "list_ex is_quit cs = list_ex is_quit (watched cs)"
  by (auto simp: list_ex_iff watched_def)

lemma armed_by_last_key:
  assumes "tui_run env xs m0 = Some (m, cs)" "\<not> list_ex is_quit cs"
  shows "(last_key xs = None \<and> tu_quit_armed m = tu_quit_armed m0)
    \<or> (\<exists>an1 k1. last_key xs = Some (an1, k1)
        \<and> (is_zero_time (tu_quit_armed m) \<or> km_name k1 = ''ctrl+c'' \<and> tu_quit_armed m = an_now an1))"
  using assms
proof (induction env xs m0 arbitrary: cs rule: tui_run.induct)
  case (2 env an msg xs m0)
  obtain m1 cs1 cs2 where s: "handle_msg env an msg m0 = Some (m1, cs1)" "tui_run env xs m1 = Some (m, cs2)" "cs = cs1 @ cs2"
    using 2(2) by (auto simp: bind_eq_Some_conv)
  have nq: "\<not> list_ex is_quit cs1" "\<not> list_ex is_quit cs2" using 2(3) s(3) by (simp_all add: list_ex_iff)
  have w: "tu_quit_armed m1 = fst (watched_of an msg m0)" "watched cs1 = snd (watched_of an msg m0)"
    using handle_msg_does [of an msg m0 env] s(1) by simp_all
  have arm: "(\<exists>k. msg = KeyMsg k \<and> (is_zero_time (tu_quit_armed m1) \<or> km_name k = ''ctrl+c'' \<and> tu_quit_armed m1 = an_now an))
      \<or> (\<nexists>k. msg = KeyMsg k) \<and> tu_quit_armed m1 = tu_quit_armed m0"
    using w nq(1) by (auto simp: no_quit_watched [of cs1] watched_of_def is_quit_def quit_cmd_def zero_time_def is_zero_time_def
        split: tui_msg.splits if_splits)
  show ?case using 2(1) [OF s(1) refl s(2) nq(2)] arm by (auto split: tui_msg.splits)
qed simp

section \<open>Properties\<close>

definition demo_project :: project where
  "demo_project = \<lparr>p_path = ''/srv'', p_cmd = ''run'', p_restart = ''never'', p_env = [], p_env_file = []\<rparr>"

definition demo_cfg :: config where
  "demo_cfg = \<lparr>c_projects = [(''api'', demo_project), (''web'', demo_project)], c_groups = [(''all'', [''api'', ''web''])],
     c_settings = default_settings\<rparr>"

definition named :: "key_type \<Rightarrow> string \<Rightarrow> key_msg" where
  "named ty s = \<lparr>km_type = ty, km_runes = [], km_alt = False, km_paste = False, km_name = s\<rparr>"

definition demo_tui :: "(unit, bytes) tui" where
  "demo_tui = new_tui demo_env demo_cfg (rs_seed [''api'', ''web''] new_runtime_store) new_ui_store
     (new_registry (ring_only_settings 10), \<lambda>_. None) ''c.yml'' False"


definition pane_idle :: "('em, 'ti) tui \<Rightarrow> bool" where
  "pane_idle m \<longleftrightarrow> \<not> lp_in_copy (tu_panel m) \<and> \<not> has_selection (tu_panel m) \<and> \<not> lp_pressed (tu_panel m)"

lemma idle_fits:
  assumes "pane_idle m" "tu_mode m \<noteq> ModeLogFocus"
  shows "msg_fits env msg m"
  using assms
  by (simp add: msg_fits_def refresh_fits_def lines_fit_def event_fits_def cursors_fit_def pane_idle_def list_all_iff
      split: tui_msg.split overlay_msg.split)

definition demo_msgs :: "(answers \<times> tui_msg) list" where
  "demo_msgs = [(demo_an 1, KeyMsg (typed 58)), (demo_an 2, KeyMsg (typed 113)),
     (demo_an 3, KeyMsg (named KeyEnter ''enter'')), (demo_an 4, LogTick)]"

lemma chars_typed: "char_of (58 :: nat) = CHR '':''" "char_of (113 :: nat) = CHR ''q''"
  by code_simp+

lemma runes_typed: "runes_text [113] = ''q''"
  by (simp add: runes_text_def utf8_def valid_rune_def chars_typed)

lemmas run_exec = demo_msgs_def handle_msg_def route_key_def route_normal_def matches_def typed_def named_def chars_typed
  Let_def demo_tui_def new_tui_def init_tui_def demo_an_def refresh_log_panel_def sb_selected_def empty_sidebar_def
  route_command_def ci_update_def ci_show_def ci_hide_def new_command_input_def demo_env_def demo_ti_def leave_if_def
  overlay_cmd_def runes_typed

lemma demo_run:
  "\<exists>m. tui_run demo_env demo_msgs (fst (init_tui demo_tui)) = Some (m, [CmdOverlay (CommandRun ''q''), CmdLogTick])
     \<and> tu_detach_mode m = False \<and> tu_quit_armed m = zero_time"
  by (simp add: run_exec)

lemma demo_fits: "run_fits_msgs demo_env demo_msgs (fst (init_tui demo_tui))"
  by (simp add: run_exec idle_fits pane_idle_def new_log_panel_def has_selection_def no_selection_def)


text \<open>C12: The interface ends only on request: in any run, the first message that makes it quit is a command of the bar
  that says so, or a second Ctrl+C at most two seconds after a first one, with no other key in between.\<close>

theorem quit_needs_intent:
  assumes "tui_run env xs m0 = Some (m, cs)" "\<not> list_ex is_quit cs" "is_zero_time (tu_quit_armed m0)"
    and "handle_msg env an msg m = Some (m1, cs1)" "list_ex is_quit cs1"
  shows "(\<exists>t. msg = FromOverlay (CommandRun t)
        \<and> join_with '' '' (words_of t) \<in> {''q'', ''quit'', ''shutdown'', ''detach''})
    \<or> (\<exists>k an1 k1. msg = KeyMsg k \<and> km_name k = ''ctrl+c'' \<and> last_key xs = Some (an1, k1) \<and> km_name k1 = ''ctrl+c''
        \<and> an_now an - an_now an1 \<le> quit_arm_window)"
proof -
  have "watched cs1 = snd (watched_of an msg m)" using handle_msg_does [of an msg m env] assms(4) by simp
  then have "list_ex is_quit (snd (watched_of an msg m))" using assms(5) by (simp add: no_quit_watched [of cs1])
  then consider t where "msg = FromOverlay (CommandRun t)" "quits t m"
    | k where "msg = KeyMsg k" "km_name k = ''ctrl+c''" "armed an m"
    by (auto simp: watched_of_def is_quit_def split: tui_msg.splits overlay_msg.splits if_splits)
  then show ?thesis
  proof cases
    case 1
    then show ?thesis by (auto simp: quits_def Let_def)
  next
    case 2
    then show ?thesis using armed_by_last_key [OF assms(1,2)] assms(3) by (auto simp: armed_def)
  qed
qed

definition ctrl_c :: key_msg where "ctrl_c = named (KeyCtrl CHR ''c'') ''ctrl+c''"

theorem quit_needs_intent_witness:
  "\<exists>m m1 an1 k1. tui_run demo_env [(demo_an 1, KeyMsg ctrl_c)] demo_tui = Some (m, [])
     \<and> handle_msg demo_env (demo_an 2) (KeyMsg ctrl_c) m = Some (m1, [CmdGracefulQuit (5 * second)])
     \<and> last_key [(demo_an 1, KeyMsg ctrl_c)] = Some (an1, k1) \<and> km_name k1 = ''ctrl+c''
     \<and> an_now (demo_an 2) - an_now an1 \<le> quit_arm_window"
proof -
  let ?m = "demo_tui\<lparr>tu_quit_armed := 1, tu_toasts := toast_add_ttl 1 ''Press Ctrl+C again to quit'' toast_warn quit_arm_window []\<rparr>"
  have "is_zero_time 0" "\<not> is_zero_time 1" "1 \<le> quit_arm_window" by code_simp+
  note z = this
  have z0: "tu_quit_armed demo_tui = 0" "tu_mode demo_tui = ModeNormal" "tu_toasts demo_tui = []" "\<not> tu_detach_mode demo_tui"
    "grace_of demo_tui = 5 * second" by code_simp+
  have r: "tui_run demo_env [(demo_an 1, KeyMsg ctrl_c)] demo_tui = Some (?m, [])"
    using z z0 by (simp add: handle_msg_def route_key_def ctrl_c_def named_def handle_ctrl_c_def demo_an_def)
  have h: "handle_msg demo_env (demo_an 2) (KeyMsg ctrl_c) ?m = Some (?m\<lparr>tu_quit_reason := QuitDetach\<rparr>, [CmdGracefulQuit (5 * second)])"
    using z z0 by (simp add: handle_msg_def route_key_def ctrl_c_def named_def handle_ctrl_c_def demo_an_def handle_quit_request_def
        grace_of_def)
  have "\<exists>an1 k1. last_key [(demo_an 1, KeyMsg ctrl_c)] = Some (an1, k1) \<and> km_name k1 = ''ctrl+c''
      \<and> an_now (demo_an 2) - an_now an1 \<le> quit_arm_window"
    using quit_needs_intent [OF r _ _ h] z z0 by (simp add: is_quit_def)
  then show ?thesis using r h by blast
qed

section \<open>The clocks\<close>

text \<open>
  The program with its pending commands: a message comes from outside or answers a pending command, in any order; some
  commands end without an answer; and the other goroutines change the stores and the emulator meanwhile.
\<close>

datatype clock = LogClock | ToastClock | StatusClock | RuntimeClock

definition msg_clock :: "tui_msg \<Rightarrow> clock option" where
  "msg_clock x =
     (case x of LogTick \<Rightarrow> Some LogClock | ToastExpired \<Rightarrow> Some ToastClock | StatusRefreshTick \<Rightarrow> Some StatusClock
      | RuntimeChanged snap \<Rightarrow> Some RuntimeClock | _ \<Rightarrow> None)"

definition cmd_clock :: "tui_cmd \<Rightarrow> clock option" where
  "cmd_clock c =
     (case c of CmdSend x \<Rightarrow> msg_clock x | CmdLogTick \<Rightarrow> Some LogClock | CmdToastTick \<Rightarrow> Some ToastClock
      | CmdStatusTick \<Rightarrow> Some StatusClock | CmdWatchRuntime \<Rightarrow> Some RuntimeClock | _ \<Rightarrow> None)"

definition may_stay_silent :: "tui_cmd \<Rightarrow> bool" where
  "may_stay_silent c =
     (case c of CmdStart i \<Rightarrow> True | CmdRestart i \<Rightarrow> True | CmdStop i g \<Rightarrow> True | CmdStopAll g \<Rightarrow> True
      | CmdRefreshVT \<Rightarrow> True | CmdWatchErr \<Rightarrow> True | CmdQuit \<Rightarrow> True | CmdGracefulQuit g \<Rightarrow> True | _ \<Rightarrow> False)"

inductive tui_sys ::
  "('em, 'st, 'ti) tui_env \<Rightarrow> ('em, 'ti) tui \<Rightarrow> ('em, 'ti) tui \<Rightarrow> tui_cmd multiset \<Rightarrow> bool" for env m0 where
  start: "init_tui m0 = (m, cs) \<Longrightarrow> tui_sys env m0 m (mset cs)"
| outside: "tui_sys env m0 m p \<Longrightarrow> from_outside x \<Longrightarrow> handle_msg env an x m = Some (m1, cs)
    \<Longrightarrow> tui_sys env m0 m1 (p + mset cs)"
| answer: "tui_sys env m0 m p \<Longrightarrow> c \<in># p \<Longrightarrow> cmd_may c x \<Longrightarrow> handle_msg env an x m = Some (m1, cs)
    \<Longrightarrow> tui_sys env m0 m1 (p - {#c#} + mset cs)"
| silent: "tui_sys env m0 m p \<Longrightarrow> c \<in># p \<Longrightarrow> may_stay_silent c \<Longrightarrow> tui_sys env m0 m (p - {#c#})"
| others: "tui_sys env m0 m p
    \<Longrightarrow> tui_sys env m0 (m\<lparr>tu_rt := rt, tu_reg := reg, tu_attach := map_option f (tu_attach m)\<rparr>) p"

definition pending_of :: "clock \<Rightarrow> tui_cmd multiset \<Rightarrow> nat" where
  "pending_of k p = size (filter_mset (\<lambda>c. cmd_clock c = Some k) p)"

lemma may_clock: "cmd_may c x \<Longrightarrow> cmd_clock c = msg_clock x"
  by (cases c) (auto simp: cmd_may_def cmd_clock_def msg_clock_def says_def split: tui_msg.splits)

lemma outside_clock: "from_outside x \<Longrightarrow> msg_clock x = None"
  by (simp add: from_outside_def msg_clock_def split: tui_msg.splits)

lemma silent_clock: "may_stay_silent c \<Longrightarrow> cmd_clock c = None"
  by (simp add: may_stay_silent_def cmd_clock_def split: tui_cmd.splits)

lemma clock_watched: "filter (\<lambda>c. cmd_clock c = Some k) (watched cs) = filter (\<lambda>c. cmd_clock c = Some k) cs"
proof -
  have "is_clock c" if "cmd_clock c = Some k" for c
    using that by (auto simp: cmd_clock_def is_clock_def is_clock_msg_def msg_clock_def split: tui_cmd.splits tui_msg.splits)
  then show ?thesis by (auto simp: watched_def intro!: filter_cong)
qed

lemma step_clock:
  assumes "handle_msg env an x m = Some (m1, cs)"
  shows "pending_of k (mset cs) = (if msg_clock x = Some k then 1 else 0)"
proof -
  have "watched cs = snd (watched_of an x m)" using handle_msg_does [of an x m env] assms by simp
  then have "filter (\<lambda>c. cmd_clock c = Some k) cs = filter (\<lambda>c. cmd_clock c = Some k) (snd (watched_of an x m))"
    using clock_watched by metis
  moreover have "length (filter (\<lambda>c. cmd_clock c = Some k) (snd (watched_of an x m))) = (if msg_clock x = Some k then 1 else 0)"
    by (cases x) (auto simp: watched_of_def msg_clock_def cmd_clock_def quit_cmd_def split: overlay_msg.split)
  ultimately show ?thesis by (simp add: pending_of_def flip: mset_filter)
qed

lemma pending_of_union [simp]: "pending_of k (p + q) = pending_of k p + pending_of k q"
  by (simp add: pending_of_def)

lemma pending_of_remove:
  "c \<in># p \<Longrightarrow> pending_of k p = pending_of k (p - {#c#}) + (if cmd_clock c = Some k then 1 else 0)"
  by (auto simp: pending_of_def dest!: multi_member_split)

text \<open>C14: Every clock ticks exactly once at a time: in every reachable state, whatever came in which order, one tick of the
  log refresh, one of the toasts and one of the status bar is on its way, so none stops and none multiplies; and two
  deliveries of the runtime snapshot are.\<close>

theorem clocks_tick_once:
  assumes "tui_sys env m0 m p"
  shows "pending_of k p = (if k = RuntimeClock then 2 else 1)"
  using assms
proof induction
  case (start m cs)
  then show ?case by (cases k) (auto simp: init_tui_def pending_of_def cmd_clock_def msg_clock_def)
next
  case (outside m p x an m1 cs)
  then show ?case using step_clock [OF outside(3), of k] outside_clock by simp
next
  case (answer m p c x an m1 cs)
  then show ?case unfolding pending_of_union
    using step_clock [OF answer(4), of k] may_clock [OF answer(3)] pending_of_remove [OF answer(2), of k] by (simp split: if_splits)
next
  case (silent m p c)
  then show ?case using silent_clock pending_of_remove [OF silent(2), of k] by simp
qed simp

theorem clocks_tick_once_witness:
  "\<exists>m p. tui_sys demo_env demo_tui m p \<and> tu_toasts m = [] \<and> pending_of ToastClock p = 1"
proof -
  let ?m = "fst (init_tui demo_tui)"
  let ?p = "mset (snd (init_tui demo_tui))"
  have s: "tui_sys demo_env demo_tui ?m ?p" by (rule tui_sys.start) simp
  have c: "CmdToastTick \<in># ?p" by (simp add: init_tui_def)
  have t: "tu_toasts ?m = []" by (simp add: init_tui_def demo_tui_def new_tui_def)
  have h: "handle_msg demo_env (demo_an 1) ToastExpired ?m = Some (?m\<lparr>tu_toasts := []\<rparr>, [CmdToastTick])"
    using t by (simp add: handle_msg_def toast_prune_def)
  have "tui_sys demo_env demo_tui (?m\<lparr>tu_toasts := []\<rparr>) (?p - {#CmdToastTick#} + mset [CmdToastTick])"
    by (rule tui_sys.answer [OF s c _ h]) (simp add: cmd_may_def)
  note r = this
  show ?thesis using clocks_tick_once [OF r, of ToastClock] r by (intro exI conjI) (assumption, simp, simp)
qed

section \<open>Leaving the embedded terminal\<close>

lemma refresh_attach:
  "refresh_log_panel env m = Some (m1, cs) \<Longrightarrow> tu_attach m1 = tu_attach m \<and> tu_mode m1 = tu_mode m"
  by (auto simp: refresh_log_panel_def on_panel_def Let_def split: prod.splits if_splits)

lemma attach_end_leaves:
  assumes "tui_ok env m" "refresh_fits env m"
  shows "\<exists>m1 cs. handle_msg env an (EmbeddedAttachEnded why) m = Some (m1, cs) \<and> tu_attach m1 = None \<and> tu_mode m1 = ModeNormal"
proof -
  obtain m1 cs where r: "handle_embedded_attach_end env an why m = Some (m1, cs)"
    using attach_end_ok [OF assms, of an why] by (auto elim: step_okE)
  then show ?thesis using refresh_attach by (fastforce simp: handle_msg_def handle_embedded_attach_end_def Let_def)
qed

lemma send_bytes_detector: "send_bytes w fl s = (e, s1) \<Longrightarrow> ss_detector s1 = ss_detector s"
  by (auto simp: send_bytes_def tee_write_def split: if_splits option.splits)

lemma first_esc:
  assumes "km_type k = KeyEsc" "\<not> km_paste k" "attach_key lib w t k s = (c, s1)"
  shows "(\<exists>why. c = EndSession why) \<or> ss_detector s1 = kd_arm t (ss_detector s)"
proof -
  obtain fl d e s2 x y where k: "kd_feed t k (ss_detector s) = ((x, y, fl), d)"
    "send_bytes w fl (s\<lparr>ss_detector := d\<rparr>) = (e, s2)" by (metis prod.exhaust)
  have "y \<or> d = kd_arm t (ss_detector s) \<and> x" using k(1) assms(1) by (auto simp: kd_feed_def Let_def split: if_splits)
  then show ?thesis using assms(2,3) k send_bytes_detector [OF k(2)]
    by (cases e) (auto simp: attach_key_def split: if_splits)
qed

lemma second_esc:
  assumes "km_type k = KeyEsc" "\<not> km_paste k" "kd_armed (ss_detector s)" "t - kd_armed_at (ss_detector s) \<le> kd_timeout (ss_detector s)"
  shows "\<exists>why s1. attach_key lib w t k s = (EndSession why, s1)"
  using assms by (simp add: attach_key_def kd_feed_def kd_clear_def send_bytes_def Let_def)


definition demo_attached :: "(unit, bytes) tui" where
  "demo_attached = demo_tui\<lparr>tu_attach := Some demo_session, tu_mode := ModeEmbeddedAttach\<rparr>"


section \<open>Orders of messages that go wrong\<close>

text \<open>
  \<open>app.go:386\<close>: the pane is refreshed only when the generation of the ring differs from the last one seen, but that was
  the generation of another project's ring.
\<close>

lemma find_stale_pane:
  assumes "tu_mode m = ModeNormal" "sb_selected (sb_down (tu_sidebar m)) = i" "i \<noteq> []"
    and "map_of (reg_m (fst (tu_reg m))) i = Some e" "ring_generation (en_ring e) = tu_log_gen m"
  shows "\<exists>m1. handle_msg env an (KeyMsg (typed 106)) m = Some (m1, []) \<and> selected m1 = i \<and> tu_panel m1 = tu_panel m"
proof -
  have c: "char_of (106 :: nat) = CHR ''j''" by code_simp
  have "reg_get (te_faults env) i (tu_reg m) = (e, tu_reg m)" using assms(4) by (cases "tu_reg m") (simp add: reg_get_def)
  then show ?thesis using assms
    by (simp add: handle_msg_def route_key_def route_normal_def matches_def typed_def c move_selection_def refresh_log_panel_def
        sync_to_store_def Let_def)
qed

text \<open>
  \<open>handlers.go:117\<close>: the answer of a bar that has been left resets the mode whatever it is by then. An embedded session
  can then neither be typed to nor be left, and a new one is refused.
\<close>

lemma find_session_unreachable:
  assumes "tu_mode m = ModeEmbeddedAttach" "tu_attach m = Some s"
  shows "\<exists>m1. handle_msg env an (FromOverlay FilterCancel) m = Some (m1, []) \<and> tu_mode m1 = ModeNormal \<and> tu_attach m1 = Some s
    \<and> (running i m1 \<longrightarrow> (\<exists>m2. handle_msg env an (EmbeddedAttachRequest i) m1 = Some (m2, []) \<and> tu_mode m2 = ModeNormal))"
  using assms by (simp add: handle_msg_def handle_overlay_def handle_embedded_attach_request_def)

text \<open>\<open>handlers.go:576\<close>: until the list of branches arrives, Enter checks out the first entry of a made-up list.\<close>

lemma find_placeholder_checkout:
  assumes "tu_mode m = ModeNormal" "selected m \<noteq> []" "project_dir (selected m) m = Some dir"
    and "tu_branch m = new_branch_picker (te_lower env) []"
  shows "\<exists>m1 m2. handle_msg env a1 (KeyMsg (typed 99)) m = Some (m1, [CmdBranches dir])
    \<and> handle_msg env a2 (KeyMsg (named KeyEnter ''enter'')) m1 = Some (m2, [CmdOverlay (CheckoutBranch ''main'')])"
proof -
  have c: "char_of (99 :: nat) = CHR ''c''" by code_simp
  have b: "rebuild_filter (te_lower env) \<lparr>bp_branches = [''main'', ''dev''], bp_filtered = [], bp_filter = [], bp_cursor = 0,
      bp_visible = False\<rparr> = \<lparr>bp_branches = [''main'', ''dev''], bp_filtered = [0, 1], bp_filter = [], bp_cursor = 0,
      bp_visible = False\<rparr>"
    by (simp add: rebuild_filter_def Let_def numeral_2_eq_2 upt_rec)
  let ?m1 = "m\<lparr>tu_quit_armed := zero_time, tu_mode := ModeBranchPicker\<rparr>"
  have "handle_msg env a1 (KeyMsg (typed 99)) m = Some (?m1, [CmdBranches dir])" using assms
    by (auto simp: handle_msg_def route_key_def route_normal_def matches_def typed_def c handle_branch_picker_open_def
        project_dir_def Let_def)
  moreover have "\<exists>m2. handle_msg env a2 (KeyMsg (named KeyEnter ''enter'')) ?m1 = Some (m2, [CmdOverlay (CheckoutBranch ''main'')])"
    using assms(4)
    by (simp add: handle_msg_def route_key_def named_def matches_def Let_def route_branch_picker_def bp_update_def
        new_branch_picker_def b overlay_cmd_def)
  ultimately show ?thesis by blast
qed

text \<open>\<open>handlers.go:180\<close>: the list opens the picker although the mode has been left; its keys then go to the sidebar.\<close>

lemma find_picker_without_keys:
  assumes "tu_mode m = ModeNormal"
  shows "\<exists>m1. handle_msg env an (BranchesLoaded bs) m = Some (m1, []) \<and> tu_mode m1 = ModeNormal \<and> bp_visible (tu_branch m1)
    \<and> (\<exists>m2. handle_msg env an (KeyMsg esc_key) m1 = Some (m2, []) \<and> bp_visible (tu_branch m2))"
  using assms
  by (simp add: handle_msg_def bp_show_def bp_refilter_def set_branches_def rebuild_filter_def Let_def route_key_def route_normal_def
      matches_def esc_key_def digit_key_def)

text \<open>\<open>pump.go:32\<close>: a subscription of the runtime store is added for each change and none is ever removed.\<close>

lemma find_subscriptions_leak:
  "tui_run env (map (\<lambda>snap. (an, RuntimeChanged snap)) snaps) m = Some (m1, cs)
    \<Longrightarrow> length (rs_subs (tu_rt m1)) = length (rs_subs (tu_rt m)) + length snaps"
proof (induction snaps arbitrary: m cs)
  case (Cons snap snaps)
  then show ?case
    by (auto simp: handle_msg_def handle_runtime_changed_def rs_subscribe_def bind_eq_Some_conv)
qed simp

text \<open>\<open>edit_config.go:76\<close>: a reload replaces the configuration, but the group picker keeps the groups of the start.\<close>

lemma find_groups_stale: "reload_config an m = Some (m1, cs) \<Longrightarrow> tu_group m1 = tu_group m"
  by (auto simp: reload_config_def apply_reload_result_def toast_def Let_def split: if_splits sum.splits)

text \<open>
  \<open>routing.go:318\<close>: after an Esc that clears a selection the next one only arms, so the double Esc of the manual takes
  three; and Ctrl+C between two Esc does not disarm them, although any other key should.
\<close>

lemma find_ctrl_c_keeps_armed:
  assumes "tu_mode m = ModeLogFocus" "handle_msg env an (KeyMsg ctrl_c) m = Some (m1, cs)"
  shows "tu_esc_armed m1 = tu_esc_armed m"
  using assms
  by (auto simp: handle_msg_def route_key_def ctrl_c_def named_def handle_ctrl_c_def handle_quit_request_def split: if_splits)

lemma find_third_esc:
  assumes "tu_mode m = ModeLogFocus" "snd (clear_pending (tu_panel m)) \<or> has_selection (tu_panel m)"
    and "handle_msg env an (KeyMsg esc_key) m = Some (m1, cs)"
  shows "tu_mode m1 = ModeLogFocus \<and> is_zero_time (tu_esc_armed m1)"
  using assms on_panel_frame
  by (fastforce simp: handle_msg_def route_key_def esc_key_def route_log_focus_def matches_def disarm_esc_def is_zero_time_def
      zero_time_def Let_def split: if_splits)

text \<open>\<open>routing.go:271\<close>: Ctrl+C is tested as a key that closes the help, but it never gets there.\<close>

lemma find_help_ctrl_c:
  assumes "tu_mode m = ModeHelp"
  shows "\<exists>m1 cs. handle_msg env an (KeyMsg ctrl_c) m = Some (m1, cs) \<and> tu_mode m1 = ModeHelp \<and> tu_help m1 = tu_help m"
  using assms by (simp add: handle_msg_def route_key_def ctrl_c_def named_def handle_ctrl_c_def handle_quit_request_def)

text \<open>\<open>handlers.go:379\<close>: detaching from a project whose name contains \<open>fail\<close> or \<open>error\<close> is shown as an error.\<close>

lemma find_detach_looks_failed:
  "map_option (\<lambda>(m, c). map (\<lambda>t. (to_text t, to_level t)) (tu_toasts m))
     (handle_embedded_attach_end demo_env (demo_an 1) ''detached from failover'' demo_tui)
   = Some [(''detached from failover'', toast_err)]"
  by code_simp

text \<open>\<open>handlers.go:584\<close>: the blanks of a path are collapsed before the file is written.\<close>

lemma find_write_path:
  "join_with '' '' (words_of ''w my  log'') = ''w my log''"
  by code_simp

section \<open>The key map\<close>

text \<open>No key is bound twice among the bindings of the normal mode, so the order of the tests does not matter, and every
  binding but Enter is in the help.\<close>

definition routed :: "binding list" where
  "routed = [KbCommand, KbHelp, KbFilter, KbGroupPicker, KbBranchPicker, KbGitFetch, KbGitPull, KbNextMatch, KbPrevMatch, KbUp,
     KbDown, KbStart, KbRestart, KbStop, KbAttach, KbClearLog, KbEditConfig, KbStopAll, KbPageUp, KbPageDown, KbTop, KbBottom,
     KbCopyEnter, KbQuickJump, KbQuit, KbEsc]"

theorem keys_unambiguous: "distinct (concat (map default_keys routed)) \<and> set routed \<subseteq> set (concat full_help)"
  by code_simp

end
