(* ===== verification/View.thy ===== *)
theory View
  imports Tui
begin

text \<open>
  What the interface draws: \<open>View\<close> of the root model (\<open>internal/tui/app.go\<close>), of the panes and of the overlays, down
  to the styles. lipgloss, the help table and the text input are parameters.
\<close>

section \<open>Styles\<close>

text \<open>A style is the list of the setters that made it.\<close>

datatype attr =
    Bold | Background nat | Foreground nat | RoundedBorder | BorderForeground nat | Padding nat nat | PaddingBottom nat
  | MarginBottom nat | StyleWidth int | StyleHeight int | MaxWidth int | MaxHeight int

type_synonym style = "attr list"

text \<open>
  lipgloss renders a style and joins blocks side by side at the top or below each other at the left; \<open>lg_truncate\<close> is
  \<open>ansi.Truncate\<close> with a tail, \<open>lg_input\<close> the view of the text input, \<open>lg_help\<close> the table of key bindings.
\<close>

record 'ti lipgloss =
  lg_render :: "style \<Rightarrow> bytes \<Rightarrow> bytes"
  lg_join_top :: "bytes list \<Rightarrow> bytes"
  lg_join_left :: "bytes list \<Rightarrow> bytes"
  lg_truncate :: "bytes \<Rightarrow> int \<Rightarrow> bytes \<Rightarrow> bytes"
  lg_input :: "'ti \<Rightarrow> bytes"
  lg_help :: "int \<Rightarrow> binding list list \<Rightarrow> bytes"
  lg_wl :: width_lib

definition newline :: char where "newline = CHR 0x0A"

definition text_lines :: "bytes \<Rightarrow> bytes list" where
  "text_lines s = split_on newline [] s"

section \<open>The sidebar\<close>

definition style_selected :: style where "style_selected = [Bold, Background 62, Foreground 255]"
definition style_normal :: style where "style_normal = [Foreground 252]"
definition style_quick_jump_prefix :: style where "style_quick_jump_prefix = [Foreground 240]"
definition style_title :: style where "style_title = [Bold, Foreground 212, PaddingBottom 1]"
definition style_border :: style where "style_border = [RoundedBorder, BorderForeground 238]"
definition style_border_dim :: style where "style_border_dim = [RoundedBorder, BorderForeground 236]"

fun style_glyph :: "glyph \<Rightarrow> style" where
  "style_glyph GlyphRunning = [Foreground 40]"
| "style_glyph GlyphIdle = [Foreground 240]"
| "style_glyph GlyphStarting = [Foreground 220]"
| "style_glyph GlyphStopping = [Foreground 220]"
| "style_glyph GlyphCrashed = [Foreground 196]"
| "style_glyph GlyphRestarting = [Foreground 51]"
| "style_glyph GlyphGivingUp = [Foreground 196]"

fun glyph_text :: "glyph \<Rightarrow> bytes" where
  "glyph_text GlyphRunning = utf8 0x25CF"
| "glyph_text GlyphIdle = utf8 0x25EF"
| "glyph_text GlyphStarting = utf8 0x2026"
| "glyph_text GlyphStopping = utf8 0x2026"
| "glyph_text GlyphCrashed = utf8 0x2715"
| "glyph_text GlyphRestarting = utf8 0x21BB"
| "glyph_text GlyphGivingUp = utf8 0x26D4"

definition sb_inner :: "sidebar \<Rightarrow> int" where
  "sb_inner s = (if sb_width s - 2 < 1 then 1 else sb_width s - 2)"

definition row_content :: "'ti lipgloss \<Rightarrow> int \<Rightarrow> nat \<Rightarrow> row \<Rightarrow> bytes" where
  "row_content lg inner i r =
     (let g = glyph_for_state (ro_state r)
      in (if i < 9 then lg_render lg style_quick_jump_prefix (show_nat (i + 1) @ '' '') else [])
         @ lg_render lg (style_glyph g) (glyph_text g) @ '' '' @ row_label inner i r)"

definition sidebar_content :: "'ti lipgloss \<Rightarrow> sidebar \<Rightarrow> bytes" where
  "sidebar_content lg s =
     (let inner = sb_inner s;
          draw = (\<lambda>(i, r). lg_render lg ((if int i = sb_cursor s then style_selected else style_normal) @ [StyleWidth inner])
                             (row_content lg inner i r) @ [newline])
      in lg_render lg (style_title @ [StyleWidth inner]) ''PROCESSES'' @ [newline]
         @ concat (map draw (enumerate 0 (sb_rows s)))
         @ (if sb_rows s = [] then lg_render lg (style_normal @ [StyleWidth inner]) ''(no projects)'' @ [newline] else []))"

definition sidebar_view :: "'ti lipgloss \<Rightarrow> sidebar \<Rightarrow> bytes" where
  "sidebar_view lg s =
     lg_render lg ((if sb_focused s then style_border else style_border_dim)
                   @ [StyleWidth (sb_width s - 2), StyleHeight (sb_height s - 2)]) (sidebar_content lg s)"

section \<open>The log pane\<close>

definition style_scroll_rail :: style where "style_scroll_rail = [Foreground 238]"
definition style_scroll_thumb :: style where "style_scroll_thumb = [Foreground 62]"
definition style_panel_border :: style where "style_panel_border = [RoundedBorder, BorderForeground 238]"

definition bar_text :: "'ti lipgloss \<Rightarrow> bar_cell \<Rightarrow> bytes" where
  "bar_text lg c =
     (case c of
        BarBlank \<Rightarrow> '' ''
      | BarRail \<Rightarrow> lg_render lg style_scroll_rail (utf8 0x2502)
      | BarThumb \<Rightarrow> lg_render lg style_scroll_thumb (utf8 0x2588))"

definition window_view :: "'ti lipgloss \<Rightarrow> window \<Rightarrow> bytes" where
  "window_view lg w =
     (let clip = (\<lambda>row. if int (length row) > wi_width w \<and> wl_width (lg_wl lg) row > wi_width w
                        then lg_truncate lg row (wi_width w) [] else row)
      in lg_render lg [StyleWidth (wi_width w), StyleHeight (wi_height w), MaxHeight (wi_height w), MaxWidth (wi_width w)]
           (join_with [newline] (map clip (visible_rows w))))"

definition panel_rows :: "'ti lipgloss \<Rightarrow> log_panel \<Rightarrow> bytes list" where
  "panel_rows lg lp =
     (let inner_h = max 1 (lp_height lp - 2); vp_w = max 1 (lp_width lp - 3);
          drawn = text_lines (window_view lg (lp_win lp));
          padded = drawn @ replicate (nat inner_h - length drawn) (blanks vp_w);
          bar = scrollbar_column inner_h (int (length (lp_raw lp))) (wi_yoff (lp_win lp))
      in map (\<lambda>(l, c). l @ bar_text lg c) (zip (take (nat inner_h) padded) bar))"

definition panel_view :: "'ti lipgloss \<Rightarrow> log_panel \<Rightarrow> bytes" where
  "panel_view lg lp =
     lg_render lg (style_panel_border @ [StyleWidth (lp_width lp - 2), StyleHeight (lp_height lp - 2)])
       (join_with [newline] (panel_rows lg lp))"

section \<open>The status bar\<close>

definition style_bar :: style where "style_bar = [Background 235, Foreground 252]"
definition style_mode_indicator :: style where "style_mode_indicator = [Bold, Background 62, Foreground 255, Padding 0 1]"
definition style_bar_sep :: style where "style_bar_sep = [Foreground 238, Background 235]"
definition style_bar_dim :: style where "style_bar_dim = [Foreground 240, Background 235]"

definition status_text :: "'ti lipgloss \<Rightarrow> status_bar \<Rightarrow> bytes" where
  "status_text lg s =
     (let sep = lg_render lg style_bar_sep ('' '' @ utf8 0x2502 @ '' '');
          seg = (\<lambda>t. sep @ lg_render lg style_bar_dim t); segs = status_segments s
      in lg_render lg style_mode_indicator (st_mode s) @ '' ''
         @ (if st_total s > 0 then lg_render lg style_bar (hd segs) @ concat (map seg (tl segs)) else concat (map seg segs)))"

definition status_view :: "'ti lipgloss \<Rightarrow> status_bar \<Rightarrow> bytes" where
  "status_view lg s =
     (if st_width s \<le> 0 then [] else lg_render lg (style_bar @ [StyleWidth (st_width s)]) (status_text lg s))"

section \<open>Bars, boxes and toasts\<close>

definition style_filter_prompt :: style where "style_filter_prompt = [Foreground 212, Bold]"
definition style_filter_err :: style where "style_filter_err = [Foreground 196]"
definition style_filter_bar :: style where "style_filter_bar = [Background 236, Foreground 252]"
definition style_command_prompt :: style where "style_command_prompt = [Foreground 214, Bold]"
definition style_command_bar :: style where "style_command_bar = [Background 236, Foreground 252]"

definition ellipsis :: bytes where "ellipsis = utf8 0x2026"

definition clip_bar :: "'ti lipgloss \<Rightarrow> int \<Rightarrow> bytes \<Rightarrow> bytes" where
  "clip_bar lg w s = (if wl_width (lg_wl lg) s > w then lg_truncate lg s w ellipsis else s)"

definition filter_view :: "'ti lipgloss \<Rightarrow> int \<Rightarrow> 'ti filter_input \<Rightarrow> bytes" where
  "filter_view lg width0 fi =
     (if \<not> fi_visible fi then []
      else
        (let width = (if width0 \<le> 0 then 80 else width0);
             suffix = (if fi_err fi = [] then [] else ''  '' @ lg_render lg style_filter_err (fi_err fi));
             bar = lg_render lg style_filter_prompt ''/'' @ lg_input lg (fi_ti fi) @ suffix
         in lg_render lg (style_filter_bar @ [StyleWidth width]) (clip_bar lg width bar)))"

definition command_view :: "'ti lipgloss \<Rightarrow> int \<Rightarrow> 'ti command_input \<Rightarrow> bytes" where
  "command_view lg width0 ci =
     (if \<not> ci_visible ci then []
      else
        (let width = (if width0 \<le> 0 then 80 else width0);
             bar = lg_render lg style_command_prompt '':'' @ lg_input lg (ci_ti ci)
         in lg_render lg (style_command_bar @ [StyleWidth width]) (clip_bar lg width bar)))"

definition style_help_box :: style where
  "style_help_box = [RoundedBorder, BorderForeground 62, Padding 1 2, Background 234, Foreground 252]"

definition style_help_title :: style where "style_help_title = [Bold, Foreground 212, MarginBottom 1]"

definition help_view :: "'ti lipgloss \<Rightarrow> int \<Rightarrow> bool \<Rightarrow> bytes" where
  "help_view lg width on =
     (if \<not> on then []
      else
        (let max_w = width - 4; box_w = (if max_w > 0 \<and> 60 > max_w then max_w else 60)
         in lg_render lg style_help_box (lg_render lg style_help_title ''Keybindings'' @ [newline] @ lg_help lg box_w full_help)))"

definition style_picker_box :: style where
  "style_picker_box = [RoundedBorder, BorderForeground 62, Padding 1 2, Background 234, Foreground 252]"

definition style_picker_title :: style where "style_picker_title = [Bold, Foreground 212, MarginBottom 1]"
definition style_picker_selected :: style where "style_picker_selected = [Bold, Foreground 255, Background 62]"
definition style_picker_normal :: style where "style_picker_normal = [Foreground 252]"
definition style_picker_filter :: style where "style_picker_filter = [Foreground 212, MarginBottom 1]"

definition picker_row :: "'ti lipgloss \<Rightarrow> int \<Rightarrow> nat \<times> string \<Rightarrow> bytes" where
  "picker_row lg cursor p =
     (let (i, s) = p
      in (if int i = cursor then lg_render lg style_picker_selected (''> '' @ s)
          else lg_render lg style_picker_normal (''  '' @ s)) @ [newline])"

definition group_view :: "'ti lipgloss \<Rightarrow> group_picker \<Rightarrow> bytes" where
  "group_view lg gp =
     (if \<not> gp_visible gp then []
      else
        (let rows = (if gp_groups gp = [] then lg_render lg style_picker_normal ''(no groups configured)'' @ [newline]
                     else concat (map (picker_row lg (gp_cursor gp)) (enumerate 0 (gp_groups gp))))
         in lg_render lg style_picker_box (lg_render lg style_picker_title ''Start Group'' @ [newline] @ rows)))"

definition branch_view :: "'ti lipgloss \<Rightarrow> branch_picker \<Rightarrow> bytes" where
  "branch_view lg bp =
     (if \<not> bp_visible bp then []
      else
        (let kept = map (\<lambda>i. bp_branches bp ! i) (bp_filtered bp);
             rows = (if kept = [] then lg_render lg style_picker_normal
                                          (if bp_branches bp = [] then ''(no branches)'' else ''(no matches)'') @ [newline]
                     else concat (map (picker_row lg (bp_cursor bp)) (enumerate 0 kept)))
         in lg_render lg style_picker_box
              (lg_render lg style_picker_title ''Checkout Branch'' @ [newline]
               @ lg_render lg style_picker_filter (''/ '' @ bp_filter bp) @ [newline] @ rows)))"

definition style_toast :: "int \<Rightarrow> style" where
  "style_toast level =
     (if level = toast_warn then [Background 130, Foreground 255, Padding 0 1]
      else if level = toast_err then [Background 160, Foreground 255, Padding 0 1]
      else [Background 22, Foreground 255, Padding 0 1])"

definition toasts_view :: "'ti lipgloss \<Rightarrow> int \<Rightarrow> toast_stack \<Rightarrow> bytes" where
  "toasts_view lg width ts =
     (let max_w = (if width \<le> 0 then 80 else width)
      in join_with [newline] (map (\<lambda>t. clip_bar lg max_w (lg_render lg (style_toast (to_level t)) (to_text t))) ts))"

section \<open>The frame\<close>

definition bar_rows :: "('em, 'ti) tui \<Rightarrow> int" where
  "bar_rows m = (if fi_visible (tu_filter m) \<or> ci_visible (tu_command m) then 1 else 0)"

definition content_height :: "('em, 'ti) tui \<Rightarrow> int" where
  "content_height m = tu_height m - status_bar_height - bar_rows m"

text \<open>The sizes are set on the copy of the model that is drawn.\<close>

definition drawn_sidebar :: "('em, 'ti) tui \<Rightarrow> sidebar" where
  "drawn_sidebar m =
     sb_set_focused (tu_mode m \<noteq> ModeLogFocus) (sb_set_size (fst (layout m)) (content_height m) (tu_sidebar m))"

definition drawn_panel :: "('em, 'ti) tui \<Rightarrow> log_panel" where
  "drawn_panel m = set_origin (fst (layout m)) 0 (set_size (fst (snd (layout m))) (content_height m) (tu_panel m))"

definition right_pane :: "('em, 'st, 'ti) tui_env \<Rightarrow> 'st style_lib \<Rightarrow> 'ti lipgloss \<Rightarrow> ('em, 'ti) tui \<Rightarrow> bytes" where
  "right_pane env sl lg m =
     (case (tu_mode m, tu_attach m) of
        (ModeEmbeddedAttach, Some s) \<Rightarrow>
          render_with_selection (te_vt env) sl (vt_em (ss_term s)) (fst (snd (layout m))) (content_height m) (tu_att_sel m)
      | _ \<Rightarrow> panel_view lg (drawn_panel m))"

definition view_base :: "('em, 'st, 'ti) tui_env \<Rightarrow> 'st style_lib \<Rightarrow> 'ti lipgloss \<Rightarrow> ('em, 'ti) tui \<Rightarrow> bytes" where
  "view_base env sl lg m =
     (let main = lg_join_top lg [sidebar_view lg (drawn_sidebar m), right_pane env sl lg m];
          status = status_view lg (view_status m)
      in if ci_visible (tu_command m) then lg_join_left lg [main, command_view lg (tu_width m) (tu_command m), status]
         else if fi_visible (tu_filter m) then lg_join_left lg [main, filter_view lg (tu_width m) (tu_filter m), status]
         else lg_join_left lg [main, status])"

definition centred :: "'ti lipgloss \<Rightarrow> ('em, 'ti) tui \<Rightarrow> bytes \<Rightarrow> bytes \<Rightarrow> bytes" where
  "centred lg m base v = join_with [newline] (overlay_center (lg_wl lg) (text_lines base) (text_lines v) (tu_width m) (tu_height m))"

definition apply_overlay :: "'ti lipgloss \<Rightarrow> ('em, 'ti) tui \<Rightarrow> bytes \<Rightarrow> bytes" where
  "apply_overlay lg m base =
     (let hv = help_view lg (tu_width m) (tu_help m); gv = group_view lg (tu_group m); bv = branch_view lg (tu_branch m)
      in if tu_help m \<and> hv \<noteq> [] then centred lg m base hv
         else if gp_visible (tu_group m) \<and> gv \<noteq> [] then centred lg m base gv
         else if bp_visible (tu_branch m) \<and> bv \<noteq> [] then centred lg m base bv
         else base)"

definition apply_toasts :: "'ti lipgloss \<Rightarrow> ('em, 'ti) tui \<Rightarrow> bytes \<Rightarrow> bytes" where
  "apply_toasts lg m base =
     (let v = toasts_view lg (tu_width m) (tu_toasts m)
      in if v = [] then base
         else join_with [newline] (overlay_bottom_right (lg_wl lg) (text_lines base) (text_lines v) (tu_width m) (tu_height m - 2)))"

definition loading_text :: bytes where "loading_text = ''loading'' @ ellipsis"

definition too_small_text :: "int \<Rightarrow> int \<Rightarrow> bytes" where
  "too_small_text w h =
     ''Terminal too small: '' @ show_int w @ utf8 0xD7 @ show_int h @ '' (need '' @ utf8 0x2265 @ ''60'' @ utf8 0xD7 @ ''10)''"

definition view :: "('em, 'st, 'ti) tui_env \<Rightarrow> 'st style_lib \<Rightarrow> 'ti lipgloss \<Rightarrow> ('em, 'ti) tui \<Rightarrow> bytes" where
  "view env sl lg m =
     (if tu_width m = 0 \<or> tu_height m = 0 then loading_text
      else if tu_width m < 60 \<or> tu_height m < 10 then lg_render lg [Foreground 220] (too_small_text (tu_width m) (tu_height m))
      else apply_toasts lg m (apply_overlay lg m (view_base env sl lg m)))"

end
