(* ===== verification/View_Safety.thy ===== *)
theory View_Safety
  imports View Tui_Safety
begin

text \<open>
  How high the frame is. What lipgloss documents of its boxes is a premise; the frame then has exactly as many lines as
  the terminal as long as the projects fit into the sidebar, and more when they do not.
\<close>

section \<open>Lines\<close>

definition nlines :: "bytes \<Rightarrow> nat" where
  "nlines s = length (text_lines s)"

definition fits :: "(bytes \<Rightarrow> int) \<Rightarrow> int \<Rightarrow> bytes \<Rightarrow> bool" where
  "fits W w s \<longleftrightarrow> list_all (\<lambda>l. W l \<le> w) (text_lines s)"

lemma split_on_both: "split_on c cur (a @ c # b) = split_on c cur a @ split_on c [] b"
  by (induction a arbitrary: cur) auto

lemma text_lines_append: "text_lines (a @ newline # b) = text_lines a @ text_lines b"
  by (simp add: text_lines_def split_on_both)

lemma split_on_none: "c \<notin> set s \<Longrightarrow> split_on c cur s = [cur @ s]"
  by (induction s arbitrary: cur) auto

lemma text_lines_plain: "newline \<notin> set s \<Longrightarrow> text_lines s = [s]"
  by (simp add: text_lines_def split_on_none)

lemma split_on_free: "c \<notin> set cur \<Longrightarrow> \<forall>l \<in> set (split_on c cur s). c \<notin> set l"
proof (induction c cur s rule: split_on.induct)
  case (2 c cur d t)
  show ?case
  proof (cases "d = c")
    case True
    have "\<forall>l \<in> set (split_on c [] t). c \<notin> set l" by (rule 2(1) [OF True]) simp
    then show ?thesis using True 2(3) by simp
  next
    case False
    have "\<forall>l \<in> set (split_on c (cur @ [d]) t). c \<notin> set l" by (rule 2(2) [OF False]) (use False 2(3) in simp)
    then show ?thesis using False by simp
  qed
qed simp

lemma text_lines_free: "l \<in> set (text_lines s) \<Longrightarrow> newline \<notin> set l"
  using split_on_free [of newline "[]" s] by (simp add: text_lines_def)

lemma split_on_not_Nil: "split_on c cur s \<noteq> []"
  by (induction s arbitrary: cur) auto

lemma nlines_append [simp]: "nlines (a @ newline # b) = nlines a + nlines b"
  by (simp add: nlines_def text_lines_append)

lemma nlines_plain: "newline \<notin> set s \<Longrightarrow> nlines s = 1"
  by (simp add: nlines_def text_lines_plain)

lemma fits_append [simp]: "fits W w (a @ newline # b) \<longleftrightarrow> fits W w a \<and> fits W w b"
  by (simp add: fits_def text_lines_append)

lemma fits_plain: "newline \<notin> set s \<Longrightarrow> fits W w s \<longleftrightarrow> W s \<le> w"
  by (simp add: fits_def text_lines_plain)

lemma text_lines_join:
  "ls \<noteq> [] \<Longrightarrow> \<forall>l \<in> set ls. newline \<notin> set l \<Longrightarrow> text_lines (join_with [newline] ls) = ls"
  by (induction "[newline]" ls rule: join_with.induct) (simp_all add: text_lines_plain text_lines_append)

lemma text_lines_rows:
  "\<forall>l \<in> set ls. newline \<notin> set l \<Longrightarrow> text_lines (concat (map (\<lambda>l. l @ [newline]) ls)) = ls @ [[]]"
  unfolding text_lines_def by (rule split_on_lines)

section \<open>What lipgloss promises\<close>

definition colours :: "style \<Rightarrow> bool" where
  "colours st \<longleftrightarrow> list_all (\<lambda>a. case a of Bold \<Rightarrow> True | Background c \<Rightarrow> True | Foreground c \<Rightarrow> True | _ \<Rightarrow> False) st"

definition inline :: "style \<Rightarrow> bool" where
  "inline st \<longleftrightarrow> list_all (\<lambda>a. case a of Bold \<Rightarrow> True | Background c \<Rightarrow> True | Foreground c \<Rightarrow> True
     | Padding v h \<Rightarrow> v = 0 | _ \<Rightarrow> False) st"

definition printable :: "bytes \<Rightarrow> bool" where
  "printable s \<longleftrightarrow> list_all (\<lambda>c. 32 \<le> (of_char c :: nat) \<and> (of_char c :: nat) < 127) s"

text \<open>Blocks: lines of blocks that are joined, boxes with a border, boxes that cut.\<close>

definition block_laws :: "'ti lipgloss \<Rightarrow> bool" where
  "block_laws lg \<longleftrightarrow>
     (\<forall>a b. nlines (lg_join_top lg [a, b]) = max (nlines a) (nlines b))
   \<and> (\<forall>bs. bs \<noteq> [] \<longrightarrow> nlines (lg_join_left lg bs) = sum_list (map nlines bs))
   \<and> (\<forall>c w h s. 0 \<le> h \<longrightarrow> fits (wl_width (lg_wl lg)) w s
        \<longrightarrow> nlines (lg_render lg [RoundedBorder, BorderForeground c, StyleWidth w, StyleHeight h] s) = max (nlines s) (nat h) + 2)
   \<and> (\<forall>w h s. 1 \<le> w \<longrightarrow> 1 \<le> h \<longrightarrow>
        fits (wl_width (lg_wl lg)) w (lg_render lg [StyleWidth w, StyleHeight h, MaxHeight h, MaxWidth w] s))"

text \<open>Lines: a style of colours keeps the width, a set width pads, and a text that fits does not wrap.\<close>

definition line_laws :: "'ti lipgloss \<Rightarrow> bool" where
  "line_laws lg \<longleftrightarrow>
     (\<forall>st s. inline st \<longrightarrow> newline \<notin> set s \<longrightarrow> newline \<notin> set (lg_render lg st s))
   \<and> (\<forall>st s. colours st \<longrightarrow> newline \<notin> set s \<longrightarrow> wl_width (lg_wl lg) (lg_render lg st s) = wl_width (lg_wl lg) s)
   \<and> (\<forall>st w s. colours st \<longrightarrow> newline \<notin> set s \<longrightarrow> wl_width (lg_wl lg) s \<le> w \<longrightarrow>
        newline \<notin> set (lg_render lg (st @ [StyleWidth w]) s) \<and> wl_width (lg_wl lg) (lg_render lg (st @ [StyleWidth w]) s) \<le> w)
   \<and> (\<forall>st w s. colours st \<longrightarrow> newline \<notin> set s \<longrightarrow> wl_width (lg_wl lg) s \<le> w \<longrightarrow>
        nlines (lg_render lg (st @ [PaddingBottom 1, StyleWidth w]) s) = 2
      \<and> fits (wl_width (lg_wl lg)) w (lg_render lg (st @ [PaddingBottom 1, StyleWidth w]) s))"

text \<open>Widths, and the functions that cut at a width.\<close>

definition width_laws :: "'ti lipgloss \<Rightarrow> bool" where
  "width_laws lg \<longleftrightarrow>
     (\<forall>a b. wl_width (lg_wl lg) (a @ b) \<le> wl_width (lg_wl lg) a + wl_width (lg_wl lg) b)
   \<and> (\<forall>s. printable s \<longrightarrow> wl_width (lg_wl lg) s = int (length s))
   \<and> (\<forall>g. wl_width (lg_wl lg) (glyph_text g) \<le> 2)
   \<and> wl_width (lg_wl lg) (utf8 0x2502) = 1 \<and> wl_width (lg_wl lg) (utf8 0x2588) = 1
   \<and> (\<forall>s n. newline \<notin> set s \<longrightarrow> newline \<notin> set (wl_truncate (lg_wl lg) s n))
   \<and> (\<forall>s a b. newline \<notin> set s \<longrightarrow> newline \<notin> set (wl_cut (lg_wl lg) s a b))
   \<and> (\<forall>s n t. newline \<notin> set s \<longrightarrow> newline \<notin> set t \<longrightarrow> 1 \<le> n \<longrightarrow>
        newline \<notin> set (lg_truncate lg s n t) \<and> wl_width (lg_wl lg) (lg_truncate lg s n t) \<le> n)"

definition lipgloss_laws :: "'ti lipgloss \<Rightarrow> bool" where
  "lipgloss_laws lg \<longleftrightarrow> block_laws lg \<and> line_laws lg \<and> width_laws lg"

lemma blockD:
  assumes "lipgloss_laws lg"
  shows "nlines (lg_join_top lg [a, b]) = max (nlines a) (nlines b)"
    and "bs \<noteq> [] \<Longrightarrow> nlines (lg_join_left lg bs) = sum_list (map nlines bs)"
    and "0 \<le> h \<Longrightarrow> fits (wl_width (lg_wl lg)) w s
       \<Longrightarrow> nlines (lg_render lg [RoundedBorder, BorderForeground c, StyleWidth w, StyleHeight h] s) = max (nlines s) (nat h) + 2"
    and "1 \<le> w \<Longrightarrow> 1 \<le> h \<Longrightarrow>
       fits (wl_width (lg_wl lg)) w (lg_render lg [StyleWidth w, StyleHeight h, MaxHeight h, MaxWidth w] s)"
  using assms by (simp_all add: lipgloss_laws_def block_laws_def)

lemma lineD:
  assumes "lipgloss_laws lg" "newline \<notin> set s"
  shows "inline st \<Longrightarrow> newline \<notin> set (lg_render lg st s)"
    and "colours st \<Longrightarrow> wl_width (lg_wl lg) (lg_render lg st s) = wl_width (lg_wl lg) s"
    and "colours st \<Longrightarrow> wl_width (lg_wl lg) s \<le> w \<Longrightarrow> newline \<notin> set (lg_render lg (st @ [StyleWidth w]) s)"
    and "colours st \<Longrightarrow> wl_width (lg_wl lg) s \<le> w \<Longrightarrow> wl_width (lg_wl lg) (lg_render lg (st @ [StyleWidth w]) s) \<le> w"
    and "colours st \<Longrightarrow> wl_width (lg_wl lg) s \<le> w \<Longrightarrow> nlines (lg_render lg (st @ [PaddingBottom 1, StyleWidth w]) s) = 2"
    and "colours st \<Longrightarrow> wl_width (lg_wl lg) s \<le> w \<Longrightarrow>
           fits (wl_width (lg_wl lg)) w (lg_render lg (st @ [PaddingBottom 1, StyleWidth w]) s)"
  using assms by (simp_all add: lipgloss_laws_def line_laws_def)

lemma widthD:
  assumes "lipgloss_laws lg"
  shows "wl_width (lg_wl lg) (a @ b) \<le> wl_width (lg_wl lg) a + wl_width (lg_wl lg) b"
    and "printable s \<Longrightarrow> wl_width (lg_wl lg) s = int (length s)"
    and "wl_width (lg_wl lg) (glyph_text g) \<le> 2"
    and "wl_width (lg_wl lg) (utf8 0x2502) = 1" "wl_width (lg_wl lg) (utf8 0x2588) = 1"
    and "newline \<notin> set s \<Longrightarrow> newline \<notin> set (wl_truncate (lg_wl lg) s n)"
    and "newline \<notin> set s \<Longrightarrow> newline \<notin> set (wl_cut (lg_wl lg) s x y)"
    and "newline \<notin> set s \<Longrightarrow> newline \<notin> set t \<Longrightarrow> 1 \<le> n \<Longrightarrow> newline \<notin> set (lg_truncate lg s n t)"
    and "newline \<notin> set s \<Longrightarrow> newline \<notin> set t \<Longrightarrow> 1 \<le> n \<Longrightarrow> wl_width (lg_wl lg) (lg_truncate lg s n t) \<le> n"
  using assms by (simp_all add: lipgloss_laws_def width_laws_def)

section \<open>The sidebar\<close>

text \<open>The labels are no wider than the room that \<open>View\<close> leaves for them: true of texts of one cell for each rune.\<close>

definition label_room :: "int \<Rightarrow> nat \<Rightarrow> int" where
  "label_room inner i = inner - (if i < 9 then 5 else 3)"

definition rows_fit :: "'ti lipgloss \<Rightarrow> sidebar \<Rightarrow> bool" where
  "rows_fit lg s \<longleftrightarrow> list_all (\<lambda>(i, r). newline \<notin> set (row_label (sb_inner s) i r)
      \<and> wl_width (lg_wl lg) (row_label (sb_inner s) i r) \<le> label_room (sb_inner s) i) (enumerate 0 (sb_rows s))"

lemma colours_styles [simp]:
  "colours style_selected" "colours style_normal" "colours style_quick_jump_prefix" "colours (style_glyph g)"
  "colours style_scroll_rail" "colours style_scroll_thumb" "colours style_bar" "colours style_filter_bar"
  "colours style_command_bar"
  by (cases g; simp add: colours_def style_selected_def style_normal_def style_quick_jump_prefix_def style_scroll_rail_def
      style_scroll_thumb_def style_bar_def style_filter_bar_def style_command_bar_def)+

lemma colours_inline: "colours st \<Longrightarrow> inline st"
  by (auto simp: colours_def inline_def list_all_iff split: attr.splits)

lemma inline_styles [simp]:
  "inline style_mode_indicator" "inline style_bar_sep" "inline style_bar_dim" "inline style_filter_prompt"
  "inline style_filter_err" "inline style_command_prompt"
  by (simp_all add: inline_def style_mode_indicator_def style_bar_sep_def style_bar_dim_def style_filter_prompt_def
      style_filter_err_def style_command_prompt_def)

lemma char_high: "128 \<le> (n :: nat) \<Longrightarrow> n < 256 \<Longrightarrow> newline \<noteq> char_of n"
proof
  assume "128 \<le> n" "n < 256" "newline = char_of n"
  then have "of_char newline = (of_char (char_of n :: char) :: nat)" by simp
  with \<open>128 \<le> n\<close> \<open>n < 256\<close> show False by (simp add: newline_def of_char_char_of del: of_char_eq_iff)
qed

definition char_high_ok :: "nat \<Rightarrow> bool" where
  "char_high_ok n \<longleftrightarrow> 128 \<le> n \<and> n < 256"

lemma utf8_no_nl: "128 \<le> r \<Longrightarrow> valid_rune r \<Longrightarrow> newline \<notin> set (utf8 r)"
proof -
  assume "128 \<le> r" "valid_rune r"
  have high: "char_high_ok n \<Longrightarrow> newline \<noteq> char_of n" for n :: nat by (simp add: char_high_ok_def char_high)
  have "char_high_ok (192 + r div 64)" if "r < 0x800" using that by (simp add: char_high_ok_def)
  moreover have "char_high_ok (224 + r div 4096)" if "r < 0x10000" using that by (simp add: char_high_ok_def)
  moreover have "char_high_ok (240 + r div 262144)" using \<open>valid_rune r\<close> by (auto simp: char_high_ok_def valid_rune_def)
  moreover have "char_high_ok (128 + m mod 64)" for m by (simp add: char_high_ok_def)
  ultimately show ?thesis using \<open>128 \<le> r\<close> \<open>valid_rune r\<close> high by (simp add: utf8_def Let_def)
qed

lemma glyph_no_nl [simp]: "newline \<notin> set (glyph_text g)" "newline \<notin> set (utf8 0x2502)" "newline \<notin> set (utf8 0x2588)" "newline \<notin> set ellipsis"
  by (cases g; simp add: utf8_no_nl valid_rune_def) (simp_all add: utf8_no_nl valid_rune_def ellipsis_def)

lemma digit_prefix: "i < 9 \<Longrightarrow> printable (show_nat (i + 1) @ '' '') \<and> length (show_nat (i + 1) @ '' '') = 2
    \<and> newline \<notin> set (show_nat (i + 1) @ '' '')"
proof -
  have "\<forall>i \<in> set [0..<9]. printable (show_nat (i + 1) @ '' '') \<and> length (show_nat (i + 1) @ '' '') = 2
    \<and> newline \<notin> set (show_nat (i + 1) @ '' '')" by code_simp
  then show "i < 9 \<Longrightarrow> ?thesis" by simp
qed

lemma width_app: "lipgloss_laws lg \<Longrightarrow> wl_width (lg_wl lg) a \<le> x \<Longrightarrow> wl_width (lg_wl lg) b \<le> y \<Longrightarrow> wl_width (lg_wl lg) (a @ b) \<le> x + y"
  using widthD(1) [of lg a b] by simp

lemma row_content_fits:
  assumes "lipgloss_laws lg" "newline \<notin> set (row_label inner i r)"
    and "wl_width (lg_wl lg) (row_label inner i r) \<le> label_room inner i"
  shows "newline \<notin> set (row_content lg inner i r) \<and> wl_width (lg_wl lg) (row_content lg inner i r) \<le> inner"
proof -
  let ?W = "wl_width (lg_wl lg)" and ?g = "glyph_for_state (ro_state r)"
  let ?glyph = "lg_render lg (style_glyph ?g) (glyph_text ?g)"
  have glyph: "newline \<notin> set ?glyph" "?W ?glyph \<le> 2"
    using lineD(1,2) [OF assms(1), of "glyph_text ?g" "style_glyph ?g"] widthD(3) [OF assms(1), of ?g] by (simp_all add: colours_inline)
  have blank: "?W '' '' = 1" using widthD(2) [OF assms(1), of "'' ''"] by (simp add: printable_def)
  have "?W ('' '' @ row_label inner i r) \<le> 1 + label_room inner i" by (rule width_app [OF assms(1)]) (use blank assms(3) in simp_all)
  then have tail: "?W (?glyph @ '' '' @ row_label inner i r) \<le> 2 + (1 + label_room inner i)"
    by (rule width_app [OF assms(1) glyph(2)])
  have plain: "newline \<notin> set '' ''" by (simp add: newline_def)
  show ?thesis
  proof (cases "i < 9")
    case True
    let ?p = "lg_render lg style_quick_jump_prefix (show_nat (i + 1) @ '' '')"
    note digit = digit_prefix [OF True]
    have p: "newline \<notin> set ?p" using lineD(1) [OF assms(1), of "show_nat (i + 1) @ '' ''" style_quick_jump_prefix] digit by (simp add: colours_inline)
    have "?W ?p = ?W (show_nat (i + 1) @ '' '')"
      using lineD(2) [OF assms(1), of "show_nat (i + 1) @ '' ''" style_quick_jump_prefix] digit by simp
    also have "\<dots> = 2" using widthD(2) [OF assms(1), of "show_nat (i + 1) @ '' ''"] digit by simp
    finally have "?W (?p @ ?glyph @ '' '' @ row_label inner i r) \<le> 2 + (2 + (1 + label_room inner i))"
      using width_app [OF assms(1) _ tail, of ?p 2] by simp
    then show ?thesis using True p glyph(1) assms(2) plain by (simp add: row_content_def Let_def label_room_def)
  next
    case False
    then show ?thesis using tail glyph(1) assms(2) plain by (simp add: row_content_def Let_def label_room_def)
  qed
qed

lemma row_drawn:
  assumes "lipgloss_laws lg" "rows_fit lg s" "(i, r) \<in> set (enumerate 0 (sb_rows s))" "colours st"
  shows "newline \<notin> set (lg_render lg (st @ [StyleWidth (sb_inner s)]) (row_content lg (sb_inner s) i r))
    \<and> wl_width (lg_wl lg) (lg_render lg (st @ [StyleWidth (sb_inner s)]) (row_content lg (sb_inner s) i r)) \<le> sb_inner s"
proof -
  have "newline \<notin> set (row_content lg (sb_inner s) i r) \<and> wl_width (lg_wl lg) (row_content lg (sb_inner s) i r) \<le> sb_inner s"
    using assms(2,3) by (intro row_content_fits [OF assms(1)]) (auto simp: rows_fit_def list_all_iff)
  then show ?thesis using lineD(3,4) [OF assms(1), of "row_content lg (sb_inner s) i r" st "sb_inner s"] assms(4) by blast
qed

definition sidebar_rows :: "sidebar \<Rightarrow> nat" where
  "sidebar_rows s = max 1 (length (sb_rows s))"

lemma sidebar_content_lines:
  assumes "lipgloss_laws lg" "rows_fit lg s" "16 \<le> sb_width s"
  shows "nlines (sidebar_content lg s) = sidebar_rows s + 3 \<and> fits (wl_width (lg_wl lg)) (sb_inner s) (sidebar_content lg s)"
proof -
  let ?W = "wl_width (lg_wl lg)" and ?inner = "sb_inner s"
  have inner: "14 \<le> ?inner" using assms(3) by (simp add: sb_inner_def)
  have plain: "newline \<notin> set ''PROCESSES''" "newline \<notin> set ''(no projects)''" by (simp_all add: newline_def)
  have wide: "?W ''PROCESSES'' \<le> ?inner" "?W ''(no projects)'' \<le> ?inner"
    using widthD(2) [OF assms(1), of "''PROCESSES''"] widthD(2) [OF assms(1), of "''(no projects)''"] inner
    by (simp_all add: printable_def)
  have "colours [Bold, Foreground 212]" by (simp add: colours_def)
  then have title: "nlines (lg_render lg (style_title @ [StyleWidth ?inner]) ''PROCESSES'') = 2"
    "fits ?W ?inner (lg_render lg (style_title @ [StyleWidth ?inner]) ''PROCESSES'')"
    using lineD(5,6) [OF assms(1) plain(1), of "[Bold, Foreground 212]" ?inner] wide(1) by (simp_all add: style_title_def)
  have no_text: "?W [] \<le> ?inner" using widthD(2) [OF assms(1), of "[]"] inner by (simp add: printable_def)
  let ?row = "\<lambda>(i, r). lg_render lg ((if int i = sb_cursor s then style_selected else style_normal) @ [StyleWidth ?inner])
                 (row_content lg ?inner i r)"
  let ?none = "lg_render lg (style_normal @ [StyleWidth ?inner]) ''(no projects)''"
  define ls where "ls = (if sb_rows s = [] then [?none] else map ?row (enumerate 0 (sb_rows s)))"
  have ls: "newline \<notin> set l \<and> ?W l \<le> ?inner" if "l \<in> set ls" for l
  proof (cases "sb_rows s = []")
    case True
    then show ?thesis using that lineD(3,4) [OF assms(1) plain(2), of style_normal ?inner] wide(2) by (simp add: ls_def)
  next
    case False
    then have "l \<in> ?row ` set (enumerate 0 (sb_rows s))" using that by (simp only: ls_def if_False set_map)
    then obtain p where p: "l = ?row p" "p \<in> set (enumerate 0 (sb_rows s))" by (rule imageE)
    obtain i r where "p = (i, r)" by (cases p)
    then show ?thesis using p row_drawn [OF assms(1,2), of i r "if int i = sb_cursor s then style_selected else style_normal"] by simp
  qed
  have "sidebar_content lg s = lg_render lg (style_title @ [StyleWidth ?inner]) ''PROCESSES'' @ newline # concat (map (\<lambda>l. l @ [newline]) ls)"
    by (simp add: sidebar_content_def Let_def ls_def comp_def case_prod_unfold)
  moreover have rest: "text_lines (concat (map (\<lambda>l. l @ [newline]) ls)) = ls @ [[]]" by (rule text_lines_rows) (use ls in blast)
  moreover have "length ls = sidebar_rows s" by (simp add: ls_def sidebar_rows_def Suc_le_eq)
  moreover have "fits ?W ?inner (concat (map (\<lambda>l. l @ [newline]) ls))" unfolding fits_def rest list_all_iff
    using ls no_text by auto
  ultimately show ?thesis using title by (simp add: nlines_def [of "concat (map (\<lambda>l. l @ [newline]) ls)"])
qed

lemma sidebar_lines:
  assumes "lipgloss_laws lg" "rows_fit lg s" "16 \<le> sb_width s" "2 \<le> sb_height s"
  shows "int (nlines (sidebar_view lg s)) = max (sb_height s) (int (sidebar_rows s) + 5)"
proof -
  have "sb_inner s = sb_width s - 2" using assms(3) by (simp add: sb_inner_def)
  then have *: "nlines (sidebar_content lg s) = sidebar_rows s + 3"
    "fits (wl_width (lg_wl lg)) (sb_width s - 2) (sidebar_content lg s)"
    using sidebar_content_lines [OF assms(1-3)] by simp_all
  have "nlines (sidebar_view lg s) = max (sidebar_rows s + 3) (nat (sb_height s - 2)) + 2"
    using blockD(3) [OF assms(1), of "sb_height s - 2" "sb_width s - 2" "sidebar_content lg s"] * assms(4)
    by (simp add: sidebar_view_def style_border_def style_border_dim_def)
  then show ?thesis using assms(4) by simp
qed

section \<open>The log pane and the bars\<close>

lemma bar_text_fits:
  assumes "lipgloss_laws lg"
  shows "newline \<notin> set (bar_text lg c) \<and> wl_width (lg_wl lg) (bar_text lg c) = 1"
  using lineD(1,2) [OF assms, of "utf8 0x2502" style_scroll_rail] lineD(1,2) [OF assms, of "utf8 0x2588" style_scroll_thumb]
    widthD(2) [OF assms, of "'' ''"] widthD(4,5) [OF assms]
  by (cases c) (simp_all add: bar_text_def colours_inline printable_def, simp add: newline_def)

lemma blanks_fit: "lipgloss_laws lg \<Longrightarrow> 0 \<le> n \<Longrightarrow> newline \<notin> set (blanks n) \<and> wl_width (lg_wl lg) (blanks n) = n"
  using widthD(2) [of lg "blanks n"] by (simp add: blanks_def printable_def list_all_iff newline_def)

lemma length_scrollbar: "length (scrollbar_column h tot off) = nat h"
  by (simp add: scrollbar_column_def Let_def)

lemma panel_rows_fit:
  assumes "lipgloss_laws lg" "4 \<le> lp_width lp" "1 \<le> wi_width (lp_win lp)" "wi_width (lp_win lp) \<le> lp_width lp - 3"
    and "1 \<le> wi_height (lp_win lp)"
  shows "length (panel_rows lg lp) = nat (max 1 (lp_height lp - 2))"
    and "\<forall>l \<in> set (panel_rows lg lp). newline \<notin> set l \<and> wl_width (lg_wl lg) l \<le> lp_width lp - 2"
proof -
  let ?h = "max 1 (lp_height lp - 2)" and ?w = "max 1 (lp_width lp - 3)" and ?W = "wl_width (lg_wl lg)"
  let ?drawn = "text_lines (window_view lg (lp_win lp))"
  let ?padded = "?drawn @ replicate (nat ?h - length ?drawn) (blanks ?w)"
  have "nat ?h \<le> length ?padded" by simp
  then have "length (take (nat ?h) ?padded) = nat ?h" by (simp only: length_take min.absorb2)
  then show "length (panel_rows lg lp) = nat ?h" by (simp add: panel_rows_def Let_def length_scrollbar)
  have "fits ?W (wi_width (lp_win lp)) (window_view lg (lp_win lp))"
    using blockD(4) [OF assms(1,3,5)] by (simp add: window_view_def Let_def)
  then have drawn: "newline \<notin> set l \<and> ?W l \<le> lp_width lp - 3" if "l \<in> set ?drawn" for l
    using that text_lines_free [OF that] assms(4) by (force simp: fits_def list_all_iff)
  have padded: "newline \<notin> set l \<and> ?W l \<le> lp_width lp - 3" if "l \<in> set ?padded" for l
    using that drawn blanks_fit [OF assms(1), of ?w] assms(2) by (auto split: if_splits)
  show "\<forall>l \<in> set (panel_rows lg lp). newline \<notin> set l \<and> ?W l \<le> lp_width lp - 2"
  proof
    fix l assume "l \<in> set (panel_rows lg lp)"
    then obtain a c where l: "l = a @ bar_text lg c" and "a \<in> set (take (nat ?h) ?padded)"
      by (auto simp: panel_rows_def Let_def dest: set_zip_leftD)
    then have "a \<in> set ?padded" using in_set_takeD by metis
    then show "newline \<notin> set l \<and> ?W l \<le> lp_width lp - 2"
      using padded [of a] bar_text_fits [OF assms(1), of c] width_app [OF assms(1), of a "lp_width lp - 3" "bar_text lg c" 1]
      by (simp add: l)
  qed
qed

lemma panel_lines:
  assumes "lipgloss_laws lg" "4 \<le> lp_width lp" "3 \<le> lp_height lp" "1 \<le> wi_width (lp_win lp)"
    and "wi_width (lp_win lp) \<le> lp_width lp - 3" "1 \<le> wi_height (lp_win lp)"
  shows "int (nlines (panel_view lg lp)) = lp_height lp"
proof -
  note rows = panel_rows_fit [OF assms(1,2,4-6)]
  have "panel_rows lg lp \<noteq> []" using rows(1) assms(3) by auto
  then have lines: "text_lines (join_with [newline] (panel_rows lg lp)) = panel_rows lg lp" using text_lines_join rows(2) by blast
  then have "fits (wl_width (lg_wl lg)) (lp_width lp - 2) (join_with [newline] (panel_rows lg lp))"
    using rows(2) by (simp add: fits_def list_all_iff)
  moreover have "nlines (join_with [newline] (panel_rows lg lp)) = nat (lp_height lp - 2)"
    using lines rows(1) assms(3) by (simp add: nlines_def)
  ultimately show ?thesis using blockD(3) [OF assms(1), of "lp_height lp - 2"] assms(3) by (simp add: panel_view_def style_panel_border_def)
qed

lemma bar_line:
  assumes "lipgloss_laws lg" "colours st" "newline \<notin> set s" "1 \<le> w"
  shows "nlines (lg_render lg (st @ [StyleWidth w]) (clip_bar lg w s)) = 1"
proof -
  have "newline \<notin> set (clip_bar lg w s) \<and> wl_width (lg_wl lg) (clip_bar lg w s) \<le> w"
    using widthD(8,9) [OF assms(1,3), of ellipsis w] assms(3,4) by (simp add: clip_bar_def)
  then show ?thesis using lineD(3) [OF assms(1) _ assms(2)] by (simp add: nlines_plain)
qed

section \<open>Popups and toasts\<close>

lemma put_lines_all:
  assumes "\<And>b ov. P b \<Longrightarrow> Q ov \<Longrightarrow> P (f b ov)"
  shows "\<forall>ov \<in> set ovs. Q ov \<Longrightarrow> \<forall>b \<in> set base. P b \<Longrightarrow> \<forall>l \<in> set (put_lines f li ovs base). P l"
proof (induction ovs arbitrary: li base)
  case (Cons ov ovs)
  have "\<forall>b \<in> set (if li < length base then base[li := f (base ! li) ov] else base). P b"
    using Cons.prems assms by (auto dest!: set_update_subset_insert [THEN subsetD])
  then show ?case using Cons by simp
qed simp

lemma merge_plain:
  assumes "lipgloss_laws lg" "newline \<notin> set b" "newline \<notin> set ov" "0 \<le> w"
  shows "newline \<notin> set (merge_at_column (lg_wl lg) b ov col w)"
  using widthD(6,7) [OF assms(1,2)] widthD(6) [OF assms(1,3)] assms(3)
  by (simp add: merge_at_column_def Let_def blanks_def newline_def)

lemma pad_plain:
  assumes "lipgloss_laws lg" "newline \<notin> set b"
  shows "newline \<notin> set (pad_or_truncate (lg_wl lg) b w)"
  using widthD(6) [OF assms] assms(2) by (simp add: pad_or_truncate_def blanks_def newline_def)

definition plain_lines :: "bytes list \<Rightarrow> bool" where
  "plain_lines ls \<longleftrightarrow> (\<forall>l \<in> set ls. newline \<notin> set l)"

lemma joined_lines:
  "length ls = nlines base \<Longrightarrow> plain_lines ls \<Longrightarrow> nlines (join_with [newline] ls) = nlines base"
  using split_on_not_Nil [of newline "[]" base] text_lines_join [of ls] by (cases ls) (simp_all add: nlines_def text_lines_def plain_lines_def)

lemma plain_lines_of: "plain_lines (text_lines s)"
  using text_lines_free by (auto simp: plain_lines_def)

lemma plain_put:
  "(\<And>b ov. newline \<notin> set b \<Longrightarrow> newline \<notin> set ov \<Longrightarrow> newline \<notin> set (f b ov)) \<Longrightarrow> plain_lines ovs \<Longrightarrow> plain_lines base
     \<Longrightarrow> plain_lines (put_lines f li ovs base)"
  unfolding plain_lines_def by (rule put_lines_all [where Q = "\<lambda>l. newline \<notin> set l"])

lemma plain_center:
  "lipgloss_laws lg \<Longrightarrow> 0 \<le> w \<Longrightarrow> plain_lines base \<Longrightarrow> plain_lines ov
     \<Longrightarrow> plain_lines (overlay_center (lg_wl lg) base ov w h)"
  unfolding overlay_center_def Let_def by (split if_split, intro conjI impI, assumption, rule plain_put) (auto simp: merge_plain)

lemma plain_bottom_right:
  "lipgloss_laws lg \<Longrightarrow> plain_lines base \<Longrightarrow> plain_lines ov \<Longrightarrow> plain_lines (overlay_bottom_right (lg_wl lg) base ov w h)"
  unfolding overlay_bottom_right_def Let_def
  by (split if_split, intro conjI impI, assumption, rule plain_put) (auto simp: pad_plain split: if_splits)

lemma centred_lines:
  assumes "lipgloss_laws lg" "0 \<le> tu_width m"
  shows "nlines (centred lg m base v) = nlines base"
  unfolding centred_def
  by (rule joined_lines)
     (simp add: overlay_center_def Let_def nlines_def, rule plain_center [OF assms plain_lines_of plain_lines_of])

lemma toasts_lines:
  assumes "lipgloss_laws lg"
  shows "nlines (apply_toasts lg m base) = nlines base"
proof -
  have "nlines (join_with [newline] (overlay_bottom_right (lg_wl lg) (text_lines base) (text_lines v) w h)) = nlines base" for v w h
    by (rule joined_lines)
       (simp add: overlay_bottom_right_def Let_def nlines_def, rule plain_bottom_right [OF assms plain_lines_of plain_lines_of])
  then show ?thesis by (simp add: apply_toasts_def Let_def)
qed

lemma overlay_lines: "lipgloss_laws lg \<Longrightarrow> 0 \<le> tu_width m \<Longrightarrow> nlines (apply_overlay lg m base) = nlines base"
  by (simp add: apply_overlay_def Let_def centred_lines)

section \<open>The frame\<close>

text \<open>The texts that the frame gets from elsewhere are single lines, and the status bar's is no wider than the terminal.\<close>

definition texts_fit :: "'ti lipgloss \<Rightarrow> ('em, 'ti) tui \<Rightarrow> bool" where
  "texts_fit lg m \<longleftrightarrow> rows_fit lg (drawn_sidebar m)
     \<and> newline \<notin> set (status_text lg (view_status m)) \<and> wl_width (lg_wl lg) (status_text lg (view_status m)) \<le> tu_width m
     \<and> newline \<notin> set (lg_input lg (fi_ti (tu_filter m))) \<and> newline \<notin> set (fi_err (tu_filter m))
     \<and> newline \<notin> set (lg_input lg (ci_ti (tu_command m)))"

lemma view_status_width: "st_width (view_status m) = tu_width m"
  by (simp add: view_status_def Let_def split: option.split)

lemma sidebar_width_range:
  assumes "60 \<le> w"
  shows "16 \<le> sidebar_width w ids" "sidebar_width w ids \<le> w div 2"
proof -
  have "30 \<le> w div 2" using assms by simp
  then show "16 \<le> sidebar_width w ids" "sidebar_width w ids \<le> w div 2"
    by (auto simp: sidebar_width_def Let_def sidebar_min_width_def sidebar_max_width_def)
qed

lemma layout_range:
  assumes "60 \<le> tu_width m"
  shows "16 \<le> fst (layout m)" "30 \<le> fst (snd (layout m))"
  using sidebar_width_range [OF assms, of "keys_of (c_projects (tu_cfg m))"] assms by (simp_all add: layout_def Let_def)

lemma drawn_panel_fields [simp]:
  "lp_width (drawn_panel m) = fst (snd (layout m))" "lp_height (drawn_panel m) = content_height m"
  "wi_height (lp_win (drawn_panel m)) = max 1 (content_height m - 2)"
  by (simp_all add: drawn_panel_def set_origin_def set_size_def fit_width_def)

lemma decimal_width_nonneg: "0 \<le> decimal_width n"
  by (induction n rule: decimal_width.induct) (subst decimal_width.simps, simp)

lemma drawn_panel_window:
  assumes "60 \<le> tu_width m"
  shows "1 \<le> wi_width (lp_win (drawn_panel m))" "wi_width (lp_win (drawn_panel m)) \<le> fst (snd (layout m)) - 3"
  using layout_range [OF assms] decimal_width_nonneg
  by (auto simp: drawn_panel_def set_origin_def set_size_def fit_width_def gutter_width_def line_number_width_def)

lemma drawn_sidebar_fields [simp]:
  "sb_width (drawn_sidebar m) = fst (layout m)" "sb_height (drawn_sidebar m) = content_height m"
  "sidebar_rows (drawn_sidebar m) = sidebar_rows (tu_sidebar m)"
  by (simp_all add: drawn_sidebar_def sb_set_focused_def sb_set_size_def sidebar_rows_def)

lemma status_line:
  assumes "lipgloss_laws lg" "texts_fit lg m" "60 \<le> tu_width m"
  shows "nlines (status_view lg (view_status m)) = 1"
  using lineD(3) [OF assms(1), of "status_text lg (view_status m)" style_bar "tu_width m"] assms(2,3)
  by (simp add: status_view_def view_status_width texts_fit_def nlines_plain)

lemma command_line:
  assumes "lipgloss_laws lg" "texts_fit lg m" "60 \<le> tu_width m" "ci_visible (tu_command m)"
  shows "nlines (command_view lg (tu_width m) (tu_command m)) = 1"
proof -
  have "newline \<notin> set (lg_render lg style_command_prompt '':'')" using lineD(1) [OF assms(1), of "'':''"] by (simp add: newline_def)
  then show ?thesis using assms by (simp add: command_view_def Let_def bar_line texts_fit_def)
qed

lemma filter_line:
  assumes "lipgloss_laws lg" "texts_fit lg m" "60 \<le> tu_width m" "fi_visible (tu_filter m)"
  shows "nlines (filter_view lg (tu_width m) (tu_filter m)) = 1"
proof -
  have "newline \<notin> set (lg_render lg style_filter_prompt ''/'')" using lineD(1) [OF assms(1), of "''/''"] by (simp add: newline_def)
  moreover have "newline \<notin> set (lg_render lg style_filter_err (fi_err (tu_filter m)))"
    using lineD(1) [OF assms(1)] assms(2) by (simp add: texts_fit_def)
  ultimately have "newline \<notin> set (lg_render lg style_filter_prompt ''/'' @ lg_input lg (fi_ti (tu_filter m))
      @ (if fi_err (tu_filter m) = [] then [] else ''  '' @ lg_render lg style_filter_err (fi_err (tu_filter m))))"
    using assms(2) by (simp add: texts_fit_def newline_def)
  from bar_line [OF assms(1) _ this, of style_filter_bar "tu_width m"] show ?thesis
    using assms(3,4) by (simp add: filter_view_def Let_def)
qed

lemma base_lines:
  assumes "lipgloss_laws lg" "60 \<le> tu_width m" "10 \<le> tu_height m" "texts_fit lg m"
    and "tu_mode m = ModeEmbeddedAttach \<Longrightarrow> tu_attach m = None"
  shows "int (nlines (view_base env sl lg m)) = max (tu_height m) (int (sidebar_rows (tu_sidebar m)) + 6 + bar_rows m)"
proof -
  have h: "8 \<le> content_height m" using assms(3) by (simp add: content_height_def status_bar_height_def bar_rows_def)
  have left: "int (nlines (sidebar_view lg (drawn_sidebar m))) = max (content_height m) (int (sidebar_rows (tu_sidebar m)) + 5)"
    using sidebar_lines [OF assms(1), of "drawn_sidebar m"] assms(4) layout_range [OF assms(2)] h by (simp add: texts_fit_def)
  have "right_pane env sl lg m = panel_view lg (drawn_panel m)"
    using assms(5) by (auto simp: right_pane_def split: mode.split option.split)
  then have right: "int (nlines (right_pane env sl lg m)) = content_height m"
    using panel_lines [OF assms(1), of "drawn_panel m"] layout_range [OF assms(2)] drawn_panel_window [OF assms(2)] h by simp
  let ?main = "lg_join_top lg [sidebar_view lg (drawn_sidebar m), right_pane env sl lg m]"
  have main: "int (nlines ?main) = max (content_height m) (int (sidebar_rows (tu_sidebar m)) + 5)"
    using blockD(1) [OF assms(1)] left right by simp
  note join = blockD(2) [OF assms(1)] and status = status_line [OF assms(1,4,2)]
  show ?thesis
  proof (cases "ci_visible (tu_command m)")
    case True
    then show ?thesis using main status command_line [OF assms(1,4,2)]
      by (simp add: view_base_def Let_def join content_height_def bar_rows_def status_bar_height_def)
  next
    case command: False
    show ?thesis
    proof (cases "fi_visible (tu_filter m)")
      case True
      then show ?thesis using main status command filter_line [OF assms(1,4,2)]
        by (simp add: view_base_def Let_def join content_height_def bar_rows_def status_bar_height_def)
    next
      case False
      then show ?thesis using main status command
        by (simp add: view_base_def Let_def join content_height_def bar_rows_def status_bar_height_def)
    qed
  qed
qed


section \<open>An instance\<close>

text \<open>A renderer without colours that keeps the promises: it counts cells, draws borders as empty lines and cuts.\<close>

definition cells :: "bytes \<Rightarrow> int" where
  "cells s = int (length (filter (\<lambda>c. (of_char c :: nat) div 64 \<noteq> 2) s))"

fun height_of :: "style \<Rightarrow> nat" where
  "height_of [] = 0"
| "height_of (StyleHeight h # st) = nat h"
| "height_of (a # st) = height_of st"

fun max_width_of :: "style \<Rightarrow> int option" where
  "max_width_of [] = None"
| "max_width_of (MaxWidth w # st) = Some w"
| "max_width_of (a # st) = max_width_of st"

definition plain_render :: "style \<Rightarrow> bytes \<Rightarrow> bytes" where
  "plain_render st s =
     (if RoundedBorder \<in> set st then newline # s @ replicate (height_of st - nlines s) newline @ [newline]
      else (case max_width_of st of
              Some w \<Rightarrow> join_with [newline] (map (take (nat w)) (text_lines s))
            | None \<Rightarrow> if PaddingBottom 1 \<in> set st then s @ [newline] else s))"

definition plain_lg :: "bytes lipgloss" where
  "plain_lg = \<lparr>lg_render = plain_render,
     lg_join_top = (\<lambda>bs. fold (\<lambda>b a. if nlines a < nlines b then b else a) bs []),
     lg_join_left = join_with [newline], lg_truncate = (\<lambda>s n t. take (nat n) s), lg_input = (\<lambda>t. t), lg_help = (\<lambda>w bs. []),
     lg_wl = \<lparr>wl_width = cells, wl_truncate = (\<lambda>s n. take (nat n) s), wl_cut = (\<lambda>s a b. drop (nat a) (take (nat b) s))\<rparr>\<rparr>"

lemma nlines_count: "nlines s = Suc (length (filter (\<lambda>c. c = newline) s))"
proof -
  have "length (split_on newline cur s) = Suc (length (filter (\<lambda>c. c = newline) s))" for cur
    by (induction s arbitrary: cur) auto
  then show ?thesis by (simp add: nlines_def text_lines_def)
qed

lemma nlines_join: "bs \<noteq> [] \<Longrightarrow> nlines (join_with [newline] bs) = sum_list (map nlines bs)"
  by (induction "[newline]" bs rule: join_with.induct) simp_all

lemma cells_le: "cells s \<le> int (length s)"
  by (simp add: cells_def)

lemma cells_nonneg [simp]: "0 \<le> cells s" "cells [] = 0"
  by (simp_all add: cells_def)

lemma cells_byte:
  fixes n :: nat
  shows "n < 128 \<Longrightarrow> cells [char_of n] = 1"
  "128 \<le> n \<Longrightarrow> n < 192 \<Longrightarrow> cells [char_of n] = 0"
  "192 \<le> n \<Longrightarrow> n < 256 \<Longrightarrow> cells [char_of n] = 1"
proof -
  have byte: "n < 256 \<Longrightarrow> (of_char (char_of n :: char) :: nat) = n" by (rule of_char_char_of)
  show "n < 128 \<Longrightarrow> cells [char_of n] = 1" "192 \<le> n \<Longrightarrow> n < 256 \<Longrightarrow> cells [char_of n] = 1"
    using byte by (auto simp: cells_def)
  assume "128 \<le> n" "n < 192"
  moreover from this have "n div 64 = 2" by (intro div_nat_eqI) auto
  ultimately show "cells [char_of n] = 0" using byte by (simp add: cells_def)
qed

lemma cells_append: "cells (a @ b) = cells a + cells b"
  by (simp add: cells_def)

lemma cells_utf8:
  assumes "valid_rune r"
  shows "cells (utf8 r) = 1"
proof -
  have split: "cells (x # s) = cells [x] + cells s" for x s using cells_append [of "[x]" s] by simp
  have rest: "cells [char_of (128 + k mod 64)] = 0" for k :: nat by (rule cells_byte(2)) simp_all
  show ?thesis
  proof (cases "r < 0x800")
    case True
    then show ?thesis using rest [of r] cells_byte(1) [of r] cells_byte(3) [of "192 + r div 64"] assms
      by (simp add: utf8_def Let_def split [of _ "_ # _"])
  next
    case False
    have "r < 0x10000 \<Longrightarrow> cells [char_of (224 + r div 4096)] = 1" "cells [char_of (240 + r div 262144)] = 1"
      using assms by (auto intro!: cells_byte(3) simp: valid_rune_def)
    then show ?thesis using False assms rest [of r] rest [of "r div 64"] rest [of "r div 4096"]
      by (simp add: utf8_def Let_def split [of _ "_ # _"])
  qed
qed

lemma plain_inline: "inline st \<Longrightarrow> plain_render (st @ st2) s = plain_render st2 s"
proof -
  assume "inline st"
  then have "height_of (st @ st2) = height_of st2 \<and> max_width_of (st @ st2) = max_width_of st2
      \<and> (RoundedBorder \<in> set (st @ st2) \<longleftrightarrow> RoundedBorder \<in> set st2)
      \<and> (PaddingBottom 1 \<in> set (st @ st2) \<longleftrightarrow> PaddingBottom 1 \<in> set st2)"
  proof (induction st)
    case (Cons a st)
    then show ?case by (cases a) (auto simp: inline_def)
  qed simp
  then show ?thesis by (simp add: plain_render_def)
qed

lemma plain_block: "block_laws plain_lg"
  unfolding block_laws_def
proof (intro conjI allI impI)
  fix w h :: int and s
  assume "1 \<le> w" "1 \<le> h"
  have "text_lines (join_with [newline] (map (take (nat w)) (text_lines s))) = map (take (nat w)) (text_lines s)"
    using text_lines_free split_on_not_Nil by (intro text_lines_join) (auto simp: text_lines_def dest: in_set_takeD)
  moreover have "cells (take (nat w) l) \<le> w" for l using cells_le [of "take (nat w) l"] \<open>1 \<le> w\<close> by simp
  ultimately show "fits (wl_width (lg_wl plain_lg)) w
      (lg_render plain_lg [StyleWidth w, StyleHeight h, MaxHeight h, MaxWidth w] s)"
    by (simp add: plain_lg_def plain_render_def fits_def list_all_iff)
next
  fix c and w h :: int and s
  assume "0 \<le> h"
  then show "nlines (lg_render plain_lg [RoundedBorder, BorderForeground c, StyleWidth w, StyleHeight h] s) = max (nlines s) (nat h) + 2"
    by (simp add: plain_lg_def plain_render_def nlines_count)
qed (simp_all add: plain_lg_def nlines_join, simp add: nlines_count)

lemma plain_line: "line_laws plain_lg"
proof -
  have inl: "plain_render st s = s" if "inline st" for st s using plain_inline [OF that, of "[]" s] by (simp add: plain_render_def)
  have width: "plain_render (st @ [StyleWidth w]) s = s" if "colours st" for st w s
    using plain_inline [OF colours_inline [OF that], of "[StyleWidth w]" s] by (simp add: plain_render_def)
  have pad: "plain_render (st @ [PaddingBottom 1, StyleWidth w]) s = s @ [newline]" if "colours st" for st w s
    using plain_inline [OF colours_inline [OF that], of "[PaddingBottom 1, StyleWidth w]" s] by (simp add: plain_render_def)
  have "fits cells w (s @ [newline]) \<and> nlines (s @ [newline]) = 2" if "newline \<notin> set s" "cells s \<le> w" for w s
    using that order_trans [OF cells_nonneg(1) [of s]] by (simp add: fits_plain nlines_plain)
  then show ?thesis by (simp add: line_laws_def plain_lg_def inl width pad colours_inline del: One_nat_def)
qed

lemma plain_width: "width_laws plain_lg"
proof -
  have "printable s \<Longrightarrow> filter (\<lambda>c. (of_char c :: nat) div 64 \<noteq> 2) s = s" for s
    by (rule filter_True) (auto simp: printable_def list_all_iff)
  then have "printable s \<Longrightarrow> cells s = int (length s)" for s by (simp add: cells_def)
  moreover have "cells (glyph_text g) \<le> 2" for g by (cases g) (simp_all add: cells_utf8 valid_rune_def)
  moreover have "cells (utf8 0x2502) = 1" "cells (utf8 0x2588) = 1" by (simp_all add: cells_utf8 valid_rune_def)
  moreover have "1 \<le> n \<Longrightarrow> cells (take (nat n) s) \<le> n" for n s using cells_le [of "take (nat n) s"] by simp
  ultimately show ?thesis
    by (auto simp: width_laws_def plain_lg_def dest: in_set_takeD in_set_dropD) (simp add: cells_def)
qed

lemma plain_laws: "lipgloss_laws plain_lg"
  by (simp add: lipgloss_laws_def plain_block plain_line plain_width)

text \<open>Projects that all run, on a terminal of 80 by 24.\<close>

definition tall_tui :: "nat \<Rightarrow> (unit, bytes) tui" where
  "tall_tui n = demo_tui\<lparr>tu_width := 80, tu_height := 24,
     tu_sidebar := empty_sidebar\<lparr>sb_rows := replicate n \<lparr>ro_id = ''api'', ro_state = ''running'', ro_attempts = 0\<rparr>\<rparr>\<rparr>"

lemma tall_fields [simp]:
  "tu_width (tall_tui n) = 80" "tu_height (tall_tui n) = 24" "tu_mode (tall_tui n) = ModeNormal"
  "tu_attach (tall_tui n) = None" "fi_visible (tu_filter (tall_tui n)) = False" "ci_visible (tu_command (tall_tui n)) = False"
  "sb_rows (tu_sidebar (tall_tui n)) = replicate n \<lparr>ro_id = ''api'', ro_state = ''running'', ro_attempts = 0\<rparr>"
  "fi_ti (tu_filter (tall_tui n)) = []" "fi_err (tu_filter (tall_tui n)) = []" "ci_ti (tu_command (tall_tui n)) = []"
  "bar_rows (tall_tui n) = 0"
  by (simp_all add: tall_tui_def bar_rows_def demo_tui_def new_tui_def new_filter_input_def new_command_input_def demo_env_def demo_ti_def)

lemma plain_fields [simp]: "lg_render plain_lg = plain_render" "lg_input plain_lg t = t" "wl_width (lg_wl plain_lg) = cells"
  by (simp_all add: plain_lg_def)

lemma tall_status: "status_text plain_lg (view_status (tall_tui n)) = ''NORMAL ''"
proof -
  have u: "take_ui_snapshot (tu_ui (tall_tui n)) = take_ui_snapshot new_ui_store" "tu_snap (tall_tui n) = []"
    "tu_status (tall_tui n) = empty_status_bar" "tu_panel (tall_tui n) = new_log_panel 80 24"
    by (simp_all add: tall_tui_def demo_tui_def new_tui_def)
  have e: "us_selected_id (take_ui_snapshot new_ui_store) = []" "us_filter_text (take_ui_snapshot new_ui_store) = []"
    "mode_label ModeNormal = ''NORMAL''" "lp_paused (new_log_panel 80 24) = False" by code_simp+
  have "st_mode (view_status (tall_tui n)) = ''NORMAL''" "status_segments (view_status (tall_tui n)) = []"
    "st_total (view_status (tall_tui n)) = 0"
    by (simp_all add: view_status_def Let_def status_segments_def display_mode_def empty_status_bar_def u e)
  moreover have "plain_render style_mode_indicator s = s" for s
    using plain_inline [of style_mode_indicator "[]" s] by (simp add: plain_render_def)
  ultimately show ?thesis by (simp add: status_text_def Let_def)
qed

lemma tall_fits: "texts_fit plain_lg (tall_tui n)"
proof -
  have "sidebar_width 80 [''api'', ''web''] = 16" by code_simp
  then have "sb_inner (drawn_sidebar (tall_tui n)) = 14"
    by (simp add: sb_inner_def layout_def Let_def) (simp add: tall_tui_def demo_tui_def new_tui_def demo_cfg_def)
  moreover have "truncate_label ''api'' 9 = ''api''" "truncate_label ''api'' 11 = ''api''" by code_simp+
  then have "row_label 14 i \<lparr>ro_id = ''api'', ro_state = ''running'', ro_attempts = 0\<rparr> = ''api''" for i
    by (simp add: row_label_def Let_def)
  moreover have "sb_rows (drawn_sidebar (tall_tui n)) = replicate n \<lparr>ro_id = ''api'', ro_state = ''running'', ro_attempts = 0\<rparr>"
    by (simp add: drawn_sidebar_def sb_set_focused_def sb_set_size_def)
  moreover have "r = x" if "(i, r) \<in> set (enumerate 0 (replicate n x))" for i r and x :: row
    using that by (auto simp: enumerate_eq_zip dest: set_zip_rightD)
  ultimately have "rows_fit plain_lg (drawn_sidebar (tall_tui n))"
    by (fastforce simp: rows_fit_def list_all_iff label_room_def cells_def newline_def)
  then show ?thesis by (simp add: texts_fit_def tall_status) (simp add: cells_def newline_def)
qed


text \<open>The sidebar does not scroll: with one project more, the frame is higher than the terminal.\<close>

lemma find_sidebar_overflows:
  "int (nlines (view demo_env sl plain_lg (tall_tui 19))) = 25" "tu_height (tall_tui 19) = 24"
  using base_lines [OF plain_laws, of "tall_tui 19" demo_env sl] tall_fits
  by (simp_all add: sidebar_rows_def view_def toasts_lines [OF plain_laws] overlay_lines [OF plain_laws])

text \<open>The comments call the status bar a single line that is clipped; a text that is too wide wraps instead.\<close>

lemma find_status_bar_wraps:
  assumes wraps: "\<And>st w s. w < wl_width (lg_wl lg) s \<Longrightarrow> 1 < nlines (lg_render lg (st @ [StyleWidth w]) s)"
    and "0 < st_width s" "st_width s < wl_width (lg_wl lg) (status_text lg s)"
  shows "1 < nlines (status_view lg s)"
  using wraps [OF assms(3)] assms(2) by (simp add: status_view_def)

end
