(* ===== verification/Bridge.thy ===== *)
theory Bridge
  imports Attach_Keys
begin

text \<open>
  The full-screen attach (\<open>Controller.Run\<close> in \<open>controller_unix.go\<close>): two goroutines that copy between the terminal and
  the child, one that follows the window's size, and the caller that waits for the first of the two to end. They
  interleave in any order; the reads, the copies and the signals are what the environment answers.
\<close>

section \<open>The state\<close>

text \<open>An error, with the answer of its \<open>Timeout\<close> method if it has one.\<close>

datatype io_error = IoError string "bool option"

definition is_timeout :: "io_error option \<Rightarrow> bool" where
  "is_timeout e = (case e of Some (IoError s (Some t)) \<Rightarrow> t | _ \<Rightarrow> False)"

record controller =
  co_escape :: char
  co_timeout :: duration

definition new_controller :: "char \<Rightarrow> duration \<Rightarrow> controller" where
  "new_controller b timeout =
     \<lparr>co_escape = (if b = CHR 0x00 then default_escape else b), co_timeout = (if timeout = 0 then default_timeout else timeout)\<rparr>"

datatype in_place = AtCheck | AtRead | InDone

type_synonym winsize = "16 word \<times> 16 word"
type_synonym bridge_result = "bool \<times> io_error option"

text \<open>
  \<open>br_typed\<close> records what has been read from the terminal, \<open>br_done\<close> is the error of the context once it is
  cancelled, \<open>br_ret\<close> what \<open>Run\<close> has returned.
\<close>

record bridge =
  br_in :: in_place
  br_out :: bool
  br_watch :: bool
  br_winch :: bool
  br_done :: "io_error option"
  br_results :: "bridge_result list"
  br_det :: escape_detector
  br_typed :: "(time \<times> bytes) list"
  br_ptmx :: bytes
  br_screen :: bytes
  br_sizes :: "winsize list"
  br_raw :: bool
  br_ret :: "bridge_result option"

definition set_child_size :: "winsize option \<Rightarrow> bridge \<Rightarrow> bridge" where
  "set_child_size ws b = (case ws of None \<Rightarrow> b | Some s \<Rightarrow> b\<lparr>br_sizes := br_sizes b @ [s]\<rparr>)"

text \<open>The start: no bridge if the terminal cannot be made raw.\<close>

definition start_bridge :: "controller \<Rightarrow> io_error option \<Rightarrow> winsize option \<Rightarrow> bridge_result + bridge" where
  "start_bridge c raw_error ws =
     (case raw_error of
        Some e \<Rightarrow> Inl (False, Some e)
      | None \<Rightarrow>
          Inr (set_child_size ws
            \<lparr>br_in = AtCheck, br_out = True, br_watch = True, br_winch = False, br_done = None, br_results = [],
             br_det = new_escape_detector (co_escape c) (co_timeout c), br_typed = [], br_ptmx = [], br_screen = [],
             br_sizes = [], br_raw = True, br_ret = None\<rparr>))"

section \<open>The steps\<close>

definition send_result :: "bridge_result \<Rightarrow> bridge \<Rightarrow> bridge" where
  "send_result r b = b\<lparr>br_results := br_results b @ [r]\<rparr>"

definition input_check :: "bridge \<Rightarrow> bridge" where
  "input_check b =
     (if br_done b \<noteq> None then send_result (False, br_done b) (b\<lparr>br_in := InDone\<rparr>) else b\<lparr>br_in := AtRead\<rparr>)"

definition input_read :: "time \<Rightarrow> bytes \<Rightarrow> io_error option \<Rightarrow> bridge \<Rightarrow> bridge" where
  "input_read now chunk err b0 =
     (let ((pass, det), d) = (if chunk = [] then (([], False), br_det b0) else ed_feed_chunk chunk now (br_det b0));
          b = b0\<lparr>br_det := d, br_ptmx := br_ptmx b0 @ pass,
                 br_typed := (if chunk = [] then br_typed b0 else br_typed b0 @ [(now, chunk)])\<rparr>
      in if det then send_result (True, None) (b\<lparr>br_in := InDone\<rparr>)
         else if err = None \<or> is_timeout err then b\<lparr>br_in := AtCheck\<rparr>
         else send_result (False, err) (b\<lparr>br_in := InDone\<rparr>))"

definition output_end :: "io_error option \<Rightarrow> bridge \<Rightarrow> bridge" where
  "output_end err b = send_result (False, err) (b\<lparr>br_out := False\<rparr>)"

text \<open>The result that comes first; then the deferred calls: the signals, the context, the mode of the terminal.\<close>

definition bridge_return :: "bridge_result \<Rightarrow> bridge \<Rightarrow> bridge" where
  "bridge_return r b =
     b\<lparr>br_results := tl (br_results b), br_ret := Some r, br_raw := False, br_winch := False,
       br_done := (case br_done b of None \<Rightarrow> Some (IoError ''context canceled'' None) | Some e \<Rightarrow> Some e)\<rparr>"

datatype bridge_act =
    Check | Read time bytes "io_error option" | Copied bytes | CopyEnd "io_error option" | Winch
  | Watch "winsize option" | WatchEnd | CancelParent io_error | Return

text \<open>\<open>None\<close>: the step is not possible now.\<close>

definition bridge_step :: "bridge_act \<Rightarrow> bridge \<Rightarrow> bridge option" where
  "bridge_step a b =
     (case a of
        Check \<Rightarrow> if br_in b = AtCheck then Some (input_check b) else None
      | Read now chunk err \<Rightarrow> if br_in b = AtRead then Some (input_read now chunk err b) else None
      | Copied s \<Rightarrow> if br_out b then Some (b\<lparr>br_screen := br_screen b @ s\<rparr>) else None
      | CopyEnd err \<Rightarrow> if br_out b then Some (output_end err b) else None
      | Winch \<Rightarrow> if br_ret b = None then Some (b\<lparr>br_winch := True\<rparr>) else None
      | Watch ws \<Rightarrow> if br_watch b \<and> br_winch b then Some (set_child_size ws (b\<lparr>br_winch := False\<rparr>)) else None
      | WatchEnd \<Rightarrow> if br_watch b \<and> br_done b \<noteq> None then Some (b\<lparr>br_watch := False\<rparr>) else None
      | CancelParent e \<Rightarrow> if br_done b = None then Some (b\<lparr>br_done := Some e\<rparr>) else None
      | Return \<Rightarrow>
          (case br_results b of
             [] \<Rightarrow> None
           | r # rs \<Rightarrow> if br_ret b = None then Some (bridge_return r b) else None))"

fun bridge_run :: "bridge_act list \<Rightarrow> bridge \<Rightarrow> bridge option" where
  "bridge_run [] b = Some b"
| "bridge_run (a # as) b = Option.bind (bridge_step a b) (bridge_run as)"

section \<open>The invariant\<close>

fun bridge_det :: "(time \<times> bytes) list \<Rightarrow> escape_detector \<Rightarrow> escape_detector" where
  "bridge_det [] d = d"
| "bridge_det ((now, chunk) # rest) d = bridge_det rest (snd (ed_feed_chunk chunk now d))"

lemma bridge_det_append: "bridge_det (xs @ ys) d = bridge_det ys (bridge_det xs d)"
  by (induction xs d rule: bridge_det.induct) auto

lemma bridge_input_snoc:
  "\<not> snd (bridge_input xs d) \<Longrightarrow>
     bridge_input (xs @ [(now, chunk)]) d =
       (fst (bridge_input xs d) @ fst (fst (ed_feed_chunk chunk now (bridge_det xs d))),
        snd (fst (ed_feed_chunk chunk now (bridge_det xs d))))"
  by (induction xs d rule: bridge_input.induct) (auto simp: Let_def split: prod.splits if_splits)

definition open_results :: "bridge \<Rightarrow> nat" where
  "open_results b =
     length (br_results b) + (if br_in b = InDone then 0 else 1) + (if br_out b then 1 else 0) + (if br_ret b = None then 0 else 1)"

definition honest :: "bool \<Rightarrow> bridge_result \<Rightarrow> bool" where
  "honest det r \<longleftrightarrow> (fst r \<longrightarrow> snd r = None \<and> det)"

definition core_ok :: "escape_detector \<Rightarrow> bridge \<Rightarrow> bool" where
  "core_ok d b \<longleftrightarrow>
     br_ptmx b = fst (bridge_input (br_typed b) d)
     \<and> (br_in b \<noteq> InDone \<longrightarrow> \<not> snd (bridge_input (br_typed b) d) \<and> br_det b = bridge_det (br_typed b) d)
     \<and> list_all (honest (snd (bridge_input (br_typed b) d))) (br_results b)
     \<and> pred_option (honest (snd (bridge_input (br_typed b) d))) (br_ret b)
     \<and> (br_raw b \<longleftrightarrow> br_ret b = None) \<and> (br_ret b \<noteq> None \<longrightarrow> br_done b \<noteq> None)"

definition bridge_ok :: "escape_detector \<Rightarrow> bridge \<Rightarrow> bool" where
  "bridge_ok d b \<longleftrightarrow> core_ok d b \<and> open_results b = 2"

lemma honest_simps [simp]: "honest det (False, e)" "honest True (True, None)"
  by (simp_all add: honest_def)

lemma honest_mono: "honest False r \<Longrightarrow> honest det r"
  by (auto simp: honest_def)

lemma size_ok [simp]: "bridge_ok d (set_child_size ws b) = bridge_ok d b"
proof (cases ws)
  case (Some x)
  have "open_results (set_child_size ws b) = open_results b" by (simp add: Some set_child_size_def open_results_def)
  moreover have "core_ok d (set_child_size ws b) = core_ok d b" by (simp add: Some set_child_size_def core_ok_def)
  ultimately show ?thesis by (simp add: bridge_ok_def)
qed (simp add: set_child_size_def)

lemma bridge_start_ok:
  "start_bridge c None ws = Inr b \<Longrightarrow> bridge_ok (new_escape_detector (co_escape c) (co_timeout c)) b"
  by (clarsimp simp: start_bridge_def) (simp add: bridge_ok_def core_ok_def open_results_def)

lemma check_ok:
  assumes "bridge_ok d b" "br_in b = AtCheck"
  shows "bridge_ok d (input_check b)"
proof (cases "br_done b")
  case None
  then have "open_results (input_check b) = open_results b" using assms(2) by (simp add: input_check_def open_results_def)
  moreover have "core_ok d (input_check b)" using assms None by (auto simp: input_check_def bridge_ok_def core_ok_def)
  ultimately show ?thesis using assms(1) by (simp add: bridge_ok_def)
next
  case (Some e)
  have "open_results (input_check b) = open_results b" using Some assms(2) by (simp add: input_check_def open_results_def send_result_def)
  moreover have "core_ok d (input_check b)"
    using assms Some unfolding bridge_ok_def core_ok_def by (clarsimp simp: input_check_def send_result_def)
  ultimately show ?thesis using assms(1) by (simp add: bridge_ok_def)
qed

lemma read_ok:
  assumes "bridge_ok d b" "br_in b = AtRead"
  shows "bridge_ok d (input_read now chunk err b)"
proof -
  define pass where "pass = (if chunk = [] then [] else fst (fst (ed_feed_chunk chunk now (br_det b))))"
  define det where "det = (chunk \<noteq> [] \<and> snd (fst (ed_feed_chunk chunk now (br_det b))))"
  define d1 where "d1 = (if chunk = [] then br_det b else snd (ed_feed_chunk chunk now (br_det b)))"
  define typed where "typed = (if chunk = [] then br_typed b else br_typed b @ [(now, chunk)])"
  have fed: "(if chunk = [] then (([], False), br_det b) else ed_feed_chunk chunk now (br_det b)) = ((pass, det), d1)"
    by (simp add: pass_def det_def d1_def)
  have ok: "br_ptmx b = fst (bridge_input (br_typed b) d)" "\<not> snd (bridge_input (br_typed b) d)"
    "br_det b = bridge_det (br_typed b) d" "br_raw b \<longleftrightarrow> br_ret b = None" "br_ret b \<noteq> None \<longrightarrow> br_done b \<noteq> None"
    using assms by (simp_all add: bridge_ok_def core_ok_def)
  have results: "list_all (honest x) (br_results b)" "pred_option (honest x) (br_ret b)" for x
    using assms ok(2) honest_mono by (auto simp: bridge_ok_def core_ok_def list_all_iff option.pred_set)
  have input: "bridge_input typed d = (br_ptmx b @ pass, det)" "bridge_det typed d = d1"
    using bridge_input_snoc [OF ok(2), of now chunk] ok(1-3)
    by (auto simp: typed_def pass_def det_def d1_def bridge_det_append prod_eq_iff)
  define b1 where "b1 = b\<lparr>br_det := d1, br_ptmx := br_ptmx b @ pass, br_typed := typed\<rparr>"
  have read: "input_read now chunk err b = (if det then send_result (True, None) (b1\<lparr>br_in := InDone\<rparr>)
      else if err = None \<or> is_timeout err then b1\<lparr>br_in := AtCheck\<rparr> else send_result (False, err) (b1\<lparr>br_in := InDone\<rparr>))"
    unfolding input_read_def fed by (simp add: b1_def typed_def Let_def)
  have "open_results (input_read now chunk err b) = open_results b"
    using assms(2) by (simp add: read b1_def send_result_def open_results_def)
  moreover have "core_ok d (input_read now chunk err b)"
    using input results ok(4,5) by (simp add: core_ok_def read b1_def send_result_def)
  ultimately show ?thesis using assms(1) by (simp add: bridge_ok_def)
qed

lemma output_end_ok:
  assumes "bridge_ok d b" "br_out b"
  shows "bridge_ok d (output_end err b)"
proof -
  have "open_results (output_end err b) = open_results b" using assms(2) by (simp add: output_end_def send_result_def open_results_def)
  moreover have "core_ok d b \<Longrightarrow> core_ok d (output_end err b)" unfolding core_ok_def by (clarsimp simp: output_end_def send_result_def)
  ultimately show ?thesis using assms(1) by (simp add: bridge_ok_def)
qed

lemma return_ok:
  assumes "bridge_ok d b" "br_results b = r # rs" "br_ret b = None"
  shows "bridge_ok d (bridge_return r b)"
proof -
  have "open_results (bridge_return r b) = open_results b" using assms(2,3) by (simp add: bridge_return_def open_results_def)
  moreover have "core_ok d b \<Longrightarrow> core_ok d (bridge_return r b)"
    unfolding core_ok_def using assms(2) by (clarsimp simp: bridge_return_def split: option.splits)
  ultimately show ?thesis using assms(1) by (simp add: bridge_ok_def)
qed

lemma side_ok:
  assumes "bridge_ok d b"
  shows "bridge_ok d (b\<lparr>br_screen := x\<rparr>)" "bridge_ok d (b\<lparr>br_winch := w\<rparr>)" "bridge_ok d (b\<lparr>br_watch := w\<rparr>)"
    "bridge_ok d (b\<lparr>br_done := Some e\<rparr>)"
  using assms by (simp_all add: bridge_ok_def core_ok_def open_results_def)

lemma bridge_step_ok:
  assumes ok: "bridge_ok d b" and step: "bridge_step a b = Some b'"
  shows "bridge_ok d b'"
proof (cases a)
  case Check
  then show ?thesis using step check_ok [OF ok] by (simp add: bridge_step_def split: if_splits) blast?
next
  case (Read now chunk err)
  then show ?thesis using step read_ok [OF ok] by (simp add: bridge_step_def split: if_splits) blast?
next
  case (CopyEnd err)
  then show ?thesis using step output_end_ok [OF ok] by (simp add: bridge_step_def split: if_splits) blast?
next
  case Return
  then show ?thesis using step return_ok [OF ok] by (simp add: bridge_step_def split: list.splits if_splits) blast?
next
  case (Watch ws)
  then have "b' = set_child_size ws (b\<lparr>br_winch := False\<rparr>)" using step by (simp add: bridge_step_def split: if_splits)
  then show ?thesis using side_ok(2) [OF ok] by simp
qed (use step side_ok [OF ok] in \<open>auto simp: bridge_step_def split: if_splits\<close>)

lemma bridge_run_ok: "bridge_ok d b \<Longrightarrow> bridge_run as b = Some b' \<Longrightarrow> bridge_ok d b'"
proof (induction as arbitrary: b)
  case (Cons a as)
  then obtain b1 where "bridge_step a b = Some b1" "bridge_run as b1 = Some b'" by (auto simp: bind_eq_Some_conv)
  then show ?case using Cons bridge_step_ok by blast
qed simp

section \<open>Properties\<close>

text \<open>C28: However its goroutines, the signals and a cancellation interleave, the full-screen attach passes on to the child
  what the detector lets through of what has been typed, reports a detach only after a double Escape, never blocks a
  goroutine on the channel of results, and leaves the terminal raw exactly until it returns.\<close>

theorem bridge_faithful:
  assumes "start_bridge c None ws = Inr b0" "bridge_run as b0 = Some b"
  shows "(let typed = bridge_input (br_typed b) (new_escape_detector (co_escape c) (co_timeout c))
     in br_ptmx b = fst typed \<and> (\<forall>e. br_ret b = Some (True, e) \<longrightarrow> e = None \<and> snd typed)
        \<and> length (br_results b) \<le> 2 \<and> (br_raw b \<longleftrightarrow> br_ret b = None))"
proof -
  have "bridge_ok (new_escape_detector (co_escape c) (co_timeout c)) b"
    using bridge_run_ok [OF bridge_start_ok [OF assms(1)] assms(2)] .
  then show ?thesis by (auto simp: bridge_ok_def core_ok_def honest_def open_results_def)
qed

definition bridge_demo :: bridge where
  "bridge_demo = projr (start_bridge (new_controller (CHR 0x00) 0) None (Some (80, 24)))"

theorem bridge_faithful_witness:
  "\<exists>b. bridge_run [Check, Read 5 (''a'' @ [CHR 0x1B, CHR 0x1B]) None, CopyEnd None, Return] bridge_demo = Some b
     \<and> br_ptmx b = ''a'' \<and> br_ret b = Some (True, None) \<and> br_raw b = False \<and> length (br_results b) = 1
     \<and> br_ptmx b = fst (bridge_input (br_typed b) (new_escape_detector (CHR 0x1B) default_timeout))"
proof -
  have start: "start_bridge (new_controller (CHR 0x00) 0) None (Some (80, 24)) = Inr bridge_demo"
    by (simp add: bridge_demo_def start_bridge_def)
  have run: "map_option (\<lambda>b. (br_ptmx b, br_ret b, br_raw b, length (br_results b)))
      (bridge_run [Check, Read 5 (''a'' @ [CHR 0x1B, CHR 0x1B]) None, CopyEnd None, Return] bridge_demo)
      = Some (''a'', Some (True, None), False, 1)" by code_simp
  then obtain b where b: "bridge_run [Check, Read 5 (''a'' @ [CHR 0x1B, CHR 0x1B]) None, CopyEnd None, Return] bridge_demo = Some b"
    by blast
  have "co_escape (new_controller (CHR 0x00) 0) = CHR 0x1B" "co_timeout (new_controller (CHR 0x00) 0) = default_timeout" by code_simp+
  then show ?thesis using bridge_faithful [OF start b] run b by (auto simp: Let_def)
qed

text \<open>As soon as one direction has ended, \<open>Run\<close> can return.\<close>

theorem bridge_returns:
  assumes "start_bridge c None ws = Inr b0" "bridge_run as b0 = Some b" "br_in b = InDone \<or> \<not> br_out b" "br_ret b = None"
  shows "\<exists>b'. bridge_step Return b = Some b' \<and> br_ret b' \<noteq> None \<and> \<not> br_raw b' \<and> br_done b' \<noteq> None"
proof -
  have "open_results b = 2" using bridge_run_ok [OF bridge_start_ok [OF assms(1)] assms(2)] by (simp add: bridge_ok_def)
  then obtain r rs where "br_results b = r # rs" using assms(3,4) by (cases "br_results b") (auto simp: open_results_def split: if_splits)
  then show ?thesis using assms(4) by (simp add: bridge_step_def bridge_return_def split: option.split)
qed

text \<open>A read that is under way when the child ends takes a key that was typed after \<open>Run\<close> had returned.\<close>

lemma find_bridge_takes_key:
  "map_option (\<lambda>b. (br_ret b, br_raw b, br_typed b)) (bridge_run [Check, CopyEnd None, Return, Read 9 ''q'' None] bridge_demo)
   = Some (Some (False, None), False, [(9, ''q'')])"
  by code_simp

end
