(* ===== verification/Entry.thy ===== *)
theory Entry
  imports Launch Tui
begin

text \<open>
  The command line (\<open>cmd/procs/main.go\<close>, \<open>entrypoint_unix.go\<close>, \<open>entrypoint_windows.go\<close>, \<open>subcommands.go\<close>, the outer
  part of \<open>launch.go\<close>): which command an argument list selects, what it prints and its exit code; the texts of the
  configuration errors (\<open>errors.go\<close>), the children file on disk (\<open>orphans.go\<close>) and the identity of a peer.
\<close>

section \<open>Flags\<close>

text \<open>The \<open>flag\<close> package: an argument list against the kinds of the flags. \<open>-h\<close> and \<open>-help\<close> are defined unless given.\<close>

datatype flag_kind = FlagBool | FlagString
datatype flag_value = BoolValue bool | StringValue string
datatype flag_error = HelpWanted | BadSyntax string | NotDefined string | NeedsArgument string | BadBool string string

definition parse_bool :: "string \<Rightarrow> bool option" where
  "parse_bool s =
     (if s \<in> {''1'', ''t'', ''T'', ''true'', ''TRUE'', ''True''} then Some True
      else if s \<in> {''0'', ''f'', ''F'', ''false'', ''FALSE'', ''False''} then Some False else None)"

text \<open>The name of a flag and the value after the equals sign.\<close>

definition cut_equals :: "string \<Rightarrow> string \<times> string option" where
  "cut_equals s =
     (let name = takeWhile (\<lambda>c. c \<noteq> CHR ''='') s
      in (name, if length name < length s then Some (drop (length name + 1) s) else None))"

type_synonym settings_made = "(string \<times> flag_value) list"

abbreviation setting :: "string \<times> flag_value \<Rightarrow> flag_error + settings_made \<times> string list \<Rightarrow> flag_error + settings_made \<times> string list" where
  "setting p r \<equiv> map_sum id (\<lambda>(sets, rest). (p # sets, rest)) r"

fun parse_flags :: "(string \<times> flag_kind) list \<Rightarrow> string list \<Rightarrow> flag_error + settings_made \<times> string list" where
  "parse_flags kinds [] = Inr ([], [])"
| "parse_flags kinds (s # args) =
     (if length s < 2 \<or> hd s \<noteq> CHR ''-'' then Inr ([], s # args)
      else if s = ''--'' then Inr ([], args)
      else
        (let body = (if s ! 1 = CHR ''-'' then drop 2 s else tl s)
         in if body = [] \<or> hd body = CHR ''-'' \<or> hd body = CHR ''='' then Inl (BadSyntax s)
            else
              (let (name, value) = cut_equals body
               in case map_of kinds name of
                    None \<Rightarrow> Inl (if name = ''help'' \<or> name = ''h'' then HelpWanted else NotDefined name)
                  | Some FlagBool \<Rightarrow>
                      (case value of
                         None \<Rightarrow> setting (name, BoolValue True) (parse_flags kinds args)
                       | Some v \<Rightarrow>
                           (case parse_bool v of
                              None \<Rightarrow> Inl (BadBool v name)
                            | Some b \<Rightarrow> setting (name, BoolValue b) (parse_flags kinds args)))
                  | Some FlagString \<Rightarrow>
                      (case value of
                         Some v \<Rightarrow> setting (name, StringValue v) (parse_flags kinds args)
                       | None \<Rightarrow>
                           (case args of
                              [] \<Rightarrow> Inl (NeedsArgument name)
                            | v # rest \<Rightarrow> setting (name, StringValue v) (parse_flags kinds rest))))))"

definition bool_flag :: "string \<Rightarrow> settings_made \<Rightarrow> bool" where
  "bool_flag name sets = fold (\<lambda>(n, v) b. case v of BoolValue x \<Rightarrow> if n = name then x else b | _ \<Rightarrow> b) sets False"

text \<open>\<open>-config\<close> and \<open>-c\<close> set the same variable.\<close>

definition config_flag :: "settings_made \<Rightarrow> string" where
  "config_flag sets = fold (\<lambda>(n, v) s. case v of StringValue x \<Rightarrow> if n \<in> {''config'', ''c''} then x else s | _ \<Rightarrow> s) sets []"

section \<open>Which program runs\<close>

datatype subcommand = SubDaemon | SubKill | SubStatus

definition subcommand_of :: "string \<Rightarrow> subcommand option" where
  "subcommand_of name =
     (if name \<in> {''daemon'', ''__daemon''} then Some SubDaemon
      else if name \<in> {''kill'', ''stop''} then Some SubKill
      else if name = ''status'' then Some SubStatus else None)"

datatype main_run =
    RunSubcommand subcommand "string list" | Unsupported int | UsageShown int | VersionShown
  | BadConfig config_error | InProcess string config | Attached string config

definition handle_subcommand :: "string \<Rightarrow> string list \<Rightarrow> main_run option" where
  "handle_subcommand name args = map_option (\<lambda>c. RunSubcommand c args) (subcommand_of name)"

definition handle_subcommand_windows :: "string \<Rightarrow> string list \<Rightarrow> main_run option" where
  "handle_subcommand_windows name args =
     (if name \<in> {''daemon'', ''__daemon'', ''kill'', ''stop'', ''status''} then Some (Unsupported 1) else None)"

definition run_default :: "bool \<Rightarrow> string \<Rightarrow> config \<Rightarrow> main_run" where
  "run_default windows path cfg = (if windows then InProcess path cfg else Attached path cfg)"

definition main_flags :: "(string \<times> flag_kind) list" where
  "main_flags = [(''version'', FlagBool), (''no-daemon'', FlagBool), (''config'', FlagString), (''c'', FlagString)]"

text \<open>\<open>resolve\<close> is \<open>ResolvePath\<close> and \<open>load\<close> is \<open>LoadFromPath\<close> in the environment of the process.\<close>

definition load_config_or_exit ::
  "(string \<Rightarrow> config_error + string) \<Rightarrow> (string \<Rightarrow> config_error + config) \<Rightarrow> string \<Rightarrow> config_error + string \<times> config" where
  "load_config_or_exit resolve load path =
     (case resolve path of
        Inl e \<Rightarrow> Inl e
      | Inr resolved \<Rightarrow> map_sum id (\<lambda>cfg. (resolved, cfg)) (load resolved))"

definition main_program ::
  "bool \<Rightarrow> (string \<Rightarrow> config_error + string) \<Rightarrow> (string \<Rightarrow> config_error + config) \<Rightarrow> string list \<Rightarrow> main_run" where
  "main_program windows resolve load args =
     (let sub = (case args of
                   [] \<Rightarrow> None
                 | a # rest \<Rightarrow> (if windows then handle_subcommand_windows else handle_subcommand) a rest)
      in case sub of
           Some r \<Rightarrow> r
         | None \<Rightarrow>
             (case parse_flags main_flags args of
                Inl HelpWanted \<Rightarrow> UsageShown 0
              | Inl e \<Rightarrow> UsageShown 2
              | Inr (sets, rest) \<Rightarrow>
                  (if bool_flag ''version'' sets then VersionShown
                   else
                     (case load_config_or_exit resolve load (config_flag sets) of
                        Inl e \<Rightarrow> BadConfig e
                      | Inr (path, cfg) \<Rightarrow>
                          if bool_flag ''no-daemon'' sets then InProcess path cfg else run_default windows path cfg))))"

text \<open>The flags of \<open>kill\<close> and \<open>status\<close>: help is an error like the others here.\<close>

definition sub_flags :: "(string \<times> flag_kind) list" where
  "sub_flags = [(''config'', FlagString), (''c'', FlagString), (''orphans'', FlagBool)]"

datatype arg_error = ArgFlag flag_error | ArgConfig config_error

definition resolve_cfg_arg :: "(string \<Rightarrow> config_error + string) \<Rightarrow> string list \<Rightarrow> arg_error + string \<times> bool" where
  "resolve_cfg_arg resolve args =
     (case parse_flags sub_flags args of
        Inl e \<Rightarrow> Inl (ArgFlag e)
      | Inr (sets, rest) \<Rightarrow>
          (case resolve (config_flag sets) of
             Inl e \<Rightarrow> Inl (ArgConfig e)
           | Inr path \<Rightarrow> Inr (path, bool_flag ''orphans'' sets)))"

section \<open>The interface as a program\<close>

text \<open>What the interface starts from, in the process itself and as a client of the daemon.\<close>

definition in_process_tui :: "('em, 'st, 'ti) tui_env \<Rightarrow> files \<Rightarrow> string \<Rightarrow> config \<Rightarrow> ('em, 'ti) tui" where
  "in_process_tui env fs path cfg =
     new_tui env cfg (rs_seed (keys_of (c_projects cfg)) new_runtime_store) new_ui_store (new_registry (c_settings cfg), fs) path False"

definition attached_tui ::
  "('em, 'st, 'ti) tui_env \<Rightarrow> runtime_store \<Rightarrow> registry \<times> files \<Rightarrow> string \<Rightarrow> config \<Rightarrow> ('em, 'ti) tui" where
  "attached_tui env rt reg path cfg = new_tui env cfg rt new_ui_store reg path True"

datatype exit_act = CloseManager | CloseClient | RequestShutdown string | PrintError string

text \<open>After \<open>p.Run\<close>: the error it returned, if any.\<close>

definition run_in_process :: "string option \<Rightarrow> exit_act list \<times> int" where
  "run_in_process err =
     (case err of Some e \<Rightarrow> ([PrintError e, CloseManager], 1) | None \<Rightarrow> ([CloseManager], 0))"

text \<open>\<open>ensure\<close> is the error of \<open>ensureDaemon\<close>, \<open>sock\<close> the socket's path if there is one.\<close>

definition run_attach :: "string option \<Rightarrow> string option \<Rightarrow> quit_reason \<Rightarrow> string option \<Rightarrow> exit_act list \<times> int" where
  "run_attach ensure err reason sock =
     (case ensure of
        Some e \<Rightarrow> ([PrintError e], 1)
      | None \<Rightarrow>
          (case err of
             Some e \<Rightarrow> ([PrintError e, CloseClient], 1)
           | None \<Rightarrow>
               ([CloseClient] @ (case (reason, sock) of (QuitShutdown, Some s) \<Rightarrow> [RequestShutdown s] | _ \<Rightarrow> []), 0)))"

section \<open>Status and kill\<close>

text \<open>\<open>%-20s\<close>: padded with blanks to 20 runes.\<close>

definition pad_runes :: "nat \<Rightarrow> string \<Rightarrow> string" where
  "pad_runes n s = s @ replicate (n - length (text_runes s)) (CHR '' '')"

definition status_row :: "project_snap \<Rightarrow> string" where
  "status_row p =
     ''  '' @ pad_runes 20 (ps_id p) @ '' '' @ ps_state p @ (if ps_pid p > 0 then ''  pid '' @ show_int (ps_pid p) else [])"

text \<open>The lines printed, those on the error stream marked, and the exit code; \<open>answer\<close> is the first message read.\<close>

definition run_status :: "bool \<Rightarrow> (read_error + envelope) option \<Rightarrow> (bool \<times> string) list \<times> int" where
  "run_status alive answer =
     (if \<not> alive then ([(False, ''procs: no daemon running'')], 0)
      else
        (case answer of
           Some (Inr env) \<Rightarrow>
             (case (env_kind env, env_snapshot env) of
                (KindSnapshot, Some ps) \<Rightarrow>
                  ((False, ''procs: daemon running ('' @ show_nat (length ps) @ '' project(s))'')
                     # map (\<lambda>p. (False, status_row p)) ps, 0)
              | _ \<Rightarrow> ([(True, ''procs status: daemon did not respond with state'')], 1))
         | _ \<Rightarrow> ([(True, ''procs status: daemon did not respond with state'')], 1)))"

text \<open>\<open>refused\<close> gives the error of the signal to a process. The file goes even if no signal was delivered.\<close>

definition orphan_report :: "(int \<Rightarrow> bool) \<Rightarrow> (int \<Rightarrow> string option) \<Rightarrow> child_rec list \<Rightarrow> (bool \<times> string) list \<times> int list \<times> bool" where
  "orphan_report alive refused recs =
     (let live = alive_children alive recs
      in if live = [] then ([(False, ''procs: no orphaned processes'')], [], False)
         else
           (map (\<lambda>r. case refused (cr_pid r) of
                       Some e \<Rightarrow> (True, ''procs: kill orphan '' @ cr_id r @ '' (pid '' @ show_int (cr_pid r) @ ''): '' @ e)
                     | None \<Rightarrow> (False, ''procs: stopped orphan '' @ cr_id r @ '' (pid '' @ show_int (cr_pid r) @ '')'')) live,
            map cr_pid (filter (\<lambda>r. refused (cr_pid r) = None) live), True))"

section \<open>The texts of configuration errors\<close>

text \<open>\<open>quote\<close> is \<open>%q\<close>; \<open>sys\<close> the text of the error of a system call.\<close>

definition wrapped :: "string \<Rightarrow> string \<Rightarrow> string \<Rightarrow> string option \<Rightarrow> string" where
  "wrapped path key msg err =
     ''config'' @ (if path = [] then [] else '' ('' @ path @ '')'') @ '': ''
     @ (if key = [] then [] else key @ '': '') @ msg
     @ (case err of None \<Rightarrow> [] | Some e \<Rightarrow> if e = msg then [] else '' ('' @ e @ '')'')"

fun error_text :: "(string \<Rightarrow> string) \<Rightarrow> string \<Rightarrow> config_error \<Rightarrow> string" where
  "error_text quote sys NoProjects = ''projects: at least one project required''"
| "error_text quote sys (PathRequired i) = ''projects.'' @ i @ ''.path: required''"
| "error_text quote sys (CmdRequired i) = ''projects.'' @ i @ ''.cmd: required''"
| "error_text quote sys (BadRestart i r) =
     ''projects.'' @ i @ ''.restart: must be '' @ [CHR 0x27] @ ''never'' @ [CHR 0x27] @ '' or '' @ [CHR 0x27] @ ''on-failure''
     @ [CHR 0x27] @ '', got '' @ quote r"
| "error_text quote sys (GroupEmpty g) = ''groups.'' @ g @ '': must have at least one member''"
| "error_text quote sys (UnknownMember g n m) = ''groups.'' @ g @ ''['' @ show_nat n @ '']: unknown project '' @ quote m"
| "error_text quote sys BufferLines = ''settings.log_buffer_lines: must be positive''"
| "error_text quote sys RotateKeep = ''settings.log_rotate_keep: must be positive''"
| "error_text quote sys FlushInterval = ''settings.log_flush_interval_ms: must be positive''"
| "error_text quote sys PtySize = ''settings.pty_cols/pty_rows: must be positive''"
| "error_text quote sys NoHome = ''resolve ~: '' @ sys"
| "error_text quote sys (TildeUser p) =
     ''path '' @ quote p @ '': ~user expansion not supported; use absolute path or ~/ form''"
| "error_text quote sys (MissingVars p vars) = ''path '' @ quote p @ '': undefined env var(s): '' @ join_with '', '' vars"
| "error_text quote sys (InProjectPath i e) = ''projects.'' @ i @ ''.path: '' @ error_text quote sys e"
| "error_text quote sys (InProjectEnvFile i e) = ''projects.'' @ i @ ''.env_file: '' @ error_text quote sys e"
| "error_text quote sys (InLogDir e) = ''settings.log_dir: '' @ error_text quote sys e"
| "error_text quote sys ReadFile = sys"
| "error_text quote sys (InvalidYaml msg) = ''invalid YAML: '' @ msg"
| "error_text quote sys (OpenEnvFile p) = ''open: '' @ sys"
| "error_text quote sys (EnvLine n raw) = ''line '' @ show_nat n @ '': missing '' @ [CHR 0x27] @ ''='' @ [CHR 0x27] @ '': '' @ quote raw"
| "error_text quote sys EnvRead = ''read: '' @ sys"
| "error_text quote sys (InEnvFile p e) = ''env_file '' @ p @ '': '' @ error_text quote sys e"
| "error_text quote sys (Multi es) =
     ''config validation failed:'' @ [CHR 0x0A] @ join_with [CHR 0x0A] (map (\<lambda>e. ''  '' @ utf8 0x2022 @ '' '' @ error_text quote sys e) es)"
| "error_text quote sys (ConfigErr path e) =
     (case e of
        ReadFile \<Rightarrow> wrapped path [] ''read config file'' (Some sys)
      | _ \<Rightarrow> if path = [] then wrapped [] [] ''resolve config path'' (Some (error_text quote sys e))
             else wrapped path [] (error_text quote sys e) (Some (error_text quote sys e)))"

section \<open>The children file on disk\<close>

text \<open>
  A file system: mode and content by path. \<open>writeChildren\<close> makes a temporary file beside the target and renames it; \<open>bad\<close>
  says which call fails (a failing write has written the first \<open>part\<close> bytes), and a crash keeps the first \<open>n\<close> calls.
\<close>

datatype write_call = MakeTemp | ChmodTemp | WriteTemp | CloseTemp | RenameTemp | RemoveTemp

type_synonym disk = "string \<Rightarrow> (nat \<times> bytes) option"

definition disk_call :: "bool \<Rightarrow> nat \<Rightarrow> string \<Rightarrow> string \<Rightarrow> bytes \<Rightarrow> write_call \<Rightarrow> disk \<Rightarrow> disk" where
  "disk_call bad part path tmp data c d =
     (case c of
        MakeTemp \<Rightarrow> if bad then d else d(tmp \<mapsto> (384, []))
      | ChmodTemp \<Rightarrow> if bad then d else d(tmp := map_option (\<lambda>(m, s). (384, s)) (d tmp))
      | WriteTemp \<Rightarrow> d(tmp := map_option (\<lambda>(m, s). (m, if bad then take part data else data)) (d tmp))
      | CloseTemp \<Rightarrow> d
      | RenameTemp \<Rightarrow> if bad then d else d(path := d tmp, tmp := None)
      | RemoveTemp \<Rightarrow> if bad then d else d(tmp := None))"

text \<open>The calls that are made: after a failure only the deferred removal, and none at all without a temporary file.\<close>

fun calls_from :: "(write_call \<Rightarrow> bool) \<Rightarrow> write_call list \<Rightarrow> write_call list" where
  "calls_from bad [] = [RemoveTemp]"
| "calls_from bad (c # cs) = c # (if bad c then (if c = MakeTemp then [] else [RemoveTemp]) else calls_from bad cs)"

definition write_calls :: "(write_call \<Rightarrow> bool) \<Rightarrow> write_call list" where
  "write_calls bad = calls_from bad [MakeTemp, ChmodTemp, WriteTemp, CloseTemp, RenameTemp]"

definition write_children_file :: "(write_call \<Rightarrow> bool) \<Rightarrow> nat \<Rightarrow> nat \<Rightarrow> string \<Rightarrow> string \<Rightarrow> bytes \<Rightarrow> disk \<Rightarrow> disk" where
  "write_children_file bad part n path tmp data d =
     fold (\<lambda>c. disk_call (bad c) part path tmp data c) (take n (write_calls bad)) d"

text \<open>\<open>ReadChildren\<close>: \<open>None\<close> is an error; \<open>decode\<close> is \<open>json.Unmarshal\<close>.\<close>

definition read_children_file :: "(bytes \<Rightarrow> child_rec list option) \<Rightarrow> disk \<Rightarrow> bool \<Rightarrow> string \<Rightarrow> child_rec list option" where
  "read_children_file decode d unreadable path =
     (case d path of
        None \<Rightarrow> Some []
      | Some (m, s) \<Rightarrow> if unreadable then None else if s = [] then Some [] else decode s)"

section \<open>The peer of a connection\<close>

text \<open>\<open>peerUID\<close>: the user of the process at the other end, and the error if there is one.\<close>

definition peer_uid :: "bool \<Rightarrow> string option \<Rightarrow> string option \<Rightarrow> string + 32 word \<Rightarrow> int \<times> string option" where
  "peer_uid is_unix no_conn no_control cred =
     (if \<not> is_unix then (- 1, Some ''daemon: peer is not a unix connection'')
      else (case no_conn of
              Some e \<Rightarrow> (- 1, Some e)
            | None \<Rightarrow> (case no_control of
                        Some e \<Rightarrow> (- 1, Some e)
                      | None \<Rightarrow> (case cred of Inl e \<Rightarrow> (0, Some e) | Inr uid \<Rightarrow> (uint uid, None)))))"

section \<open>Properties\<close>

lemma write_calls_effect:
  assumes "tmp \<noteq> path"
  shows "write_children_file bad part n path tmp data d path \<in> {d path, Some (384, data)}"
    and "length (write_calls bad) \<le> n \<Longrightarrow> d tmp = None
           \<Longrightarrow> \<not> bad RemoveTemp \<or> bad MakeTemp \<or> \<not> (bad ChmodTemp \<or> bad WriteTemp \<or> bad CloseTemp \<or> bad RenameTemp)
           \<Longrightarrow> write_children_file bad part n path tmp data d tmp = None"
    and "\<not> (bad MakeTemp \<or> bad ChmodTemp \<or> bad WriteTemp \<or> bad CloseTemp \<or> bad RenameTemp) \<Longrightarrow> length (write_calls bad) \<le> n
           \<Longrightarrow> write_children_file bad part n path tmp data d path = Some (384, data)"
  using assms by (auto simp: write_children_file_def write_calls_def disk_call_def take_Cons' split: if_splits)

text \<open>C32: The children file is replaced as a whole: whatever calls fail and wherever the daemon is cut off, it is the old file
  or the new one, complete and readable by its owner only, and no other file but the temporary one changes. If the daemon
  is not cut off, it is the new one unless one of the five calls that write it fails; and no temporary file is left, unless
  one of these calls fails after the file was made and the removal of the temporary file fails too.\<close>

theorem children_file_atomic:
  assumes "tmp \<noteq> path" "d tmp = None"
  shows "write_children_file bad part n path tmp data d path \<in> {d path, Some (384, data)}
    \<and> (q \<noteq> path \<and> q \<noteq> tmp \<longrightarrow> write_children_file bad part n path tmp data d q = d q)
    \<and> (length (write_calls bad) \<le> n \<longrightarrow>
        ((\<forall>c. bad c \<longrightarrow> c = RemoveTemp) \<longrightarrow> write_children_file bad part n path tmp data d path = Some (384, data))
      \<and> (\<not> bad RemoveTemp \<or> bad MakeTemp \<or> (\<forall>c. bad c \<longrightarrow> c = RemoveTemp)
          \<longrightarrow> write_children_file bad part n path tmp data d tmp = None))"
proof -
  have "q \<noteq> path \<Longrightarrow> q \<noteq> tmp \<Longrightarrow> write_children_file bad part n path tmp data d q = d q"
    by (auto simp: write_children_file_def write_calls_def disk_call_def take_Cons' split: if_splits)
  then show ?thesis using write_calls_effect [OF assms(1), where bad = bad and part = part and n = n and data = data and d = d] assms(2) by (auto; blast)
qed

theorem children_file_atomic_witness:
  "write_children_file (\<lambda>c. c = WriteTemp) 1 9 ''c'' ''t'' ''new'' [''c'' \<mapsto> (384, ''old'')] ''c''
     \<in> {Some (384, ''old''), Some (384, ''new'')}
   \<and> write_children_file (\<lambda>c. c = WriteTemp) 1 9 ''c'' ''t'' ''new'' [''c'' \<mapsto> (384, ''old'')] ''t'' = None
   \<and> write_children_file (\<lambda>c. c = RemoveTemp) 1 9 ''c'' ''t'' ''new'' [''c'' \<mapsto> (384, ''old'')] ''c'' = Some (384, ''new'')"
  using children_file_atomic [of "''t''" "''c''" "[''c'' \<mapsto> (384, ''old'')]" "\<lambda>c. c = WriteTemp" 1 9 "''new''" "''x''"]
    children_file_atomic [of "''t''" "''c''" "[''c'' \<mapsto> (384, ''old'')]" "\<lambda>c. c = RemoveTemp" 1 9 "''new''" "''x''"]
  by (simp add: write_calls_def)

text \<open>When the write and then the removal fail, the temporary file stays.\<close>

lemma find_temp_stays:
  "write_children_file (\<lambda>c. c = WriteTemp \<or> c = RemoveTemp) 1 9 ''children'' ''tmp'' ''new'' (\<lambda>p. None) ''tmp'' = Some (384, ''n'')"
  by code_simp

text \<open>Cut off before the rename, the daemon leaves its temporary file behind.\<close>

lemma find_temp_left:
  "write_children_file (\<lambda>c. False) 0 3 ''children'' ''tmp'' ''x'' (\<lambda>p. None) ''tmp'' = Some (384, ''x'')"
  by code_simp

text \<open>Which program runs: a command only as the first argument; the interface whenever the flags and the configuration are
  right, whatever else stands in the arguments.\<close>

definition first_command :: "string list \<Rightarrow> subcommand option" where
  "first_command args = (case args of [] \<Rightarrow> None | a # rest \<Rightarrow> subcommand_of a)"

lemma main_no_command:
  assumes "first_command args = None"
  shows "main_program False resolve load args =
    (case parse_flags main_flags args of
       Inl HelpWanted \<Rightarrow> UsageShown 0
     | Inl e \<Rightarrow> UsageShown 2
     | Inr (sets, rest) \<Rightarrow>
         (if bool_flag ''version'' sets then VersionShown
          else (case load_config_or_exit resolve load (config_flag sets) of
                  Inl e \<Rightarrow> BadConfig e
                | Inr (path, cfg) \<Rightarrow> if bool_flag ''no-daemon'' sets then InProcess path cfg else Attached path cfg)))"
  using assms by (cases args) (simp_all only: main_program_def first_command_def handle_subcommand_def run_default_def list.case
      option.map option.case if_False Let_def)

theorem main_attaches_iff:
  "main_program False resolve load args = Attached path cfg \<longleftrightarrow>
     first_command args = None
     \<and> (\<exists>sets rest. parse_flags main_flags args = Inr (sets, rest) \<and> \<not> bool_flag ''version'' sets
          \<and> \<not> bool_flag ''no-daemon'' sets \<and> load_config_or_exit resolve load (config_flag sets) = Inr (path, cfg))"
proof (cases "first_command args")
  case (Some c)
  then show ?thesis by (cases args) (simp_all add: main_program_def first_command_def handle_subcommand_def)
next
  case None
  show ?thesis
  proof (cases "parse_flags main_flags args")
    case (Inl e)
    then show ?thesis using None by (cases e) (simp_all add: main_no_command)
  next
    case (Inr r)
    obtain sets rest where r: "r = (sets, rest)" by (cases r)
    show ?thesis using None Inr
      by (cases "load_config_or_exit resolve load (config_flag sets)") (auto simp: main_no_command r split: if_splits)
  qed
qed

text \<open>A command after a flag, or misspelt, is ignored: the interface attaches, and starts a daemon for it if there is none.\<close>

lemma find_command_ignored:
  "main_program False Inr (\<lambda>p. Inr cfg) [''-c'', ''x.yml'', ''status''] = Attached ''x.yml'' cfg"
  "main_program False Inr (\<lambda>p. Inr cfg) [''kil''] = Attached [] cfg"
  by (simp_all add: main_program_def handle_subcommand_def subcommand_of_def main_flags_def cut_equals_def load_config_or_exit_def
      config_flag_def bool_flag_def run_default_def)

text \<open>Asking a command for help is an error of the command.\<close>

lemma find_help_fails: "resolve_cfg_arg Inr [''-h''] = Inl (ArgFlag HelpWanted)"
  by (simp add: resolve_cfg_arg_def sub_flags_def cut_equals_def)

text \<open>The daemon is asked to stop only by a \<open>shutdown\<close> command, and only after the client's own connection is closed.\<close>

theorem run_attach_stops_on_request:
  "RequestShutdown s \<in> set (fst (run_attach ensure err reason sock)) \<longleftrightarrow>
     ensure = None \<and> err = None \<and> reason = QuitShutdown \<and> sock = Some s"
  "ensure = None \<Longrightarrow> hd (filter (\<lambda>a. \<forall>e. a \<noteq> PrintError e) (fst (run_attach ensure err reason sock))) = CloseClient"
  by (auto simp: run_attach_def split: option.splits quit_reason.splits)

text \<open>Even if no orphan could be signalled, the file that lists them is removed.\<close>

lemma find_orphan_list_lost:
  "orphan_report (\<lambda>p. True) (\<lambda>p. Some ''operation not permitted'') [\<lparr>cr_id = ''web'', cr_pid = 7\<rparr>]
   = ([(True, ''procs: kill orphan web (pid 7): operation not permitted'')], [], True)"
  by code_simp

text \<open>The message of a failed check of the configuration is shown once, not with its cause again.\<close>

theorem load_error_once:
  assumes "e \<noteq> ReadFile" "path \<noteq> []"
  shows "error_text quote sys (ConfigErr path e) = ''config ('' @ path @ ''): '' @ error_text quote sys e"
  using assms by (cases e) (simp_all add: wrapped_def)

end
